(* ===== verification/Prelude.thy ===== *)
theory Prelude
  imports Main "HOL-Library.Word"
begin

text \<open>
  Shared vocabulary of the development: the types of the C++ values that every component
  handles (byte strings, fixed-width integers), results of operations that may throw, the
  arithmetic of \<^verbatim>\<open>size_t\<close>, byte copies inside an array, and the generic list lemmas that the
  component proofs share.
\<close>

section \<open>Collections of facts\<close>

named_theorems size_arith \<open>\<open>size_t\<close> arithmetic that does not wrap\<close>
named_theorems copy_simps \<open>closed forms of the byte-copy loops\<close>
named_theorems inv_pres \<open>an operation keeps its component's invariant\<close>

section \<open>Values\<close>

text \<open>
  A \<^verbatim>\<open>std::string\<close>, a \<^verbatim>\<open>char*\<close> range and the storage of a \<^verbatim>\<open>std::vector<char>\<close> are lists of
  \<^typ>\<open>char\<close>; a \<^typ>\<open>char\<close> is one byte.
\<close>

type_synonym bytes = string
type_synonym u16 = "16 word"
type_synonym u32 = "32 word"
type_synonym u64 = "64 word"
type_synonym fd = int
type_synonym errno = int

abbreviation NUL :: char where "NUL \<equiv> CHR 0x00"

section \<open>Results of operations that may throw\<close>

definition bind_res :: "'e + 'a \<Rightarrow> ('a \<Rightarrow> 'e + 'b) \<Rightarrow> 'e + 'b" where
  "bind_res r f = (case r of Inl e \<Rightarrow> Inl e | Inr a \<Rightarrow> f a)"

lemma bind_res_simps [simp]:
  "bind_res (Inl e) f = Inl e"
  "bind_res (Inr a) f = f a"
  by (simp_all add: bind_res_def)

lemma bind_res_eq_Inr: "bind_res r f = Inr b \<longleftrightarrow> (\<exists>a. r = Inr a \<and> f a = Inr b)"
  by (cases r) auto

text \<open>Feeding a list of inputs to an operation, stopping at the first error.\<close>

fun feed :: "('b \<Rightarrow> 'd \<Rightarrow> 'e + 'b) \<Rightarrow> 'b \<Rightarrow> 'd list \<Rightarrow> 'e + 'b" where
  "feed f b [] = Inr b"
| "feed f b (d # ds) = bind_res (f b d) (\<lambda>b'. feed f b' ds)"

section \<open>Associative containers\<close>

text \<open>\<^verbatim>\<open>insert({k, v})\<close> of the standard maps: a key that is present keeps its value.\<close>

definition map_insert :: "'k \<Rightarrow> 'v \<Rightarrow> ('k \<rightharpoonup> 'v) \<Rightarrow> ('k \<rightharpoonup> 'v)" where
  "map_insert k v m = (case m k of Some _ \<Rightarrow> m | None \<Rightarrow> m(k \<mapsto> v))"

definition map_erase :: "'k \<Rightarrow> ('k \<rightharpoonup> 'v) \<Rightarrow> ('k \<rightharpoonup> 'v)" where
  "map_erase k m = m(k := None)"

lemma map_insert_apply [simp]:
  "map_insert k v m k' =
     (if k' = k then Some (case m k of Some w \<Rightarrow> w | None \<Rightarrow> v) else m k')"
  by (simp add: map_insert_def split: option.splits)

lemma map_erase_apply [simp]: "map_erase k m k' = (if k' = k then None else m k')"
  by (simp add: map_erase_def)

lemma dom_map_insert [simp]: "dom (map_insert k v m) = insert k (dom m)"
  by (auto simp: map_insert_def split: option.splits)

lemma fold_map_insert:
  "fold (\<lambda>(k, v). map_insert k v) kvs m k =
     (case m k of Some w \<Rightarrow> Some w | None \<Rightarrow> map_of kvs k)"
  by (induction kvs arbitrary: m) (auto split: option.splits)

section \<open>\<open>size_t\<close>: 64-bit unsigned arithmetic on natural numbers\<close>

definition sz_mod :: nat where
  "sz_mod = 2 ^ 64"

definition sz_add :: "nat \<Rightarrow> nat \<Rightarrow> nat" where
  "sz_add a b = (a + b) mod sz_mod"

definition sz_sub :: "nat \<Rightarrow> nat \<Rightarrow> nat" where
  "sz_sub a b = nat ((int a - int b) mod int sz_mod)"

text \<open>\<open>max_size()\<close> of a \<^verbatim>\<open>std::vector<char>\<close> (and of a \<^verbatim>\<open>std::string\<close>) on a 64-bit target.\<close>

definition vec_max :: nat where
  "vec_max = 2 ^ 63 - 1"

lemma sz_add_small [size_arith]: "a + b < sz_mod \<Longrightarrow> sz_add a b = a + b"
  by (simp add: sz_add_def)

lemma sz_sub_small [size_arith]: "b \<le> a \<Longrightarrow> a < sz_mod \<Longrightarrow> sz_sub a b = a - b"
  by (simp add: sz_sub_def nat_diff_distrib)

lemma vec_max_lt: "n \<le> vec_max \<Longrightarrow> n < sz_mod"
  by (simp add: vec_max_def sz_mod_def)

lemma vec_max_room: "vec_max + vec_max < sz_mod" "1048576 \<le> vec_max"
  by (simp_all add: vec_max_def sz_mod_def)

section \<open>Copies of bytes\<close>

text \<open>
  \<^verbatim>\<open>std::copy(begin+src, begin+src+n, begin+dst)\<close> inside one array: element by element, in
  ascending order.
\<close>

fun copy_within :: "nat \<Rightarrow> nat \<Rightarrow> nat \<Rightarrow> 'a list \<Rightarrow> 'a list" where
  "copy_within src dst 0 xs = xs"
| "copy_within src dst (Suc n) xs = copy_within (Suc src) (Suc dst) n (xs[dst := xs ! src])"

text \<open>\<^verbatim>\<open>std::copy(data, data+len, begin+dst)\<close> from another array.\<close>

fun copy_into :: "nat \<Rightarrow> 'a list \<Rightarrow> 'a list \<Rightarrow> 'a list" where
  "copy_into dst [] xs = xs"
| "copy_into dst (y # ys) xs = copy_into (Suc dst) ys (xs[dst := y])"

lemma length_copy_within [simp]: "length (copy_within s d n xs) = length xs"
  by (induction s d n xs rule: copy_within.induct) auto

lemma length_copy_into [simp]: "length (copy_into d ys xs) = length xs"
  by (induction d ys xs rule: copy_into.induct) auto

lemma copy_into_closed [copy_simps]:
  "d + length ys \<le> length xs \<Longrightarrow>
   copy_into d ys xs = take d xs @ ys @ drop (d + length ys) xs"
proof (induction d ys xs rule: copy_into.induct)
  case (1 dst xs)
  then show ?case by simp
next
  case (2 dst y ys xs)
  then have "copy_into (Suc dst) ys (xs[dst := y]) =
      take (Suc dst) (xs[dst := y]) @ ys @ drop (Suc dst + length ys) (xs[dst := y])"
    by simp
  also have "take (Suc dst) (xs[dst := y]) = take dst xs @ [y]"
    using 2(2) by (simp add: take_Suc_conv_app_nth)
  finally show ?case using 2(2) by simp
qed

lemma copy_within_closed [copy_simps]:
  "d \<le> s \<Longrightarrow> s + n \<le> length xs \<Longrightarrow>
   copy_within s d n xs = take d xs @ take n (drop s xs) @ drop (d + n) xs"
proof (induction s d n xs rule: copy_within.induct)
  case (1 s d xs)
  then show ?case by simp
next
  case (2 s d n xs)
  let ?ys = "xs[d := xs ! s]"
  have "copy_within (Suc s) (Suc d) n ?ys =
      take (Suc d) ?ys @ take n (drop (Suc s) ?ys) @ drop (Suc d + n) ?ys"
    using 2 by simp
  also have "take (Suc d) ?ys = take d xs @ [xs ! s]"
    using 2(2,3) by (simp add: take_Suc_conv_app_nth)
  also have "drop (Suc s) ?ys = drop (Suc s) xs"
    using 2(2) by simp
  also have "take (Suc n) (drop s xs) = xs ! s # take n (drop (Suc s) xs)"
    using 2(3) by (simp add: Cons_nth_drop_Suc [symmetric])
  ultimately show ?case by (simp add: Cons_nth_drop_Suc [symmetric])
qed

section \<open>32-bit integers in memory\<close>

text \<open>The four bytes of a \<^verbatim>\<open>uint32_t\<close> on a little-endian machine, and reading them back.\<close>

definition le32_bytes :: "u32 \<Rightarrow> bytes" where
  "le32_bytes w = map (\<lambda>i. char_of (unat w div 256 ^ i)) [0..<4]"

definition le32_word :: "bytes \<Rightarrow> u32" where
  "le32_word bs = of_nat (foldr (\<lambda>c acc. of_char c + 256 * acc) bs 0)"

lemma length_le32_bytes [simp]: "length (le32_bytes w) = 4"
  by (simp add: le32_bytes_def)

lemma le_bytes_value:
  "foldr (\<lambda>c acc. of_char c + 256 * acc) (map (\<lambda>i. char_of (n div 256 ^ i)) [0..<k]) 0 = n mod 256 ^ k"
  for n :: nat
proof (induction k arbitrary: n)
  case 0
  then show ?case by simp
next
  case (Suc k)
  have "map (\<lambda>i. char_of (n div 256 ^ i)) [0..<Suc k] =
      (char_of n :: char) # map (\<lambda>i. char_of (n div 256 div 256 ^ i)) [0..<k]"
    by (subst upt_conv_Cons) (simp_all add: map_Suc_upt [symmetric] comp_def div_mult2_eq
        del: upt_Suc)
  then show ?case
    using Suc [of "n div 256"] by (simp add: mod_mult2_eq)
qed

lemma le32_roundtrip [simp]: "le32_word (le32_bytes w) = w"
proof -
  have "unat w < 256 ^ 4" using unsigned_less [of w, where 'a = nat] by simp
  then show ?thesis by (simp add: le32_word_def le32_bytes_def le_bytes_value del: upt_rec_numeral)
qed

lemma le_bytes_digits:
  "map (\<lambda>i. char_of (foldr (\<lambda>c acc. of_char c + 256 * acc) bs (0 :: nat) div 256 ^ i)) [0..<length bs] = bs"
proof (induction bs)
  case Nil
  then show ?case by simp
next
  case (Cons c bs)
  let ?n = "foldr (\<lambda>c acc. of_char c + 256 * acc) bs (0 :: nat)"
  have c: "of_char c < (256 :: nat)" by simp
  have "char_of (of_char c + 256 * ?n) = c" using c by (simp add: char_of_eq_iff take_bit_eq_mod)
  moreover have "(of_char c + 256 * ?n) div 256 ^ Suc i = ?n div 256 ^ i" for i
    using c by (simp add: div_mult2_eq)
  ultimately show ?case using Cons.IH
    by (simp add: upt_conv_Cons map_Suc_upt [symmetric] comp_def del: upt_Suc power_Suc)
qed

lemma le_bytes_bound:
  "foldr (\<lambda>c acc. of_char c + 256 * acc) bs (0 :: nat) < 256 ^ length bs"
proof (induction bs)
  case (Cons c bs)
  then show ?case using nat_of_char_less_256 [of c] unfolding foldr.simps o_apply list.size power_add power_Suc power_0 by linarith
qed simp

lemma le32_bytes_word: "length s = 4 \<Longrightarrow> le32_bytes (le32_word s) = s"
  using le_bytes_bound [of s] le_bytes_digits [of s]
  by (simp add: le32_word_def le32_bytes_def unat_of_nat del: upt_rec_numeral)

end
