(* ===== verification/CxxText.thy ===== *)
theory CxxText
  imports Prelude
begin

text \<open>
  The parts of the C++ and C standard libraries' text handling that the program uses:
  \<^verbatim>\<open>std::to_string\<close>, \<^verbatim>\<open>std::stoi\<close>, \<^verbatim>\<open>atoi\<close>, \<^verbatim>\<open>std::getline\<close> and the search
  functions of \<^verbatim>\<open>std::string\<close>. Positions are indices, \<^verbatim>\<open>npos\<close> is \<^term>\<open>None\<close>.
\<close>

section \<open>Decimal numbers\<close>

definition digit_char :: "nat \<Rightarrow> char" where
  "digit_char d = char_of (48 + d)"

definition is_digit :: "char \<Rightarrow> bool" where
  "is_digit c \<longleftrightarrow> 48 \<le> (of_char c :: nat) \<and> (of_char c :: nat) \<le> 57"

definition digit_val :: "char \<Rightarrow> nat" where
  "digit_val c = of_char c - 48"

fun dec_digits :: "nat \<Rightarrow> string" where
  "dec_digits n = (if n < 10 then [digit_char n] else dec_digits (n div 10) @ [digit_char (n mod 10)])"

declare dec_digits.simps [simp del]

definition to_string :: "int \<Rightarrow> string" where
  "to_string i = (if i < 0 then CHR ''-'' # dec_digits (nat (- i)) else dec_digits (nat i))"

definition digits_val :: "string \<Rightarrow> nat" where
  "digits_val ds = foldl (\<lambda>acc c. 10 * acc + digit_val c) 0 ds"

text \<open>White space of the C locale: space, tab, newline, vertical tab, form feed, return.\<close>

definition is_space :: "char \<Rightarrow> bool" where
  "is_space c \<longleftrightarrow> (of_char c :: nat) \<in> {32, 9, 10, 11, 12, 13}"

text \<open>
  The conversion of \<^verbatim>\<open>strtol\<close> in base 10: leading white space, an optional sign, the longest
  run of digits. \<^term>\<open>None\<close> when there is no digit.
\<close>

definition strtol :: "string \<Rightarrow> int option" where
  "strtol s =
     (let t = dropWhile is_space s;
          neg = (t \<noteq> [] \<and> hd t = CHR ''-'');
          u = (if t \<noteq> [] \<and> (hd t = CHR ''-'' \<or> hd t = CHR ''+'') then tl t else t);
          ds = takeWhile is_digit u
      in if ds = [] then None
         else Some (if neg then - int (digits_val ds) else int (digits_val ds)))"

datatype num_error = InvalidArgument | OutOfRange

definition int_min :: int where "int_min = - (2 ^ 31)"
definition int_max :: int where "int_max = 2 ^ 31 - 1"

definition stoi :: "string \<Rightarrow> num_error + int" where
  "stoi s = (case strtol s of
      None \<Rightarrow> Inl InvalidArgument
    | Some i \<Rightarrow> if int_min \<le> i \<and> i \<le> int_max then Inr i else Inl OutOfRange)"

text \<open>
  \<^verbatim>\<open>atoi\<close>: no digit gives 0. A value outside \<open>int\<close> is undefined in C; the GNU library
  saturates at the bounds of \<open>long\<close> and truncates to 32 bits.
\<close>

definition clamp_long :: "int \<Rightarrow> int" where
  "clamp_long i = max (- (2 ^ 63)) (min (2 ^ 63 - 1) i)"

definition atoi :: "string \<Rightarrow> int" where
  "atoi s = (case strtol s of
      None \<Rightarrow> 0
    | Some i \<Rightarrow> sint (word_of_int (clamp_long i) :: 32 word))"

text \<open>\<^verbatim>\<open>static_cast<uint16_t>\<close> of an \<open>int\<close>.\<close>

definition to_u16 :: "int \<Rightarrow> u16" where
  "to_u16 i = word_of_int i"

section \<open>Searching strings\<close>

fun find_char :: "char \<Rightarrow> string \<Rightarrow> nat option" where
  "find_char c [] = None"
| "find_char c (x # xs) = (if x = c then Some 0 else map_option Suc (find_char c xs))"

definition substr :: "string \<Rightarrow> nat \<Rightarrow> nat \<Rightarrow> string" where
  "substr s pos n = take n (drop pos s)"

fun find_first_not_of :: "string \<Rightarrow> char \<Rightarrow> nat option" where
  "find_first_not_of [] c = None"
| "find_first_not_of (x # xs) c =
     (if x \<noteq> c then Some 0 else map_option Suc (find_first_not_of xs c))"

fun find_last_not_of :: "string \<Rightarrow> char \<Rightarrow> nat option" where
  "find_last_not_of [] c = None"
| "find_last_not_of (x # xs) c =
     (case find_last_not_of xs c of
        Some i \<Rightarrow> Some (Suc i)
      | None \<Rightarrow> if x \<noteq> c then Some 0 else None)"

text \<open>
  The lines that repeated \<^verbatim>\<open>std::getline\<close> calls deliver: the text up to each newline, and
  what follows the last newline when it is not empty.
\<close>

fun getlines :: "string \<Rightarrow> string \<Rightarrow> string list" where
  "getlines acc [] = (if acc = [] then [] else [acc])"
| "getlines acc (c # cs) =
     (if c = CHR 0x0A then acc # getlines [] cs else getlines (acc @ [c]) cs)"

text \<open>A \<^verbatim>\<open>const char*\<close> argument ends at the first NUL.\<close>

definition c_str :: "string \<Rightarrow> string" where
  "c_str s = takeWhile (\<lambda>c. c \<noteq> NUL) s"

section \<open>Lemmas\<close>

lemma of_char_digit_char [simp]: "d < 10 \<Longrightarrow> (of_char (digit_char d) :: nat) = 48 + d"
  by (simp add: digit_char_def)

lemma is_digit_digit_char [simp]: "d < 10 \<Longrightarrow> is_digit (digit_char d)"
  by (simp add: is_digit_def)

lemma digit_val_digit_char [simp]: "d < 10 \<Longrightarrow> digit_val (digit_char d) = d"
  by (simp add: digit_val_def)

lemma dec_digits_nonempty [simp]: "dec_digits n \<noteq> []"
  by (subst dec_digits.simps) simp

lemma dec_digits_all: "c \<in> set (dec_digits n) \<Longrightarrow> is_digit c"
proof (induction n rule: dec_digits.induct)
  case (1 n)
  then show ?case by (subst (asm) (2) dec_digits.simps) (auto split: if_splits)
qed

lemma digits_val_snoc: "digits_val (ds @ [c]) = 10 * digits_val ds + digit_val c"
  by (simp add: digits_val_def)

lemma digits_val_dec_digits [simp]: "digits_val (dec_digits n) = n"
proof (induction n rule: dec_digits.induct)
  case (1 n)
  then show ?case
    by (subst dec_digits.simps) (simp add: digits_val_snoc, simp add: digits_val_def)
qed

lemma takeWhile_digits [simp]:
  "(\<And>c. rest \<noteq> [] \<Longrightarrow> c = hd rest \<Longrightarrow> \<not> is_digit c) \<Longrightarrow>
   takeWhile is_digit (dec_digits n @ rest) = dec_digits n"
  by (subst takeWhile_append2) (auto dest: dec_digits_all, cases rest, auto)

lemma digit_not_sign: "is_digit c \<Longrightarrow> c \<noteq> CHR ''-'' \<and> c \<noteq> CHR ''+'' \<and> \<not> is_space c"
  by (auto simp: is_digit_def is_space_def)

lemma hd_dec_digits: "is_digit (hd (dec_digits n))"
  using dec_digits_all dec_digits_nonempty list.set_sel(1) by blast

lemma strtol_to_string:
  assumes "rest = [] \<or> \<not> is_digit (hd rest)"
  shows "strtol (to_string i @ rest) = Some i"
proof -
  have tw: "takeWhile is_digit (dec_digits n @ rest) = dec_digits n" for n
    using assms by (intro takeWhile_digits) auto
  obtain c ds where d: "dec_digits (nat i) = c # ds" using dec_digits_nonempty list.exhaust by blast
  then have c: "is_digit c" using hd_dec_digits [of "nat i"] by simp
  show ?thesis
  proof (cases "i < 0")
    case True
    then show ?thesis by (simp add: strtol_def to_string_def is_space_def tw)
  next
    case False
    then have "dropWhile is_space (to_string i @ rest) = dec_digits (nat i) @ rest"
      using d digit_not_sign [OF c] by (simp add: to_string_def)
    then show ?thesis
      using tw [of "nat i"] d digit_not_sign [OF c] False digits_val_dec_digits [of "nat i"]
      by (simp add: strtol_def Let_def)
  qed
qed

lemma stoi_to_string:
  "int_min \<le> i \<Longrightarrow> i \<le> int_max \<Longrightarrow> stoi (to_string i) = Inr i"
  using strtol_to_string [of "[]" i] by (simp add: stoi_def)

lemma to_string_inj: "to_string i = to_string j \<Longrightarrow> i = j"
  using strtol_to_string [of "[]" i] strtol_to_string [of "[]" j] by simp

lemma to_string_chars: "c \<in> set (to_string i) \<Longrightarrow> is_digit c \<or> c = CHR ''-''"
  by (auto simp: to_string_def dest: dec_digits_all split: if_splits)

lemma to_string_nonempty [simp]: "to_string i \<noteq> []"
  by (simp add: to_string_def)

lemma sint_word_of_int32: "int_min \<le> i \<Longrightarrow> i \<le> int_max \<Longrightarrow> sint (word_of_int i :: 32 word) = i"
  by (simp add: sint_sbintrunc' int_min_def int_max_def signed_take_bit_int_eq_self)

lemma atoi_to_string:
  assumes "int_min \<le> i" "i \<le> int_max" shows "atoi (to_string i) = i"
proof -
  have "clamp_long i = i" using assms by (simp add: clamp_long_def int_min_def int_max_def)
  then show ?thesis
    using strtol_to_string [of "[]" i] assms by (simp add: atoi_def sint_word_of_int32)
qed

lemma find_char_None: "find_char c s = None \<longleftrightarrow> c \<notin> set s"
  by (induction s) auto

lemma find_char_append: "c \<notin> set s \<Longrightarrow> find_char c (s @ c # t) = Some (length s)"
  by (induction s) auto

lemma find_first_not_of_replicate:
  "find_first_not_of (replicate n c @ s) c = map_option (\<lambda>i. n + i) (find_first_not_of s c)"
  by (induction n) (simp_all add: option.map_comp comp_def option.map_ident)

lemma find_first_not_of_hd: "s \<noteq> [] \<Longrightarrow> hd s \<noteq> c \<Longrightarrow> find_first_not_of s c = Some 0"
  by (cases s) auto

lemma find_first_not_of_None: "find_first_not_of s c = None \<longleftrightarrow> set s \<subseteq> {c}"
  by (induction s) auto

lemma find_last_not_of_None: "find_last_not_of s c = None \<longleftrightarrow> set s \<subseteq> {c}"
  by (induction s) (auto split: option.splits)

lemma find_last_not_of_replicate:
  "find_last_not_of (s @ replicate n c) c = find_last_not_of s c"
proof (induction s)
  case Nil
  have "set (replicate n c) \<subseteq> {c}" by auto
  then show ?case using find_last_not_of_None [of "replicate n c" c] by simp
qed (simp split: option.splits)

lemma find_last_not_of_last:
  "s \<noteq> [] \<Longrightarrow> last s \<noteq> c \<Longrightarrow> find_last_not_of s c = Some (length s - 1)"
proof (induction s)
  case (Cons x s)
  then show ?case by (cases s) auto
qed simp

lemma getlines_acc: "CHR 0x0A \<notin> set l \<Longrightarrow> getlines acc (l @ CHR 0x0A # s) = (acc @ l) # getlines [] s"
  by (induction l arbitrary: acc) auto

text \<open>A file written line by line, each ended by a newline, is read back as those lines.\<close>

lemma getlines_lines:
  "\<forall>l\<in>set ls. CHR 0x0A \<notin> set l \<Longrightarrow>
   getlines [] (concat (map (\<lambda>l. l @ [CHR 0x0A]) ls)) = ls"
  by (induction ls) (auto simp: getlines_acc)

lemma dec_digits_length: "n < 10 ^ k \<Longrightarrow> 0 < k \<Longrightarrow> length (dec_digits n) \<le> k"
proof (induction k arbitrary: n)
  case 0
  then show ?case by simp
next
  case (Suc k)
  show ?case
  proof (cases "n < 10")
    case True
    then show ?thesis by (subst dec_digits.simps) simp
  next
    case False
    then have "0 < k" using Suc.prems(1) by (cases k) auto
    moreover have "n div 10 < 10 ^ k" using Suc.prems(1) by (simp add: less_mult_imp_div_less mult.commute)
    ultimately show ?thesis using False Suc.IH [of "n div 10"] by (subst dec_digits.simps) simp
  qed
qed

definition int_range :: "int \<Rightarrow> bool" where
  "int_range i \<longleftrightarrow> int_min \<le> i \<and> i \<le> int_max"

lemma to_string_length:
  assumes "int_range i" shows "length (to_string i) \<le> 11"
proof -
  have "nat i < 10 ^ 10" "nat (- i) < 10 ^ 10"
    using assms by (simp_all add: int_range_def int_min_def int_max_def nat_less_iff) linarith+
  then have "length (dec_digits (nat i)) \<le> 10" "length (dec_digits (nat (- i))) \<le> 10"
    using dec_digits_length [of _ 10] by simp_all
  then show ?thesis by (simp add: to_string_def)
qed

lemma atoi_range: "int_range i \<Longrightarrow> atoi (to_string i) = i"
  by (simp add: atoi_to_string int_range_def)

lemma is_digit_NUL [simp]: "\<not> is_digit NUL"
  by (simp add: is_digit_def)

lemma to_string_plain: "c \<in> set (to_string i) \<Longrightarrow> c \<noteq> NUL \<and> c \<noteq> CHR 0x27 \<and> c \<noteq> CHR 0x5C"
  by (auto dest: to_string_chars simp: is_digit_def)

lemma c_str_plain: "NUL \<notin> set s \<Longrightarrow> c_str s = s"
  by (simp add: c_str_def takeWhile_eq_all_conv) blast

lemma NUL_c_str [simp]: "NUL \<notin> set (c_str s)"
  by (auto simp: c_str_def dest: set_takeWhileD)

lemma c_str_to_string [simp]: "c_str (to_string i) = to_string i"
  by (rule c_str_plain) (auto dest: to_string_plain)

end
