(* ===== verification/ChatDb.thy ===== *)
theory ChatDb
  imports CxxText
begin

text \<open>
  The access to MySQL of the chat server: \<^verbatim>\<open>chat-main/src/server/Db.cpp\<close>, the 1024-byte
  buffers in which the models build their statements, and the loops over result rows. The MySQL
  client library is a record of functions on its state; log output is left out.
\<close>

section \<open>Actions\<close>

text \<open>
  What ends a handler of the chat server early. \<open>Sql_overflow\<close> is \<^verbatim>\<open>sprintf\<close> writing past its
  buffer and \<open>Null_column\<close> a string made from a null column, both undefined in C++; the others
  are exceptions. An action threads a state; a fault keeps the effects made before it.
\<close>

datatype chat_fault = Sql_overflow | Null_column | Json_parse | Json_type | Json_utf8 | Bad_number num_error

type_synonym ('w, 'a) action = "'w \<Rightarrow> (chat_fault + 'a) \<times> 'w"

definition ret :: "'a \<Rightarrow> ('w, 'a) action" where
  "ret a w = (Inr a, w)"

definition raise :: "chat_fault \<Rightarrow> ('w, 'a) action" where
  "raise e w = (Inl e, w)"

definition bind_act :: "('w, 'a) action \<Rightarrow> ('a \<Rightarrow> ('w, 'b) action) \<Rightarrow> ('w, 'b) action" where
  "bind_act m f w = (case m w of (Inl e, w') \<Rightarrow> (Inl e, w') | (Inr a, w') \<Rightarrow> f a w')"

definition lift_res :: "chat_fault + 'a \<Rightarrow> ('w, 'a) action" where
  "lift_res r w = (r, w)"

definition change :: "('w \<Rightarrow> 'w) \<Rightarrow> ('w, unit) action" where
  "change f w = (Inr (), f w)"

lemma action_simps [simp]:
  "ret a w = (Inr a, w)" "raise e w = (Inl e, w)" "lift_res r w = (r, w)" "change f w = (Inr (), f w)"
  by (simp_all add: ret_def raise_def lift_res_def change_def)

lemma bind_act_simps:
  "m w = (Inl e, w') \<Longrightarrow> bind_act m f w = (Inl e, w')"
  "m w = (Inr a, w') \<Longrightarrow> bind_act m f w = f a w'"
  by (simp_all add: bind_act_def)

lemma bind_ret [simp]: "bind_act (ret a) f w = f a w"
  and bind_raise [simp]: "bind_act (raise e) g w = (Inl e, w)"
  and bind_lift_Inr [simp]: "bind_act (lift_res (Inr b)) h w = h b w"
  and bind_lift_Inl [simp]: "bind_act (lift_res (Inl e)) k w = (Inl e, w)"
  and bind_change [simp]: "bind_act (change c) l w = l () (c w)"
  by (simp_all add: bind_act_def)

lemma bind_act_Inr:
  "bind_act m f w = (Inr b, w') \<longleftrightarrow> (\<exists>a w1. m w = (Inr a, w1) \<and> f a w1 = (Inr b, w'))"
  by (auto simp: bind_act_def split: prod.splits sum.splits)

text \<open>\<^verbatim>\<open>for (T &x : xs)\<close> with a body that returns a value to collect.\<close>

fun map_act :: "('x \<Rightarrow> ('w, 'a) action) \<Rightarrow> 'x list \<Rightarrow> ('w, 'a list) action" where
  "map_act f [] = ret []"
| "map_act f (x # xs) = bind_act (f x) (\<lambda>a. bind_act (map_act f xs) (\<lambda>as. ret (a # as)))"

lemma map_act_keeps:
  "(\<And>x w. x \<in> set xs \<Longrightarrow> P w \<Longrightarrow> \<exists>w'. f x w = (Inr (g x), w') \<and> P w') \<Longrightarrow> P w \<Longrightarrow>
   \<exists>w'. map_act f xs w = (Inr (map g xs), w') \<and> P w'"
proof (induction xs arbitrary: w)
  case Nil
  then show ?case by simp
next
  case (Cons x xs)
  obtain w1 where w1: "f x w = (Inr (g x), w1)" "P w1" using Cons.prems by force
  obtain w2 where "map_act f xs w1 = (Inr (map g xs), w2)" "P w2"
    using Cons.IH [OF _ w1(2)] Cons.prems(1) by (metis list.set_intros(2))
  with w1 show ?case by (simp add: bind_act_simps)
qed

section \<open>The MySQL client library\<close>

text \<open>
  The state \<open>'c\<close> is the server's with the connection at hand. \<open>my_connect\<close> says whether
  \<^verbatim>\<open>mysql_real_connect\<close> succeeded, \<open>my_query\<close> whether \<^verbatim>\<open>mysql_query\<close> returned 0.
  \<open>my_use_result\<close> gives the rows that the calls of \<^verbatim>\<open>mysql_fetch_row\<close> will return before the
  null pointer, and \<open>my_fetch_end\<close> is that last call. A column is \<^term>\<open>None\<close> for SQL's NULL.
\<close>

type_synonym row = "string option list"

record 'c mysql =
  my_connect :: "'c \<Rightarrow> bool \<times> 'c"
  my_query :: "string \<Rightarrow> 'c \<Rightarrow> bool \<times> 'c"
  my_use_result :: "'c \<Rightarrow> row list option \<times> 'c"
  my_fetch_end :: "'c \<Rightarrow> 'c"
  my_free_result :: "'c \<Rightarrow> 'c"
  my_insert_id :: "'c \<Rightarrow> int"
  my_close :: "'c \<Rightarrow> 'c"

section \<open>Db\<close>

definition Db_connect :: "'c mysql \<Rightarrow> 'c \<Rightarrow> bool \<times> 'c" where
  "Db_connect my c =
     (case my_connect my c of
        (False, c1) \<Rightarrow> (False, c1)
      | (True, c1) \<Rightarrow> (True, snd (my_query my ''set names gbk'' c1)))"

definition Db_update :: "'c mysql \<Rightarrow> string \<Rightarrow> 'c \<Rightarrow> bool \<times> 'c" where
  "Db_update my sql c = my_query my (c_str sql) c"

definition Db_query :: "'c mysql \<Rightarrow> string \<Rightarrow> 'c \<Rightarrow> row list option \<times> 'c" where
  "Db_query my sql c =
     (case my_query my (c_str sql) c of
        (False, c1) \<Rightarrow> (None, c1)
      | (True, c1) \<Rightarrow> my_use_result my c1)"

text \<open>
  \<^verbatim>\<open>Db db; if (db.connect()) { body } return dflt;\<close> with the destructor, which closes the
  connection on every way out.
\<close>

definition with_db :: "'c mysql \<Rightarrow> 'a \<Rightarrow> ('c, 'a) action \<Rightarrow> ('c, 'a) action" where
  "with_db my dflt body c =
     (case Db_connect my c of
        (False, c1) \<Rightarrow> (Inr dflt, my_close my c1)
      | (True, c1) \<Rightarrow> (case body c1 of (r, c2) \<Rightarrow> (r, my_close my c2)))"

section \<open>Statements and rows\<close>

text \<open>\<^verbatim>\<open>char sql[1024]; sprintf(sql, ...)\<close>: 1023 characters and the terminator.\<close>

definition sprintf_sql :: "string \<Rightarrow> ('c, string) action" where
  "sprintf_sql txt = (if length txt \<le> 1023 then ret txt else raise Sql_overflow)"

lemma sprintf_sql_fits [simp]: "length txt \<le> 1023 \<Longrightarrow> sprintf_sql txt c = (Inr txt, c)"
  by (simp add: sprintf_sql_def)

lemma sprintf_sql_overflow [simp]: "1023 < length txt \<Longrightarrow> sprintf_sql txt c = (Inl Sql_overflow, c)"
  by (simp add: sprintf_sql_def)

lemma bind_sprintf_fits [simp]: "length txt \<le> 1023 \<Longrightarrow> bind_act (sprintf_sql txt) f c = f txt c"
  by (simp add: bind_act_simps)

lemma bind_sprintf_overflow [simp]:
  "1023 < length txt \<Longrightarrow> bind_act (sprintf_sql txt) f c = (Inl Sql_overflow, c)"
  by (simp add: bind_act_simps)

text \<open>A \<^verbatim>\<open>char*\<close> column made into a \<^verbatim>\<open>std::string\<close>.\<close>

definition column :: "row \<Rightarrow> nat \<Rightarrow> ('c, string) action" where
  "column row k = (if k < length row then (case row ! k of None \<Rightarrow> raise Null_column | Some s \<Rightarrow> ret s)
     else raise Null_column)"

lemma column_simps [simp]:
  "column (Some s # row) 0 c = (Inr s, c)"
  "column (x # row) (Suc k) c = column row k c"
  by (simp_all add: column_def)

text \<open>\<^verbatim>\<open>while ((row = mysql_fetch_row(res)) != nullptr) body\<close>, collecting what the body makes.\<close>

definition fetch_rows :: "'c mysql \<Rightarrow> (row \<Rightarrow> ('c, 'a) action) \<Rightarrow> row list \<Rightarrow> ('c, 'a list) action" where
  "fetch_rows my body rows =
     bind_act (map_act body rows) (\<lambda>xs. bind_act (change (my_fetch_end my)) (\<lambda>_. ret xs))"

text \<open>
  The shape all list queries share: run the statement, collect the rows if there is a result,
  free it.
\<close>

definition select_rows :: "'c mysql \<Rightarrow> string \<Rightarrow> (row \<Rightarrow> ('c, 'a) action) \<Rightarrow> ('c, 'a list) action" where
  "select_rows my sql body c =
     (case Db_query my sql c of
        (None, c1) \<Rightarrow> (Inr [], c1)
      | (Some rows, c1) \<Rightarrow>
          bind_act (fetch_rows my body rows) (\<lambda>xs. bind_act (change (my_free_result my)) (\<lambda>_. ret xs)) c1)"

end
