(* ===== verification/ChatModels.thy ===== *)
theory ChatModels
  imports ChatDb
begin

text \<open>
  The entities and the models of the chat server: \<^verbatim>\<open>User.cpp\<close>, \<^verbatim>\<open>Group.cpp\<close>,
  \<^verbatim>\<open>UserModel.cpp\<close>, \<^verbatim>\<open>FriendModel.cpp\<close>, \<^verbatim>\<open>OfflineMsgModel.cpp\<close> and
  \<^verbatim>\<open>GroupModel.cpp\<close> under \<^verbatim>\<open>chat-main/src/server\<close>. Every model operation is an action on the
  state of the MySQL library; its statements are built as the texts the code builds.
\<close>

section \<open>Entities\<close>

record user =
  usr_id :: int
  usr_name :: string
  usr_pwd :: string
  usr_state :: string

definition new_user :: user where
  "new_user = \<lparr>usr_id = 0, usr_name = [], usr_pwd = [], usr_state = ''offline''\<rparr>"

definition User_make :: "int \<Rightarrow> string \<Rightarrow> string \<Rightarrow> string \<Rightarrow> user" where
  "User_make i name pwd state = \<lparr>usr_id = i, usr_name = name, usr_pwd = pwd, usr_state = state\<rparr>"

definition User_setId :: "int \<Rightarrow> user \<Rightarrow> user" where "User_setId i u = u\<lparr>usr_id := i\<rparr>"
definition User_setName :: "string \<Rightarrow> user \<Rightarrow> user" where "User_setName s u = u\<lparr>usr_name := s\<rparr>"
definition User_setPwd :: "string \<Rightarrow> user \<Rightarrow> user" where "User_setPwd s u = u\<lparr>usr_pwd := s\<rparr>"
definition User_setState :: "string \<Rightarrow> user \<Rightarrow> user" where "User_setState s u = u\<lparr>usr_state := s\<rparr>"

lemmas user_setters = User_setId_def User_setName_def User_setPwd_def User_setState_def

record group_user =
  gu_id :: int
  gu_name :: string
  gu_state :: string
  gu_role :: string

definition new_group_user :: group_user where
  "new_group_user = \<lparr>gu_id = 0, gu_name = [], gu_state = [], gu_role = []\<rparr>"

definition GroupUser_setId :: "int \<Rightarrow> group_user \<Rightarrow> group_user" where
  "GroupUser_setId i u = u\<lparr>gu_id := i\<rparr>"
definition GroupUser_setName :: "string \<Rightarrow> group_user \<Rightarrow> group_user" where
  "GroupUser_setName s u = u\<lparr>gu_name := s\<rparr>"
definition GroupUser_setState :: "string \<Rightarrow> group_user \<Rightarrow> group_user" where
  "GroupUser_setState s u = u\<lparr>gu_state := s\<rparr>"
definition GroupUser_setRole :: "string \<Rightarrow> group_user \<Rightarrow> group_user" where
  "GroupUser_setRole s u = u\<lparr>gu_role := s\<rparr>"

lemmas group_user_setters = GroupUser_setId_def GroupUser_setName_def GroupUser_setState_def
  GroupUser_setRole_def

record chat_group =
  grp_id :: int
  grp_name :: string
  grp_desc :: string
  grp_users :: "group_user list"

definition new_group :: chat_group where
  "new_group = \<lparr>grp_id = 0, grp_name = [], grp_desc = [], grp_users = []\<rparr>"

definition Group_make :: "int \<Rightarrow> string \<Rightarrow> string \<Rightarrow> chat_group" where
  "Group_make i name desc = \<lparr>grp_id = i, grp_name = name, grp_desc = desc, grp_users = []\<rparr>"

definition Group_setId :: "int \<Rightarrow> chat_group \<Rightarrow> chat_group" where "Group_setId i g = g\<lparr>grp_id := i\<rparr>"
definition Group_setGroupName :: "string \<Rightarrow> chat_group \<Rightarrow> chat_group" where
  "Group_setGroupName s g = g\<lparr>grp_name := s\<rparr>"
definition Group_setGroupDesc :: "string \<Rightarrow> chat_group \<Rightarrow> chat_group" where
  "Group_setGroupDesc s g = g\<lparr>grp_desc := s\<rparr>"

text \<open>\<open>getUsers().push_back(u)\<close> for every member, in order.\<close>

definition Group_addUsers :: "group_user list \<Rightarrow> chat_group \<Rightarrow> chat_group" where
  "Group_addUsers us g = g\<lparr>grp_users := grp_users g @ us\<rparr>"

lemmas group_setters = Group_setId_def Group_setGroupName_def Group_setGroupDesc_def Group_addUsers_def

text \<open>The getters read the members; the models and handlers use the selectors.\<close>

definition User_getId :: "user \<Rightarrow> int" where "User_getId = usr_id"
definition User_getName :: "user \<Rightarrow> string" where "User_getName = usr_name"
definition User_getPwd :: "user \<Rightarrow> string" where "User_getPwd = usr_pwd"
definition User_getState :: "user \<Rightarrow> string" where "User_getState = usr_state"
definition GroupUser_getId :: "group_user \<Rightarrow> int" where "GroupUser_getId = gu_id"
definition GroupUser_getName :: "group_user \<Rightarrow> string" where "GroupUser_getName = gu_name"
definition GroupUser_getState :: "group_user \<Rightarrow> string" where "GroupUser_getState = gu_state"
definition GroupUser_getRole :: "group_user \<Rightarrow> string" where "GroupUser_getRole = gu_role"
definition Group_getId :: "chat_group \<Rightarrow> int" where "Group_getId = grp_id"
definition Group_getGroupName :: "chat_group \<Rightarrow> string" where "Group_getGroupName = grp_name"
definition Group_getGroupDesc :: "chat_group \<Rightarrow> string" where "Group_getGroupDesc = grp_desc"
definition Group_getUsers :: "chat_group \<Rightarrow> group_user list" where "Group_getUsers = grp_users"

section \<open>Statement texts\<close>

abbreviation quoted :: "string \<Rightarrow> string" where
  "quoted s \<equiv> CHR 0x27 # c_str s @ [CHR 0x27]"

definition sql_insert_user :: "string \<Rightarrow> string \<Rightarrow> string \<Rightarrow> string" where
  "sql_insert_user name pwd state =
     ''insert into user(name,password,state) values('' @ quoted name @ '','' @ quoted pwd @ '','' @ quoted state @ '')''"

definition sql_select_user :: "int \<Rightarrow> string" where
  "sql_select_user i = ''select * from user where id='' @ quoted (to_string i)"

definition sql_update_state :: "string \<Rightarrow> int \<Rightarrow> string" where
  "sql_update_state state i =
     ''update user set state='' @ quoted state @ '' where id='' @ quoted (to_string i)"

definition sql_reset_state :: string where
  "sql_reset_state = ''update user set state='' @ quoted ''offline'' @ '' where state='' @ quoted ''online''"

definition sql_insert_friend :: "int \<Rightarrow> int \<Rightarrow> string" where
  "sql_insert_friend i j = ''insert into friend values('' @ to_string i @ '', '' @ to_string j @ '')''"

definition sql_select_friends :: "int \<Rightarrow> string" where
  "sql_select_friends i =
     ''select a.id, a.name, a.state from user a inner join friend b on b.friendid = a.id where b.userid = ''
       @ to_string i"

definition sql_insert_offline :: "int \<Rightarrow> string \<Rightarrow> string" where
  "sql_insert_offline i msg =
     ''insert into offlinemessage values('' @ quoted (to_string i) @ '','' @ quoted msg @ '')''"

definition sql_delete_offline :: "int \<Rightarrow> string" where
  "sql_delete_offline i = ''delete from offlinemessage where userid='' @ to_string i"

definition sql_select_offline :: "int \<Rightarrow> string" where
  "sql_select_offline i = ''select message from offlinemessage where userid='' @ to_string i"

definition sql_insert_group :: "string \<Rightarrow> string \<Rightarrow> string" where
  "sql_insert_group name desc =
     ''insert into allgroup(groupname,groupdesc)values('' @ quoted name @ '','' @ quoted desc @ '')''"

definition sql_insert_member :: "int \<Rightarrow> int \<Rightarrow> string \<Rightarrow> string" where
  "sql_insert_member groupid userid role =
     ''insert into groupuser values('' @ to_string groupid @ '', '' @ to_string userid @ '', '' @ quoted role @ '')''"

definition sql_select_groups :: "int \<Rightarrow> string" where
  "sql_select_groups i =
     ''select a.id, a.groupname, a.groupdesc from allgroup a inner join groupuser b on b.groupid = a.id where b.userid = ''
       @ to_string i"

definition sql_select_members :: "int \<Rightarrow> string" where
  "sql_select_members groupid =
     ''select a.id, a.name, a.state, b.grouprole from user a inner join groupuser b on a.id = b.userid where b.groupid = ''
       @ to_string groupid"

definition sql_select_member_ids :: "int \<Rightarrow> int \<Rightarrow> string" where
  "sql_select_member_ids groupid userid =
     ''select userid from groupuser where groupid = '' @ to_string groupid @ '' and userid != '' @ to_string userid"

section \<open>UserModel\<close>

text \<open>\<open>mysql_insert_id\<close> is converted to \<^verbatim>\<open>int\<close>. The user is the one after the call.\<close>

definition UserModel_insert :: "'c mysql \<Rightarrow> user \<Rightarrow> ('c, bool \<times> user) action" where
  "UserModel_insert my u =
     with_db my (False, u)
       (bind_act (sprintf_sql (sql_insert_user (usr_name u) (usr_pwd u) (usr_state u)))
         (\<lambda>sql c. case Db_update my sql c of
            (True, c1) \<Rightarrow> (Inr (True, User_setId (sint (word_of_int (my_insert_id my c1) :: u32)) u), c1)
          | (False, c1) \<Rightarrow> (Inr (False, u), c1)))"

definition user_of_row :: "row \<Rightarrow> ('c, user) action" where
  "user_of_row row =
     bind_act (column row 0) (\<lambda>i. bind_act (column row 1) (\<lambda>name. bind_act (column row 2) (\<lambda>pwd.
       bind_act (column row 3) (\<lambda>state.
         ret (User_setState state (User_setPwd pwd (User_setName name (User_setId (atoi i) new_user))))))))"

definition UserModel_query :: "'c mysql \<Rightarrow> int \<Rightarrow> ('c, user) action" where
  "UserModel_query my i =
     with_db my new_user
       (bind_act (sprintf_sql (sql_select_user i))
         (\<lambda>sql c. case Db_query my sql c of
            (None, c1) \<Rightarrow> (Inr new_user, c1)
          | (Some [], c1) \<Rightarrow> (Inr new_user, my_free_result my (my_fetch_end my c1))
          | (Some (row # rows), c1) \<Rightarrow>
              bind_act (user_of_row row) (\<lambda>u. bind_act (change (my_free_result my)) (\<lambda>_. ret u)) c1))"

definition UserModel_updateState :: "'c mysql \<Rightarrow> user \<Rightarrow> ('c, bool) action" where
  "UserModel_updateState my u =
     with_db my False
       (bind_act (sprintf_sql (sql_update_state (usr_state u) (usr_id u)))
         (\<lambda>sql c. case Db_update my sql c of (ok, c1) \<Rightarrow> (Inr ok, c1)))"

definition UserModel_resetState :: "'c mysql \<Rightarrow> ('c, unit) action" where
  "UserModel_resetState my =
     with_db my () (bind_act (sprintf_sql sql_reset_state) (\<lambda>sql c. (Inr (), snd (Db_update my sql c))))"

section \<open>FriendModel\<close>

definition FriendModel_insert :: "'c mysql \<Rightarrow> int \<Rightarrow> int \<Rightarrow> ('c, unit) action" where
  "FriendModel_insert my userid friendid =
     with_db my () (bind_act (sprintf_sql (sql_insert_friend userid friendid))
       (\<lambda>sql c. (Inr (), snd (Db_update my sql c))))"

definition friend_of_row :: "row \<Rightarrow> ('c, user) action" where
  "friend_of_row row =
     bind_act (column row 0) (\<lambda>i. bind_act (column row 1) (\<lambda>name. bind_act (column row 2) (\<lambda>state.
       ret (User_setState state (User_setName name (User_setId (atoi i) new_user))))))"

definition FriendModel_query :: "'c mysql \<Rightarrow> int \<Rightarrow> ('c, user list) action" where
  "FriendModel_query my userid =
     with_db my [] (bind_act (sprintf_sql (sql_select_friends userid))
       (\<lambda>sql. select_rows my sql friend_of_row))"

section \<open>OfflineMsgModel\<close>

definition OfflineMsgModel_insert :: "'c mysql \<Rightarrow> int \<Rightarrow> string \<Rightarrow> ('c, unit) action" where
  "OfflineMsgModel_insert my userid msg =
     with_db my () (bind_act (sprintf_sql (sql_insert_offline userid msg))
       (\<lambda>sql c. (Inr (), snd (Db_update my sql c))))"

definition OfflineMsgModel_remove :: "'c mysql \<Rightarrow> int \<Rightarrow> ('c, unit) action" where
  "OfflineMsgModel_remove my userid =
     with_db my () (bind_act (sprintf_sql (sql_delete_offline userid))
       (\<lambda>sql c. (Inr (), snd (Db_update my sql c))))"

definition OfflineMsgModel_query :: "'c mysql \<Rightarrow> int \<Rightarrow> ('c, string list) action" where
  "OfflineMsgModel_query my userid =
     with_db my [] (bind_act (sprintf_sql (sql_select_offline userid))
       (\<lambda>sql. select_rows my sql (\<lambda>row. column row 0)))"

section \<open>GroupModel\<close>

definition GroupModel_createGroup :: "'c mysql \<Rightarrow> chat_group \<Rightarrow> ('c, bool \<times> chat_group) action" where
  "GroupModel_createGroup my g =
     with_db my (False, g)
       (bind_act (sprintf_sql (sql_insert_group (grp_name g) (grp_desc g)))
         (\<lambda>sql c. case Db_update my sql c of
            (True, c1) \<Rightarrow> (Inr (True, Group_setId (sint (word_of_int (my_insert_id my c1) :: u32)) g), c1)
          | (False, c1) \<Rightarrow> (Inr (False, g), c1)))"

definition GroupModel_addGroup :: "'c mysql \<Rightarrow> int \<Rightarrow> int \<Rightarrow> string \<Rightarrow> ('c, unit) action" where
  "GroupModel_addGroup my userid groupid role =
     with_db my () (bind_act (sprintf_sql (sql_insert_member groupid userid role))
       (\<lambda>sql c. (Inr (), snd (Db_update my sql c))))"

definition group_user_of_row :: "row \<Rightarrow> ('c, group_user) action" where
  "group_user_of_row row =
     bind_act (column row 0) (\<lambda>i. bind_act (column row 1) (\<lambda>name. bind_act (column row 2) (\<lambda>state.
       bind_act (column row 3) (\<lambda>role.
         ret (GroupUser_setRole role (GroupUser_setState state (GroupUser_setName name
           (GroupUser_setId (atoi i) new_group_user))))))))"

text \<open>The body of the outer loop: the members are queried while the groups are being fetched.\<close>

definition group_of_row :: "'c mysql \<Rightarrow> row \<Rightarrow> ('c, chat_group) action" where
  "group_of_row my row =
     bind_act (column row 0) (\<lambda>i. bind_act (column row 1) (\<lambda>name. bind_act (column row 2) (\<lambda>desc.
       (let g = Group_setGroupDesc desc (Group_setGroupName name (Group_setId (atoi i) new_group)) in
        bind_act (sprintf_sql (sql_select_members (grp_id g)))
          (\<lambda>sql2. bind_act (select_rows my sql2 group_user_of_row)
            (\<lambda>us. ret (Group_addUsers us g)))))))"

definition GroupModel_queryGroups :: "'c mysql \<Rightarrow> int \<Rightarrow> ('c, chat_group list) action" where
  "GroupModel_queryGroups my userid =
     with_db my [] (bind_act (sprintf_sql (sql_select_groups userid))
       (\<lambda>sql. select_rows my sql (group_of_row my)))"

definition GroupModel_queryGroupUsers :: "'c mysql \<Rightarrow> int \<Rightarrow> int \<Rightarrow> ('c, int list) action" where
  "GroupModel_queryGroupUsers my userid groupid =
     with_db my [] (bind_act (sprintf_sql (sql_select_member_ids groupid userid))
       (\<lambda>sql. select_rows my sql (\<lambda>row. bind_act (column row 0) (\<lambda>i. ret (atoi i)))))"

end
