(* ===== verification/ChatTables.thy ===== *)
theory ChatTables
  imports ChatModels "HOL-Library.Multiset"
begin

text \<open>
  What the models promise about the chat database. The five tables are lists of rows; the
  statements the models build form a datatype with their texts, their effect on the tables and
  their rows; and \<open>mysql_ok\<close> is the documented behaviour of MySQL and of its client library on
  exactly these statements. Each model operation then refines an operation on the tables.
\<close>

section \<open>Tables and statements\<close>

record chat_tables =
  t_users :: "(int \<times> string \<times> string \<times> string) list"
  t_friends :: "(int \<times> int) list"
  t_offline :: "(int \<times> string) list"
  t_groups :: "(int \<times> string \<times> string) list"
  t_members :: "(int \<times> int \<times> string) list"

datatype stmt =
    Ins_user string string string | Upd_state string int | Reset_state
  | Ins_friend int int | Ins_offline int string | Del_offline int
  | Ins_group string string | Ins_member int int string
  | Sel_user int | Sel_friends int | Sel_offline int | Sel_groups int | Sel_members int | Sel_member_ids int int

fun stmt_text :: "stmt \<Rightarrow> string" where
  "stmt_text (Ins_user name pwd state) = sql_insert_user name pwd state"
| "stmt_text (Upd_state state i) = sql_update_state state i"
| "stmt_text Reset_state = sql_reset_state"
| "stmt_text (Ins_friend i j) = sql_insert_friend i j"
| "stmt_text (Ins_offline i msg) = sql_insert_offline i msg"
| "stmt_text (Del_offline i) = sql_delete_offline i"
| "stmt_text (Ins_group name desc) = sql_insert_group name desc"
| "stmt_text (Ins_member g u role) = sql_insert_member g u role"
| "stmt_text (Sel_user i) = sql_select_user i"
| "stmt_text (Sel_friends i) = sql_select_friends i"
| "stmt_text (Sel_offline i) = sql_select_offline i"
| "stmt_text (Sel_groups i) = sql_select_groups i"
| "stmt_text (Sel_members g) = sql_select_members g"
| "stmt_text (Sel_member_ids g u) = sql_select_member_ids g u"

text \<open>A string that stands for itself between quotes in a statement.\<close>

definition sql_safe :: "string \<Rightarrow> bool" where
  "sql_safe s \<longleftrightarrow> NUL \<notin> set s \<and> CHR 0x27 \<notin> set s \<and> CHR 0x5C \<notin> set s"

fun stmt_safe :: "stmt \<Rightarrow> bool" where
  "stmt_safe (Ins_user name pwd state) \<longleftrightarrow> sql_safe name \<and> sql_safe pwd \<and> sql_safe state"
| "stmt_safe (Upd_state state i) \<longleftrightarrow> sql_safe state"
| "stmt_safe (Ins_offline i msg) \<longleftrightarrow> sql_safe msg"
| "stmt_safe (Ins_group name desc) \<longleftrightarrow> sql_safe name \<and> sql_safe desc"
| "stmt_safe (Ins_member g u role) \<longleftrightarrow> sql_safe role"
| "stmt_safe _ \<longleftrightarrow> True"

text \<open>Changes that no key of the tables can refuse.\<close>

fun is_change :: "stmt \<Rightarrow> bool" where
  "is_change (Upd_state _ _) = True" | "is_change Reset_state = True"
| "is_change (Ins_offline _ _) = True" | "is_change (Del_offline _) = True" | "is_change _ = False"

fun is_insert :: "stmt \<Rightarrow> bool" where
  "is_insert (Ins_user _ _ _) = True" | "is_insert (Ins_friend _ _) = True"
| "is_insert (Ins_group _ _) = True" | "is_insert (Ins_member _ _ _) = True" | "is_insert _ = False"

text \<open>The effect of a statement; \<open>new\<close> is the id an insertion with an automatic key was given.\<close>

fun apply_stmt :: "int \<Rightarrow> stmt \<Rightarrow> chat_tables \<Rightarrow> chat_tables" where
  "apply_stmt new (Ins_user name pwd state) t = t\<lparr>t_users := t_users t @ [(new, name, pwd, state)]\<rparr>"
| "apply_stmt new (Upd_state state i) t =
     t\<lparr>t_users := map (\<lambda>(j, n, p, s). (j, n, p, if j = i then state else s)) (t_users t)\<rparr>"
| "apply_stmt new Reset_state t =
     t\<lparr>t_users := map (\<lambda>(j, n, p, s). (j, n, p, if s = ''online'' then ''offline'' else s)) (t_users t)\<rparr>"
| "apply_stmt new (Ins_friend i j) t = t\<lparr>t_friends := t_friends t @ [(i, j)]\<rparr>"
| "apply_stmt new (Ins_offline i msg) t = t\<lparr>t_offline := t_offline t @ [(i, msg)]\<rparr>"
| "apply_stmt new (Del_offline i) t = t\<lparr>t_offline := filter (\<lambda>(j, m). j \<noteq> i) (t_offline t)\<rparr>"
| "apply_stmt new (Ins_group name desc) t = t\<lparr>t_groups := t_groups t @ [(new, name, desc)]\<rparr>"
| "apply_stmt new (Ins_member g u role) t = t\<lparr>t_members := t_members t @ [(g, u, role)]\<rparr>"
| "apply_stmt new _ t = t"

fun new_id_ok :: "int \<Rightarrow> stmt \<Rightarrow> chat_tables \<Rightarrow> bool" where
  "new_id_ok new (Ins_user _ _ _) t \<longleftrightarrow> 0 < new \<and> int_range new \<and> new \<notin> fst ` set (t_users t)"
| "new_id_ok new (Ins_group _ _) t \<longleftrightarrow> 0 < new \<and> int_range new \<and> new \<notin> fst ` set (t_groups t)"
| "new_id_ok new _ t \<longleftrightarrow> True"

definition num_col :: "int \<Rightarrow> string option" where "num_col i = Some (to_string i)"

fun stmt_rows :: "stmt \<Rightarrow> chat_tables \<Rightarrow> row list" where
  "stmt_rows (Sel_user i) t =
     [[num_col j, Some n, Some p, Some s]. (j, n, p, s) \<leftarrow> t_users t, j = i]"
| "stmt_rows (Sel_friends i) t =
     [[num_col a, Some n, Some s]. (a, n, p, s) \<leftarrow> t_users t, (u, f) \<leftarrow> t_friends t, f = a \<and> u = i]"
| "stmt_rows (Sel_offline i) t = [[Some m]. (u, m) \<leftarrow> t_offline t, u = i]"
| "stmt_rows (Sel_groups i) t =
     [[num_col a, Some n, Some d]. (a, n, d) \<leftarrow> t_groups t, (g, u, r) \<leftarrow> t_members t, g = a \<and> u = i]"
| "stmt_rows (Sel_members k) t =
     [[num_col a, Some n, Some s, Some r]. (a, n, p, s) \<leftarrow> t_users t, (g, u, r) \<leftarrow> t_members t, a = u \<and> g = k]"
| "stmt_rows (Sel_member_ids k i) t = [[num_col u]. (g, u, r) \<leftarrow> t_members t, g = k \<and> u \<noteq> i]"
| "stmt_rows _ t = []"

fun is_select :: "stmt \<Rightarrow> bool" where
  "is_select (Sel_user _) = True" | "is_select (Sel_friends _) = True" | "is_select (Sel_offline _) = True"
| "is_select (Sel_groups _) = True" | "is_select (Sel_members _) = True"
| "is_select (Sel_member_ids _ _) = True" | "is_select _ = False"

section \<open>Documented behaviour of MySQL\<close>

text \<open>
  The server can be reached, and its columns are wide enough for what the statements' buffers let
  through. A result that is being fetched row by row (\<open>pending\<close>) makes every
  further statement on its connection fail; otherwise the statements have their effects, an
  insertion may be refused by a key, and a query returns its rows in no particular order.
\<close>

definition mysql_ok :: "'c mysql \<Rightarrow> ('c \<Rightarrow> chat_tables) \<Rightarrow> ('c \<Rightarrow> bool) \<Rightarrow> bool" where
  "mysql_ok my tabs pending \<longleftrightarrow>
     (\<forall>c. fst (my_connect my c) \<and> tabs (snd (my_connect my c)) = tabs c \<and>
        \<not> pending (snd (my_connect my c))) \<and>
     (\<forall>c. tabs (snd (my_query my ''set names gbk'' c)) = tabs c \<and>
        pending (snd (my_query my ''set names gbk'' c)) = pending c) \<and>
     (\<forall>sql c. pending c \<longrightarrow>
        (\<exists>c'. my_query my sql c = (False, c') \<and> tabs c' = tabs c \<and> pending c')) \<and>
     (\<forall>st c. \<not> pending c \<and> stmt_safe st \<and> is_change st \<longrightarrow>
        (\<exists>c'. my_query my (stmt_text st) c = (True, c') \<and> \<not> pending c' \<and>
           tabs c' = apply_stmt 0 st (tabs c))) \<and>
     (\<forall>st c. \<not> pending c \<and> stmt_safe st \<and> is_insert st \<longrightarrow>
        (\<exists>ok c'. my_query my (stmt_text st) c = (ok, c') \<and> \<not> pending c' \<and>
           tabs c' = (if ok then apply_stmt (my_insert_id my c') st (tabs c) else tabs c) \<and>
           (ok \<longrightarrow> new_id_ok (my_insert_id my c') st (tabs c)))) \<and>
     (\<forall>st c. \<not> pending c \<and> is_select st \<longrightarrow>
        (\<exists>c1 rows c2. my_query my (stmt_text st) c = (True, c1) \<and> my_use_result my c1 = (Some rows, c2) \<and>
           mset rows = mset (stmt_rows st (tabs c)) \<and> tabs c2 = tabs c \<and> pending c2)) \<and>
     (\<forall>c. tabs (my_fetch_end my c) = tabs c \<and> \<not> pending (my_fetch_end my c)) \<and>
     (\<forall>c. tabs (my_free_result my c) = tabs c \<and> (\<not> pending c \<longrightarrow> \<not> pending (my_free_result my c))) \<and>
     (\<forall>c. tabs (my_close my c) = tabs c)"

lemma mysql_okD:
  assumes "mysql_ok my tabs pending"
  shows "\<exists>c'. my_connect my c = (True, c') \<and> tabs c' = tabs c \<and> \<not> pending c'"
    and "tabs (snd (my_query my ''set names gbk'' c)) = tabs c"
    and "pending (snd (my_query my ''set names gbk'' c)) = pending c"
    and "pending c \<Longrightarrow> \<exists>c'. my_query my sql c = (False, c') \<and> tabs c' = tabs c \<and> pending c'"
    and "\<not> pending c \<Longrightarrow> stmt_safe st \<Longrightarrow> is_change st \<Longrightarrow>
      \<exists>c'. my_query my (stmt_text st) c = (True, c') \<and> \<not> pending c' \<and> tabs c' = apply_stmt 0 st (tabs c)"
    and "\<not> pending c \<Longrightarrow> stmt_safe st \<Longrightarrow> is_insert st \<Longrightarrow>
      \<exists>ok c'. my_query my (stmt_text st) c = (ok, c') \<and> \<not> pending c' \<and>
        tabs c' = (if ok then apply_stmt (my_insert_id my c') st (tabs c) else tabs c) \<and>
        (ok \<longrightarrow> new_id_ok (my_insert_id my c') st (tabs c))"
    and "\<not> pending c \<Longrightarrow> is_select st \<Longrightarrow>
      \<exists>c1 rows c2. my_query my (stmt_text st) c = (True, c1) \<and> my_use_result my c1 = (Some rows, c2) \<and>
        mset rows = mset (stmt_rows st (tabs c)) \<and> tabs c2 = tabs c \<and> pending c2"
    and "tabs (my_fetch_end my c) = tabs c" "\<not> pending (my_fetch_end my c)"
    and "tabs (my_free_result my c) = tabs c" "tabs (my_close my c) = tabs c"
proof -
  have "fst (my_connect my c) \<and> tabs (snd (my_connect my c)) = tabs c \<and> \<not> pending (snd (my_connect my c))"
    using assms by (simp add: mysql_ok_def)
  then show "\<exists>c'. my_connect my c = (True, c') \<and> tabs c' = tabs c \<and> \<not> pending c'"
    by (cases "my_connect my c") simp
qed (use assms in \<open>simp_all add: mysql_ok_def\<close>)

section \<open>Statements through the code\<close>

lemma NUL_stmt_text [simp]: "NUL \<notin> set (stmt_text st)"
proof -
  have n: "NUL \<notin> set (to_string i)" for i using to_string_plain by blast
  show ?thesis
    by (cases st) (simp_all add: sql_insert_user_def sql_update_state_def sql_reset_state_def
        sql_insert_friend_def sql_insert_offline_def sql_delete_offline_def sql_insert_group_def
        sql_insert_member_def sql_select_user_def sql_select_friends_def sql_select_offline_def
        sql_select_groups_def sql_select_members_def sql_select_member_ids_def n)
qed

lemma c_str_stmt [simp]: "c_str (stmt_text st) = stmt_text st"
  by (rule c_str_plain) simp

lemma with_db_up:
  assumes "mysql_ok my tabs pending"
  obtains c1 where "with_db my dflt body c = (case body c1 of (r, c2) \<Rightarrow> (r, my_close my c2))"
    "tabs c1 = tabs c" "\<not> pending c1"
proof -
  obtain c0 where c0: "my_connect my c = (True, c0)" "tabs c0 = tabs c" "\<not> pending c0"
    using mysql_okD(1) [OF assms] by blast
  let ?c1 = "snd (my_query my ''set names gbk'' c0)"
  have "tabs ?c1 = tabs c" "\<not> pending ?c1" using mysql_okD(2,3) [OF assms, of c0] c0 by simp_all
  moreover have "with_db my dflt body c = (case body ?c1 of (r, c2) \<Rightarrow> (r, my_close my c2))"
    by (simp add: with_db_def Db_connect_def c0(1))
  ultimately show thesis using that by blast
qed

lemma run_change:
  assumes ok: "mysql_ok my tabs pending" and st: "stmt_safe st" "is_change st" "length (stmt_text st) \<le> 1023"
  shows "\<exists>c'. with_db my () (bind_act (sprintf_sql (stmt_text st))
      (\<lambda>sql c. (Inr (), snd (Db_update my sql c)))) c = (Inr (), c') \<and> tabs c' = apply_stmt 0 st (tabs c)"
proof -
  obtain c1 where c1: "with_db my () (bind_act (sprintf_sql (stmt_text st))
      (\<lambda>sql c. (Inr (), snd (Db_update my sql c)))) c =
      (case bind_act (sprintf_sql (stmt_text st)) (\<lambda>sql c. (Inr (), snd (Db_update my sql c))) c1 of
        (r, c2) \<Rightarrow> (r, my_close my c2))" "tabs c1 = tabs c" "\<not> pending c1"
    by (rule with_db_up [OF ok])
  from mysql_okD(5) [OF ok c1(3) st(1,2)] st(3) c1 mysql_okD(11) [OF ok] show ?thesis
    by (auto simp: bind_act_simps Db_update_def)
qed

lemma run_insert:
  assumes ok: "mysql_ok my tabs pending" and st: "stmt_safe st" "is_insert st" "length (stmt_text st) \<le> 1023"
  shows "\<exists>c'. with_db my () (bind_act (sprintf_sql (stmt_text st))
      (\<lambda>sql c. (Inr (), snd (Db_update my sql c)))) c = (Inr (), c') \<and>
      (tabs c' = tabs c \<or> (\<exists>new. new_id_ok new st (tabs c) \<and> tabs c' = apply_stmt new st (tabs c)))"
proof -
  obtain c1 where c1: "with_db my () (bind_act (sprintf_sql (stmt_text st))
      (\<lambda>sql c. (Inr (), snd (Db_update my sql c)))) c =
      (case bind_act (sprintf_sql (stmt_text st)) (\<lambda>sql c. (Inr (), snd (Db_update my sql c))) c1 of
        (r, c2) \<Rightarrow> (r, my_close my c2))" "tabs c1 = tabs c" "\<not> pending c1"
    by (rule with_db_up [OF ok])
  from mysql_okD(6) [OF ok c1(3) st(1,2)] st(3) c1 mysql_okD(11) [OF ok] show ?thesis
    by (fastforce simp: bind_act_simps Db_update_def split: if_splits)
qed

text \<open>A query; turning a row into a value must keep the tables and the connection busy.\<close>

lemma run_select:
  assumes ok: "mysql_ok my tabs pending" and st: "is_select st" "length (stmt_text st) \<le> 1023"
    and body: "\<And>row c. row \<in> set (stmt_rows st (tabs c0)) \<Longrightarrow> pending c \<Longrightarrow> tabs c = tabs c0 \<Longrightarrow>
      \<exists>c'. body row c = (Inr (g row), c') \<and> pending c' \<and> tabs c' = tabs c0"
  shows "\<exists>c' rows. with_db my [] (bind_act (sprintf_sql (stmt_text st)) (\<lambda>sql. select_rows my sql body)) c0 =
      (Inr (map g rows), c') \<and> mset rows = mset (stmt_rows st (tabs c0)) \<and> tabs c' = tabs c0"
proof -
  obtain c where c: "with_db my [] (bind_act (sprintf_sql (stmt_text st)) (\<lambda>sql. select_rows my sql body)) c0 =
      (case bind_act (sprintf_sql (stmt_text st)) (\<lambda>sql. select_rows my sql body) c of
        (r, c2) \<Rightarrow> (r, my_close my c2))" "tabs c = tabs c0" "\<not> pending c"
    by (rule with_db_up [OF ok])
  obtain c1 rows c2 where q: "my_query my (stmt_text st) c = (True, c1)" "my_use_result my c1 = (Some rows, c2)"
      "mset rows = mset (stmt_rows st (tabs c))" "tabs c2 = tabs c" "pending c2"
    using mysql_okD(7) [OF ok c(3) st(1)] by blast
  have "set rows = set (stmt_rows st (tabs c0))" using q(3) c(2) by (metis mset_eq_setD)
  then obtain c3 where c3: "map_act body rows c2 = (Inr (map g rows), c3)" "tabs c3 = tabs c0"
    using map_act_keeps [of rows "\<lambda>c. pending c \<and> tabs c = tabs c0" body g c2] body q(4,5) c(2) by auto
  then have "bind_act (sprintf_sql (stmt_text st)) (\<lambda>sql. select_rows my sql body) c =
      (Inr (map g rows), my_free_result my (my_fetch_end my c3))"
    using st(2) q by (simp add: bind_act_simps select_rows_def Db_query_def fetch_rows_def)
  with c q(3,4) c3(2) mysql_okD(8,10,11) [OF ok] show ?thesis by auto
qed

lemma select_single:
  assumes "mset rows = mset [x]" shows "rows = [x]"
  using assms by simp

section \<open>The models on the tables\<close>

definition tables_ok :: "chat_tables \<Rightarrow> bool" where
  "tables_ok t \<longleftrightarrow> distinct (map fst (t_users t)) \<and>
     (\<forall>i \<in> fst ` set (t_users t). 0 < i \<and> int_range i) \<and>
     (\<forall>i \<in> fst ` set (t_groups t). int_range i) \<and>
     (\<forall>(g, u, r) \<in> set (t_members t). int_range u)"

definition user_lookup :: "chat_tables \<Rightarrow> int \<Rightarrow> user" where
  "user_lookup t i = (case map_of (t_users t) i of
     None \<Rightarrow> new_user | Some (n, p, s) \<Rightarrow> User_make i n p s)"

definition set_state :: "int \<Rightarrow> string \<Rightarrow> chat_tables \<Rightarrow> chat_tables" where
  "set_state i s t = apply_stmt 0 (Upd_state s i) t"

lemmas sql_texts = sql_insert_user_def sql_update_state_def sql_reset_state_def sql_insert_friend_def
  sql_insert_offline_def sql_delete_offline_def sql_insert_group_def sql_insert_member_def
  sql_select_user_def sql_select_friends_def sql_select_offline_def sql_select_groups_def
  sql_select_members_def sql_select_member_ids_def

lemma c_str_safe [simp]: "sql_safe s \<Longrightarrow> c_str s = s"
  by (simp add: sql_safe_def c_str_plain)

lemma Sel_user_rows:
  "distinct (map fst us) \<Longrightarrow>
   [[num_col j, Some n, Some p, Some s]. (j, n, p, s) \<leftarrow> us, j = i] =
   (case map_of us i of None \<Rightarrow> [] | Some (n, p, s) \<Rightarrow> [[num_col i, Some n, Some p, Some s]])"
proof (induction us)
  case (Cons u us)
  obtain j n p s where u: "u = (j, n, p, s)" by (cases u)
  have "map_of us j = None" using Cons.prems u by (simp add: map_of_eq_None_iff)
  with Cons u show ?case by (auto split: option.splits)
qed simp

lemma UserModel_query_spec:
  assumes ok: "mysql_ok my tabs pending" and t: "tables_ok (tabs c0)" and i: "int_range i"
  shows "\<exists>c'. UserModel_query my i c0 = (Inr (user_lookup (tabs c0) i), c') \<and> tabs c' = tabs c0"
proof -
  let ?body = "bind_act (sprintf_sql (sql_select_user i))
         (\<lambda>sql c. case Db_query my sql c of
            (None, c1) \<Rightarrow> (Inr new_user, c1)
          | (Some [], c1) \<Rightarrow> (Inr new_user, my_free_result my (my_fetch_end my c1))
          | (Some (row # rows), c1) \<Rightarrow>
              bind_act (user_of_row row) (\<lambda>u. bind_act (change (my_free_result my)) (\<lambda>_. ret u)) c1)"
  obtain c where c: "with_db my new_user ?body c0 = (case ?body c of (r, c2) \<Rightarrow> (r, my_close my c2))"
      "tabs c = tabs c0" "\<not> pending c"
    by (rule with_db_up [OF ok])
  obtain c1 rows c2 where q: "my_query my (sql_select_user i) c = (True, c1)" "my_use_result my c1 = (Some rows, c2)"
      "mset rows = mset (stmt_rows (Sel_user i) (tabs c0))" "tabs c2 = tabs c0"
    using mysql_okD(7) [OF ok c(3), of "Sel_user i"] c(2) by auto
  have len: "length (sql_select_user i) \<le> 1023"
    using to_string_length [OF i] by (simp add: sql_select_user_def)
  have cs: "c_str (sql_select_user i) = sql_select_user i"
    using c_str_stmt [of "Sel_user i"] by simp
  have t2: "tabs (my_close my (my_free_result my x)) = tabs x" for x
    using mysql_okD(10,11) [OF ok] by simp
  note tb = mysql_okD(8,11) [OF ok] t2 q(4)
  have r: "mset rows = mset (case map_of (t_users (tabs c0)) i of
      None \<Rightarrow> [] | Some (n, p, s) \<Rightarrow> [[num_col i, Some n, Some p, Some s]])"
    using q(3) Sel_user_rows [of "t_users (tabs c0)" i] t by (simp add: tables_ok_def)
  have "\<exists>c'. ?body c = (Inr (user_lookup (tabs c0) i), c') \<and> tabs (my_close my c') = tabs c0"
  proof (cases "map_of (t_users (tabs c0)) i")
    case None
    with r have "rows = []" by simp
    with q(1,2) len cs tb None show ?thesis
      by (simp add: Db_query_def user_lookup_def)
  next
    case (Some nps)
    obtain n p s where nps: "nps = (n, p, s)" by (cases nps)
    with r Some have "rows = [[num_col i, Some n, Some p, Some s]]" by simp
    with q(1,2) len cs tb Some nps atoi_range [OF i] show ?thesis
      by (simp add: Db_query_def user_lookup_def user_of_row_def num_col_def bind_act_simps column_def
          user_setters new_user_def User_make_def)
  qed
  with c(1) show ?thesis by (auto simp: UserModel_query_def)
qed

lemma UserModel_updateState_spec:
  assumes ok: "mysql_ok my tabs pending" and i: "int_range (usr_id u)"
    and s: "usr_state u \<in> {''online'', ''offline''}"
  shows "\<exists>c'. UserModel_updateState my u c0 = (Inr True, c') \<and>
    tabs c' = set_state (usr_id u) (usr_state u) (tabs c0)"
proof -
  let ?st = "Upd_state (usr_state u) (usr_id u)"
  let ?body = "bind_act (sprintf_sql (sql_update_state (usr_state u) (usr_id u)))
         (\<lambda>sql c. case Db_update my sql c of (ok, c1) \<Rightarrow> (Inr ok, c1))"
  obtain c where c: "with_db my False ?body c0 = (case ?body c of (r, c2) \<Rightarrow> (r, my_close my c2))"
      "tabs c = tabs c0" "\<not> pending c"
    by (rule with_db_up [OF ok])
  have safe: "sql_safe (usr_state u)" using s by (auto simp: sql_safe_def)
  then obtain c1 where c1: "my_query my (sql_update_state (usr_state u) (usr_id u)) c = (True, c1)"
      "tabs c1 = apply_stmt 0 ?st (tabs c0)"
    using mysql_okD(5) [OF ok c(3), of ?st] c(2) by auto
  have "length (usr_state u) \<le> 7" using s by auto
  then have len: "length (sql_update_state (usr_state u) (usr_id u)) \<le> 1023"
    using to_string_length [OF i] safe by (simp add: sql_update_state_def)
  have cs: "c_str (sql_update_state (usr_state u) (usr_id u)) = sql_update_state (usr_state u) (usr_id u)"
    using c_str_stmt [of ?st] by simp
  show ?thesis
    using c(1) c1 len cs mysql_okD(11) [OF ok]
    by (simp add: UserModel_updateState_def Db_update_def set_state_def)
qed

text \<open>A message whose statement does not fit the buffer of 1024 bytes.\<close>

definition too_long :: "int \<Rightarrow> string \<Rightarrow> bool" where
  "too_long i msg \<longleftrightarrow> 983 < length (to_string i) + length msg"

lemma OfflineMsgModel_insert_any:
  assumes ok: "mysql_ok my tabs pending" and safe: "sql_safe msg"
  shows "\<exists>c'. OfflineMsgModel_insert my i msg c0 = (if too_long i msg then Inl Sql_overflow else Inr (), c') \<and>
    tabs c' = (if too_long i msg then tabs c0 else (tabs c0)\<lparr>t_offline := t_offline (tabs c0) @ [(i, msg)]\<rparr>)"
proof (cases "too_long i msg")
  case True
  let ?body = "bind_act (sprintf_sql (sql_insert_offline i msg)) (\<lambda>sql c. (Inr (), snd (Db_update my sql c)))"
  obtain c where c: "with_db my () ?body c0 = (case ?body c of (r, c2) \<Rightarrow> (r, my_close my c2))" "tabs c = tabs c0"
    by (rule with_db_up [OF ok])
  have "1023 < length (sql_insert_offline i msg)"
    using True safe by (simp add: sql_insert_offline_def too_long_def)
  with c True mysql_okD(11) [OF ok] show ?thesis by (simp add: OfflineMsgModel_insert_def)
next
  case False
  then have "length (stmt_text (Ins_offline i msg)) \<le> 1023"
    using safe by (simp add: sql_insert_offline_def too_long_def)
  with run_change [OF ok, of "Ins_offline i msg"] safe False show ?thesis
    by (simp add: OfflineMsgModel_insert_def)
qed

lemma OfflineMsgModel_remove_spec:
  assumes "mysql_ok my tabs pending" and "int_range i"
  shows "\<exists>c'. OfflineMsgModel_remove my i c0 = (Inr (), c') \<and>
    tabs c' = (tabs c0)\<lparr>t_offline := filter (\<lambda>(j, m). j \<noteq> i) (t_offline (tabs c0))\<rparr>"
  using run_change [OF assms(1), of "Del_offline i"] to_string_length [OF assms(2)]
  by (simp add: OfflineMsgModel_remove_def sql_delete_offline_def)

definition offline_of :: "chat_tables \<Rightarrow> int \<Rightarrow> string list" where
  "offline_of t i = [m. (u, m) \<leftarrow> t_offline t, u = i]"

lemma offline_rows:
  "map (\<lambda>row. the (row ! 0)) [[Some m]. (u, m) \<leftarrow> xs, u = i] = [m. (u, m) \<leftarrow> xs, u = i]"
  by (induction xs) auto

lemma OfflineMsgModel_query_spec:
  assumes ok: "mysql_ok my tabs pending" and i: "int_range i"
  shows "\<exists>c' ms. OfflineMsgModel_query my i c0 = (Inr ms, c') \<and> tabs c' = tabs c0 \<and>
    mset ms = mset (offline_of (tabs c0) i)"
proof -
  let ?g = "\<lambda>row :: row. the (row ! 0)"
  have len: "length (stmt_text (Sel_offline i)) \<le> 1023"
    using to_string_length [OF i] by (simp add: sql_select_offline_def)
  obtain c' rows where r: "OfflineMsgModel_query my i c0 = (Inr (map ?g rows), c')"
      "mset rows = mset (stmt_rows (Sel_offline i) (tabs c0))" "tabs c' = tabs c0"
    using run_select [OF ok _ len, of c0 "\<lambda>row. column row 0" ?g]
    by (fastforce simp: OfflineMsgModel_query_def split: if_splits)
  have "mset (map ?g rows) = image_mset ?g (mset (stmt_rows (Sel_offline i) (tabs c0)))"
    by (simp add: r(2))
  also have "\<dots> = mset (offline_of (tabs c0) i)"
    using offline_rows [of i "t_offline (tabs c0)"]
    by (simp add: offline_of_def flip: mset_map del: map_concat)
  finally show ?thesis using r(1,3) by blast
qed

lemma FriendModel_insert_spec:
  assumes "mysql_ok my tabs pending" and "int_range i" and "int_range j"
  shows "\<exists>c'. FriendModel_insert my i j c0 = (Inr (), c') \<and>
    (tabs c' = tabs c0 \<or> tabs c' = (tabs c0)\<lparr>t_friends := t_friends (tabs c0) @ [(i, j)]\<rparr>)"
  using run_insert [OF assms(1), of "Ins_friend i j" c0] to_string_length [OF assms(2)] to_string_length [OF assms(3)]
  by (auto simp: FriendModel_insert_def sql_insert_friend_def)

lemma GroupModel_addGroup_spec:
  assumes "mysql_ok my tabs pending" and "int_range u" and "int_range g" and "role \<in> {''creator'', ''normal''}"
  shows "\<exists>c'. GroupModel_addGroup my u g role c0 = (Inr (), c') \<and>
    (tabs c' = tabs c0 \<or> tabs c' = (tabs c0)\<lparr>t_members := t_members (tabs c0) @ [(g, u, role)]\<rparr>)"
proof -
  have "sql_safe role" "length role \<le> 7" using assms(4) by (auto simp: sql_safe_def)
  then show ?thesis
    using run_insert [OF assms(1), of "Ins_member g u role" c0] to_string_length [OF assms(2)]
      to_string_length [OF assms(3)]
    by (auto simp: GroupModel_addGroup_def sql_insert_member_def)
qed

text \<open>Insertions that return the new id in the object.\<close>

lemma sint_new_id [simp]: "int_range i \<Longrightarrow> sint (word_of_int i :: u32) = i"
  by (simp add: int_range_def sint_word_of_int32)

lemma run_insert_id:
  assumes ok: "mysql_ok my tabs pending" and st: "stmt_safe st" "is_insert st" "length (stmt_text st) \<le> 1023"
  shows "\<exists>ins new c'. with_db my (False, x) (bind_act (sprintf_sql (stmt_text st))
      (\<lambda>sql c. case Db_update my sql c of
         (True, c1) \<Rightarrow> (Inr (True, f (sint (word_of_int (my_insert_id my c1) :: u32))), c1)
       | (False, c1) \<Rightarrow> (Inr (False, x), c1))) c0 =
      (Inr (if ins then (True, f (sint (word_of_int new :: u32))) else (False, x)), c') \<and>
    (if ins then new_id_ok new st (tabs c0) \<and> tabs c' = apply_stmt new st (tabs c0) else tabs c' = tabs c0)"
proof -
  let ?body = "bind_act (sprintf_sql (stmt_text st))
      (\<lambda>sql c. case Db_update my sql c of
         (True, c1) \<Rightarrow> (Inr (True, f (sint (word_of_int (my_insert_id my c1) :: u32))), c1)
       | (False, c1) \<Rightarrow> (Inr (False, x), c1))"
  obtain c where c: "with_db my (False, x) ?body c0 = (case ?body c of (r, c2) \<Rightarrow> (r, my_close my c2))"
      "tabs c = tabs c0" "\<not> pending c"
    by (rule with_db_up [OF ok])
  obtain q c1 where c1: "my_query my (stmt_text st) c = (q, c1)"
      "tabs c1 = (if q then apply_stmt (my_insert_id my c1) st (tabs c0) else tabs c0)"
      "q \<longrightarrow> new_id_ok (my_insert_id my c1) st (tabs c0)"
    using mysql_okD(6) [OF ok c(3) st(1,2)] c(2) by auto
  then have "?body c = (Inr (if q then (True, f (sint (word_of_int (my_insert_id my c1) :: u32))) else (False, x)), c1)"
    using st(3) by (simp add: Db_update_def)
  with c(1) c1 mysql_okD(11) [OF ok] show ?thesis
    by (intro exI [of _ q] exI [of _ "my_insert_id my c1"] exI [of _ "my_close my c1"]) simp
qed

lemma UserModel_insert_spec:
  assumes ok: "mysql_ok my tabs pending" and s: "sql_safe (usr_name u)" "sql_safe (usr_pwd u)" "sql_safe (usr_state u)"
    and len: "length (usr_name u) + length (usr_pwd u) + length (usr_state u) \<le> 900"
  shows "\<exists>ins u' c'. UserModel_insert my u c0 = (Inr (ins, u'), c') \<and>
    (if ins then 0 < usr_id u' \<and> int_range (usr_id u') \<and> usr_id u' \<notin> fst ` set (t_users (tabs c0)) \<and>
         u' = u\<lparr>usr_id := usr_id u'\<rparr> \<and>
         tabs c' = (tabs c0)\<lparr>t_users := t_users (tabs c0) @ [(usr_id u', usr_name u, usr_pwd u, usr_state u)]\<rparr>
     else u' = u \<and> tabs c' = tabs c0)"
proof -
  let ?st = "Ins_user (usr_name u) (usr_pwd u) (usr_state u)"
  have "length (stmt_text ?st) \<le> 1023" using len s by (simp add: sql_insert_user_def)
  from run_insert_id [OF ok _ _ this, where f = "\<lambda>i. User_setId i u" and x = u, of c0] s
  obtain ins new c' where "UserModel_insert my u c0 =
      (Inr (if ins then (True, User_setId (sint (word_of_int new :: u32)) u) else (False, u)), c')"
      "if ins then new_id_ok new ?st (tabs c0) \<and> tabs c' = apply_stmt new ?st (tabs c0) else tabs c' = tabs c0"
    by (auto simp: UserModel_insert_def)
  then show ?thesis by (cases ins) (auto simp: User_setId_def)
qed

lemma GroupModel_createGroup_spec:
  assumes ok: "mysql_ok my tabs pending" and s: "sql_safe (grp_name g)" "sql_safe (grp_desc g)"
    and len: "length (grp_name g) + length (grp_desc g) \<le> 900"
  shows "\<exists>ins g' c'. GroupModel_createGroup my g c0 = (Inr (ins, g'), c') \<and>
    (if ins then 0 < grp_id g' \<and> int_range (grp_id g') \<and> grp_id g' \<notin> fst ` set (t_groups (tabs c0)) \<and>
         g' = g\<lparr>grp_id := grp_id g'\<rparr> \<and>
         tabs c' = (tabs c0)\<lparr>t_groups := t_groups (tabs c0) @ [(grp_id g', grp_name g, grp_desc g)]\<rparr>
     else g' = g \<and> tabs c' = tabs c0)"
proof -
  let ?st = "Ins_group (grp_name g) (grp_desc g)"
  have "length (stmt_text ?st) \<le> 1023" using len s by (simp add: sql_insert_group_def)
  from run_insert_id [OF ok _ _ this, where f = "\<lambda>i. Group_setId i g" and x = g, of c0] s
  obtain ins new c' where "GroupModel_createGroup my g c0 =
      (Inr (if ins then (True, Group_setId (sint (word_of_int new :: u32)) g) else (False, g)), c')"
      "if ins then new_id_ok new ?st (tabs c0) \<and> tabs c' = apply_stmt new ?st (tabs c0) else tabs c' = tabs c0"
    by (auto simp: GroupModel_createGroup_def)
  then show ?thesis by (cases ins) (auto simp: Group_setId_def)
qed

lemma UserModel_resetState_spec:
  assumes "mysql_ok my tabs pending"
  shows "\<exists>c'. UserModel_resetState my c0 = (Inr (), c') \<and> tabs c' = apply_stmt 0 Reset_state (tabs c0)"
  using run_change [OF assms, of Reset_state] by (simp add: UserModel_resetState_def sql_reset_state_def c_str_plain)

text \<open>The lists a login answers with.\<close>

definition friend_user :: "int \<times> string \<times> string \<times> string \<Rightarrow> user" where
  "friend_user = (\<lambda>(a, n, p, s). User_make a n [] s)"

definition friends_of :: "chat_tables \<Rightarrow> int \<Rightarrow> user list" where
  "friends_of t i = concat (map (\<lambda>us. map (\<lambda>_. friend_user us) (filter (\<lambda>(u, f). f = fst us \<and> u = i) (t_friends t)))
     (t_users t))"

definition groups_of :: "chat_tables \<Rightarrow> int \<Rightarrow> chat_group list" where
  "groups_of t i = concat (map (\<lambda>(a, n, d). map (\<lambda>_. Group_make a n d)
     (filter (\<lambda>(g, u, r). g = a \<and> u = i) (t_members t))) (t_groups t))"

definition others_of :: "chat_tables \<Rightarrow> int \<Rightarrow> int \<Rightarrow> int list" where
  "others_of t g i = map (\<lambda>(g, u, r). u) (filter (\<lambda>(g', u, r). g' = g \<and> u \<noteq> i) (t_members t))"

definition row_friend :: "row \<Rightarrow> user" where
  "row_friend row = User_make (atoi (the (row ! 0))) (the (row ! 1)) [] (the (row ! 2))"

definition row_group :: "row \<Rightarrow> chat_group" where
  "row_group row = Group_make (atoi (the (row ! 0))) (the (row ! 1)) (the (row ! 2))"

lemma concat_filter: "concat (map (\<lambda>x. if P x then [f x] else []) xs) = map f (filter P xs)"
  by (induction xs) auto

lemma Sel_friends_rows:
  assumes "\<forall>a \<in> fst ` set us. int_range a"
  shows "map row_friend [[num_col a, Some n, Some s]. (a, n, p, s) \<leftarrow> us, (u, f) \<leftarrow> fs, f = a \<and> u = i] =
    concat (map (\<lambda>us. map (\<lambda>_. friend_user us) (filter (\<lambda>(u, f). f = fst us \<and> u = i) fs)) us)"
  using assms
proof (induction us)
  case (Cons x us)
  obtain a n p s where x: "x = (a, n, p, s)" by (cases x)
  have "row_friend [num_col a, Some n, Some s] = friend_user (a, n, p, s)"
    using Cons.prems x by (simp add: row_friend_def friend_user_def num_col_def atoi_range)
  then have "map row_friend [[num_col a, Some n, Some s]. (u, f) \<leftarrow> gs, f = a \<and> u = i] =
      map (\<lambda>_. friend_user (a, n, p, s)) (filter (\<lambda>(u, f). f = a \<and> u = i) gs)" for gs
    by (induction gs) (auto split: if_splits)
  with Cons x show ?case by simp
qed simp

lemma Sel_groups_rows:
  assumes "\<forall>a \<in> fst ` set gs. int_range a"
  shows "map row_group [[num_col a, Some n, Some d]. (a, n, d) \<leftarrow> gs, (g, u, r) \<leftarrow> ms, g = a \<and> u = i] =
    concat (map (\<lambda>(a, n, d). map (\<lambda>_. Group_make a n d) (filter (\<lambda>(g, u, r). g = a \<and> u = i) ms)) gs)"
  using assms
proof (induction gs)
  case (Cons x gs)
  obtain a n d where x: "x = (a, n, d)" by (cases x)
  have "row_group [num_col a, Some n, Some d] = Group_make a n d"
    using Cons.prems x by (simp add: row_group_def num_col_def atoi_range)
  then have "map row_group [[num_col a, Some n, Some d]. (g, u, r) \<leftarrow> ls, g = a \<and> u = i] =
      map (\<lambda>_. Group_make a n d) (filter (\<lambda>(g, u, r). g = a \<and> u = i) ls)" for ls
    by (induction ls) (auto split: if_splits)
  with Cons x show ?case by simp
qed simp

lemma Sel_member_ids_rows:
  assumes "\<forall>(g, u, r) \<in> set ms. int_range u"
  shows "map (\<lambda>row. atoi (the (row ! 0))) [[num_col u]. (g, u, r) \<leftarrow> ms, g = k \<and> u \<noteq> i] =
    map (\<lambda>(g, u, r). u) (filter (\<lambda>(g', u, r). g' = k \<and> u \<noteq> i) ms)"
  using assms by (induction ms) (auto simp: num_col_def atoi_range split: if_splits)

lemma FriendModel_query_spec:
  assumes ok: "mysql_ok my tabs pending" and t: "tables_ok (tabs c0)" and i: "int_range i"
  shows "\<exists>c' us. FriendModel_query my i c0 = (Inr us, c') \<and> tabs c' = tabs c0 \<and>
    mset us = mset (friends_of (tabs c0) i)"
proof -
  have len: "length (stmt_text (Sel_friends i)) \<le> 1023"
    using to_string_length [OF i] by (simp add: sql_select_friends_def)
  have body: "friend_of_row row c = (Inr (row_friend row), c)"
    if "row \<in> set (stmt_rows (Sel_friends i) (tabs c0))" for row and c :: 'a
    using that by (auto simp: friend_of_row_def row_friend_def num_col_def column_def bind_act_simps user_setters
        new_user_def User_make_def split: if_splits)
  obtain c' rows where r: "FriendModel_query my i c0 = (Inr (map row_friend rows), c')"
      "mset rows = mset (stmt_rows (Sel_friends i) (tabs c0))" "tabs c' = tabs c0"
    using run_select [OF ok _ len, of c0 friend_of_row row_friend] body
    by (fastforce simp: FriendModel_query_def)
  have "mset (map row_friend rows) = mset (map row_friend (stmt_rows (Sel_friends i) (tabs c0)))"
    by (simp add: r(2))
  also have "\<dots> = mset (friends_of (tabs c0) i)"
    using Sel_friends_rows [where us = "t_users (tabs c0)" and fs = "t_friends (tabs c0)" and i = i] t
    by (simp add: friends_of_def tables_ok_def del: map_concat)
  finally show ?thesis using r(1,3) by blast
qed

text \<open>
  The groups of a user come back without their members: the query for the members is made while
  the groups are still being fetched, so it fails.
\<close>

lemma GroupModel_queryGroups_spec:
  assumes ok: "mysql_ok my tabs pending" and t: "tables_ok (tabs c0)" and i: "int_range i"
  shows "\<exists>c' gs. GroupModel_queryGroups my i c0 = (Inr gs, c') \<and> tabs c' = tabs c0 \<and>
    mset gs = mset (groups_of (tabs c0) i) \<and> (\<forall>g \<in> set gs. grp_users g = [])"
proof -
  have len: "length (stmt_text (Sel_groups i)) \<le> 1023"
    using to_string_length [OF i] by (simp add: sql_select_groups_def)
  have body: "\<exists>c'. group_of_row my row c = (Inr (row_group row), c') \<and> pending c' \<and> tabs c' = tabs c0"
    if row: "row \<in> set (stmt_rows (Sel_groups i) (tabs c0))" and c: "pending c" "tabs c = tabs c0" for row c
  proof -
    obtain a n d where r: "row = [num_col a, Some n, Some d]" "(a, n, d) \<in> set (t_groups (tabs c0))"
      using row by (auto split: if_splits)
    then have a: "int_range a" using t by (force simp: tables_ok_def)
    obtain c1 where c1: "my_query my (c_str (sql_select_members a)) c = (False, c1)" "tabs c1 = tabs c0" "pending c1"
      using mysql_okD(4) [OF ok c(1)] c(2) by metis
    have "length (sql_select_members a) \<le> 1023"
      using to_string_length [OF a] by (simp add: sql_select_members_def)
    with c1 r(1) atoi_range [OF a] show ?thesis
      by (simp add: group_of_row_def num_col_def column_def bind_act_simps group_setters new_group_def
          select_rows_def Db_query_def row_group_def Group_make_def)
  qed
  obtain c' rows where r: "GroupModel_queryGroups my i c0 = (Inr (map row_group rows), c')"
      "mset rows = mset (stmt_rows (Sel_groups i) (tabs c0))" "tabs c' = tabs c0"
    using run_select [OF ok _ len, of c0 "group_of_row my" row_group] body
    by (fastforce simp: GroupModel_queryGroups_def)
  have "mset (map row_group rows) = mset (map row_group (stmt_rows (Sel_groups i) (tabs c0)))"
    by (simp add: r(2))
  also have "\<dots> = mset (groups_of (tabs c0) i)"
    using Sel_groups_rows [where gs = "t_groups (tabs c0)" and ms = "t_members (tabs c0)" and i = i] t
    by (simp add: groups_of_def tables_ok_def del: map_concat)
  finally show ?thesis using r(1,3) by (auto simp: row_group_def Group_make_def)
qed

lemma GroupModel_queryGroupUsers_spec:
  assumes ok: "mysql_ok my tabs pending" and t: "tables_ok (tabs c0)" and i: "int_range i" "int_range g"
  shows "\<exists>c' ids. GroupModel_queryGroupUsers my i g c0 = (Inr ids, c') \<and> tabs c' = tabs c0 \<and>
    mset ids = mset (others_of (tabs c0) g i)"
proof -
  let ?g = "\<lambda>row :: row. atoi (the (row ! 0))"
  let ?body = "\<lambda>row. bind_act (column row 0) (\<lambda>i. ret (atoi i))"
  have len: "length (stmt_text (Sel_member_ids g i)) \<le> 1023"
    using to_string_length [OF i(1)] to_string_length [OF i(2)] by (simp add: sql_select_member_ids_def)
  have body: "?body row c = (Inr (?g row), c)"
    if "row \<in> set (stmt_rows (Sel_member_ids g i) (tabs c0))" for row and c :: 'a
    using that by (auto simp: num_col_def column_def bind_act_simps split: if_splits)
  obtain c' rows where r: "GroupModel_queryGroupUsers my i g c0 = (Inr (map ?g rows), c')"
      "mset rows = mset (stmt_rows (Sel_member_ids g i) (tabs c0))" "tabs c' = tabs c0"
    using run_select [OF ok _ len, of c0 ?body ?g] body
    by (fastforce simp: GroupModel_queryGroupUsers_def)
  have "mset (map ?g rows) = mset (map ?g (stmt_rows (Sel_member_ids g i) (tabs c0)))"
    by (simp add: r(2))
  also have "\<dots> = mset (others_of (tabs c0) g i)"
    using Sel_member_ids_rows [of "t_members (tabs c0)" g i] t
    by (simp add: others_of_def tables_ok_def del: map_concat)
  finally show ?thesis using r(1,3) by blast
qed

end
