(* ===== verification/ChatService.thy ===== *)
theory ChatService
  imports ChatTables
begin

text \<open>
  The business layer of the chat server, \<^verbatim>\<open>chat-main/src/server/ChatService.cpp\<close>, and its
  network entry, \<^verbatim>\<open>ChatServer.cpp\<close>. A handler is an action on the database, the map of the
  connections of the users logged in at this server, and the trace of what is sent, published
  and subscribed. The JSON library parses and prints; its values are the datatype below.
\<close>

section \<open>JSON values\<close>

text \<open>
  An object is the list of its entries in the order of their keys, as in the \<^verbatim>\<open>std::map\<close> that
  holds them. Numbers with a fraction are left out.
\<close>

datatype json = JNull | JBool bool | JInt int | JStr string | JArr "json list" | JObj "(string \<times> json) list"

text \<open>\<open>js_parse\<close> is \<^verbatim>\<open>json::parse\<close>, \<open>js_dump\<close> is \<^verbatim>\<open>dump()\<close>; both may throw.\<close>

record json_lib =
  js_parse :: "string \<Rightarrow> json option"
  js_dump :: "json \<Rightarrow> string option"

text \<open>\<^verbatim>\<open>js[key]\<close>: a missing key of an object reads as null.\<close>

fun json_at :: "json \<Rightarrow> string \<Rightarrow> chat_fault + json" where
  "json_at (JObj kvs) k = Inr (case map_of kvs k of None \<Rightarrow> JNull | Some v \<Rightarrow> v)"
| "json_at JNull k = Inr JNull"
| "json_at _ k = Inl Json_type"

fun json_get_int :: "json \<Rightarrow> chat_fault + int" where
  "json_get_int (JInt i) = Inr (sint (word_of_int i :: u32))"
| "json_get_int (JBool b) = Inr (if b then 1 else 0)"
| "json_get_int _ = Inl Json_type"

fun json_get_string :: "json \<Rightarrow> chat_fault + string" where
  "json_get_string (JStr s) = Inr s"
| "json_get_string _ = Inl Json_type"

definition int_at :: "json \<Rightarrow> string \<Rightarrow> ('w, int) action" where
  "int_at js k = lift_res (bind_res (json_at js k) json_get_int)"

definition str_at :: "json \<Rightarrow> string \<Rightarrow> ('w, string) action" where
  "str_at js k = lift_res (bind_res (json_at js k) json_get_string)"

text \<open>\<^verbatim>\<open>js[key] = value\<close>: the entry is replaced, or entered at its place.\<close>

fun key_less :: "string \<Rightarrow> string \<Rightarrow> bool" where
  "key_less s [] = False"
| "key_less [] (d # t) = True"
| "key_less (c # s) (d # t) = (if c = d then key_less s t else (of_char c :: nat) < of_char d)"

fun obj_put :: "string \<Rightarrow> json \<Rightarrow> (string \<times> json) list \<Rightarrow> (string \<times> json) list" where
  "obj_put k v [] = [(k, v)]"
| "obj_put k v ((a, b) # kvs) =
     (if k = a then (k, v) # kvs else if key_less k a then (k, v) # (a, b) # kvs else (a, b) # obj_put k v kvs)"

text \<open>The object that a sequence of such assignments makes of a null value.\<close>

definition json_obj :: "(string \<times> json) list \<Rightarrow> json" where
  "json_obj kvs = JObj (fold (\<lambda>(k, v). obj_put k v) kvs [])"

lemma map_of_obj_put: "map_of (obj_put k v kvs) = (map_of kvs)(k \<mapsto> v)"
  by (induction kvs) (auto simp: fun_eq_iff)

lemma map_of_obj_puts: "map_of (fold (\<lambda>(k, v). obj_put k v) kvs xs) = map_of xs ++ map_of (rev kvs)"
  by (induction kvs arbitrary: xs) (auto simp: map_of_obj_put)

lemma json_at_obj [simp]:
  "json_at (json_obj kvs) k = Inr (case map_of (rev kvs) k of None \<Rightarrow> JNull | Some v \<Rightarrow> v)"
  by (simp add: json_obj_def map_of_obj_puts)

section \<open>The service\<close>

type_synonym conn = nat

datatype chat_effect =
    Ef_send conn string | Ef_publish string string | Ef_subscribe string | Ef_unsubscribe string
  | Ef_shutdown conn

record 'c chat_world =
  cw_db :: 'c
  cw_conns :: "int \<rightharpoonup> conn"
  cw_out :: "chat_effect list"

definition on_db :: "('c, 'a) action \<Rightarrow> ('c chat_world, 'a) action" where
  "on_db f w = (case f (cw_db w) of (r, c) \<Rightarrow> (r, w\<lparr>cw_db := c\<rparr>))"

definition effect :: "chat_effect \<Rightarrow> ('c chat_world, unit) action" where
  "effect e = change (\<lambda>w. w\<lparr>cw_out := cw_out w @ [e]\<rparr>)"

definition dump :: "json_lib \<Rightarrow> json \<Rightarrow> ('w, string) action" where
  "dump lib js = (case js_dump lib js of None \<Rightarrow> raise Json_utf8 | Some s \<Rightarrow> ret s)"

definition user_channel :: "int \<Rightarrow> string" where
  "user_channel i = ''chat:user:'' @ to_string i"

definition LOGIN_MSG :: int where "LOGIN_MSG = 1"
definition REG_MSG :: int where "REG_MSG = 2"
definition ONE_CHAT_MSG :: int where "ONE_CHAT_MSG = 3"
definition LOGINOUT_MSG :: int where "LOGINOUT_MSG = 4"
definition ADD_FRIEND_MSG :: int where "ADD_FRIEND_MSG = 5"
definition CREATE_GROUP_MSG :: int where "CREATE_GROUP_MSG = 6"
definition ADD_GROUP_MSG :: int where "ADD_GROUP_MSG = 7"
definition GROUP_CHAT_MSG :: int where "GROUP_CHAT_MSG = 8"

lemmas msg_types = LOGIN_MSG_def REG_MSG_def ONE_CHAT_MSG_def LOGINOUT_MSG_def ADD_FRIEND_MSG_def
  CREATE_GROUP_MSG_def ADD_GROUP_MSG_def GROUP_CHAT_MSG_def

definition send_json :: "json_lib \<Rightarrow> conn \<Rightarrow> json \<Rightarrow> ('c chat_world, unit) action" where
  "send_json lib conn js = bind_act (dump lib js) (\<lambda>s. effect (Ef_send conn s))"

definition loginout :: "'c mysql \<Rightarrow> json \<Rightarrow> ('c chat_world, unit) action" where
  "loginout my js =
     bind_act (int_at js ''id'') (\<lambda>userid.
     bind_act (change (\<lambda>w. w\<lparr>cw_conns := map_erase userid (cw_conns w)\<rparr>)) (\<lambda>_.
     bind_act (on_db (UserModel_updateState my (User_setState ''offline'' (User_setId userid new_user)))) (\<lambda>_.
       effect (Ef_unsubscribe (user_channel userid)))))"

definition addFriend :: "'c mysql \<Rightarrow> json \<Rightarrow> ('c chat_world, unit) action" where
  "addFriend my js =
     bind_act (int_at js ''id'') (\<lambda>userid. bind_act (int_at js ''friendid'') (\<lambda>friendid.
     bind_act (on_db (FriendModel_insert my userid friendid)) (\<lambda>_.
       on_db (FriendModel_insert my friendid userid))))"

definition createGroup :: "'c mysql \<Rightarrow> json \<Rightarrow> ('c chat_world, unit) action" where
  "createGroup my js =
     bind_act (int_at js ''id'') (\<lambda>i. bind_act (str_at js ''groupname'') (\<lambda>groupname.
     bind_act (str_at js ''groupdesc'') (\<lambda>groupdesc.
     bind_act (on_db (GroupModel_createGroup my (Group_setGroupDesc groupdesc (Group_setGroupName groupname new_group))))
       (\<lambda>(created, g). if created then on_db (GroupModel_addGroup my i (grp_id g) ''creator'') else ret ()))))"

definition addGroup :: "'c mysql \<Rightarrow> json \<Rightarrow> ('c chat_world, unit) action" where
  "addGroup my js =
     bind_act (int_at js ''id'') (\<lambda>i. bind_act (int_at js ''groupid'') (\<lambda>groupid.
       on_db (GroupModel_addGroup my i groupid ''normal'')))"

text \<open>
  The delivery that \<open>oneChat\<close> and \<open>groupChat\<close> share: to the connection of a user who is online
  and logged in here, through Redis to one who is online elsewhere, into the table of offline
  messages otherwise. The connection is looked up before the query for the user.
\<close>

definition deliver :: "'c mysql \<Rightarrow> json_lib \<Rightarrow> json \<Rightarrow> int \<Rightarrow> ('c chat_world, unit) action" where
  "deliver my lib js toid w =
     (let it = cw_conns w toid in
      bind_act (on_db (UserModel_query my toid)) (\<lambda>u.
        if it \<noteq> None \<and> usr_state u = ''online'' then send_json lib (the it) js
        else if usr_state u = ''online''
        then bind_act (dump lib js) (\<lambda>s. effect (Ef_publish (user_channel toid) s))
        else bind_act (dump lib js) (\<lambda>s. on_db (OfflineMsgModel_insert my toid s))) w)"

definition groupChat :: "'c mysql \<Rightarrow> json_lib \<Rightarrow> json \<Rightarrow> ('c chat_world, unit) action" where
  "groupChat my lib js =
     bind_act (int_at js ''id'') (\<lambda>userid. bind_act (int_at js ''groupid'') (\<lambda>groupid.
     bind_act (on_db (GroupModel_queryGroupUsers my userid groupid)) (\<lambda>useridVec.
     bind_act (map_act (deliver my lib js) useridVec) (\<lambda>_. ret ()))))"

definition oneChat :: "'c mysql \<Rightarrow> json_lib \<Rightarrow> json \<Rightarrow> ('c chat_world, unit) action" where
  "oneChat my lib js = bind_act (int_at js ''toid'') (deliver my lib js)"

section \<open>Login and registration\<close>

definition login_error :: "int \<Rightarrow> string \<Rightarrow> json" where
  "login_error code txt =
     json_obj [(''msgid'', JInt LOGIN_MSG), (''errno'', JInt code), (''errmsg'', JStr txt)]"

definition friend_json :: "user \<Rightarrow> json" where
  "friend_json u = json_obj [(''id'', JInt (usr_id u)), (''name'', JStr (usr_name u)), (''state'', JStr (usr_state u))]"

definition member_json :: "group_user \<Rightarrow> json" where
  "member_json u = json_obj [(''id'', JInt (gu_id u)), (''name'', JStr (gu_name u)),
     (''state'', JStr (gu_state u)), (''role'', JStr (gu_role u))]"

definition group_dump :: "json_lib \<Rightarrow> chat_group \<Rightarrow> ('w, string) action" where
  "group_dump lib g =
     bind_act (map_act (\<lambda>u. dump lib (member_json u)) (grp_users g)) (\<lambda>userV.
       dump lib (json_obj [(''id'', JInt (grp_id g)), (''groupname'', JStr (grp_name g)),
         (''groupdesc'', JStr (grp_desc g)), (''users'', JArr (map JStr userV))]))"

text \<open>The optional parts of the answer: present when there is anything to show.\<close>

definition list_field :: "string \<Rightarrow> string list \<Rightarrow> (string \<times> json) list" where
  "list_field k xs = (if xs = [] then [] else [(k, JArr (map JStr xs))])"

definition login_answer_json :: "user \<Rightarrow> string list \<Rightarrow> string list \<Rightarrow> string list \<Rightarrow> json" where
  "login_answer_json u msgs friends groups =
     json_obj ([(''msgid'', JInt LOGIN_MSG), (''errno'', JInt 0), (''id'', JInt (usr_id u)),
       (''name'', JStr (usr_name u))] @ list_field ''offlinemsg'' msgs @ list_field ''friends'' friends @
       list_field ''groups'' groups)"

definition login_accepted :: "'c mysql \<Rightarrow> json_lib \<Rightarrow> conn \<Rightarrow> int \<Rightarrow> user \<Rightarrow> ('c chat_world, unit) action" where
  "login_accepted my lib conn i user0 =
     (let u = User_setState ''online'' user0 in
     bind_act (on_db (UserModel_updateState my u)) (\<lambda>_.
     bind_act (change (\<lambda>w. w\<lparr>cw_conns := map_insert i conn (cw_conns w)\<rparr>)) (\<lambda>_.
     bind_act (effect (Ef_subscribe (user_channel i))) (\<lambda>_.
     bind_act (on_db (OfflineMsgModel_query my i)) (\<lambda>msgs.
     bind_act (if msgs \<noteq> [] then on_db (OfflineMsgModel_remove my i) else ret ()) (\<lambda>_.
     bind_act (on_db (FriendModel_query my i)) (\<lambda>friendVec.
     bind_act (map_act (\<lambda>f. dump lib (friend_json f)) friendVec) (\<lambda>friends.
     bind_act (on_db (GroupModel_queryGroups my i)) (\<lambda>groupVec.
     bind_act (map_act (group_dump lib) groupVec) (\<lambda>groups.
       send_json lib conn (login_answer_json u msgs friends groups)))))))))))"

definition login :: "'c mysql \<Rightarrow> json_lib \<Rightarrow> conn \<Rightarrow> json \<Rightarrow> ('c chat_world, unit) action" where
  "login my lib conn js =
     bind_act (int_at js ''id'') (\<lambda>i. bind_act (str_at js ''password'') (\<lambda>pwd.
     bind_act (on_db (UserModel_query my i)) (\<lambda>u.
       if usr_id u = 0 then send_json lib conn (login_error 1 ''user not exist'')
       else if usr_pwd u \<noteq> pwd then send_json lib conn (login_error 2 ''password is error'')
       else if usr_state u = ''online'' then send_json lib conn (login_error 3 ''this account is using'')
       else login_accepted my lib conn i u)))"

definition reg :: "'c mysql \<Rightarrow> json_lib \<Rightarrow> conn \<Rightarrow> json \<Rightarrow> ('c chat_world, unit) action" where
  "reg my lib conn js =
     bind_act (str_at js ''name'') (\<lambda>name. bind_act (str_at js ''password'') (\<lambda>pwd.
     bind_act (on_db (UserModel_insert my (User_setState ''offline'' (User_setPwd pwd (User_setName name new_user)))))
       (\<lambda>(inserted, u).
         if inserted
         then send_json lib conn (json_obj [(''msgid'', JInt REG_MSG), (''errno'', JInt 0), (''id'', JInt (usr_id u))])
         else send_json lib conn (json_obj [(''msgid'', JInt REG_MSG), (''errno'', JInt 1)]))))"

section \<open>Closing connections\<close>

text \<open>
  \<open>order\<close> lists the keys of the hash map in the order of its iteration. The loop stops at the
  first user of the connection.
\<close>

definition conn_user :: "((int \<rightharpoonup> conn) \<Rightarrow> int list) \<Rightarrow> conn \<Rightarrow> (int \<rightharpoonup> conn) \<Rightarrow> int" where
  "conn_user order conn m = (case filter (\<lambda>i. m i = Some conn) (order m) of [] \<Rightarrow> -1 | i # _ \<Rightarrow> i)"

definition clientCloseException ::
  "'c mysql \<Rightarrow> ((int \<rightharpoonup> conn) \<Rightarrow> int list) \<Rightarrow> conn \<Rightarrow> ('c chat_world, unit) action" where
  "clientCloseException my order conn w =
     (let i = conn_user order conn (cw_conns w) in
      if i \<noteq> -1 then
        bind_act (change (\<lambda>w. w\<lparr>cw_conns := map_erase i (cw_conns w)\<rparr>)) (\<lambda>_.
        bind_act (on_db (UserModel_query my i)) (\<lambda>u.
          if usr_id u \<noteq> 0 then
            bind_act (on_db (UserModel_updateState my (User_setState ''offline'' u))) (\<lambda>_.
              effect (Ef_unsubscribe (user_channel i)))
          else ret ())) w
      else ret () w)"

section \<open>Messages of other servers\<close>

definition handleRedisSubscribeMessage :: "'c mysql \<Rightarrow> string \<Rightarrow> string \<Rightarrow> ('c chat_world, unit) action" where
  "handleRedisSubscribeMessage my chan msg =
     (if take (length ''chat:user:'') chan \<noteq> ''chat:user:'' then ret ()
      else bind_act (lift_res (case stoi (drop (length ''chat:user:'') chan) of
             Inl e \<Rightarrow> Inl (Bad_number e) | Inr i \<Rightarrow> Inr i))
        (\<lambda>userid w. case cw_conns w userid of
             Some conn \<Rightarrow> effect (Ef_send conn msg) w
           | None \<Rightarrow> on_db (OfflineMsgModel_insert my userid msg) w))"

section \<open>Dispatch\<close>

text \<open>The handler map of the constructor; an unknown number is only logged.\<close>

definition getHandler ::
  "'c mysql \<Rightarrow> json_lib \<Rightarrow> int \<Rightarrow> conn \<Rightarrow> json \<Rightarrow> ('c chat_world, unit) action" where
  "getHandler my lib msgid conn js =
     (if msgid = LOGIN_MSG then login my lib conn js
      else if msgid = REG_MSG then reg my lib conn js
      else if msgid = LOGINOUT_MSG then loginout my js
      else if msgid = ONE_CHAT_MSG then oneChat my lib js
      else if msgid = ADD_FRIEND_MSG then addFriend my js
      else if msgid = CREATE_GROUP_MSG then createGroup my js
      else if msgid = ADD_GROUP_MSG then addGroup my js
      else if msgid = GROUP_CHAT_MSG then groupChat my lib js
      else ret ())"

text \<open>\<open>buff\<close> is all that the connection's buffer holds.\<close>

definition ChatServer_OnMessage ::
  "'c mysql \<Rightarrow> json_lib \<Rightarrow> conn \<Rightarrow> string \<Rightarrow> ('c chat_world, unit) action" where
  "ChatServer_OnMessage my lib conn buff =
     (case js_parse lib buff of
        None \<Rightarrow> raise Json_parse
      | Some js \<Rightarrow> bind_act (int_at js ''msgid'') (\<lambda>msgid. getHandler my lib msgid conn js))"

definition ChatServer_OnConnection ::
  "'c mysql \<Rightarrow> ((int \<rightharpoonup> conn) \<Rightarrow> int list) \<Rightarrow> bool \<Rightarrow> conn \<Rightarrow> ('c chat_world, unit) action" where
  "ChatServer_OnConnection my order is_connected conn =
     (if is_connected then ret ()
      else bind_act (clientCloseException my order conn) (\<lambda>_. effect (Ef_shutdown conn)))"

end
