(* ===== verification/ChatClient.thy ===== *)
theory ChatClient
  imports ChatService
begin

text \<open>
  The command line client of the chat program, \<^verbatim>\<open>chat-main/src/client/ChatClient.cpp\<close>: its
  menu, its commands and the loop of its reading thread. The socket calls are a record of
  functions (a \<^verbatim>\<open>send\<close> or \<^verbatim>\<open>recv\<close> without flags is a \<^verbatim>\<open>write\<close> or \<^verbatim>\<open>read\<close>); standard input is the characters not yet read; what is shown to the user is a trace,
  from which prompts and headings are left out.
\<close>

section \<open>The world of the client\<close>

record 's sockets =
  sk_socket :: "'s \<Rightarrow> int \<times> 's"
  sk_connect :: "fd \<Rightarrow> string \<Rightarrow> u16 \<Rightarrow> 's \<Rightarrow> int \<times> 's"
  sk_write :: "fd \<Rightarrow> string \<Rightarrow> 's \<Rightarrow> int \<times> 's"
  sk_read :: "fd \<Rightarrow> nat \<Rightarrow> 's \<Rightarrow> (int \<times> string) \<times> 's"
  sk_shutdown :: "fd \<Rightarrow> 's \<Rightarrow> 's"
  sk_close :: "fd \<Rightarrow> 's \<Rightarrow> 's"

text \<open>\<open>Show\<close> prints a JSON value; the thread is started and joined where the code does it.\<close>

datatype client_out = Say string | Complain string | Show string json | Spawn_reader | Join_reader

record client =
  cl_fd :: fd
  cl_logged :: bool
  cl_id :: int
  cl_name :: string
  cl_ip :: string
  cl_port :: u16
  cl_reader :: bool

definition new_client :: client where
  "new_client = \<lparr>cl_fd = -1, cl_logged = False, cl_id = 0, cl_name = [], cl_ip = ''127.0.0.1'', cl_port = 8000,
     cl_reader = False\<rparr>"

text \<open>\<open>kw_fail\<close> is the failbit of \<^verbatim>\<open>std::cin\<close>.\<close>

record 's client_world =
  kw_client :: client
  kw_cin :: string
  kw_fail :: bool
  kw_sock :: 's
  kw_out :: "client_out list"

type_synonym ('s, 'a) client_act = "('s client_world, 'a) action"

definition the_client :: "('s, client) client_act" where
  "the_client w = (Inr (kw_client w), w)"

definition set_client :: "(client \<Rightarrow> client) \<Rightarrow> ('s, unit) client_act" where
  "set_client f = change (\<lambda>w. w\<lparr>kw_client := f (kw_client w)\<rparr>)"

definition tell :: "client_out \<Rightarrow> ('s, unit) client_act" where
  "tell e = change (\<lambda>w. w\<lparr>kw_out := kw_out w @ [e]\<rparr>)"

definition on_sock :: "('s \<Rightarrow> 'a \<times> 's) \<Rightarrow> ('s, 'a) client_act" where
  "on_sock f w = (case f (kw_sock w) of (a, s) \<Rightarrow> (Inr a, w\<lparr>kw_sock := s\<rparr>))"

definition sock_effect :: "('s \<Rightarrow> 's) \<Rightarrow> ('s, unit) client_act" where
  "sock_effect f = change (\<lambda>w. w\<lparr>kw_sock := f (kw_sock w)\<rparr>)"

section \<open>Standard input\<close>

text \<open>
  \<^verbatim>\<open>std::cin >> i\<close> for an \<open>int\<close> that is 0: nothing happens once the stream has failed; no digit
  gives 0 and a number out of range the nearest bound, and both fail the stream.
\<close>

definition cin_int :: "('s, int) client_act" where
  "cin_int w =
     (if kw_fail w then (Inr 0, w)
      else let t = dropWhile is_space (kw_cin w);
               neg = (t \<noteq> [] \<and> hd t = CHR ''-'');
               u = (if t \<noteq> [] \<and> (hd t = CHR ''-'' \<or> hd t = CHR ''+'') then tl t else t);
               ds = takeWhile is_digit u;
               v = (if neg then - int (digits_val ds) else int (digits_val ds));
               w1 = w\<lparr>kw_cin := dropWhile is_digit u\<rparr>
           in if ds = [] then (Inr 0, w1\<lparr>kw_fail := True\<rparr>)
              else if int_range v then (Inr v, w1)
              else (Inr (if neg then int_min else int_max), w1\<lparr>kw_fail := True\<rparr>))"

text \<open>\<^verbatim>\<open>std::cin >> s\<close> for an empty string.\<close>

definition cin_word :: "('s, string) client_act" where
  "cin_word w =
     (if kw_fail w then (Inr [], w)
      else let t = dropWhile is_space (kw_cin w); s = takeWhile (\<lambda>c. \<not> is_space c) t;
               w1 = w\<lparr>kw_cin := dropWhile (\<lambda>c. \<not> is_space c) t\<rparr>
           in (Inr s, if s = [] then w1\<lparr>kw_fail := True\<rparr> else w1))"

definition cin_get :: "('s, unit) client_act" where
  "cin_get w = (Inr (), if kw_fail w then w
     else if kw_cin w = [] then w\<lparr>kw_fail := True\<rparr> else w\<lparr>kw_cin := tl (kw_cin w)\<rparr>)"

text \<open>\<^verbatim>\<open>std::getline(std::cin, s)\<close> for an empty string.\<close>

definition cin_getline :: "('s, string) client_act" where
  "cin_getline w =
     (if kw_fail w then (Inr [], w)
      else if kw_cin w = [] then (Inr [], w\<lparr>kw_fail := True\<rparr>)
      else (Inr (takeWhile (\<lambda>c. c \<noteq> CHR 0x0A) (kw_cin w)),
        w\<lparr>kw_cin := tl (dropWhile (\<lambda>c. c \<noteq> CHR 0x0A) (kw_cin w))\<rparr>))"

section \<open>Connecting\<close>

definition connectServer :: "'s sockets \<Rightarrow> string \<Rightarrow> u16 \<Rightarrow> ('s, bool) client_act" where
  "connectServer sk ip port =
     bind_act (on_sock (sk_socket sk)) (\<lambda>fd.
     bind_act (set_client (\<lambda>c. c\<lparr>cl_fd := fd\<rparr>)) (\<lambda>_.
     if fd = -1 then bind_act (tell (Complain ''create socket error'')) (\<lambda>_. ret False)
     else bind_act (on_sock (sk_connect sk fd (c_str ip) port)) (\<lambda>r.
       if r = -1 then
         bind_act (tell (Complain ''connect server error'')) (\<lambda>_.
         bind_act (sock_effect (sk_close sk fd)) (\<lambda>_.
         bind_act (set_client (\<lambda>c. c\<lparr>cl_fd := -1\<rparr>)) (\<lambda>_. ret False)))
       else ret True)))"

text \<open>\<^verbatim>\<open>_clientfd == -1 && !connectServer(...)\<close>, negated: there is a connection.\<close>

definition ensure_connected :: "'s sockets \<Rightarrow> ('s, bool) client_act" where
  "ensure_connected sk = bind_act the_client (\<lambda>c.
     if cl_fd c = -1 then connectServer sk (cl_ip c) (cl_port c) else ret True)"

text \<open>Shutting down and closing the connection, and joining the reading thread.\<close>

definition drop_connection :: "'s sockets \<Rightarrow> ('s, unit) client_act" where
  "drop_connection sk = bind_act the_client (\<lambda>c.
     if cl_fd c \<noteq> -1 then
       bind_act (sock_effect (\<lambda>s. sk_close sk (cl_fd c) (sk_shutdown sk (cl_fd c) s))) (\<lambda>_.
         set_client (\<lambda>c. c\<lparr>cl_fd := -1\<rparr>))
     else ret ())"

definition join_reader :: "('s, unit) client_act" where
  "join_reader = bind_act the_client (\<lambda>c.
     if cl_reader c then bind_act (tell Join_reader) (\<lambda>_. set_client (\<lambda>c. c\<lparr>cl_reader := False\<rparr>)) else ret ())"

text \<open>\<^verbatim>\<open>write(_clientfd, request)\<close> of a printed request: whether it failed.\<close>

definition send_request :: "'s sockets \<Rightarrow> json_lib \<Rightarrow> (client \<Rightarrow> json) \<Rightarrow> ('s, bool) client_act" where
  "send_request sk lib js = bind_act the_client (\<lambda>c. bind_act (dump lib (js c)) (\<lambda>request.
     bind_act (on_sock (sk_write sk (cl_fd c) request)) (\<lambda>len. ret (len \<noteq> -1))))"

text \<open>
  Reading an answer into a zeroed buffer of \<open>n\<close> bytes and parsing it: the parser stops at the
  first NUL or at the end of the buffer. \<^term>\<open>None\<close> when the read failed.
\<close>

definition read_answer :: "'s sockets \<Rightarrow> json_lib \<Rightarrow> nat \<Rightarrow> ('s, json option) client_act" where
  "read_answer sk lib n = bind_act the_client (\<lambda>c.
     bind_act (on_sock (sk_read sk (cl_fd c) n)) (\<lambda>(len, data).
       if len = -1 then ret None
       else case js_parse lib (c_str (take n data)) of None \<Rightarrow> raise Json_parse | Some js \<Rightarrow> ret (Some js)))"

section \<open>Commands\<close>

definition one_chat_json :: "int \<Rightarrow> string \<Rightarrow> client \<Rightarrow> json" where
  "one_chat_json toid message c = json_obj [(''msgid'', JInt ONE_CHAT_MSG), (''id'', JInt (cl_id c)),
     (''toid'', JInt toid), (''msg'', JStr message)]"

definition client_oneChat :: "'s sockets \<Rightarrow> json_lib \<Rightarrow> ('s, unit) client_act" where
  "client_oneChat sk lib =
     bind_act cin_int (\<lambda>toid. bind_act cin_get (\<lambda>_. bind_act cin_getline (\<lambda>message.
     bind_act (send_request sk lib (one_chat_json toid message)) (\<lambda>sent.
       if sent then ret () else tell (Complain ''send one chat msg error'')))))"

definition add_friend_json :: "int \<Rightarrow> client \<Rightarrow> json" where
  "add_friend_json friendid c = json_obj [(''msgid'', JInt ADD_FRIEND_MSG), (''id'', JInt (cl_id c)),
     (''friendid'', JInt friendid)]"

definition client_addFriend :: "'s sockets \<Rightarrow> json_lib \<Rightarrow> ('s, unit) client_act" where
  "client_addFriend sk lib =
     bind_act cin_int (\<lambda>friendid. bind_act cin_get (\<lambda>_.
     bind_act (send_request sk lib (add_friend_json friendid)) (\<lambda>sent.
       tell (if sent then Say ''add friend request sent.'' else Complain ''send add friend msg error''))))"

definition create_group_json :: "string \<Rightarrow> string \<Rightarrow> client \<Rightarrow> json" where
  "create_group_json groupname groupdesc c = json_obj [(''msgid'', JInt CREATE_GROUP_MSG), (''id'', JInt (cl_id c)),
     (''groupname'', JStr groupname), (''groupdesc'', JStr groupdesc)]"

definition client_createGroup :: "'s sockets \<Rightarrow> json_lib \<Rightarrow> ('s, unit) client_act" where
  "client_createGroup sk lib =
     bind_act cin_getline (\<lambda>groupname. bind_act cin_getline (\<lambda>groupdesc.
     bind_act (send_request sk lib (create_group_json groupname groupdesc)) (\<lambda>sent.
       tell (if sent then Say ''create group request sent.'' else Complain ''send create group msg error''))))"

definition add_group_json :: "int \<Rightarrow> client \<Rightarrow> json" where
  "add_group_json groupid c = json_obj [(''msgid'', JInt ADD_GROUP_MSG), (''id'', JInt (cl_id c)),
     (''groupid'', JInt groupid)]"

definition client_addGroup :: "'s sockets \<Rightarrow> json_lib \<Rightarrow> ('s, unit) client_act" where
  "client_addGroup sk lib =
     bind_act cin_int (\<lambda>groupid. bind_act cin_get (\<lambda>_.
     bind_act (send_request sk lib (add_group_json groupid)) (\<lambda>sent.
       tell (if sent then Say ''add group request sent.'' else Complain ''send add group msg error''))))"

definition group_chat_json :: "int \<Rightarrow> string \<Rightarrow> client \<Rightarrow> json" where
  "group_chat_json groupid message c = json_obj [(''msgid'', JInt GROUP_CHAT_MSG), (''id'', JInt (cl_id c)),
     (''groupid'', JInt groupid), (''msg'', JStr message)]"

definition client_groupChat :: "'s sockets \<Rightarrow> json_lib \<Rightarrow> ('s, unit) client_act" where
  "client_groupChat sk lib =
     bind_act cin_int (\<lambda>groupid. bind_act cin_get (\<lambda>_. bind_act cin_getline (\<lambda>message.
     bind_act (send_request sk lib (group_chat_json groupid message)) (\<lambda>sent.
       if sent then ret () else tell (Complain ''send group chat msg error'')))))"

definition loginout_json :: "client \<Rightarrow> json" where
  "loginout_json c = json_obj [(''msgid'', JInt LOGINOUT_MSG), (''id'', JInt (cl_id c))]"

definition client_loginout :: "'s sockets \<Rightarrow> json_lib \<Rightarrow> ('s, unit) client_act" where
  "client_loginout sk lib = bind_act the_client (\<lambda>c.
     if \<not> cl_logged c then ret ()
     else bind_act (send_request sk lib loginout_json) (\<lambda>sent.
       if \<not> sent then tell (Complain ''send loginout msg error'')
       else bind_act (set_client (\<lambda>c. c\<lparr>cl_logged := False, cl_id := 0, cl_name := []\<rparr>)) (\<lambda>_.
         bind_act (drop_connection sk) (\<lambda>_. bind_act join_reader (\<lambda>_. tell (Say ''logout success!''))))))"

fun for_each :: "('x \<Rightarrow> ('w, unit) action) \<Rightarrow> 'x list \<Rightarrow> ('w, unit) action" where
  "for_each f [] = ret ()"
| "for_each f (x # xs) = bind_act (f x) (\<lambda>_. for_each f xs)"

definition client_help :: "('s, unit) client_act" where
  "client_help = for_each (\<lambda>s. tell (Say s))
     [''show command list:'', ''help : show all command'', ''chat : one to one chat'', ''addfriend : add friend'',
      ''creategroup : create group'', ''addgroup : add group'', ''groupchat : group chat'', ''loginout : logout'']"

definition run_command :: "'s sockets \<Rightarrow> json_lib \<Rightarrow> string \<Rightarrow> ('s, unit) client_act" where
  "run_command sk lib command =
     (if command = ''help'' then client_help
      else if command = ''chat'' then client_oneChat sk lib
      else if command = ''addfriend'' then client_addFriend sk lib
      else if command = ''creategroup'' then client_createGroup sk lib
      else if command = ''addgroup'' then client_addGroup sk lib
      else if command = ''groupchat'' then client_groupChat sk lib
      else if command = ''loginout'' then client_loginout sk lib
      else if command \<noteq> [] then tell (Say ''invalid command!'') else ret ())"

text \<open>
  \<^verbatim>\<open>while (_isLoginSuccess)\<close>, with fuel: the result is whether the loop has ended.
\<close>

fun command_loop :: "'s sockets \<Rightarrow> json_lib \<Rightarrow> nat \<Rightarrow> ('s, bool) client_act" where
  "command_loop sk lib 0 = ret False"
| "command_loop sk lib (Suc n) = bind_act the_client (\<lambda>c.
     if \<not> cl_logged c then ret True
     else bind_act cin_getline (\<lambda>command. bind_act (run_command sk lib command) (\<lambda>_. command_loop sk lib n)))"

section \<open>Login and registration\<close>

text \<open>The elements a range \<^verbatim>\<open>for\<close> visits, each converted to a string.\<close>

fun json_elems :: "json \<Rightarrow> json list" where
  "json_elems JNull = []"
| "json_elems (JArr xs) = xs"
| "json_elems (JObj kvs) = map snd kvs"
| "json_elems v = [v]"

fun has_key :: "json \<Rightarrow> string \<Rightarrow> bool" where
  "has_key (JObj kvs) k = (map_of kvs k \<noteq> None)"
| "has_key _ k = False"

definition parse_json :: "json_lib \<Rightarrow> string \<Rightarrow> ('w, json) action" where
  "parse_json lib s = (case js_parse lib s of None \<Rightarrow> raise Json_parse | Some js \<Rightarrow> ret js)"

definition show_field :: "string \<Rightarrow> json \<Rightarrow> string \<Rightarrow> ('s, unit) client_act" where
  "show_field label js k = bind_act (lift_res (json_at js k)) (\<lambda>v. tell (Show label v))"

fun show_fields :: "(string \<times> string) list \<Rightarrow> json \<Rightarrow> ('s, unit) client_act" where
  "show_fields [] js = ret ()"
| "show_fields ((label, k) # lks) js = bind_act (show_field label js k) (\<lambda>_. show_fields lks js)"

text \<open>
  The loops convert one element at a time, so what precedes a bad element is shown.
\<close>

definition for_strings :: "json \<Rightarrow> string \<Rightarrow> (string \<Rightarrow> ('s, unit) client_act) \<Rightarrow> ('s, unit) client_act" where
  "for_strings js k body = bind_act (lift_res (json_at js k)) (\<lambda>v.
     for_each (\<lambda>e. bind_act (lift_res (json_get_string e)) body) (json_elems v))"

definition show_member :: "json_lib \<Rightarrow> string \<Rightarrow> ('s, unit) client_act" where
  "show_member lib s = bind_act (parse_json lib s) (show_fields
     [(''    member id:'', ''id''), ('' name:'', ''name''), ('' state:'', ''state''), ('' role:'', ''role'')])"

definition show_group :: "json_lib \<Rightarrow> string \<Rightarrow> ('s, unit) client_act" where
  "show_group lib s = bind_act (parse_json lib s) (\<lambda>js.
     bind_act (show_fields [(''group id:'', ''id''), ('' group name:'', ''groupname''), ('' group desc:'', ''groupdesc'')] js) (\<lambda>_.
       if has_key js ''users'' then for_strings js ''users'' (show_member lib) else ret ()))"

definition show_friend :: "json_lib \<Rightarrow> string \<Rightarrow> ('s, unit) client_act" where
  "show_friend lib s = bind_act (parse_json lib s) (show_fields
     [(''id:'', ''id''), ('' name:'', ''name''), ('' state:'', ''state'')])"

definition showCurrentUserData :: "json_lib \<Rightarrow> json \<Rightarrow> ('s, unit) client_act" where
  "showCurrentUserData lib response =
     bind_act (show_fields [(''id: '', ''id''), (''name: '', ''name'')] response) (\<lambda>_.
     bind_act (if has_key response ''offlinemsg'' then for_strings response ''offlinemsg'' (\<lambda>m. tell (Say m)) else ret ()) (\<lambda>_.
     bind_act (if has_key response ''friends'' then for_strings response ''friends'' (show_friend lib) else ret ()) (\<lambda>_.
       if has_key response ''groups'' then for_strings response ''groups'' (show_group lib) else ret ())))"

definition login_json :: "int \<Rightarrow> string \<Rightarrow> json" where
  "login_json i password = json_obj [(''msgid'', JInt LOGIN_MSG), (''id'', JInt i), (''password'', JStr password)]"

definition login_succeeded :: "'s sockets \<Rightarrow> json_lib \<Rightarrow> json \<Rightarrow> ('s, unit) client_act" where
  "login_succeeded sk lib response =
     bind_act (set_client (\<lambda>c. c\<lparr>cl_logged := True\<rparr>)) (\<lambda>_.
     bind_act (int_at response ''id'') (\<lambda>i. bind_act (set_client (\<lambda>c. c\<lparr>cl_id := i\<rparr>)) (\<lambda>_.
     bind_act (str_at response ''name'') (\<lambda>name. bind_act (set_client (\<lambda>c. c\<lparr>cl_name := name\<rparr>)) (\<lambda>_.
     bind_act (tell (Say ''login success!'')) (\<lambda>_.
     bind_act (showCurrentUserData lib response) (\<lambda>_.
     bind_act client_help (\<lambda>_. bind_act join_reader (\<lambda>_.
     bind_act (tell Spawn_reader) (\<lambda>_. bind_act (set_client (\<lambda>c. c\<lparr>cl_reader := True\<rparr>)) (\<lambda>_.
       cin_get)))))))))))"

text \<open>Everything up to the command loop: whether the loop is reached.\<close>

definition login_attempt :: "'s sockets \<Rightarrow> json_lib \<Rightarrow> ('s, bool) client_act" where
  "login_attempt sk lib =
     bind_act (ensure_connected sk) (\<lambda>up. if \<not> up then ret False
     else bind_act cin_int (\<lambda>i. bind_act cin_word (\<lambda>password.
     bind_act (send_request sk lib (\<lambda>_. login_json i password)) (\<lambda>sent.
     if \<not> sent then bind_act (tell (Complain ''send login msg error'')) (\<lambda>_. ret False)
     else bind_act (read_answer sk lib 4096) (\<lambda>answer. case answer of
       None \<Rightarrow> bind_act (tell (Complain ''read login response error'')) (\<lambda>_. ret False)
     | Some response \<Rightarrow> bind_act (int_at response ''errno'') (\<lambda>code.
         if code \<noteq> 0 then bind_act (show_field [] response ''errmsg'') (\<lambda>_. ret False)
         else bind_act (login_succeeded sk lib response) (\<lambda>_. ret True)))))))"

definition client_login :: "'s sockets \<Rightarrow> json_lib \<Rightarrow> nat \<Rightarrow> ('s, bool) client_act" where
  "client_login sk lib n = bind_act (login_attempt sk lib) (\<lambda>go. if go then command_loop sk lib n else ret True)"

definition reg_request :: "string \<Rightarrow> string \<Rightarrow> json" where
  "reg_request name password = json_obj [(''msgid'', JInt REG_MSG), (''name'', JStr name), (''password'', JStr password)]"

definition client_reg :: "'s sockets \<Rightarrow> json_lib \<Rightarrow> ('s, unit) client_act" where
  "client_reg sk lib =
     bind_act (ensure_connected sk) (\<lambda>up. if \<not> up then ret ()
     else bind_act cin_word (\<lambda>name. bind_act cin_word (\<lambda>password.
     bind_act (send_request sk lib (\<lambda>_. reg_request name password)) (\<lambda>sent.
     if \<not> sent then tell (Complain ''send reg response error'')
     else bind_act (read_answer sk lib 1024) (\<lambda>answer. case answer of
       None \<Rightarrow> tell (Complain ''recv reg response error'')
     | Some response \<Rightarrow> bind_act (int_at response ''errno'') (\<lambda>code.
         if code = 0 then show_field ''reg success, userid is '' response ''id''
         else tell (Say ''reg failed'')))))))"

section \<open>The menu\<close>

definition quit_client :: "'s sockets \<Rightarrow> ('s, unit) client_act" where
  "quit_client sk =
     bind_act (set_client (\<lambda>c. c\<lparr>cl_logged := False\<rparr>)) (\<lambda>_. bind_act (drop_connection sk) (\<lambda>_. join_reader))"

fun mainMenu :: "'s sockets \<Rightarrow> json_lib \<Rightarrow> nat \<Rightarrow> ('s, bool) client_act" where
  "mainMenu sk lib 0 = ret False"
| "mainMenu sk lib (Suc n) = bind_act cin_int (\<lambda>choice.
     if choice = 1 then bind_act (client_login sk lib n) (\<lambda>back. if back then mainMenu sk lib n else ret False)
     else if choice = 2 then bind_act (client_reg sk lib) (\<lambda>_. mainMenu sk lib n)
     else if choice = 3 then bind_act (quit_client sk) (\<lambda>_. ret True)
     else bind_act (tell (Say ''invalid input!'')) (\<lambda>_. mainMenu sk lib n))"

definition client_run :: "'s sockets \<Rightarrow> json_lib \<Rightarrow> nat \<Rightarrow> string \<Rightarrow> u16 \<Rightarrow> ('s, bool) client_act" where
  "client_run sk lib n ip port =
     bind_act (set_client (\<lambda>c. c\<lparr>cl_ip := ip, cl_port := port\<rparr>)) (\<lambda>_.
     bind_act (connectServer sk ip port) (\<lambda>up. if up then mainMenu sk lib n else ret True))"

text \<open>The arguments after the program name. \<^term>\<open>None\<close> when there are too many.\<close>

definition client_args :: "string list \<Rightarrow> num_error + (string \<times> u16) option" where
  "client_args args =
     (case args of
        [] \<Rightarrow> Inr (Some (''127.0.0.1'', 8000))
      | [port] \<Rightarrow> bind_res (stoi port) (\<lambda>p. Inr (Some (''127.0.0.1'', to_u16 p)))
      | [ip, port] \<Rightarrow> bind_res (stoi port) (\<lambda>p. Inr (Some (ip, to_u16 p)))
      | _ \<Rightarrow> Inr None)"

section \<open>The reading thread\<close>

text \<open>
  Each round: the flag \<open>up\<close> when the loop tests it, what the read returns, and the flag again
  after a failed read.
\<close>

fun readTaskHandler :: "json_lib \<Rightarrow> (bool \<times> int \<times> string \<times> bool) list \<Rightarrow> ('s, unit) client_act" where
  "readTaskHandler lib [] = ret ()"
| "readTaskHandler lib ((up, len, data, still) # rounds) =
     (if \<not> up then ret ()
      else if len \<le> 0 then (if still then tell (Complain ''read message error'') else ret ())
      else bind_act (parse_json lib (c_str (take 1024 data))) (\<lambda>js. bind_act (int_at js ''msgid'') (\<lambda>msgid.
        bind_act
          (if msgid = ONE_CHAT_MSG then show_fields [(''[one chat] user '', ''id''), ('' said: '', ''msg'')] js
           else if msgid = GROUP_CHAT_MSG then
             show_fields [(''[group chat] group '', ''groupid''), ('' user '', ''id''), ('' said: '', ''msg'')] js
           else ret ())
          (\<lambda>_. readTaskHandler lib rounds))))"

end
