(* ===== verification/ChatJson.thy ===== *)
theory ChatJson
  imports ChatService
begin

text \<open>
  What the handlers rely on of the json library (\<^verbatim>\<open>thirdparty/json/json.hpp\<close>): \<^verbatim>\<open>dump()\<close> throws on a
  value with a string that is not UTF-8 (type error 316), prints every other one, and what it prints
  is UTF-8.
\<close>

section \<open>UTF-8\<close>

definition byte_in :: "nat \<Rightarrow> nat \<Rightarrow> char \<Rightarrow> bool" where
  "byte_in lo hi c \<longleftrightarrow> lo \<le> of_char c \<and> of_char c \<le> hi"

text \<open>The well-formed sequences of RFC 3629: no overlong forms, no surrogates, at most U+10FFFF.\<close>

fun valid_utf8 :: "string \<Rightarrow> bool" where
  "valid_utf8 [] \<longleftrightarrow> True"
| "valid_utf8 (a # s) \<longleftrightarrow>
     (let n = (of_char a :: nat) in
      if n < 0x80 then valid_utf8 s
      else if 0xC2 \<le> n \<and> n \<le> 0xDF then
        (case s of b # s' \<Rightarrow> byte_in 0x80 0xBF b \<and> valid_utf8 s' | _ \<Rightarrow> False)
      else if 0xE0 \<le> n \<and> n \<le> 0xEF then
        (case s of b # c # s' \<Rightarrow>
            byte_in (if n = 0xE0 then 0xA0 else 0x80) (if n = 0xED then 0x9F else 0xBF) b \<and>
            byte_in 0x80 0xBF c \<and> valid_utf8 s'
         | _ \<Rightarrow> False)
      else if 0xF0 \<le> n \<and> n \<le> 0xF4 then
        (case s of b # c # d # s' \<Rightarrow>
            byte_in (if n = 0xF0 then 0x90 else 0x80) (if n = 0xF4 then 0x8F else 0xBF) b \<and>
            byte_in 0x80 0xBF c \<and> byte_in 0x80 0xBF d \<and> valid_utf8 s'
         | _ \<Rightarrow> False)
      else False)"

text \<open>All the strings of a value, its keys included.\<close>

fun json_utf8 :: "json \<Rightarrow> bool" where
  "json_utf8 (JStr s) \<longleftrightarrow> valid_utf8 s"
| "json_utf8 (JArr js) \<longleftrightarrow> (\<forall>j \<in> set js. json_utf8 j)"
| "json_utf8 (JObj kvs) \<longleftrightarrow> (\<forall>kv \<in> set kvs. valid_utf8 (fst kv) \<and> json_utf8 (snd kv))"
| "json_utf8 _ \<longleftrightarrow> True"

lemma utf8_examples:
  "valid_utf8 [CHR 0xE4, CHR 0xBD, CHR 0xA0]" "\<not> valid_utf8 [CHR 0xC4, CHR 0xE3]"
  "\<not> valid_utf8 [CHR 0xED, CHR 0xA0, CHR 0x80]" "\<not> valid_utf8 [CHR 0xC0, CHR 0x80]"
  by (simp_all add: byte_in_def)

section \<open>Printing\<close>

definition dumps_ok :: "json_lib \<Rightarrow> bool" where
  "dumps_ok lib \<longleftrightarrow> (\<forall>j. case js_dump lib j of
     None \<Rightarrow> \<not> json_utf8 j
   | Some s \<Rightarrow> json_utf8 j \<and> valid_utf8 s)"

abbreviation printed :: "json_lib \<Rightarrow> json \<Rightarrow> string" where
  "printed lib j \<equiv> the (js_dump lib j)"

lemma dumps_okD:
  assumes "dumps_ok lib"
  shows "json_utf8 j \<Longrightarrow> js_dump lib j = Some (printed lib j)" "\<not> json_utf8 j \<Longrightarrow> js_dump lib j = None"
    "js_dump lib j = Some s \<Longrightarrow> valid_utf8 s" "json_utf8 j \<Longrightarrow> valid_utf8 (printed lib j)"
  using assms [unfolded dumps_ok_def, rule_format, of j] by (auto split: option.splits)

lemma dump_ok:
  "dumps_ok lib \<Longrightarrow> dump lib j w = (if json_utf8 j then Inr (printed lib j) else Inl Json_utf8, w)"
  using dumps_okD(1,2) [of lib j] by (auto simp: dump_def split: option.splits)

lemma map_dump:
  assumes "dumps_ok lib"
  shows "map_act (\<lambda>x. dump lib (h x)) xs w =
    (if \<forall>x \<in> set xs. json_utf8 (h x) then Inr (map (\<lambda>x. printed lib (h x)) xs) else Inl Json_utf8, w)"
  by (induction xs) (simp_all add: bind_act_def dump_ok [OF assms])

text \<open>The strings of an object built by assignments under distinct keys.\<close>

lemma set_obj_put: "k \<notin> fst ` set kvs \<Longrightarrow> set (obj_put k v kvs) = insert (k, v) (set kvs)"
  by (induction kvs) (auto split: if_splits)

lemma set_json_obj:
  "distinct (map fst kvs) \<Longrightarrow> fst ` set xs \<inter> fst ` set kvs = {} \<Longrightarrow>
   set (fold (\<lambda>(k, v). obj_put k v) kvs xs) = set xs \<union> set kvs"
proof (induction kvs arbitrary: xs)
  case (Cons kv kvs)
  obtain k v where kv: "kv = (k, v)" by (cases kv)
  have "k \<notin> fst ` set xs" using Cons.prems(2) kv by auto
  then have s: "set (obj_put k v xs) = insert (k, v) (set xs)" by (rule set_obj_put)
  have "set (fold (\<lambda>(k, v). obj_put k v) kvs (obj_put k v xs)) = set (obj_put k v xs) \<union> set kvs"
    using Cons.prems kv s by (intro Cons.IH) auto
  then show ?case by (simp add: kv s)
qed simp

lemma json_utf8_obj:
  "distinct (map fst kvs) \<Longrightarrow>
   json_utf8 (json_obj kvs) \<longleftrightarrow> (\<forall>kv \<in> set kvs. valid_utf8 (fst kv) \<and> json_utf8 (snd kv))"
  by (simp add: json_obj_def set_json_obj)

end
