(* ===== verification/ChatHandlers.thy ===== *)
theory ChatHandlers
  imports ChatJson
begin

text \<open>
  What every handler of the chat service does to the tables, the connection map and the outside
  world when MySQL behaves as documented.
\<close>

section \<open>Lookups\<close>

lemma user_lookup_id:
  assumes "tables_ok t"
  shows "usr_id (user_lookup t i) = (if i \<in> fst ` set (t_users t) then i else 0)"
    and "i \<in> fst ` set (t_users t) \<Longrightarrow> 0 < i"
proof -
  show "usr_id (user_lookup t i) = (if i \<in> fst ` set (t_users t) then i else 0)"
    using map_of_eq_None_iff [of "t_users t" i]
    by (auto simp: user_lookup_def User_make_def new_user_def split: option.splits)
  show "i \<in> fst ` set (t_users t) \<Longrightarrow> 0 < i" using assms by (force simp: tables_ok_def)
qed

lemma user_lookup_None: "i \<notin> fst ` set (t_users t) \<Longrightarrow> user_lookup t i = new_user"
  using map_of_eq_None_iff [of "t_users t" i] by (simp add: user_lookup_def)

lemma map_of_set_state:
  "map_of (map (\<lambda>(j, n, p, s). (j, n, p, if j = i then state else s)) us) k =
     map_option (\<lambda>(n, p, s). (n, p, if k = i then state else s)) (map_of us k)"
  by (induction us) (auto split: prod.splits)

lemma user_lookup_set_state:
  "user_lookup (set_state i s t) k =
     (if k = i \<and> i \<in> fst ` set (t_users t) then (user_lookup t k)\<lparr>usr_state := s\<rparr> else user_lookup t k)"
  using map_of_eq_None_iff [of "t_users t" k]
  by (auto simp: user_lookup_def set_state_def map_of_set_state User_make_def split: option.splits)

lemma map_fst_set_state: "map fst (t_users (set_state i s t)) = map fst (t_users t)"
  by (auto simp: set_state_def)

lemma tables_ok_set_state [inv_pres]: "tables_ok t \<Longrightarrow> tables_ok (set_state i s t)"
  using map_fst_set_state [of i s t] by (simp add: tables_ok_def flip: set_map) (simp add: set_state_def)

lemma set_state_fields [simp]:
  "t_offline (set_state i s t) = t_offline t" "t_groups (set_state i s t) = t_groups t"
  "t_members (set_state i s t) = t_members t" "t_friends (set_state i s t) = t_friends t"
  by (simp_all add: set_state_def)

lemma tables_ok_offline [simp]: "tables_ok (t\<lparr>t_offline := x\<rparr>) = tables_ok t"
  by (simp add: tables_ok_def)

lemma tables_ok_friends [simp]: "tables_ok (t\<lparr>t_friends := x\<rparr>) = tables_ok t"
  by (simp add: tables_ok_def)

lemma user_lookup_fields [simp]:
  "user_lookup (t\<lparr>t_offline := x\<rparr>) i = user_lookup t i" "user_lookup (t\<lparr>t_friends := y\<rparr>) i = user_lookup t i"
  "user_lookup (t\<lparr>t_members := z\<rparr>) i = user_lookup t i" "user_lookup (t\<lparr>t_groups := g\<rparr>) i = user_lookup t i"
  by (simp_all add: user_lookup_def)

lemma on_db_Inr: "f (cw_db w) = (Inr a, c) \<Longrightarrow> on_db f w = (Inr a, w\<lparr>cw_db := c\<rparr>)"
  by (simp add: on_db_def)

lemma effect_simp [simp]: "effect e w = (Inr (), w\<lparr>cw_out := cw_out w @ [e]\<rparr>)"
  by (simp add: effect_def)

lemma bind_effect [simp]: "bind_act (effect e) f w = f () (w\<lparr>cw_out := cw_out w @ [e]\<rparr>)"
  by (simp add: effect_def)

lemma dump_Some: "js_dump lib js = Some s \<Longrightarrow> dump lib js w = (Inr s, w)"
  by (simp add: dump_def)

lemma send_json_Some:
  "js_dump lib js = Some s \<Longrightarrow> send_json lib k js w = (Inr (), w\<lparr>cw_out := cw_out w @ [Ef_send k s]\<rparr>)"
  by (simp add: send_json_def bind_act_simps dump_Some)

section \<open>Delivery\<close>

text \<open>
  Where a message for user \<open>i\<close> goes: the trace it adds and the tables after it. This is the
  specification that \<open>oneChat\<close> and \<open>groupChat\<close> implement.
\<close>

definition route :: "(int \<rightharpoonup> conn) \<Rightarrow> string \<Rightarrow> int \<Rightarrow> chat_tables \<Rightarrow> chat_effect list \<times> chat_tables" where
  "route m s i t =
     (if usr_state (user_lookup t i) = ''online''
      then (case m i of Some k \<Rightarrow> ([Ef_send k s], t) | None \<Rightarrow> ([Ef_publish (user_channel i) s], t))
      else ([], t\<lparr>t_offline := t_offline t @ [(i, s)]\<rparr>))"

text \<open>
  With the buffer of the statement in view: a message that does not fit it ends the handler when it
  is to be kept. The members of a group are served one after the other.
\<close>

definition routed ::
  "(int \<rightharpoonup> conn) \<Rightarrow> string \<Rightarrow> int \<Rightarrow> chat_tables \<Rightarrow> (chat_fault + unit) \<times> chat_effect list \<times> chat_tables" where
  "routed m s i t =
     (if usr_state (user_lookup t i) \<noteq> ''online'' \<and> too_long i s then (Inl Sql_overflow, [], t)
      else (Inr (), route m s i t))"

fun routed_all ::
  "(int \<rightharpoonup> conn) \<Rightarrow> string \<Rightarrow> int list \<Rightarrow> chat_tables \<Rightarrow> (chat_fault + unit) \<times> chat_effect list \<times> chat_tables" where
  "routed_all m s [] t = (Inr (), [], t)"
| "routed_all m s (i # is) t =
     (case routed m s i t of
        (Inl e, es, t1) \<Rightarrow> (Inl e, es, t1)
      | (Inr _, es, t1) \<Rightarrow> (case routed_all m s is t1 of (r, es', t2) \<Rightarrow> (r, es @ es', t2)))"

text \<open>A printed message that stands for itself in a statement and leaves room in it.\<close>

definition storable :: "string \<Rightarrow> bool" where
  "storable s \<longleftrightarrow> sql_safe s \<and> length s \<le> 960"

lemma storable_fits: "storable s \<Longrightarrow> int_range i \<Longrightarrow> \<not> too_long i s"
  using to_string_length [of i] by (simp add: storable_def too_long_def)

abbreviation online :: "chat_tables \<Rightarrow> int \<Rightarrow> bool" where
  "online t i \<equiv> usr_state (user_lookup t i) = ''online''"

lemma deliver_any:
  assumes ok: "mysql_ok my tabs pending" and t: "tables_ok (tabs (cw_db w))" and i: "int_range i"
    and s: "js_dump lib js = Some s"
  shows "\<exists>r c'. deliver my lib js i w =
      (r, w\<lparr>cw_db := c', cw_out := cw_out w @ fst (snd (routed (cw_conns w) s i (tabs (cw_db w))))\<rparr>) \<and>
    (online (tabs (cw_db w)) i \<or> sql_safe s \<longrightarrow> r = fst (routed (cw_conns w) s i (tabs (cw_db w))) \<and>
      tabs c' = snd (snd (routed (cw_conns w) s i (tabs (cw_db w)))))"
proof -
  let ?t = "tabs (cw_db w)"
  obtain c1 where c1: "UserModel_query my i (cw_db w) = (Inr (user_lookup ?t i), c1)" "tabs c1 = ?t"
    using UserModel_query_spec [OF ok t i] by blast
  note q = on_db_Inr [of "UserModel_query my i" w, OF c1(1)]
  show ?thesis
  proof (cases "online ?t i")
    case True
    then show ?thesis
      using c1(2) s
      by (cases "cw_conns w i")
        (auto simp: deliver_def Let_def bind_act_simps q send_json_Some dump_Some route_def routed_def)
  next
    case False
    obtain r c2 where ins: "OfflineMsgModel_insert my i s c1 = (r, c2)" by (cases "OfflineMsgModel_insert my i s c1")
    have d: "deliver my lib js i w = (r, w\<lparr>cw_db := c2\<rparr>)"
    proof -
      have "on_db (OfflineMsgModel_insert my i s) (w\<lparr>cw_db := c1\<rparr>) = (r, w\<lparr>cw_db := c2\<rparr>)"
        by (simp add: on_db_def ins)
      then show ?thesis using False s by (auto simp: deliver_def Let_def bind_act_simps q dump_Some)
    qed
    have "r = (if too_long i s then Inl Sql_overflow else Inr ()) \<and>
        tabs c2 = (if too_long i s then ?t else ?t\<lparr>t_offline := t_offline ?t @ [(i, s)]\<rparr>)" if "sql_safe s"
      using OfflineMsgModel_insert_any [OF ok that, of i c1] ins c1(2) by auto
    with False d show ?thesis by (auto simp: routed_def route_def)
  qed
qed

lemma deliver_spec:
  assumes "mysql_ok my tabs pending" and "tables_ok (tabs (cw_db w))" and "int_range i"
    and "js_dump lib js = Some s" and "online (tabs (cw_db w)) i \<or> sql_safe s"
  shows "\<exists>c'. deliver my lib js i w = (fst (routed (cw_conns w) s i (tabs (cw_db w))),
      w\<lparr>cw_db := c', cw_out := cw_out w @ fst (snd (routed (cw_conns w) s i (tabs (cw_db w))))\<rparr>) \<and>
    tabs c' = snd (snd (routed (cw_conns w) s i (tabs (cw_db w))))"
  using deliver_any [OF assms(1-4)] assms(5) by auto

lemma route_tables [simp]:
  "tables_ok (snd (route m s i t)) = tables_ok t" "user_lookup (snd (route m s i t)) k = user_lookup t k"
  by (auto simp: route_def split: option.splits)

lemma routed_tables [simp]:
  "tables_ok (snd (snd (routed m s i t))) = tables_ok t" "user_lookup (snd (snd (routed m s i t))) k = user_lookup t k"
  by (auto simp: routed_def)

lemma routed_storable:
  "storable s \<Longrightarrow> int_range i \<Longrightarrow> routed m s i t = (Inr (), route m s i t)"
  "storable s \<Longrightarrow> \<forall>i \<in> set is. int_range i \<Longrightarrow> fst (routed_all m s is t) = Inr ()"
proof -
  show one: "storable s \<Longrightarrow> int_range i \<Longrightarrow> routed m s i t = (Inr (), route m s i t)" for i t
    using storable_fits by (simp add: routed_def)
  show "storable s \<Longrightarrow> \<forall>i \<in> set is. int_range i \<Longrightarrow> fst (routed_all m s is t) = Inr ()"
    by (induction "is" arbitrary: t) (simp_all add: one split_beta)
qed

lemma deliver_all_spec:
  assumes ok: "mysql_ok my tabs pending" and s: "js_dump lib js = Some s"
  shows "tables_ok (tabs (cw_db w)) \<Longrightarrow>
    \<forall>i \<in> set is. int_range i \<and> (online (tabs (cw_db w)) i \<or> sql_safe s) \<Longrightarrow>
    \<exists>c' r. map_act (deliver my lib js) is w =
      (r, w\<lparr>cw_db := c', cw_out := cw_out w @ fst (snd (routed_all (cw_conns w) s is (tabs (cw_db w))))\<rparr>) \<and>
    map_sum (\<lambda>e. e) (\<lambda>_. ()) r = fst (routed_all (cw_conns w) s is (tabs (cw_db w))) \<and>
    tabs c' = snd (snd (routed_all (cw_conns w) s is (tabs (cw_db w))))"
proof (induction "is" arbitrary: w)
  case Nil
  have "w = w\<lparr>cw_db := cw_db w, cw_out := cw_out w\<rparr>" by simp
  then show ?case by (intro exI [of _ "cw_db w"] exI [of _ "Inr []"]) simp
next
  case (Cons i ids)
  obtain r1 es t1 where r: "routed (cw_conns w) s i (tabs (cw_db w)) = (r1, es, t1)" by (metis prod_cases3)
  obtain c1 where c1: "deliver my lib js i w = (r1, w\<lparr>cw_db := c1, cw_out := cw_out w @ es\<rparr>)" "tabs c1 = t1"
    using deliver_spec [OF ok Cons.prems(1) _ s] Cons.prems(2) r by fastforce
  let ?w1 = "w\<lparr>cw_db := c1, cw_out := cw_out w @ es\<rparr>"
  show ?case
  proof (cases r1)
    case (Inl e)
    with c1 r show ?thesis by (intro exI [of _ c1] exI [of _ "Inl e"]) (simp add: bind_act_def)
  next
    case (Inr u)
    have t1: "t1 = snd (snd (routed (cw_conns w) s i (tabs (cw_db w))))" by (simp add: r)
    have tab: "tables_ok (tabs (cw_db ?w1))" using Cons.prems(1) by (simp add: c1(2) t1)
    have ids: "\<forall>j \<in> set ids. int_range j \<and> (online (tabs (cw_db ?w1)) j \<or> sql_safe s)"
      using Cons.prems(2) by (simp add: c1(2) t1)
    obtain c2 r2 where
      "map_act (deliver my lib js) ids ?w1 = (r2, ?w1\<lparr>cw_db := c2,
         cw_out := cw_out ?w1 @ fst (snd (routed_all (cw_conns w) s ids t1))\<rparr>)"
      "map_sum (\<lambda>e. e) (\<lambda>_. ()) r2 = fst (routed_all (cw_conns w) s ids t1)"
      "tabs c2 = snd (snd (routed_all (cw_conns w) s ids t1))"
      using Cons.IH [OF tab ids] c1(2) by (simp add: append.assoc) blast
    with c1(1) r Inr show ?thesis
      by (cases r2; intro exI [of _ c2] exI [of _ "map_sum (\<lambda>e. e) (\<lambda>us. () # us) r2"])
        (auto simp: bind_act_def split: prod.splits)
  qed
qed

text \<open>A message that cannot be printed goes nowhere.\<close>

lemma deliver_unprintable:
  assumes ok: "mysql_ok my tabs pending" and t: "tables_ok (tabs (cw_db w))" and i: "int_range i"
    and s: "js_dump lib js = None"
  shows "\<exists>c'. deliver my lib js i w = (Inl Json_utf8, w\<lparr>cw_db := c'\<rparr>) \<and> tabs c' = tabs (cw_db w)"
proof -
  obtain c1 where c1: "UserModel_query my i (cw_db w) = (Inr (user_lookup (tabs (cw_db w)) i), c1)"
      "tabs c1 = tabs (cw_db w)"
    using UserModel_query_spec [OF ok t i] by blast
  with s show ?thesis
    by (intro exI [of _ c1]) (auto simp: deliver_def Let_def bind_act_def on_db_def send_json_def dump_def)
qed

section \<open>Login\<close>

lemma bind_on_db: "f (cw_db w) = (Inr a, c) \<Longrightarrow> bind_act (on_db f) g w = g a (w\<lparr>cw_db := c\<rparr>)"
  by (simp add: bind_act_simps on_db_Inr)

definition bare_group_json :: "chat_group \<Rightarrow> json" where
  "bare_group_json g = json_obj [(''id'', JInt (grp_id g)), (''groupname'', JStr (grp_name g)),
     (''groupdesc'', JStr (grp_desc g)), (''users'', JArr [])]"

lemma group_dump_bare: "grp_users g = [] \<Longrightarrow> group_dump lib g = dump lib (bare_group_json g)"
  by (simp add: group_dump_def bare_group_json_def fun_eq_iff)

lemma map_group_dump_bare:
  "\<forall>g \<in> set gs. grp_users g = [] \<Longrightarrow> map_act (group_dump lib) gs = map_act (\<lambda>g. dump lib (bare_group_json g)) gs"
  by (induction gs) (simp_all add: group_dump_bare)

lemma map_group_dump:
  assumes "dumps_ok lib" and "\<forall>g \<in> set gs. grp_users g = []"
  shows "map_act (group_dump lib) gs w =
    (if \<forall>g \<in> set gs. json_utf8 (bare_group_json g)
     then Inr (map (\<lambda>g. printed lib (bare_group_json g)) gs) else Inl Json_utf8, w)"
  using map_dump [OF assms(1), of bare_group_json gs w] by (simp add: map_group_dump_bare [OF assms(2)])

text \<open>What can be printed.\<close>

lemma utf8_simps:
  "json_utf8 (friend_json u) \<longleftrightarrow> valid_utf8 (usr_name u) \<and> valid_utf8 (usr_state u)"
  "json_utf8 (bare_group_json g) \<longleftrightarrow> valid_utf8 (grp_name g) \<and> valid_utf8 (grp_desc g)"
  "json_utf8 (login_answer_json u ms fs gs) \<longleftrightarrow> valid_utf8 (usr_name u) \<and> (\<forall>s \<in> set ms \<union> set fs \<union> set gs. valid_utf8 s)"
  by (auto simp: friend_json_def bare_group_json_def login_answer_json_def list_field_def json_utf8_obj)

lemma utf8_answers:
  "valid_utf8 txt \<Longrightarrow> json_utf8 (login_error e txt)"
  "json_utf8 (json_obj [(''msgid'', JInt x), (''errno'', JInt y), (''id'', JInt z)])"
  "json_utf8 (json_obj [(''msgid'', JInt x), (''errno'', JInt y)])"
  by (simp_all add: login_error_def json_utf8_obj)

lemma offline_of_Nil: "offline_of t i = [] \<Longrightarrow> filter (\<lambda>(j, m). j \<noteq> i) (t_offline t) = t_offline t"
  by (rule filter_True) (auto simp: offline_of_def split: if_splits)

lemma offline_of_set_state [simp]: "offline_of (set_state j s t) i = offline_of t i"
  by (simp add: offline_of_def)

lemma offline_of_filter: "offline_of (t\<lparr>t_offline := filter (\<lambda>(j, m). j \<noteq> i) xs\<rparr>) k =
    (if k = i then [] else offline_of (t\<lparr>t_offline := xs\<rparr>) k)"
  by (induction xs) (auto simp: offline_of_def)

lemma offline_of_append [simp]:
  "offline_of (t\<lparr>t_offline := xs @ [(i, s)]\<rparr>) k = offline_of (t\<lparr>t_offline := xs\<rparr>) k @ (if k = i then [s] else [])"
  by (simp add: offline_of_def)

text \<open>The tables after a login.\<close>

definition after_login :: "int \<Rightarrow> chat_tables \<Rightarrow> chat_tables" where
  "after_login i t = (set_state i ''online'' t)\<lparr>t_offline := filter (\<lambda>(j, m). j \<noteq> i) (t_offline t)\<rparr>"

text \<open>All the texts the answer to a login shows: they must be UTF-8 for it to be printed.\<close>

definition login_texts :: "int \<Rightarrow> chat_tables \<Rightarrow> string set" where
  "login_texts i t = {usr_name (user_lookup t i)} \<union> set (offline_of t i) \<union>
     (\<Union>f \<in> set (friends_of (after_login i t) i). {usr_name f, usr_state f}) \<union>
     (\<Union>g \<in> set (groups_of t i). {grp_name g, grp_desc g})"

definition login_printable :: "int \<Rightarrow> chat_tables \<Rightarrow> bool" where
  "login_printable i t \<longleftrightarrow> (\<forall>s \<in> login_texts i t. valid_utf8 s)"

lemma login_printable_offline:
  "login_printable i (t\<lparr>t_offline := t_offline t @ [(i, s)]\<rparr>) \<longleftrightarrow> login_printable i t \<and> valid_utf8 s"
proof -
  have "friends_of (after_login i (t\<lparr>t_offline := x\<rparr>)) i = friends_of (after_login i t) i"
    "groups_of (t\<lparr>t_offline := x\<rparr>) i = groups_of t i" for x
    by (simp_all add: friends_of_def groups_of_def after_login_def set_state_def)
  moreover have "offline_of (t\<lparr>t_offline := t_offline t\<rparr>) i = offline_of t i" by simp
  ultimately show ?thesis by (auto simp: login_printable_def login_texts_def)
qed

text \<open>Tables whose texts are all UTF-8.\<close>

definition tables_utf8 :: "chat_tables \<Rightarrow> bool" where
  "tables_utf8 t \<longleftrightarrow> (\<forall>(i, n, p, s) \<in> set (t_users t). valid_utf8 n \<and> valid_utf8 s) \<and>
     (\<forall>(i, m) \<in> set (t_offline t). valid_utf8 m) \<and> (\<forall>(i, n, d) \<in> set (t_groups t). valid_utf8 n \<and> valid_utf8 d)"

lemma tables_utf8D:
  assumes "tables_utf8 t"
  shows "(i, n, p, s) \<in> set (t_users t) \<Longrightarrow> valid_utf8 n" "(i, n, p, s) \<in> set (t_users t) \<Longrightarrow> valid_utf8 s"
    "(i, m) \<in> set (t_offline t) \<Longrightarrow> valid_utf8 m" "(i, n, d) \<in> set (t_groups t) \<Longrightarrow> valid_utf8 n"
    "(i, n, d) \<in> set (t_groups t) \<Longrightarrow> valid_utf8 d"
  using assms unfolding tables_utf8_def by auto

lemma tables_utf8_printable:
  assumes t: "tables_utf8 t" shows "login_printable i t"
proof -
  note ok = tables_utf8D [OF t]
  have "valid_utf8 (usr_name (user_lookup t i))"
  proof (cases "map_of (t_users t) i")
    case (Some nps)
    then have "valid_utf8 (fst nps)" using ok(1) map_of_SomeD [OF Some] by (metis prod.collapse)
    with Some show ?thesis by (simp add: user_lookup_def User_make_def split_beta)
  qed (simp add: user_lookup_def new_user_def)
  moreover have "valid_utf8 m" if "m \<in> set (offline_of t i)" for m
    using that ok(3) by (auto simp: offline_of_def split: if_splits)
  moreover have "valid_utf8 (usr_name f) \<and> valid_utf8 (usr_state f)" if f: "f \<in> set (friends_of (after_login i t) i)" for f
  proof -
    obtain us where us: "us \<in> set (t_users (after_login i t))" "f = friend_user us"
      using f by (auto simp: friends_of_def)
    then obtain j n p s where "us = (j, n, p, if j = i then ''online'' else s)" "(j, n, p, s) \<in> set (t_users t)"
      by (auto simp: after_login_def set_state_def)
    with us(2) ok(1,2) show ?thesis by (auto simp: friend_user_def User_make_def)
  qed
  moreover have "valid_utf8 (grp_name g) \<and> valid_utf8 (grp_desc g)" if g: "g \<in> set (groups_of t i)" for g
  proof -
    obtain a n d where "(a, n, d) \<in> set (t_groups t)" "g = Group_make a n d" using g by (auto simp: groups_of_def)
    with ok(4,5) show ?thesis by (auto simp: Group_make_def)
  qed
  ultimately show ?thesis unfolding login_printable_def login_texts_def by blast
qed

lemma login_accepted_spec:
  assumes ok: "mysql_ok my tabs pending" and t: "tables_ok (tabs (cw_db w))" and i: "int_range i"
    and u: "u = user_lookup (tabs (cw_db w)) i" "usr_id u = i" and d: "dumps_ok lib"
  shows "\<exists>c' msgs friends groups. login_accepted my lib k i u w =
      (if login_printable i (tabs (cw_db w)) then
         (Inr (), w\<lparr>cw_db := c', cw_conns := map_insert i k (cw_conns w),
            cw_out := cw_out w @ [Ef_subscribe (user_channel i), Ef_send k (printed lib
              (login_answer_json (u\<lparr>usr_state := ''online''\<rparr>) msgs
                (map (\<lambda>f. printed lib (friend_json f)) friends)
                (map (\<lambda>g. printed lib (bare_group_json g)) groups)))]\<rparr>)
       else
         (Inl Json_utf8, w\<lparr>cw_db := c', cw_conns := map_insert i k (cw_conns w),
            cw_out := cw_out w @ [Ef_subscribe (user_channel i)]\<rparr>)) \<and>
    mset msgs = mset (offline_of (tabs (cw_db w)) i) \<and>
    mset friends = mset (friends_of (after_login i (tabs (cw_db w))) i) \<and>
    mset groups = mset (groups_of (tabs (cw_db w)) i) \<and>
    tabs c' = after_login i (tabs (cw_db w))"
proof -
  let ?t = "tabs (cw_db w)" and ?u = "u\<lparr>usr_state := ''online''\<rparr>"
  obtain c1 where c1: "UserModel_updateState my ?u (cw_db w) = (Inr True, c1)" "tabs c1 = set_state i ''online'' ?t"
    using UserModel_updateState_spec [OF ok, of ?u] i u(2) by auto
  have t1: "tables_ok (tabs c1)" unfolding c1(2) by (rule tables_ok_set_state [OF t])
  obtain c2 msgs where c2: "OfflineMsgModel_query my i c1 = (Inr msgs, c2)" "tabs c2 = tabs c1"
      "mset msgs = mset (offline_of ?t i)"
    using OfflineMsgModel_query_spec [OF ok i, of c1] c1(2) by auto
  obtain c3 where c3: "\<And>w :: 'a chat_world. cw_db w = c2 \<Longrightarrow>
        (if msgs \<noteq> [] then on_db (OfflineMsgModel_remove my i) else ret ()) w = (Inr (), w\<lparr>cw_db := c3\<rparr>)"
      "tabs c3 = after_login i ?t"
  proof (cases "msgs = []")
    case True
    then have "offline_of ?t i = []" using c2(3) by simp
    from offline_of_Nil [OF this] have "after_login i ?t = set_state i ''online'' ?t"
      by (simp add: after_login_def set_state_def)
    with True c2(2) c1(2) show thesis by (intro that [of c2]) auto
  next
    case False
    obtain c3 where "OfflineMsgModel_remove my i c2 = (Inr (), c3)" "tabs c3 = after_login i ?t"
      using OfflineMsgModel_remove_spec [OF ok i, of c2] c2(2) c1(2) by (auto simp: after_login_def)
    with False show thesis by (intro that [of c3]) (auto intro: on_db_Inr)
  qed
  have t3: "tables_ok (tabs c3)" unfolding c3(2) after_login_def using tables_ok_set_state [OF t] by simp
  obtain c4 friends where c4: "FriendModel_query my i c3 = (Inr friends, c4)" "tabs c4 = tabs c3"
      "mset friends = mset (friends_of (tabs c3) i)"
    using FriendModel_query_spec [OF ok t3 i] by blast
  have t4: "tables_ok (tabs c4)" using t3 c4(2) by simp
  obtain c5 groups where c5: "GroupModel_queryGroups my i c4 = (Inr groups, c5)" "tabs c5 = tabs c4"
      "mset groups = mset (groups_of (tabs c4) i)" "\<forall>g \<in> set groups. grp_users g = []"
    using GroupModel_queryGroups_spec [OF ok t4 i] by blast
  have g: "groups_of (tabs c4) i = groups_of ?t i"
    by (simp add: c4(2) c3(2) after_login_def groups_of_def)
  let ?friends = "\<forall>f \<in> set friends. json_utf8 (friend_json f)" and ?groups = "\<forall>g \<in> set groups. json_utf8 (bare_group_json g)"
    and ?fs = "map (\<lambda>f. printed lib (friend_json f)) friends" and ?gs = "map (\<lambda>g. printed lib (bare_group_json g)) groups"
  note run = bind_on_db c1(1) c2(1) c4(1) c5(1) bind_act_simps c3(1) send_json_def
    map_dump [OF d] map_group_dump [OF d c5(4)] dump_ok [OF d]
  have sets: "set msgs = set (offline_of ?t i)" "set friends = set (friends_of (after_login i ?t) i)"
      "set groups = set (groups_of ?t i)"
    using c2(3) c4(3) c5(3) g c3(2) by (metis mset_eq_setD)+
  have answer: "json_utf8 (login_answer_json ?u msgs ?fs ?gs) \<longleftrightarrow> valid_utf8 (usr_name u) \<and> (\<forall>s \<in> set msgs. valid_utf8 s)"
    if ?friends ?groups
    using that dumps_okD(4) [OF d] by (auto simp: utf8_simps)
  have p: "login_printable i ?t \<longleftrightarrow> ?friends \<and> ?groups \<and> json_utf8 (login_answer_json ?u msgs ?fs ?gs)"
    using answer unfolding login_printable_def login_texts_def u(1) [symmetric] sets [symmetric]
    by (auto simp: utf8_simps(1,2))
  define c' where "c' = (if ?friends then c5 else c4)"
  have "login_accepted my lib k i u w =
      (if login_printable i ?t then
         (Inr (), w\<lparr>cw_db := c', cw_conns := map_insert i k (cw_conns w),
            cw_out := cw_out w @ [Ef_subscribe (user_channel i), Ef_send k (printed lib (login_answer_json ?u msgs ?fs ?gs))]\<rparr>)
       else
         (Inl Json_utf8, w\<lparr>cw_db := c', cw_conns := map_insert i k (cw_conns w),
            cw_out := cw_out w @ [Ef_subscribe (user_channel i)]\<rparr>))"
    unfolding p c'_def by (cases ?groups) (simp_all add: login_accepted_def Let_def User_setState_def run)
  moreover have "tabs c' = after_login i ?t" by (simp add: c'_def c5(2) c4(2) c3(2))
  ultimately show ?thesis using c2(3) c4(3) c5(3) g c3(2) by (metis (no_types))
qed

text \<open>The fields of a message.\<close>

abbreviation int_field :: "json \<Rightarrow> string \<Rightarrow> chat_fault + int" where
  "int_field js k \<equiv> bind_res (json_at js k) json_get_int"

abbreviation str_field :: "json \<Rightarrow> string \<Rightarrow> chat_fault + string" where
  "str_field js k \<equiv> bind_res (json_at js k) json_get_string"

lemma sint_int_range: "int_range (sint (x :: 32 word))"
  using sint_ge [of x] sint_lt [of x] by (simp add: int_range_def int_min_def int_max_def)

lemma int_field_range: "int_field js k = Inr i \<Longrightarrow> int_range i"
proof -
  assume "int_field js k = Inr i"
  then obtain v where "json_get_int v = Inr i" by (auto simp: bind_res_eq_Inr)
  then show "int_range i"
    using sint_int_range by (cases v) (auto simp: int_range_def int_min_def int_max_def split: if_splits)
qed

text \<open>The four outcomes of a login.\<close>

definition login_code :: "chat_tables \<Rightarrow> int \<Rightarrow> string \<Rightarrow> int" where
  "login_code t i pwd =
     (if i \<notin> fst ` set (t_users t) then 1
      else if usr_pwd (user_lookup t i) \<noteq> pwd then 2
      else if usr_state (user_lookup t i) = ''online'' then 3 else 0)"

definition refusal_text :: "int \<Rightarrow> string" where
  "refusal_text code = (if code = 1 then ''user not exist'' else if code = 2 then ''password is error''
     else ''this account is using'')"

lemma login_query:
  assumes ok: "mysql_ok my tabs pending" and t: "tables_ok (tabs (cw_db w))"
    and js: "int_field js ''id'' = Inr i" "str_field js ''password'' = Inr pwd"
  shows "\<exists>c1. tabs c1 = tabs (cw_db w) \<and>
    login my lib k js w =
      (let u = user_lookup (tabs (cw_db w)) i in
        if usr_id u = 0 then send_json lib k (login_error 1 ''user not exist'')
        else if usr_pwd u \<noteq> pwd then send_json lib k (login_error 2 ''password is error'')
        else if usr_state u = ''online'' then send_json lib k (login_error 3 ''this account is using'')
        else login_accepted my lib k i u) (w\<lparr>cw_db := c1\<rparr>)"
proof -
  obtain c1 where c1: "UserModel_query my i (cw_db w) = (Inr (user_lookup (tabs (cw_db w)) i), c1)"
      "tabs c1 = tabs (cw_db w)"
    using UserModel_query_spec [OF ok t int_field_range [OF js(1)]] by blast
  then show ?thesis
    by (intro exI [of _ c1])
      (simp add: login_def int_at_def str_at_def js Let_def bind_on_db [of "UserModel_query my i" w, OF c1(1)])
qed

lemma login_refused_spec:
  assumes ok: "mysql_ok my tabs pending" and t: "tables_ok (tabs (cw_db w))" and d: "dumps_ok lib"
    and js: "int_field js ''id'' = Inr i" "str_field js ''password'' = Inr pwd"
    and code: "login_code (tabs (cw_db w)) i pwd = e" "e \<noteq> 0"
  shows "\<exists>c'. login my lib k js w = (Inr (), w\<lparr>cw_db := c',
        cw_out := cw_out w @ [Ef_send k (printed lib (login_error e (refusal_text e)))]\<rparr>) \<and>
      tabs c' = tabs (cw_db w)"
  using login_query [OF ok t js, of lib k] user_lookup_id [OF t, of i] code
  by (auto simp: login_code_def refusal_text_def Let_def send_json_Some [OF dumps_okD(1) [OF d]] utf8_answers
      split: if_splits)

lemma login_code_zero: "login_code t i pwd = 0 \<longleftrightarrow>
    i \<in> fst ` set (t_users t) \<and> usr_pwd (user_lookup t i) = pwd \<and> usr_state (user_lookup t i) \<noteq> ''online''"
  by (auto simp: login_code_def)

lemma login_code_offline [simp]: "login_code (t\<lparr>t_offline := x\<rparr>) i pwd = login_code t i pwd"
  by (simp add: login_code_def)

lemma map_of_reset:
  "map_of (map (\<lambda>(j, n, p, s). (j, n, p, f s)) us) k = map_option (\<lambda>(n, p, s). (n, p, f s)) (map_of us k)"
  by (induction us) auto

lemma login_code_reset:
  assumes "i \<in> fst ` set (t_users t)" and "usr_state (user_lookup t i) = ''online''"
  shows "login_code (apply_stmt 0 Reset_state t) i (usr_pwd (user_lookup t i)) = 0"
proof -
  obtain nps where nps: "map_of (t_users t) i = Some nps"
    using assms(1) map_of_eq_None_iff [of "t_users t" i] by (cases "map_of (t_users t) i") auto
  then have "user_lookup (apply_stmt 0 Reset_state t) i = (user_lookup t i)\<lparr>usr_state := ''offline''\<rparr>"
    using assms(2) by (auto simp: user_lookup_def map_of_reset User_make_def split: prod.splits)
  moreover have "fst ` set (t_users (apply_stmt 0 Reset_state t)) = fst ` set (t_users t)"
    by (force simp: image_iff)
  ultimately show ?thesis using assms unfolding login_code_zero by simp
qed

definition accepted_answer :: "json_lib \<Rightarrow> user \<Rightarrow> string list \<Rightarrow> user list \<Rightarrow> chat_group list \<Rightarrow> json" where
  "accepted_answer lib u msgs friends groups =
     login_answer_json u msgs (map (\<lambda>f. printed lib (friend_json f)) friends)
       (map (\<lambda>g. printed lib (bare_group_json g)) groups)"

lemma login_answer_state [simp]: "accepted_answer lib (u\<lparr>usr_state := s\<rparr>) = accepted_answer lib u"
  by (simp add: accepted_answer_def login_answer_json_def fun_eq_iff)

lemma login_spec:
  assumes ok: "mysql_ok my tabs pending" and t: "tables_ok (tabs (cw_db w))" and d: "dumps_ok lib"
    and js: "int_field js ''id'' = Inr i" "str_field js ''password'' = Inr pwd"
    and code: "login_code (tabs (cw_db w)) i pwd = 0"
  shows "\<exists>c' msgs friends groups. login my lib k js w =
      (if login_printable i (tabs (cw_db w)) then
         (Inr (), w\<lparr>cw_db := c', cw_conns := map_insert i k (cw_conns w),
            cw_out := cw_out w @ [Ef_subscribe (user_channel i), Ef_send k (printed lib
              (accepted_answer lib (user_lookup (tabs (cw_db w)) i) msgs friends groups))]\<rparr>)
       else
         (Inl Json_utf8, w\<lparr>cw_db := c', cw_conns := map_insert i k (cw_conns w),
            cw_out := cw_out w @ [Ef_subscribe (user_channel i)]\<rparr>)) \<and>
    mset msgs = mset (offline_of (tabs (cw_db w)) i) \<and>
    mset friends = mset (friends_of (after_login i (tabs (cw_db w))) i) \<and>
    mset groups = mset (groups_of (tabs (cw_db w)) i) \<and>
    tabs c' = after_login i (tabs (cw_db w))"
proof -
  let ?t = "tabs (cw_db w)"
  let ?u = "user_lookup ?t i"
  have u: "i \<in> fst ` set (t_users ?t)" "usr_pwd ?u = pwd" "usr_state ?u \<noteq> ''online''"
    using code by (simp_all add: login_code_zero)
  have id: "usr_id ?u = i" "0 < i" using user_lookup_id [OF t, of i] u(1) by auto
  obtain c1 where c1: "tabs c1 = ?t" "login my lib k js w = login_accepted my lib k i ?u (w\<lparr>cw_db := c1\<rparr>)"
    using login_query [OF ok t js, of lib k] u id by (auto simp: Let_def)
  have t1: "tables_ok (tabs (cw_db (w\<lparr>cw_db := c1\<rparr>)))" and u1: "?u = user_lookup (tabs (cw_db (w\<lparr>cw_db := c1\<rparr>))) i"
    using t c1(1) by simp_all
  from login_accepted_spec [OF ok t1 int_field_range [OF js(1)] u1 id(1) d, of k] c1 show ?thesis
    by (cases "login_printable i ?t") (simp_all add: accepted_answer_def login_answer_json_def)
qed

section \<open>The other handlers\<close>

lemma loginout_spec:
  assumes ok: "mysql_ok my tabs pending" and js: "int_field js ''id'' = Inr i"
  shows "\<exists>c'. loginout my js w = (Inr (), w\<lparr>cw_db := c', cw_conns := map_erase i (cw_conns w),
      cw_out := cw_out w @ [Ef_unsubscribe (user_channel i)]\<rparr>) \<and>
    tabs c' = set_state i ''offline'' (tabs (cw_db w))"
proof -
  let ?u = "User_setState ''offline'' (User_setId i new_user)"
  obtain c1 where c1: "UserModel_updateState my ?u (cw_db w) = (Inr True, c1)"
      "tabs c1 = set_state i ''offline'' (tabs (cw_db w))"
    using UserModel_updateState_spec [OF ok, of ?u "cw_db w"] int_field_range [OF js]
    by (auto simp: user_setters new_user_def)
  show ?thesis
    by (intro exI [of _ c1]) (simp add: loginout_def int_at_def js c1
        bind_on_db [of "UserModel_updateState my ?u" "w\<lparr>cw_conns := map_erase i (cw_conns w)\<rparr>"])
qed

lemma conn_user_range: "conn_user order k m \<noteq> -1 \<Longrightarrow> m (conn_user order k m) = Some k"
  by (auto simp: conn_user_def split: list.splits dest!: arg_cong [where f = set])

lemma clientCloseException_spec:
  assumes ok: "mysql_ok my tabs pending" and t: "tables_ok (tabs (cw_db w))"
    and i: "conn_user order k (cw_conns w) = i" "i \<noteq> -1" "int_range i"
  shows "\<exists>c'. clientCloseException my order k w = (Inr (), w\<lparr>cw_db := c',
      cw_conns := map_erase i (cw_conns w),
      cw_out := cw_out w @ (if i \<in> fst ` set (t_users (tabs (cw_db w))) then [Ef_unsubscribe (user_channel i)] else [])\<rparr>) \<and>
    tabs c' = set_state i ''offline'' (tabs (cw_db w))"
proof -
  let ?t = "tabs (cw_db w)" and ?w = "w\<lparr>cw_conns := map_erase i (cw_conns w)\<rparr>"
  obtain c1 where c1: "UserModel_query my i (cw_db w) = (Inr (user_lookup ?t i), c1)" "tabs c1 = ?t"
    using UserModel_query_spec [OF ok t i(3)] by blast
  show ?thesis
  proof (cases "i \<in> fst ` set (t_users ?t)")
    case True
    let ?u = "User_setState ''offline'' (user_lookup ?t i)"
    have id: "usr_id (user_lookup ?t i) = i" "i \<noteq> 0" using user_lookup_id [OF t, of i] True by auto
    obtain c2 where c2: "UserModel_updateState my ?u c1 = (Inr True, c2)" "tabs c2 = set_state i ''offline'' ?t"
      using UserModel_updateState_spec [OF ok, of ?u c1] i(3) id c1(2) by (auto simp: user_setters)
    show ?thesis
      using True i id by (intro exI [of _ c2])
        (simp add: clientCloseException_def bind_on_db c1(1) c2 Let_def)
  next
    case False
    then have "set_state i ''offline'' ?t = ?t"
      by (cases ?t) (auto simp: set_state_def image_iff intro!: map_idI)
    moreover have "usr_id (user_lookup ?t i) = 0" using user_lookup_id(1) [OF t, of i] False by simp
    ultimately show ?thesis
      using False i c1(2) by (intro exI [of _ c1]) (simp add: clientCloseException_def bind_on_db c1(1) Let_def)
  qed
qed

text \<open>Registration and groups. MySQL may refuse an insertion.\<close>

lemma reg_spec:
  assumes ok: "mysql_ok my tabs pending" and d: "dumps_ok lib"
    and js: "str_field js ''name'' = Inr name" "str_field js ''password'' = Inr pwd"
    and safe: "sql_safe name" "sql_safe pwd" "length name + length pwd \<le> 800"
  shows "\<exists>c' ins new. reg my lib k js w = (Inr (), w\<lparr>cw_db := c', cw_out := cw_out w @ [Ef_send k (printed lib
        (json_obj (if ins then [(''msgid'', JInt REG_MSG), (''errno'', JInt 0), (''id'', JInt new)]
          else [(''msgid'', JInt REG_MSG), (''errno'', JInt 1)])))]\<rparr>) \<and>
    (if ins then 0 < new \<and> int_range new \<and> new \<notin> fst ` set (t_users (tabs (cw_db w))) \<and>
         tabs c' = (tabs (cw_db w))\<lparr>t_users := t_users (tabs (cw_db w)) @ [(new, name, pwd, ''offline'')]\<rparr>
     else tabs c' = tabs (cw_db w))"
proof -
  let ?u = "User_setState ''offline'' (User_setPwd pwd (User_setName name new_user))"
  obtain ins u' c' where c': "UserModel_insert my ?u (cw_db w) = (Inr (ins, u'), c')"
      "if ins then 0 < usr_id u' \<and> int_range (usr_id u') \<and> usr_id u' \<notin> fst ` set (t_users (tabs (cw_db w))) \<and>
         tabs c' = (tabs (cw_db w))\<lparr>t_users := t_users (tabs (cw_db w)) @ [(usr_id u', name, pwd, ''offline'')]\<rparr>
       else tabs c' = tabs (cw_db w)"
    using UserModel_insert_spec [OF ok, of ?u "cw_db w"] safe
    by (fastforce simp: user_setters sql_safe_def split: if_splits)
  have "reg my lib k js w = (Inr (), w\<lparr>cw_db := c', cw_out := cw_out w @ [Ef_send k (printed lib
        (json_obj (if ins then [(''msgid'', JInt REG_MSG), (''errno'', JInt 0), (''id'', JInt (usr_id u'))]
          else [(''msgid'', JInt REG_MSG), (''errno'', JInt 1)])))]\<rparr>)"
    by (simp add: reg_def str_at_def js send_json_Some [OF dumps_okD(1) [OF d utf8_answers(2)]]
        send_json_Some [OF dumps_okD(1) [OF d utf8_answers(3)]]
        bind_on_db [of "UserModel_insert my ?u" w, OF c'(1)])
  with c'(2) show ?thesis by (intro exI [of _ c'] exI [of _ ins] exI [of _ "usr_id u'"]) simp
qed

lemma addFriend_spec:
  assumes ok: "mysql_ok my tabs pending" and js: "int_field js ''id'' = Inr i" "int_field js ''friendid'' = Inr j"
  shows "\<exists>c' fs. addFriend my js w = (Inr (), w\<lparr>cw_db := c'\<rparr>) \<and> set fs \<subseteq> {(i, j), (j, i)} \<and>
    tabs c' = (tabs (cw_db w))\<lparr>t_friends := t_friends (tabs (cw_db w)) @ fs\<rparr>"
proof -
  note r = int_field_range [OF js(1)] int_field_range [OF js(2)]
  have one: "\<exists>c' fs. FriendModel_insert my a b c = (Inr (), c') \<and> set fs \<subseteq> {(a, b)} \<and>
      tabs c' = (tabs c)\<lparr>t_friends := t_friends (tabs c) @ fs\<rparr>" if ab: "int_range a" "int_range b" for a b c
  proof -
    obtain c' where c': "FriendModel_insert my a b c = (Inr (), c')"
        "tabs c' = tabs c \<or> tabs c' = (tabs c)\<lparr>t_friends := t_friends (tabs c) @ [(a, b)]\<rparr>"
      using FriendModel_insert_spec [OF ok ab] by blast
    then show ?thesis
      by (intro exI [of _ c'] exI [of _ "if tabs c' = tabs c then [] else [(a, b)]"]) auto
  qed
  obtain c1 f1 where c1: "FriendModel_insert my i j (cw_db w) = (Inr (), c1)" "set f1 \<subseteq> {(i, j)}"
      "tabs c1 = (tabs (cw_db w))\<lparr>t_friends := t_friends (tabs (cw_db w)) @ f1\<rparr>"
    using one [OF r] by blast
  obtain c2 f2 where c2: "FriendModel_insert my j i c1 = (Inr (), c2)" "set f2 \<subseteq> {(j, i)}"
      "tabs c2 = (tabs c1)\<lparr>t_friends := t_friends (tabs c1) @ f2\<rparr>"
    using one [OF r(2,1)] by blast
  have "addFriend my js w = (Inr (), w\<lparr>cw_db := c2\<rparr>)"
    by (simp add: addFriend_def int_at_def js bind_on_db [of "FriendModel_insert my i j" w, OF c1(1)]
        on_db_Inr [of "FriendModel_insert my j i" "w\<lparr>cw_db := c1\<rparr>"] c2(1))
  with c1(2,3) c2(2,3) show ?thesis
    by (intro exI [of _ c2] exI [of _ "f1 @ f2"]) auto
qed

lemma addGroup_spec:
  assumes ok: "mysql_ok my tabs pending" and js: "int_field js ''id'' = Inr i" "int_field js ''groupid'' = Inr g"
  shows "\<exists>c' ms. addGroup my js w = (Inr (), w\<lparr>cw_db := c'\<rparr>) \<and> set ms \<subseteq> {(g, i, ''normal'')} \<and>
    tabs c' = (tabs (cw_db w))\<lparr>t_members := t_members (tabs (cw_db w)) @ ms\<rparr>"
proof -
  obtain c' where c': "GroupModel_addGroup my i g ''normal'' (cw_db w) = (Inr (), c')"
      "tabs c' = tabs (cw_db w) \<or>
       tabs c' = (tabs (cw_db w))\<lparr>t_members := t_members (tabs (cw_db w)) @ [(g, i, ''normal'')]\<rparr>"
    using GroupModel_addGroup_spec [OF ok int_field_range [OF js(1)] int_field_range [OF js(2)], of "''normal''"]
    by blast
  have "addGroup my js w = (Inr (), w\<lparr>cw_db := c'\<rparr>)"
    by (simp add: addGroup_def int_at_def js on_db_Inr [of "GroupModel_addGroup my i g ''normal''" w, OF c'(1)])
  with c'(2) show ?thesis
    by (intro exI [of _ c'] exI [of _ "if tabs c' = tabs (cw_db w) then [] else [(g, i, ''normal'')]"]) auto
qed

lemma createGroup_spec:
  assumes ok: "mysql_ok my tabs pending" and js: "int_field js ''id'' = Inr i"
      "str_field js ''groupname'' = Inr name" "str_field js ''groupdesc'' = Inr desc"
    and safe: "sql_safe name" "sql_safe desc" "length name + length desc \<le> 900"
  shows "\<exists>c'. createGroup my js w = (Inr (), w\<lparr>cw_db := c'\<rparr>) \<and>
    (tabs c' = tabs (cw_db w) \<or>
     (\<exists>g ms. int_range g \<and> g \<notin> fst ` set (t_groups (tabs (cw_db w))) \<and> ms \<in> {[], [(g, i, ''creator'')]} \<and>
        tabs c' = (tabs (cw_db w))\<lparr>t_groups := t_groups (tabs (cw_db w)) @ [(g, name, desc)],
          t_members := t_members (tabs (cw_db w)) @ ms\<rparr>))"
proof -
  let ?t = "tabs (cw_db w)" and ?g = "Group_setGroupDesc desc (Group_setGroupName name new_group)"
  obtain ins g' c1 where c1: "GroupModel_createGroup my ?g (cw_db w) = (Inr (ins, g'), c1)"
      "if ins then 0 < grp_id g' \<and> int_range (grp_id g') \<and> grp_id g' \<notin> fst ` set (t_groups ?t) \<and>
         tabs c1 = ?t\<lparr>t_groups := t_groups ?t @ [(grp_id g', name, desc)]\<rparr>
       else tabs c1 = ?t"
    using GroupModel_createGroup_spec [OF ok, of ?g "cw_db w"] safe
    by (fastforce simp: group_setters split: if_splits)
  note run = createGroup_def int_at_def str_at_def js bind_on_db [of "GroupModel_createGroup my ?g" w, OF c1(1)]
  show ?thesis
  proof (cases ins)
    case True
    then have g: "int_range (grp_id g')" "grp_id g' \<notin> fst ` set (t_groups ?t)"
        "tabs c1 = ?t\<lparr>t_groups := t_groups ?t @ [(grp_id g', name, desc)]\<rparr>"
      using c1(2) by simp_all
    obtain c2 where c2: "GroupModel_addGroup my i (grp_id g') ''creator'' c1 = (Inr (), c2)"
        "tabs c2 = tabs c1 \<or> tabs c2 = (tabs c1)\<lparr>t_members := t_members (tabs c1) @ [(grp_id g', i, ''creator'')]\<rparr>"
      using GroupModel_addGroup_spec [OF ok int_field_range [OF js(1)] g(1), of "''creator''"] by blast
    have "createGroup my js w = (Inr (), w\<lparr>cw_db := c2\<rparr>)"
      by (simp add: run True on_db_Inr [of "GroupModel_addGroup my i (grp_id g') ''creator''" "w\<lparr>cw_db := c1\<rparr>"] c2(1))
    moreover have "\<exists>ms. ms \<in> {[], [(grp_id g', i, ''creator'')]} \<and>
        tabs c2 = ?t\<lparr>t_groups := t_groups ?t @ [(grp_id g', name, desc)], t_members := t_members ?t @ ms\<rparr>"
      using c2(2) g(3) by force
    ultimately show ?thesis using g(1,2) by blast
  next
    case False
    then have "createGroup my js w = (Inr (), w\<lparr>cw_db := c1\<rparr>)" by (simp add: run)
    with False c1(2) show ?thesis by auto
  qed
qed

text \<open>Messages to one user and to a group.\<close>

lemma oneChat_any:
  assumes ok: "mysql_ok my tabs pending" and t: "tables_ok (tabs (cw_db w))"
    and s: "js_dump lib js = Some s" and js: "int_field js ''toid'' = Inr i"
  shows "\<exists>r c'. oneChat my lib js w =
      (r, w\<lparr>cw_db := c', cw_out := cw_out w @ fst (snd (routed (cw_conns w) s i (tabs (cw_db w))))\<rparr>) \<and>
    (online (tabs (cw_db w)) i \<or> sql_safe s \<longrightarrow> r = fst (routed (cw_conns w) s i (tabs (cw_db w))) \<and>
      tabs c' = snd (snd (routed (cw_conns w) s i (tabs (cw_db w)))))"
  using deliver_any [OF ok t int_field_range [OF js] s] by (simp add: oneChat_def int_at_def js)

lemma oneChat_spec:
  assumes ok: "mysql_ok my tabs pending" and t: "tables_ok (tabs (cw_db w))"
    and s: "js_dump lib js = Some s" "online (tabs (cw_db w)) i \<or> sql_safe s" and js: "int_field js ''toid'' = Inr i"
  shows "\<exists>c'. oneChat my lib js w = (fst (routed (cw_conns w) s i (tabs (cw_db w))),
      w\<lparr>cw_db := c', cw_out := cw_out w @ fst (snd (routed (cw_conns w) s i (tabs (cw_db w))))\<rparr>) \<and>
    tabs c' = snd (snd (routed (cw_conns w) s i (tabs (cw_db w))))"
  using oneChat_any [OF ok t s(1) js] s(2) by auto

lemma member_ids:
  assumes "tables_ok t" and "mset ids = mset (others_of t g i)" shows "\<forall>u \<in> set ids. int_range u"
proof -
  have "set ids \<subseteq> (\<lambda>(g, u, r). u) ` set (t_members t)"
    using mset_eq_setD [OF assms(2)] by (auto simp: others_of_def intro: rev_image_eqI)
  then show ?thesis using assms(1) by (fastforce simp: tables_ok_def)
qed

lemma groupChat_spec:
  assumes ok: "mysql_ok my tabs pending" and t: "tables_ok (tabs (cw_db w))"
    and s: "js_dump lib js = Some s"
    and js: "int_field js ''id'' = Inr i" "int_field js ''groupid'' = Inr g"
    and safe: "sql_safe s \<or> (\<forall>u \<in> set (others_of (tabs (cw_db w)) g i). online (tabs (cw_db w)) u)"
  shows "\<exists>c' ids. groupChat my lib js w =
      (fst (routed_all (cw_conns w) s ids (tabs (cw_db w))),
       w\<lparr>cw_db := c', cw_out := cw_out w @ fst (snd (routed_all (cw_conns w) s ids (tabs (cw_db w))))\<rparr>) \<and>
    mset ids = mset (others_of (tabs (cw_db w)) g i) \<and>
    tabs c' = snd (snd (routed_all (cw_conns w) s ids (tabs (cw_db w))))"
proof -
  let ?t = "tabs (cw_db w)"
  obtain c1 ids where c1: "GroupModel_queryGroupUsers my i g (cw_db w) = (Inr ids, c1)" "tabs c1 = ?t"
      "mset ids = mset (others_of ?t g i)"
    using GroupModel_queryGroupUsers_spec [OF ok t int_field_range [OF js(1)] int_field_range [OF js(2)]] by blast
  have ids: "set ids = set (others_of ?t g i)" using c1(3) by (metis mset_eq_setD)
  note r = member_ids [OF t c1(3)]
  have tab: "tables_ok (tabs (cw_db (w\<lparr>cw_db := c1\<rparr>)))" using t c1(2) by simp
  have "\<forall>x \<in> set ids. int_range x \<and> (online (tabs (cw_db (w\<lparr>cw_db := c1\<rparr>))) x \<or> sql_safe s)"
    using r safe ids c1(2) by auto
  from deliver_all_spec [OF ok s tab this] obtain c2 us where d:
    "map_act (deliver my lib js) ids (w\<lparr>cw_db := c1\<rparr>) =
       (us, w\<lparr>cw_db := c2, cw_out := cw_out w @ fst (snd (routed_all (cw_conns w) s ids ?t))\<rparr>)"
    "map_sum (\<lambda>e. e) (\<lambda>_. ()) us = fst (routed_all (cw_conns w) s ids ?t)"
    "tabs c2 = snd (snd (routed_all (cw_conns w) s ids ?t))"
    by (auto simp: c1(2))
  show ?thesis
    by (intro exI [of _ c2] exI [of _ ids], cases us; use d(2) in \<open>simp add: groupChat_def int_at_def js bind_act_simps
        bind_on_db [of "GroupModel_queryGroupUsers my i g" w, OF c1(1)] d(1,3) c1(3)\<close>)
qed

lemma groupChat_unprintable:
  assumes ok: "mysql_ok my tabs pending" and t: "tables_ok (tabs (cw_db w))" and s: "js_dump lib js = None"
    and js: "int_field js ''id'' = Inr i" "int_field js ''groupid'' = Inr g"
  shows "\<exists>r c'. groupChat my lib js w = (r, w\<lparr>cw_db := c'\<rparr>) \<and> tabs c' = tabs (cw_db w) \<and> r \<in> {Inr (), Inl Json_utf8}"
proof -
  let ?t = "tabs (cw_db w)"
  obtain c1 ids where c1: "GroupModel_queryGroupUsers my i g (cw_db w) = (Inr ids, c1)" "tabs c1 = ?t"
      "mset ids = mset (others_of ?t g i)"
    using GroupModel_queryGroupUsers_spec [OF ok t int_field_range [OF js(1)] int_field_range [OF js(2)]] by blast
  note run = groupChat_def int_at_def js bind_on_db [of "GroupModel_queryGroupUsers my i g" w, OF c1(1)]
  show ?thesis
  proof (cases ids)
    case Nil
    with c1(2) show ?thesis by (simp add: run) blast
  next
    case (Cons u us)
    have "tables_ok (tabs (cw_db (w\<lparr>cw_db := c1\<rparr>)))" "int_range u"
      using t c1(2) member_ids [OF t c1(3)] Cons by simp_all
    then obtain c' where "deliver my lib js u (w\<lparr>cw_db := c1\<rparr>) = (Inl Json_utf8, w\<lparr>cw_db := c'\<rparr>)" "tabs c' = ?t"
      using deliver_unprintable [OF ok _ _ s, of "w\<lparr>cw_db := c1\<rparr>" u] c1(2) by auto
    with Cons show ?thesis by (intro exI [of _ "Inl Json_utf8"] exI [of _ c']) (simp add: run bind_act_simps)
  qed
qed

end
