(* ===== verification/ChatSessions.thy ===== *)
theory ChatSessions
  imports ChatHandlers
begin

text \<open>
  The sessions of the chat server: the invariant that ties the state of a user in the database to
  the connection map, kept by every message and every closed connection.
\<close>

section \<open>Sessions\<close>

text \<open>
  On a server that has the database for itself, the users that are online are exactly those with
  a connection.
\<close>

definition session_inv :: "chat_tables \<Rightarrow> int set \<Rightarrow> bool" where
  "session_inv t S \<longleftrightarrow> tables_ok t \<and> {i. usr_state (user_lookup t i) = ''online''} = S"

lemma session_inv_fields [simp]:
  "session_inv (t\<lparr>t_offline := x\<rparr>) S = session_inv t S" "session_inv (t\<lparr>t_friends := y\<rparr>) S = session_inv t S"
  by (simp_all add: session_inv_def)

lemma session_inv_members:
  "session_inv t S \<Longrightarrow> \<forall>(g, u, r) \<in> set ms. int_range u \<Longrightarrow> session_inv (t\<lparr>t_members := t_members t @ ms\<rparr>) S"
  by (auto simp: session_inv_def tables_ok_def)

lemma session_inv_groups:
  "session_inv t S \<Longrightarrow> \<forall>g \<in> fst ` set gs. int_range g \<Longrightarrow> session_inv (t\<lparr>t_groups := t_groups t @ gs\<rparr>) S"
  by (auto simp: session_inv_def tables_ok_def)

lemma session_inv_off: "session_inv t S \<Longrightarrow> session_inv (set_state i ''offline'' t) (S - {i})"
  by (auto simp: session_inv_def user_lookup_set_state tables_ok_set_state user_lookup_None new_user_def)

lemma session_inv_login:
  "session_inv t S \<Longrightarrow> i \<in> fst ` set (t_users t) \<Longrightarrow> session_inv (after_login i t) (insert i S)"
  by (auto simp: session_inv_def after_login_def user_lookup_set_state tables_ok_set_state)

lemma user_lookup_append:
  "i \<notin> fst ` set (t_users t) \<Longrightarrow> user_lookup (t\<lparr>t_users := t_users t @ [(i, n, p, s)]\<rparr>) k =
    (if k = i then User_make i n p s else user_lookup t k)"
  using map_of_eq_None_iff [of "t_users t" i] by (auto simp: user_lookup_def map_add_def split: option.splits)

lemma session_inv_register:
  "session_inv t S \<Longrightarrow> i \<notin> fst ` set (t_users t) \<Longrightarrow> 0 < i \<Longrightarrow> int_range i \<Longrightarrow>
    session_inv (t\<lparr>t_users := t_users t @ [(i, n, p, ''offline'')]\<rparr>) S"
  by (auto simp: session_inv_def user_lookup_append User_make_def user_lookup_None new_user_def)
    (auto simp: tables_ok_def)

lemma session_inv_route [simp]: "session_inv (snd (route m s i t)) S = session_inv t S"
  by (auto simp: route_def split: option.splits)

lemma session_inv_routed [simp]: "session_inv (snd (snd (routed m s i t))) S = session_inv t S"
  by (simp add: routed_def)

lemma session_inv_routed_all [simp]: "session_inv (snd (snd (routed_all m s is t))) S = session_inv t S"
proof (induction "is" arbitrary: t)
  case (Cons i ids)
  then show ?case
    by (cases "fst (routed m s i t)") (simp_all add: split_beta)
qed simp

text \<open>
  A message that can be stored: its printed form and the strings registered from it have no quote,
  backslash or NUL and fit their statements with room to spare.
\<close>

definition clean_message :: "json_lib \<Rightarrow> json \<Rightarrow> bool" where
  "clean_message lib js \<longleftrightarrow> (\<forall>s. js_dump lib js = Some s \<longrightarrow> storable s) \<and>
     (\<forall>k \<in> {''name'', ''password'', ''groupname'', ''groupdesc''}. \<forall>s.
        str_field js k = Inr s \<longrightarrow> sql_safe s \<and> length s \<le> 400)"

text \<open>What a server handles: the bytes of a segment and the end of a connection.\<close>

datatype chat_event = Ev_bytes conn string | Ev_close conn

fun chat_act :: "'c mysql \<Rightarrow> json_lib \<Rightarrow> ((int \<rightharpoonup> conn) \<Rightarrow> int list) \<Rightarrow> chat_event \<Rightarrow> ('c chat_world, unit) action" where
  "chat_act my lib order (Ev_bytes k buff) = ChatServer_OnMessage my lib k buff"
| "chat_act my lib order (Ev_close k) = ChatServer_OnConnection my order False k"

fun chat_run :: "'c mysql \<Rightarrow> json_lib \<Rightarrow> ((int \<rightharpoonup> conn) \<Rightarrow> int list) \<Rightarrow> chat_event list \<Rightarrow> ('c chat_world, unit) action" where
  "chat_run my lib order [] = ret ()"
| "chat_run my lib order (e # es) = bind_act (chat_act my lib order e) (\<lambda>_. chat_run my lib order es)"

fun clean_event :: "json_lib \<Rightarrow> chat_event \<Rightarrow> bool" where
  "clean_event lib (Ev_bytes k buff) = (case js_parse lib buff of None \<Rightarrow> True | Some js \<Rightarrow> clean_message lib js)"
| "clean_event lib (Ev_close k) = True"

definition sessions_ok :: "('c \<Rightarrow> chat_tables) \<Rightarrow> 'c chat_world \<Rightarrow> bool" where
  "sessions_ok tabs w \<longleftrightarrow> session_inv (tabs (cw_db w)) (dom (cw_conns w))"

text \<open>An action that keeps \<open>P\<close> and can only fail on malformed JSON or on text that is not UTF-8.\<close>

definition keeps :: "('w \<Rightarrow> bool) \<Rightarrow> ('w, 'a) action \<Rightarrow> bool" where
  "keeps P m \<longleftrightarrow> (\<forall>w. P w \<longrightarrow> P (snd (m w)) \<and> fst (m w) \<in> range Inr \<union> {Inl Json_parse, Inl Json_type, Inl Json_utf8})"

lemma keeps_ret [simp]: "keeps P (ret x)"
  by (simp add: keeps_def)

lemma keeps_bind: "keeps P m \<Longrightarrow> (\<And>a. keeps P (f a)) \<Longrightarrow> keeps P (bind_act m f)"
  unfolding keeps_def bind_act_def by (fastforce split: prod.splits sum.splits)

lemma json_at_Inl: "json_at js k = Inl e \<Longrightarrow> e = Json_type"
  by (cases js) auto

lemma json_get_Inl: "json_get_int v = Inl e \<Longrightarrow> e = Json_type" "json_get_string v = Inl e \<Longrightarrow> e = Json_type"
  by (cases v; auto)+

lemma field_Inl: "int_field js k = Inl e \<Longrightarrow> e = Json_type" "str_field js k = Inl e \<Longrightarrow> e = Json_type"
  by (auto simp: bind_res_def dest: json_at_Inl json_get_Inl split: sum.splits)

lemma field_cases:
  obtains "int_field js k = Inl Json_type" | i where "int_field js k = Inr i"
  using field_Inl(1) by (cases "int_field js k") auto

lemma str_field_cases:
  obtains "str_field js k = Inl Json_type" | s where "str_field js k = Inr s"
  using field_Inl(2) by (cases "str_field js k") auto

lemma keeps_fail: "(\<And>w. m w = (Inl Json_type, w)) \<Longrightarrow> keeps P m"
  by (simp add: keeps_def)

lemma keeps_done: "(\<And>w. P w \<Longrightarrow> \<exists>w'. m w = (Inr x, w') \<and> P w') \<Longrightarrow> keeps P m"
  by (force simp: keeps_def)

lemma keeps_run:
  "(\<And>w. P w \<Longrightarrow> \<exists>r w'. m w = (r, w') \<and> P w' \<and> r \<in> {Inr x, Inl Json_utf8}) \<Longrightarrow> keeps P m"
  by (force simp: keeps_def)

text \<open>
  What the handlers rely on: MySQL and the json library as documented. Every
  handler keeps the sessions.
\<close>

locale chat_backend =
  fixes my :: "'c mysql" and tabs :: "'c \<Rightarrow> chat_tables" and pending :: "'c \<Rightarrow> bool" and lib :: json_lib
  assumes my: "mysql_ok my tabs pending" and lib: "dumps_ok lib"
begin

lemma ok_tables: "sessions_ok tabs w \<Longrightarrow> tables_ok (tabs (cw_db w))"
  by (simp add: sessions_ok_def session_inv_def)

lemma loginout_keeps: "keeps (sessions_ok tabs) (loginout my js)"
proof (rule field_cases [of js "''id''"])
  fix i assume i: "int_field js ''id'' = Inr i"
  show ?thesis
  proof (rule keeps_done)
    fix w :: "'c chat_world" assume w: "sessions_ok tabs w"
    from loginout_spec [OF my i] obtain c' where
      "loginout my js w = (Inr (), w\<lparr>cw_db := c', cw_conns := map_erase i (cw_conns w),
         cw_out := cw_out w @ [Ef_unsubscribe (user_channel i)]\<rparr>)"
      "tabs c' = set_state i ''offline'' (tabs (cw_db w))" by blast
    moreover have "session_inv (set_state i ''offline'' (tabs (cw_db w))) (dom (cw_conns w) - {i})"
      using w by (intro session_inv_off) (simp add: sessions_ok_def)
    ultimately show "\<exists>w'. loginout my js w = (Inr (), w') \<and> sessions_ok tabs w'"
      by (auto simp: sessions_ok_def map_erase_def)
  qed
qed (rule keeps_fail, simp add: loginout_def int_at_def)

lemma login_keeps: "keeps (sessions_ok tabs) (login my lib k js)"
proof (rule field_cases [of js "''id''"])
  fix i assume i: "int_field js ''id'' = Inr i"
  show ?thesis
  proof (rule str_field_cases [of js "''password''"])
    fix pwd assume pwd: "str_field js ''password'' = Inr pwd"
    show ?thesis
    proof (rule keeps_run)
      fix w :: "'c chat_world" assume w: "sessions_ok tabs w"
      note t = ok_tables [OF w]
      show "\<exists>r w'. login my lib k js w = (r, w') \<and> sessions_ok tabs w' \<and> r \<in> {Inr (), Inl Json_utf8}"
      proof (cases "login_code (tabs (cw_db w)) i pwd = 0")
        case True
        then have u: "i \<in> fst ` set (t_users (tabs (cw_db w)))" by (simp add: login_code_zero)
        have "session_inv (after_login i (tabs (cw_db w))) (insert i (dom (cw_conns w)))"
          using w u by (intro session_inv_login) (simp_all add: sessions_ok_def)
        with login_spec [OF my t lib i pwd True, of k] show ?thesis
          by (cases "login_printable i (tabs (cw_db w))") (auto simp: sessions_ok_def)
      next
        case False
        from login_refused_spec [OF my t lib i pwd refl False, of k] w show ?thesis
          by (auto simp: sessions_ok_def)
      qed
    qed
  qed (rule keeps_fail, simp add: login_def int_at_def str_at_def i)
qed (rule keeps_fail, simp add: login_def int_at_def)

lemma reg_keeps:
  assumes clean: "clean_message lib js"
  shows "keeps (sessions_ok tabs) (reg my lib k js)"
proof (rule str_field_cases [of js "''name''"])
  fix name assume name: "str_field js ''name'' = Inr name"
  show ?thesis
  proof (rule str_field_cases [of js "''password''"])
    fix pwd assume pwd: "str_field js ''password'' = Inr pwd"
    have safe: "sql_safe name" "sql_safe pwd" "length name + length pwd \<le> 800"
      using clean name pwd by (auto simp: clean_message_def)
    show ?thesis
    proof (rule keeps_done)
      fix w :: "'c chat_world" assume w: "sessions_ok tabs w"
      from reg_spec [OF my lib name pwd safe, of k w] w
      show "\<exists>w'. reg my lib k js w = (Inr (), w') \<and> sessions_ok tabs w'"
        by (auto simp: sessions_ok_def session_inv_register split: if_splits)
    qed
  qed (rule keeps_fail, simp add: reg_def str_at_def name)
qed (rule keeps_fail, simp add: reg_def str_at_def)

lemma addFriend_keeps: "keeps (sessions_ok tabs) (addFriend my js)"
proof (rule field_cases [of js "''id''"])
  fix i assume i: "int_field js ''id'' = Inr i"
  show ?thesis
  proof (rule field_cases [of js "''friendid''"])
    fix j assume j: "int_field js ''friendid'' = Inr j"
    show ?thesis
    proof (rule keeps_done)
      fix w :: "'c chat_world" assume "sessions_ok tabs w"
      with addFriend_spec [OF my i j, of w]
      show "\<exists>w'. addFriend my js w = (Inr (), w') \<and> sessions_ok tabs w'" by (auto simp: sessions_ok_def)
    qed
  qed (rule keeps_fail, simp add: addFriend_def int_at_def i)
qed (rule keeps_fail, simp add: addFriend_def int_at_def)

lemma addGroup_keeps: "keeps (sessions_ok tabs) (addGroup my js)"
proof (rule field_cases [of js "''id''"])
  fix i assume i: "int_field js ''id'' = Inr i"
  show ?thesis
  proof (rule field_cases [of js "''groupid''"])
    fix g assume g: "int_field js ''groupid'' = Inr g"
    show ?thesis
    proof (rule keeps_done)
      fix w :: "'c chat_world" assume w: "sessions_ok tabs w"
      obtain c' ms where c': "addGroup my js w = (Inr (), w\<lparr>cw_db := c'\<rparr>)" "set ms \<subseteq> {(g, i, ''normal'')}"
          "tabs c' = (tabs (cw_db w))\<lparr>t_members := t_members (tabs (cw_db w)) @ ms\<rparr>"
        using addGroup_spec [OF my i g] by blast
      have "session_inv (tabs c') (dom (cw_conns w))" unfolding c'(3)
        using w c'(2) int_field_range [OF i] by (intro session_inv_members) (auto simp: sessions_ok_def)
      with c'(1) show "\<exists>w'. addGroup my js w = (Inr (), w') \<and> sessions_ok tabs w'"
        by (simp add: sessions_ok_def)
    qed
  qed (rule keeps_fail, simp add: addGroup_def int_at_def i)
qed (rule keeps_fail, simp add: addGroup_def int_at_def)

lemma createGroup_keeps:
  assumes clean: "clean_message lib js"
  shows "keeps (sessions_ok tabs) (createGroup my js)"
proof (rule field_cases [of js "''id''"])
  fix i assume i: "int_field js ''id'' = Inr i"
  show ?thesis
  proof (rule str_field_cases [of js "''groupname''"])
    fix name assume name: "str_field js ''groupname'' = Inr name"
    show ?thesis
    proof (rule str_field_cases [of js "''groupdesc''"])
      fix desc assume desc: "str_field js ''groupdesc'' = Inr desc"
      have safe: "sql_safe name" "sql_safe desc" "length name + length desc \<le> 900"
        using clean name desc by (auto simp: clean_message_def)
      show ?thesis
      proof (rule keeps_done)
        fix w :: "'c chat_world" assume w: "sessions_ok tabs w"
        let ?t = "tabs (cw_db w)"
        have grow: "session_inv (?t\<lparr>t_groups := t_groups ?t @ gs, t_members := t_members ?t @ ms\<rparr>) (dom (cw_conns w))"
          if "\<forall>g \<in> fst ` set gs. int_range g" "\<forall>(g, u, r) \<in> set ms. int_range u" for gs ms
          using session_inv_members [OF session_inv_groups [of ?t "dom (cw_conns w)" gs], of ms] w that
          by (simp add: sessions_ok_def)
        obtain c' where c': "createGroup my js w = (Inr (), w\<lparr>cw_db := c'\<rparr>)"
            "tabs c' = ?t \<or> (\<exists>g ms. int_range g \<and> ms \<in> {[], [(g, i, ''creator'')]} \<and>
               tabs c' = ?t\<lparr>t_groups := t_groups ?t @ [(g, name, desc)], t_members := t_members ?t @ ms\<rparr>)"
          using createGroup_spec [OF my i name desc safe] by blast
        have "session_inv (tabs c') (dom (cw_conns w))"
          using c'(2)
        proof
          assume "tabs c' = ?t"
          with w show ?thesis by (simp add: sessions_ok_def)
        next
          assume "\<exists>g ms. int_range g \<and> ms \<in> {[], [(g, i, ''creator'')]} \<and>
               tabs c' = ?t\<lparr>t_groups := t_groups ?t @ [(g, name, desc)], t_members := t_members ?t @ ms\<rparr>"
          then obtain g ms where gm: "int_range g" "ms \<in> {[], [(g, i, ''creator'')]}"
            "tabs c' = ?t\<lparr>t_groups := t_groups ?t @ [(g, name, desc)], t_members := t_members ?t @ ms\<rparr>" by blast
          show ?thesis unfolding gm(3) using gm(1,2) int_field_range [OF i] by (intro grow) auto
        qed
        with c'(1) show "\<exists>w'. createGroup my js w = (Inr (), w') \<and> sessions_ok tabs w'"
          by (simp add: sessions_ok_def)
      qed
    qed (rule keeps_fail, simp add: createGroup_def int_at_def str_at_def i name)
  qed (rule keeps_fail, simp add: createGroup_def int_at_def str_at_def i)
qed (rule keeps_fail, simp add: createGroup_def int_at_def)

lemma oneChat_keeps:
  assumes clean: "clean_message lib js"
  shows "keeps (sessions_ok tabs) (oneChat my lib js)"
proof (rule field_cases [of js "''toid''"])
  fix i assume i: "int_field js ''toid'' = Inr i"
  show ?thesis
  proof (rule keeps_run)
    fix w :: "'c chat_world" assume w: "sessions_ok tabs w"
    show "\<exists>r w'. oneChat my lib js w = (r, w') \<and> sessions_ok tabs w' \<and> r \<in> {Inr (), Inl Json_utf8}"
    proof (cases "js_dump lib js")
      case None
      from deliver_unprintable [OF my ok_tables [OF w] int_field_range [OF i] None] w show ?thesis
        by (auto simp: oneChat_def int_at_def i sessions_ok_def)
    next
      case (Some s)
      then have s: "storable s" using clean by (simp add: clean_message_def)
      then have "sql_safe s" by (simp add: storable_def)
      with oneChat_spec [OF my ok_tables [OF w] Some _ i] w show ?thesis
        by (auto simp: sessions_ok_def routed_storable(1) [OF s int_field_range [OF i]])
    qed
  qed
qed (rule keeps_fail, simp add: oneChat_def int_at_def)

lemma groupChat_keeps:
  assumes clean: "clean_message lib js"
  shows "keeps (sessions_ok tabs) (groupChat my lib js)"
proof (rule field_cases [of js "''id''"])
  fix i assume i: "int_field js ''id'' = Inr i"
  show ?thesis
  proof (rule field_cases [of js "''groupid''"])
    fix g assume g: "int_field js ''groupid'' = Inr g"
    show ?thesis
    proof (rule keeps_run)
      fix w :: "'c chat_world" assume w: "sessions_ok tabs w"
      show "\<exists>r w'. groupChat my lib js w = (r, w') \<and> sessions_ok tabs w' \<and> r \<in> {Inr (), Inl Json_utf8}"
      proof (cases "js_dump lib js")
        case None
        from groupChat_unprintable [OF my ok_tables [OF w] None i g] w show ?thesis
          by (auto simp: sessions_ok_def)
      next
        case (Some s)
        then have s: "storable s" using clean by (simp add: clean_message_def)
        then have "sql_safe s" by (simp add: storable_def)
        with groupChat_spec [OF my ok_tables [OF w] Some i g] obtain c' ids where
          "groupChat my lib js w = (fst (routed_all (cw_conns w) s ids (tabs (cw_db w))),
             w\<lparr>cw_db := c', cw_out := cw_out w @ fst (snd (routed_all (cw_conns w) s ids (tabs (cw_db w))))\<rparr>)"
          "mset ids = mset (others_of (tabs (cw_db w)) g i)"
          "tabs c' = snd (snd (routed_all (cw_conns w) s ids (tabs (cw_db w))))" by blast
        with routed_storable(2) [OF s member_ids [OF ok_tables [OF w]]] w show ?thesis
          by (auto simp: sessions_ok_def)
      qed
    qed
  qed (rule keeps_fail, simp add: groupChat_def int_at_def i)
qed (rule keeps_fail, simp add: groupChat_def int_at_def)

lemma handler_keeps: "clean_message lib js \<Longrightarrow> keeps (sessions_ok tabs) (getHandler my lib n k js)"
  by (simp add: getHandler_def login_keeps reg_keeps loginout_keeps oneChat_keeps addFriend_keeps
      createGroup_keeps addGroup_keeps groupChat_keeps)

lemma OnMessage_keeps:
  assumes "clean_event lib (Ev_bytes k buff)"
  shows "keeps (sessions_ok tabs) (ChatServer_OnMessage my lib k buff)"
proof (cases "js_parse lib buff")
  case None
  then show ?thesis by (simp add: ChatServer_OnMessage_def keeps_def)
next
  case (Some js)
  then have clean: "clean_message lib js" using assms by simp
  have "keeps (sessions_ok tabs) (int_at js ''msgid'')"
    by (rule field_cases [of js "''msgid''"]) (auto simp: keeps_def int_at_def)
  then show ?thesis
    by (simp add: ChatServer_OnMessage_def Some keeps_bind handler_keeps [OF clean])
qed

lemma online_user: "sessions_ok tabs w \<Longrightarrow> cw_conns w i = Some k \<Longrightarrow> 0 < i \<and> int_range i"
proof -
  assume w: "sessions_ok tabs w" "cw_conns w i = Some k"
  then have "usr_state (user_lookup (tabs (cw_db w)) i) = ''online''"
    by (auto simp: sessions_ok_def session_inv_def)
  then have "i \<in> fst ` set (t_users (tabs (cw_db w)))"
    using user_lookup_None [of i "tabs (cw_db w)"]
    by (cases "i \<in> fst ` set (t_users (tabs (cw_db w)))") (auto simp: new_user_def)
  with ok_tables [OF w(1)] show ?thesis by (force simp: tables_ok_def)
qed

lemma close_keeps: "keeps (sessions_ok tabs) (clientCloseException my order k)"
proof (rule keeps_done)
  fix w :: "'c chat_world" assume w: "sessions_ok tabs w"
  let ?i = "conn_user order k (cw_conns w)"
  show "\<exists>w'. clientCloseException my order k w = (Inr (), w') \<and> sessions_ok tabs w'"
  proof (cases "?i = -1")
    case True
    with w show ?thesis by (simp add: clientCloseException_def)
  next
    case False
    have "int_range ?i" using online_user [OF w conn_user_range [OF False]] by simp
    from clientCloseException_spec [OF my ok_tables [OF w] refl False this] obtain c' out where
      "clientCloseException my order k w = (Inr (), w\<lparr>cw_db := c', cw_conns := map_erase ?i (cw_conns w), cw_out := out\<rparr>)"
      "tabs c' = set_state ?i ''offline'' (tabs (cw_db w))" by blast
    moreover have "session_inv (set_state ?i ''offline'' (tabs (cw_db w))) (dom (cw_conns w) - {?i})"
      using w by (intro session_inv_off) (simp add: sessions_ok_def)
    ultimately show ?thesis by (auto simp: sessions_ok_def map_erase_def)
  qed
qed

lemma act_keeps: "clean_event lib e \<Longrightarrow> keeps (sessions_ok tabs) (chat_act my lib order e)"
proof (cases e)
  case (Ev_close k)
  have "keeps (sessions_ok tabs) (effect (Ef_shutdown k))" by (simp add: keeps_def sessions_ok_def)
  then show ?thesis by (simp add: Ev_close ChatServer_OnConnection_def keeps_bind [OF close_keeps])
qed (simp add: OnMessage_keeps del: clean_event.simps)

lemma run_keeps: "\<forall>e \<in> set es. clean_event lib e \<Longrightarrow> keeps (sessions_ok tabs) (chat_run my lib order es)"
  by (induction es) (simp_all add: keeps_bind act_keeps)

end

end
