(* ===== verification/ChatMemoryDb.thy ===== *)
theory ChatMemoryDb
  imports ChatTables
begin

text \<open>
  A database in memory that behaves as \<open>mysql_ok\<close> says: it reads the texts of the models'
  statements back into statements and applies them to the tables. It is the instance on which
  the properties of the chat service are tried on concrete inputs.
\<close>

section \<open>Reading statements\<close>

text \<open>A pattern is a sequence of literals and holes; a hole takes the longest run of its characters.\<close>

datatype sql_piece = Lit string | Num_hole | Str_hole

definition num_char :: "char \<Rightarrow> bool" where
  "num_char c \<longleftrightarrow> is_digit c \<or> c = CHR ''-''"

definition str_char :: "char \<Rightarrow> bool" where
  "str_char c \<longleftrightarrow> c \<noteq> CHR 0x27"

fun strip_prefix :: "string \<Rightarrow> string \<Rightarrow> string option" where
  "strip_prefix [] s = Some s"
| "strip_prefix (c # cs) [] = None"
| "strip_prefix (c # cs) (d # s) = (if c = d then strip_prefix cs s else None)"

fun sql_match :: "sql_piece list \<Rightarrow> string \<Rightarrow> string list option" where
  "sql_match [] s = (if s = [] then Some [] else None)"
| "sql_match (Lit l # ps) s = (case strip_prefix l s of None \<Rightarrow> None | Some r \<Rightarrow> sql_match ps r)"
| "sql_match (Num_hole # ps) s =
     map_option (\<lambda>hs. takeWhile num_char s # hs) (sql_match ps (dropWhile num_char s))"
| "sql_match (Str_hole # ps) s =
     map_option (\<lambda>hs. takeWhile str_char s # hs) (sql_match ps (dropWhile str_char s))"

definition num_of :: "string \<Rightarrow> int" where
  "num_of s = the (strtol s)"

abbreviation q1 :: string where "q1 \<equiv> [CHR 0x27]"

definition sql_patterns :: "(sql_piece list \<times> (string list \<Rightarrow> stmt)) list" where
  "sql_patterns =
   [([Lit (''insert into user(name,password,state) values('' @ q1), Str_hole, Lit (q1 @ '','' @ q1), Str_hole,
       Lit (q1 @ '','' @ q1), Str_hole, Lit (q1 @ '')'')], \<lambda>h. Ins_user (h ! 0) (h ! 1) (h ! 2)),
    ([Lit (''select * from user where id='' @ q1), Num_hole, Lit q1], \<lambda>h. Sel_user (num_of (h ! 0))),
    ([Lit (''update user set state='' @ q1), Str_hole, Lit (q1 @ '' where id='' @ q1), Num_hole, Lit q1],
       \<lambda>h. Upd_state (h ! 0) (num_of (h ! 1))),
    ([Lit (''update user set state='' @ q1), Str_hole, Lit (q1 @ '' where state='' @ q1), Str_hole, Lit q1],
       \<lambda>h. Reset_state),
    ([Lit ''insert into friend values('', Num_hole, Lit '', '', Num_hole, Lit '')''],
       \<lambda>h. Ins_friend (num_of (h ! 0)) (num_of (h ! 1))),
    ([Lit ''select a.id, a.name, a.state from user a inner join friend b on b.friendid = a.id where b.userid = '',
       Num_hole], \<lambda>h. Sel_friends (num_of (h ! 0))),
    ([Lit (''insert into offlinemessage values('' @ q1), Num_hole, Lit (q1 @ '','' @ q1), Str_hole, Lit (q1 @ '')'')],
       \<lambda>h. Ins_offline (num_of (h ! 0)) (h ! 1)),
    ([Lit ''delete from offlinemessage where userid='', Num_hole], \<lambda>h. Del_offline (num_of (h ! 0))),
    ([Lit ''select message from offlinemessage where userid='', Num_hole], \<lambda>h. Sel_offline (num_of (h ! 0))),
    ([Lit (''insert into allgroup(groupname,groupdesc)values('' @ q1), Str_hole, Lit (q1 @ '','' @ q1), Str_hole,
       Lit (q1 @ '')'')], \<lambda>h. Ins_group (h ! 0) (h ! 1)),
    ([Lit ''insert into groupuser values('', Num_hole, Lit '', '', Num_hole, Lit ('', '' @ q1), Str_hole,
       Lit (q1 @ '')'')], \<lambda>h. Ins_member (num_of (h ! 0)) (num_of (h ! 1)) (h ! 2)),
    ([Lit ''select a.id, a.groupname, a.groupdesc from allgroup a inner join groupuser b on b.groupid = a.id where b.userid = '',
       Num_hole], \<lambda>h. Sel_groups (num_of (h ! 0))),
    ([Lit ''select a.id, a.name, a.state, b.grouprole from user a inner join groupuser b on a.id = b.userid where b.groupid = '',
       Num_hole], \<lambda>h. Sel_members (num_of (h ! 0))),
    ([Lit ''select userid from groupuser where groupid = '', Num_hole, Lit '' and userid != '', Num_hole],
       \<lambda>h. Sel_member_ids (num_of (h ! 0)) (num_of (h ! 1)))]"

fun first_match :: "(sql_piece list \<times> (string list \<Rightarrow> stmt)) list \<Rightarrow> string \<Rightarrow> stmt option" where
  "first_match [] s = None"
| "first_match ((ps, mk) # rest) s = (case sql_match ps s of Some hs \<Rightarrow> Some (mk hs) | None \<Rightarrow> first_match rest s)"

definition read_stmt :: "string \<Rightarrow> stmt option" where
  "read_stmt = first_match sql_patterns"

lemma num_run [simp]:
  "takeWhile num_char (to_string i @ c # s) = to_string i @ takeWhile num_char (c # s)"
  "dropWhile num_char (to_string i @ c # s) = dropWhile num_char (c # s)"
  "takeWhile num_char (to_string i) = to_string i" "dropWhile num_char (to_string i) = []"
proof -
  have all: "\<And>x. x \<in> set (to_string i) \<Longrightarrow> num_char x" by (auto simp: num_char_def dest: to_string_chars)
  show "takeWhile num_char (to_string i @ c # s) = to_string i @ takeWhile num_char (c # s)"
    "dropWhile num_char (to_string i @ c # s) = dropWhile num_char (c # s)"
    using all by (simp_all add: takeWhile_append2 dropWhile_append2)
  show "takeWhile num_char (to_string i) = to_string i" "dropWhile num_char (to_string i) = []"
    using all by simp_all
qed

lemma str_run [simp]:
  assumes "sql_safe s"
  shows "takeWhile str_char (s @ CHR 0x27 # t) = s" "dropWhile str_char (s @ CHR 0x27 # t) = CHR 0x27 # t"
proof -
  have all: "\<And>x. x \<in> set s \<Longrightarrow> str_char x" using assms by (auto simp: sql_safe_def str_char_def)
  show "takeWhile str_char (s @ CHR 0x27 # t) = s" "dropWhile str_char (s @ CHR 0x27 # t) = CHR 0x27 # t"
    using all by (simp_all add: takeWhile_append2 dropWhile_append2 str_char_def)
qed

lemma str_char_simps: "\<not> str_char CHR 0x27" "str_char CHR ''o''" "str_char CHR ''f''" "str_char CHR ''l''"
  "str_char CHR ''i''" "str_char CHR ''n''" "str_char CHR ''e''"
  by (simp_all add: str_char_def)

lemma num_of_to_string [simp]: "num_of (to_string i) = i"
  using strtol_to_string [of "[]" i] by (simp add: num_of_def)

lemma sql_safe_state [simp]: "sql_safe ''offline''" "sql_safe ''online''"
  by (simp_all add: sql_safe_def)

lemma num_char_simps [simp]:
  "\<not> num_char CHR '',''" "\<not> num_char CHR '')''" "\<not> num_char CHR 0x27" "\<not> num_char CHR '' ''"
  by (simp_all add: num_char_def is_digit_def)

lemma read_stmt_text: "stmt_safe st \<Longrightarrow> read_stmt (stmt_text st) = Some st"
  by (cases st; simp add: read_stmt_def sql_patterns_def sql_texts str_char_simps)

lemma read_set_names [simp]: "read_stmt ''set names gbk'' = None"
  by (simp add: read_stmt_def sql_patterns_def)

section \<open>The database\<close>

record mem_db =
  md_tabs :: chat_tables
  md_busy :: bool
  md_rows :: "row list option"
  md_new :: int

fun fresh_id :: "stmt \<Rightarrow> chat_tables \<Rightarrow> int" where
  "fresh_id (Ins_user _ _ _) t = 1 + foldr max (map fst (t_users t)) 0"
| "fresh_id (Ins_group _ _) t = 1 + foldr max (map fst (t_groups t)) 0"
| "fresh_id _ t = 1"

definition mem_query :: "string \<Rightarrow> mem_db \<Rightarrow> bool \<times> mem_db" where
  "mem_query sql c =
     (if md_busy c then (False, c)
      else case read_stmt sql of
        None \<Rightarrow> (False, c)
      | Some st \<Rightarrow>
          if is_select st then (True, c\<lparr>md_rows := Some (stmt_rows st (md_tabs c))\<rparr>)
          else if is_change st then (True, c\<lparr>md_tabs := apply_stmt 0 st (md_tabs c)\<rparr>)
          else let new = fresh_id st (md_tabs c) in
            if new \<le> int_max then (True, c\<lparr>md_tabs := apply_stmt new st (md_tabs c), md_new := new\<rparr>)
            else (False, c))"

definition mem_mysql :: "mem_db mysql" where
  "mem_mysql = \<lparr>my_connect = \<lambda>c. (True, c\<lparr>md_busy := False\<rparr>), my_query = mem_query,
     my_use_result = \<lambda>c. (md_rows c, c\<lparr>md_busy := True\<rparr>), my_fetch_end = \<lambda>c. c\<lparr>md_busy := False\<rparr>,
     my_free_result = \<lambda>c. c\<lparr>md_busy := False\<rparr>, my_insert_id = md_new, my_close = \<lambda>c. c\<rparr>"

definition mem_start :: "chat_tables \<Rightarrow> mem_db" where
  "mem_start t = \<lparr>md_tabs = t, md_busy = False, md_rows = None, md_new = 0\<rparr>"

lemma foldr_max_bound: "x \<in> set xs \<Longrightarrow> x \<le> foldr max xs (0 :: int)" "0 \<le> foldr max xs (0 :: int)"
  by (induction xs) (auto simp: le_max_iff_disj)

lemma fresh_id_ok:
  assumes "is_insert st" "fresh_id st t \<le> int_max"
  shows "new_id_ok (fresh_id st t) st t"
proof -
  have above: "0 < 1 + foldr max ks 0" "1 + foldr max ks 0 \<notin> set ks" for ks :: "int list"
    using foldr_max_bound(1) [of "1 + foldr max ks 0" ks] foldr_max_bound(2) [of ks] by auto
  show ?thesis
    using above [of "map fst (t_users t)"] above [of "map fst (t_groups t)"] assms
    by - (cases st, auto simp: int_range_def int_min_def)
qed

lemma select_is_safe: "is_select st \<Longrightarrow> stmt_safe st"
  by (cases st) auto

lemma kinds_disjoint: "is_change st \<Longrightarrow> \<not> is_select st" "is_insert st \<Longrightarrow> \<not> is_select st \<and> \<not> is_change st"
  by (cases st; simp)+

theorem mem_mysql_ok: "mysql_ok mem_mysql md_tabs md_busy"
  unfolding mysql_ok_def
proof (intro conjI allI impI)
  fix st and c :: mem_db
  assume a: "\<not> md_busy c \<and> stmt_safe st \<and> is_insert st"
  show "\<exists>ok c'. my_query mem_mysql (stmt_text st) c = (ok, c') \<and> \<not> md_busy c' \<and>
      md_tabs c' = (if ok then apply_stmt (my_insert_id mem_mysql c') st (md_tabs c) else md_tabs c) \<and>
      (ok \<longrightarrow> new_id_ok (my_insert_id mem_mysql c') st (md_tabs c))"
    using a fresh_id_ok [of st "md_tabs c"] kinds_disjoint(2) [of st]
    by (cases "fresh_id st (md_tabs c) \<le> int_max")
      (auto simp: mem_mysql_def mem_query_def read_stmt_text Let_def)
qed (auto simp: mem_mysql_def mem_query_def read_stmt_text select_is_safe kinds_disjoint)

end
