(* ===== verification/ChatProperties.thy ===== *)
theory ChatProperties
  imports ChatSessions ChatMemoryDb
begin

text \<open>
  The properties of the chat service, each tried on the database in memory and a small JSON
  library.
\<close>

section \<open>A concrete setting\<close>

definition demo_lib :: json_lib where
  "demo_lib = \<lparr>js_parse = \<lambda>s. if s = ''login'' then
         Some (json_obj [(''msgid'', JInt 1), (''id'', JInt 7), (''password'', JStr ''p'')]) else None,
     js_dump = \<lambda>j. if json_utf8 j then Some (if json_at j ''msg'' = Inr (JStr ''hi'') then ''hi'' else ''ok'') else None\<rparr>"

definition demo_tabs :: chat_tables where
  "demo_tabs = \<lparr>t_users = [(7, ''ann'', ''p'', ''offline''), (8, ''bob'', ''q'', ''online''), (9, ''cid'', ''r'', ''online'')],
     t_friends = [(7, 8)], t_offline = [(7, ''hello'')], t_groups = [(1, ''g'', ''d'')],
     t_members = [(1, 7, ''creator''), (1, 8, ''normal''), (1, 9, ''normal'')]\<rparr>"

definition demo_world :: "mem_db chat_world" where
  "demo_world = \<lparr>cw_db = mem_start demo_tabs, cw_conns = [8 \<mapsto> 0, 9 \<mapsto> 0], cw_out = []\<rparr>"

definition chat_js :: json where
  "chat_js = json_obj [(''msgid'', JInt 3), (''id'', JInt 8), (''toid'', JInt 7), (''msg'', JStr ''hi'')]"

definition login_js :: json where
  "login_js = json_obj [(''msgid'', JInt 1), (''id'', JInt 7), (''password'', JStr ''p'')]"

definition group_js :: json where
  "group_js = json_obj [(''msgid'', JInt 8), (''id'', JInt 8), (''groupid'', JInt 1), (''msg'', JStr ''hi'')]"

lemma demo_dumps [simp]: "dumps_ok demo_lib"
  by (simp add: dumps_ok_def demo_lib_def)

lemma demo_db [simp]: "cw_db demo_world = mem_start demo_tabs" "md_tabs (mem_start t) = t"
  "cw_conns demo_world = [8 \<mapsto> 0, 9 \<mapsto> 0]" "cw_out demo_world = []"
  by (simp_all add: demo_world_def mem_start_def)

lemma demo_tables [simp]: "tables_ok demo_tabs"
  by (simp add: tables_ok_def demo_tabs_def int_range_def int_min_def int_max_def split: prod.splits)

lemma demo_fields [simp]:
  "int_field chat_js ''toid'' = Inr 7" "int_field login_js ''id'' = Inr 7" "str_field login_js ''password'' = Inr ''p''"
  "int_field group_js ''id'' = Inr 8" "int_field group_js ''groupid'' = Inr 1"
  by (simp_all add: chat_js_def login_js_def group_js_def)

lemma demo_dump [simp]: "js_dump demo_lib chat_js = Some ''hi''" "js_dump demo_lib group_js = Some ''hi''"
  by (simp_all add: chat_js_def group_js_def demo_lib_def json_utf8_obj)

lemma demo_storable [simp]: "storable ''hi''" "sql_safe ''hi''"
  by (simp_all add: storable_def sql_safe_def)

lemma demo_fits [simp]: "\<not> too_long 7 ''hi''" "\<not> too_long 8 ''hi''"
  by (simp_all add: storable_fits int_range_def int_min_def int_max_def)

lemma demo_sessions [simp]: "sessions_ok md_tabs demo_world"
  unfolding sessions_ok_def session_inv_def
proof (intro conjI)
  show "{i. usr_state (user_lookup (md_tabs (cw_db demo_world)) i) = ''online''} = dom (cw_conns demo_world)"
    by (auto simp: user_lookup_def demo_tabs_def User_make_def new_user_def split: if_splits)
qed simp

lemma demo_lookup [simp]: "usr_state (user_lookup demo_tabs 7) = ''offline''"
  "usr_state (user_lookup demo_tabs 8) = ''online''" "usr_state (user_lookup demo_tabs 9) = ''online''"
  by (simp_all add: user_lookup_def demo_tabs_def User_make_def)

lemma demo_printable [simp]: "login_printable 7 demo_tabs" "tables_utf8 demo_tabs"
proof -
  show "tables_utf8 demo_tabs" by (simp add: tables_utf8_def demo_tabs_def)
  then show "login_printable 7 demo_tabs" by (rule tables_utf8_printable)
qed

lemma demo_offline [simp]: "t_offline demo_tabs = [(7, ''hello'')]"
  by (simp add: demo_tabs_def)

lemma demo_code [simp]: "login_code demo_tabs 7 ''p'' = 0"
  unfolding login_code_zero by (simp add: user_lookup_def demo_tabs_def User_make_def)

interpretation mem: chat_backend mem_mysql md_tabs md_busy demo_lib
  by unfold_locales (simp_all add: mem_mysql_ok)

section \<open>Messages\<close>

text \<open>
  Property (C11). A chat message goes to exactly one place: to the connection of a receiver who is
  online and logged in at this server, to the receiver's Redis channel when online elsewhere, and
  into the table of offline messages otherwise; nothing else changes. What is to be kept and does
  not fit the 1024 bytes of the statement (\<open>too_long\<close>) ends the handler with the overflow and
  changes nothing. The receiver must be online or the printed message free of quotes, backslashes
  and NUL: these are not escaped, so the statement means something else, and then only this is
  said, that nothing is sent or published.
\<close>

theorem oneChat_routed:
  assumes "mysql_ok my tabs pending" and "tables_ok (tabs (cw_db w))"
    and "js_dump lib js = Some s" and "int_field js ''toid'' = Inr i"
  shows "\<exists>r c'. oneChat my lib js w =
      (r, w\<lparr>cw_db := c', cw_out := cw_out w @ fst (snd (routed (cw_conns w) s i (tabs (cw_db w))))\<rparr>) \<and>
    (online (tabs (cw_db w)) i \<or> sql_safe s \<longrightarrow> r = fst (routed (cw_conns w) s i (tabs (cw_db w))) \<and>
      tabs c' = snd (snd (routed (cw_conns w) s i (tabs (cw_db w)))))"
  using assms by (rule oneChat_any)

theorem oneChat_routed_witness:
  "\<exists>c'. oneChat mem_mysql demo_lib chat_js demo_world = (Inr (), demo_world\<lparr>cw_db := c', cw_out := []\<rparr>) \<and>
    t_offline (md_tabs c') = [(7, ''hello''), (7, ''hi'')]"
  using oneChat_routed [OF mem_mysql_ok, of demo_world demo_lib chat_js "''hi''" 7]
  by (auto simp: routed_def route_def)

text \<open>
  Property (C27). A group message goes once to every other member of the group, each by the same
  rule as a message to one user, one after the other: the first member for whom it has to be kept
  and does not fit the statement ends the handler, and those after get nothing. The printed message
  must be free of quotes, backslashes and NUL, unless all these members are online.
\<close>

theorem groupChat_routed:
  assumes "mysql_ok my tabs pending" and "tables_ok (tabs (cw_db w))"
    and "js_dump lib js = Some s"
    and "int_field js ''id'' = Inr i" and "int_field js ''groupid'' = Inr g"
    and "sql_safe s \<or> (\<forall>u \<in> set (others_of (tabs (cw_db w)) g i). online (tabs (cw_db w)) u)"
  shows "\<exists>c' ids. groupChat my lib js w =
      (fst (routed_all (cw_conns w) s ids (tabs (cw_db w))),
       w\<lparr>cw_db := c', cw_out := cw_out w @ fst (snd (routed_all (cw_conns w) s ids (tabs (cw_db w))))\<rparr>) \<and>
    mset ids = mset (others_of (tabs (cw_db w)) g i) \<and>
    tabs c' = snd (snd (routed_all (cw_conns w) s ids (tabs (cw_db w))))"
  using assms by (rule groupChat_spec)

theorem groupChat_routed_witness:
  "\<exists>w'. groupChat mem_mysql demo_lib group_js demo_world = (Inr (), w') \<and>
    cw_out w' = [Ef_send 0 ''hi''] \<and> t_offline (md_tabs (cw_db w')) = [(7, ''hello''), (7, ''hi'')]"
proof -
  have o: "others_of demo_tabs 1 8 = [7, 9]" by (simp add: others_of_def demo_tabs_def)
  have p: "ids = [7, 9] \<or> ids = [9, 7]" if ids: "mset ids = {#7, 9 :: int#}" for ids
  proof -
    have "length ids = 2" using arg_cong [OF ids, of size] by simp
    then obtain a b where "ids = [a, b]" by (auto simp: length_Suc_conv numeral_2_eq_2)
    with ids show ?thesis by (auto simp: add_eq_conv_ex)
  qed
  have r: "routed_all [8 \<mapsto> 0, 9 \<mapsto> 0] ''hi'' ids demo_tabs =
      (Inr (), [Ef_send 0 ''hi''], demo_tabs\<lparr>t_offline := [(7, ''hello''), (7, ''hi'')]\<rparr>)" if "mset ids = {#7, 9 :: int#}" for ids
    using p [OF that] by (auto simp: route_def routed_def)
  obtain c' ids where "groupChat mem_mysql demo_lib group_js demo_world =
        (fst (routed_all [8 \<mapsto> 0, 9 \<mapsto> 0] ''hi'' ids demo_tabs), demo_world\<lparr>cw_db := c',
        cw_out := fst (snd (routed_all [8 \<mapsto> 0, 9 \<mapsto> 0] ''hi'' ids demo_tabs))\<rparr>)"
      "mset ids = {#7, 9#}" "md_tabs c' = snd (snd (routed_all [8 \<mapsto> 0, 9 \<mapsto> 0] ''hi'' ids demo_tabs))"
    using groupChat_routed [OF mem_mysql_ok, of demo_world demo_lib group_js "''hi''" 8 1] by (auto simp: o)
  then show ?thesis using r [of ids] by simp
qed

text \<open>
  Property (C12). A message to a user who is offline is kept, and the next login takes it out together
  with everything kept before and hands all of it over, once: afterwards no message is kept for that
  user, and those kept for others are untouched. This holds for a message whose printed form has no
  quote, backslash or NUL and fits the statement, and when everything the answer to the login shows
  is UTF-8. When a kept message, a name or a group text is not, the messages are lost: they are
  taken out of the table before the answer is printed, and printing it throws.
\<close>

theorem offline_message_delivered:
  assumes ok: "mysql_ok my tabs pending" and t: "tables_ok (tabs (cw_db w))" and d: "dumps_ok lib"
    and s: "js_dump lib js = Some s" "sql_safe s" "\<not> too_long i s" and js: "int_field js ''toid'' = Inr i"
    and lg: "int_field lg ''id'' = Inr i" "str_field lg ''password'' = Inr pwd"
    and u: "login_code (tabs (cw_db w)) i pwd = 0"
  shows "\<exists>w1 r w2 msgs friends groups. oneChat my lib js w = (Inr (), w1) \<and> cw_out w1 = cw_out w \<and>
    login my lib k lg w1 = (r, w2) \<and>
    (if login_printable i (tabs (cw_db w)) then r = Inr () \<and>
       cw_out w2 = cw_out w @ [Ef_subscribe (user_channel i), Ef_send k (printed lib
         (accepted_answer lib (user_lookup (tabs (cw_db w)) i) msgs friends groups))]
     else r = Inl Json_utf8 \<and> cw_out w2 = cw_out w @ [Ef_subscribe (user_channel i)]) \<and>
    mset msgs = mset (offline_of (tabs (cw_db w)) i @ [s]) \<and>
    offline_of (tabs (cw_db w2)) = (offline_of (tabs (cw_db w)))(i := [])"
proof -
  let ?t = "tabs (cw_db w)"
  have off: "\<not> online ?t i" using u by (simp add: login_code_zero)
  obtain c1 where c1: "oneChat my lib js w = (Inr (), w\<lparr>cw_db := c1\<rparr>)" "tabs c1 = ?t\<lparr>t_offline := t_offline ?t @ [(i, s)]\<rparr>"
    using oneChat_spec [OF ok t s(1) _ js] off s(2,3) by (auto simp: route_def routed_def)
  let ?w1 = "w\<lparr>cw_db := c1\<rparr>"
  have t1: "tables_ok (tabs (cw_db ?w1))" and u1: "login_code (tabs (cw_db ?w1)) i pwd = 0"
    using t u by (simp_all add: c1(2))
  have p: "login_printable i (tabs (cw_db ?w1)) \<longleftrightarrow> login_printable i ?t"
    using dumps_okD(3) [OF d s(1)] by (simp add: c1(2) login_printable_offline)
  obtain r w2 msgs friends groups where c2: "login my lib k lg ?w1 = (r, w2)"
      "if login_printable i ?t then r = Inr () \<and>
         cw_out w2 = cw_out w @ [Ef_subscribe (user_channel i), Ef_send k (printed lib
           (accepted_answer lib (user_lookup ?t i) msgs friends groups))]
       else r = Inl Json_utf8 \<and> cw_out w2 = cw_out w @ [Ef_subscribe (user_channel i)]"
      "mset msgs = mset (offline_of ?t i @ [s])" "tabs (cw_db w2) = after_login i (tabs c1)"
    using login_spec [OF ok t1 d lg u1, of k] unfolding p
    by (cases "login_printable i ?t") (auto simp: c1(2))
  have "offline_of (tabs (cw_db w2)) = (offline_of ?t)(i := [])"
    unfolding c2(4) c1(2) by (rule ext) (simp add: after_login_def offline_of_filter, simp add: offline_of_def)
  with c1(1) c2(1-3) show ?thesis
    by (intro exI [of _ ?w1] exI [of _ r] exI [of _ w2] exI [of _ msgs] exI [of _ friends] exI [of _ groups]) simp
qed

theorem offline_message_delivered_witness:
  "\<exists>w1 w2 msgs friends groups. oneChat mem_mysql demo_lib chat_js demo_world = (Inr (), w1) \<and>
    login mem_mysql demo_lib 5 login_js w1 = (Inr (), w2) \<and>
    cw_out w2 = [Ef_subscribe (user_channel 7), Ef_send 5 (printed demo_lib
      (accepted_answer demo_lib (user_lookup demo_tabs 7) msgs friends groups))] \<and>
    mset msgs = {# ''hello'', ''hi'' #} \<and> offline_of (md_tabs (cw_db w2)) 7 = []"
proof -
  have o: "offline_of demo_tabs 7 = [''hello'']" by (simp add: offline_of_def)
  show ?thesis
    using offline_message_delivered [OF mem_mysql_ok, of demo_world demo_lib chat_js "''hi''" 7 login_js "''p''" 5]
    by (force simp: o)
qed

section \<open>Logging in\<close>

text \<open>
  Property (C10). A login with a number and a password is refused with code 1 for an unknown user, 2
  for a wrong password and 3 for a user who is already online, and then nothing but the answer
  happens; otherwise the user is put online, the connection is entered unless the user has one, the
  user's channel is subscribed, the kept messages are taken out, and one answer carries them with
  the friends and the groups, the groups without any members. When a text of that answer is not
  UTF-8, all of this happens but the answer: the handler throws, the user stays online and the
  messages are gone.
\<close>

theorem login_outcomes:
  assumes ok: "mysql_ok my tabs pending" and t: "tables_ok (tabs (cw_db w))" and d: "dumps_ok lib"
    and js: "int_field js ''id'' = Inr i" "str_field js ''password'' = Inr pwd"
  shows "\<exists>c' msgs friends groups. login my lib k js w =
      (let e = login_code (tabs (cw_db w)) i pwd in
       if e \<noteq> 0 then
         (Inr (), w\<lparr>cw_db := c', cw_out := cw_out w @ [Ef_send k (printed lib (login_error e (refusal_text e)))]\<rparr>)
       else if login_printable i (tabs (cw_db w)) then
         (Inr (), w\<lparr>cw_db := c', cw_conns := map_insert i k (cw_conns w),
            cw_out := cw_out w @ [Ef_subscribe (user_channel i), Ef_send k (printed lib
              (accepted_answer lib (user_lookup (tabs (cw_db w)) i) msgs friends groups))]\<rparr>)
       else
         (Inl Json_utf8, w\<lparr>cw_db := c', cw_conns := map_insert i k (cw_conns w),
            cw_out := cw_out w @ [Ef_subscribe (user_channel i)]\<rparr>)) \<and>
    mset msgs = mset (offline_of (tabs (cw_db w)) i) \<and>
    mset friends = mset (friends_of (after_login i (tabs (cw_db w))) i) \<and>
    mset groups = mset (groups_of (tabs (cw_db w)) i) \<and>
    tabs c' = (if login_code (tabs (cw_db w)) i pwd = 0 then after_login i (tabs (cw_db w)) else tabs (cw_db w))"
proof (cases "login_code (tabs (cw_db w)) i pwd = 0")
  case True
  from login_spec [OF ok t d js True, of k] show ?thesis unfolding True Let_def by simp
next
  case False
  obtain c' where "login my lib k js w = (Inr (), w\<lparr>cw_db := c', cw_out := cw_out w @ [Ef_send k (printed lib
        (login_error (login_code (tabs (cw_db w)) i pwd) (refusal_text (login_code (tabs (cw_db w)) i pwd))))]\<rparr>)"
      "tabs c' = tabs (cw_db w)"
    using login_refused_spec [OF ok t d js refl False] by blast
  with False show ?thesis
    by (intro exI [of _ c'] exI [of _ "offline_of (tabs (cw_db w)) i"]
        exI [of _ "friends_of (after_login i (tabs (cw_db w))) i"] exI [of _ "groups_of (tabs (cw_db w)) i"])
      (simp add: Let_def)
qed

theorem login_outcomes_witness:
  "\<exists>c' msgs friends groups. login mem_mysql demo_lib 5 login_js demo_world = (Inr (),
      demo_world\<lparr>cw_db := c', cw_conns := [8 \<mapsto> 0, 9 \<mapsto> 0, 7 \<mapsto> 5],
        cw_out := [Ef_subscribe (user_channel 7), Ef_send 5 (printed demo_lib
          (accepted_answer demo_lib (user_lookup demo_tabs 7) msgs friends groups))]\<rparr>) \<and>
    msgs = [''hello''] \<and> groups = [Group_make 1 ''g'' ''d'']"
proof -
  have "offline_of demo_tabs 7 = [''hello'']" "groups_of demo_tabs 7 = [Group_make 1 ''g'' ''d'']"
    by (simp_all add: offline_of_def groups_of_def demo_tabs_def)
  moreover have "map_insert 7 5 [8 \<mapsto> 0, 9 \<mapsto> 0] = [8 :: int \<mapsto> 0, 9 \<mapsto> 0, 7 \<mapsto> (5 :: nat)]"
    by (simp add: map_insert_def)
  ultimately show ?thesis
    using login_outcomes [OF mem_mysql_ok, of demo_world demo_lib login_js 7 "''p''" 5] by auto
qed

text \<open>An accepted login whose texts can be printed.\<close>

lemma login_runs:
  assumes ok: "mysql_ok my tabs pending" and t: "tables_ok (tabs (cw_db v))" and d: "dumps_ok lib"
    and lg: "int_field lg ''id'' = Inr i" "str_field lg ''password'' = Inr pwd"
    and code: "login_code (tabs (cw_db v)) i pwd = 0" and p: "login_printable i (tabs (cw_db v))"
  shows "\<exists>w2 msgs friends groups. login my lib k lg v = (Inr (), w2) \<and>
    cw_conns w2 = map_insert i k (cw_conns v) \<and> online (tabs (cw_db w2)) i \<and>
    cw_out w2 = cw_out v @ [Ef_subscribe (user_channel i), Ef_send k (printed lib
      (accepted_answer lib (user_lookup (tabs (cw_db v)) i) msgs friends groups))]"
proof -
  obtain c2 msgs friends groups where l: "login my lib k lg v =
      (Inr (), v\<lparr>cw_db := c2, cw_conns := map_insert i k (cw_conns v),
        cw_out := cw_out v @ [Ef_subscribe (user_channel i), Ef_send k (printed lib
          (accepted_answer lib (user_lookup (tabs (cw_db v)) i) msgs friends groups))]\<rparr>)"
      "tabs c2 = after_login i (tabs (cw_db v))"
    using login_spec [OF ok t d lg code, of k] p by auto
  have "online (tabs c2) i"
    using code unfolding login_code_zero by (auto simp: l(2) after_login_def user_lookup_set_state)
  with l(1) show ?thesis
    by (intro exI [of _ "v\<lparr>cw_db := c2, cw_conns := map_insert i k (cw_conns v),
        cw_out := cw_out v @ [Ef_subscribe (user_channel i), Ef_send k (printed lib
          (accepted_answer lib (user_lookup (tabs (cw_db v)) i) msgs friends groups))]\<rparr>"]
        exI [of _ msgs] exI [of _ friends] exI [of _ groups]) simp
qed

text \<open>
  Property (C28). A user registered by a message can log in: when the registration is answered with
  success, a login with the number in the answer and the password of the message is accepted and
  carries the registered name, while before the registration the same login was refused as of an
  unknown user. The name and the password must have no quote, backslash or NUL and be at most 800
  characters together, and the name and the texts in the tables must be UTF-8.
\<close>

theorem registered_user_can_login:
  assumes ok: "mysql_ok my tabs pending" and t: "tables_ok (tabs (cw_db w))" and d: "dumps_ok lib"
    and js: "str_field js ''name'' = Inr name" "str_field js ''password'' = Inr pwd"
    and safe: "sql_safe name" "sql_safe pwd" "length name + length pwd \<le> 800"
    and utf8: "valid_utf8 name" "tables_utf8 (tabs (cw_db w))"
  shows "\<exists>w' ans. reg my lib k js w = (Inr (), w') \<and> cw_out w' = cw_out w @ [Ef_send k (printed lib ans)] \<and>
    (int_field ans ''errno'' = Inr 1 \<and> tabs (cw_db w') = tabs (cw_db w) \<or>
     int_field ans ''errno'' = Inr 0 \<and>
     (\<exists>i. int_field ans ''id'' = Inr i \<and>
       (\<forall>lg k'. int_field lg ''id'' = Inr i \<and> str_field lg ''password'' = Inr pwd \<longrightarrow>
         (\<exists>w1. login my lib k' lg w = (Inr (), w1) \<and> cw_conns w1 = cw_conns w \<and>
            cw_out w1 = cw_out w @ [Ef_send k' (printed lib (login_error 1 ''user not exist''))]) \<and>
         (\<exists>w2 msgs friends groups. login my lib k' lg w' = (Inr (), w2) \<and> cw_conns w2 = map_insert i k' (cw_conns w') \<and>
            online (tabs (cw_db w2)) i \<and>
            cw_out w2 = cw_out w' @ [Ef_subscribe (user_channel i), Ef_send k' (printed lib
              (accepted_answer lib (User_make i name pwd ''offline'') msgs friends groups))]))))"
proof -
  let ?t = "tabs (cw_db w)"
  obtain c' ins new where r: "reg my lib k js w = (Inr (), w\<lparr>cw_db := c', cw_out := cw_out w @ [Ef_send k (printed lib
        (json_obj (if ins then [(''msgid'', JInt REG_MSG), (''errno'', JInt 0), (''id'', JInt new)]
          else [(''msgid'', JInt REG_MSG), (''errno'', JInt 1)])))]\<rparr>)"
      and c': "if ins then 0 < new \<and> int_range new \<and> new \<notin> fst ` set (t_users ?t) \<and>
         tabs c' = ?t\<lparr>t_users := t_users ?t @ [(new, name, pwd, ''offline'')]\<rparr>
       else tabs c' = ?t"
    using reg_spec [OF ok d js safe] by blast
  show ?thesis
  proof (cases ins)
    case True
    then have new: "0 < new" "int_range new" "new \<notin> fst ` set (t_users ?t)"
        "tabs c' = ?t\<lparr>t_users := t_users ?t @ [(new, name, pwd, ''offline'')]\<rparr>"
      using c' by simp_all
    let ?ans = "json_obj [(''msgid'', JInt REG_MSG), (''errno'', JInt 0), (''id'', JInt new)]"
    let ?w' = "w\<lparr>cw_db := c', cw_out := cw_out w @ [Ef_send k (printed lib ?ans)]\<rparr>"
    have ans: "int_field ?ans ''errno'' = Inr 0" "int_field ?ans ''id'' = Inr new"
      using new(2) by simp_all
    have look: "user_lookup (tabs c') new = User_make new name pwd ''offline''"
      unfolding new(4) using user_lookup_append [OF new(3)] by simp
    have codes: "login_code (tabs c') new pwd = 0" "login_code ?t new pwd = 1"
      unfolding login_code_zero look using new(3,4) by (simp_all add: login_code_def User_make_def)
    have t': "tables_ok (tabs (cw_db ?w'))" using t new by (auto simp: tables_ok_def)
    have "tables_utf8 (tabs c')" using utf8 by (auto simp: new(4) tables_utf8_def)
    then have p: "login_printable new (tabs c')" by (rule tables_utf8_printable)
    have first: "\<exists>w1. login my lib k' lg w = (Inr (), w1) \<and> cw_conns w1 = cw_conns w \<and>
        cw_out w1 = cw_out w @ [Ef_send k' (printed lib (login_error 1 ''user not exist''))]"
      if "int_field lg ''id'' = Inr new" "str_field lg ''password'' = Inr pwd" for lg k'
      using login_refused_spec [OF ok t d that codes(2), of k'] by (auto simp: refusal_text_def)
    note second = login_runs [OF ok t' d, of _ new pwd]
    have "reg my lib k js w = (Inr (), ?w')" using r True by simp
    with first second codes(1) p look ans show ?thesis
      by (intro exI [of _ ?w'] exI [of _ ?ans] conjI disjI2 exI [of _ new]) (simp | fastforce)+
  next
    case False
    with r c' show ?thesis by auto
  qed
qed

theorem registered_user_can_login_witness:
  "\<exists>w' ans. reg mem_mysql demo_lib 5 (json_obj [(''name'', JStr ''dan''), (''password'', JStr ''s'')]) demo_world =
     (Inr (), w') \<and> cw_out w' = [Ef_send 5 (printed demo_lib ans)]"
  using registered_user_can_login [OF mem_mysql_ok, of demo_world demo_lib
      "json_obj [(''name'', JStr ''dan''), (''password'', JStr ''s'')]" "''dan''" "''s''" 5]
  by (auto simp: sql_safe_def)

text \<open>
  After a restart of the server the users that were online still are in the
  database: they cannot log in again, and messages to them are published to a channel nobody
  listens to instead of being kept. \<open>resetState\<close>, which the server never calls, would cure it.
\<close>

theorem restart_locks_users_out:
  assumes ok: "mysql_ok my tabs pending" and t: "tables_ok (tabs (cw_db w))" and d: "dumps_ok lib"
    and up: "cw_conns w = Map.empty" "i \<in> fst ` set (t_users (tabs (cw_db w)))"
      "usr_state (user_lookup (tabs (cw_db w)) i) = ''online''"
    and lg: "int_field lg ''id'' = Inr i" "str_field lg ''password'' = Inr (usr_pwd (user_lookup (tabs (cw_db w)) i))"
    and js: "int_field js ''toid'' = Inr i" and s: "js_dump lib js = Some s"
  shows "\<exists>w1 w2 c. login my lib k lg w = (Inr (), w1) \<and>
      cw_out w1 = cw_out w @ [Ef_send k (printed lib (login_error 3 ''this account is using''))] \<and>
    oneChat my lib js w1 = (Inr (), w2) \<and> cw_out w2 = cw_out w1 @ [Ef_publish (user_channel i) s] \<and>
      tabs (cw_db w2) = tabs (cw_db w) \<and>
    UserModel_resetState my (cw_db w2) = (Inr (), c) \<and>
      login_code (tabs c) i (usr_pwd (user_lookup (tabs (cw_db w)) i)) = 0"
proof -
  let ?t = "tabs (cw_db w)"
  have code: "login_code ?t i (usr_pwd (user_lookup ?t i)) = 3" using up by (simp add: login_code_def)
  obtain c1 where c1: "login my lib k lg w = (Inr (), w\<lparr>cw_db := c1,
      cw_out := cw_out w @ [Ef_send k (printed lib (login_error 3 (refusal_text 3)))]\<rparr>)" "tabs c1 = ?t"
    using login_refused_spec [OF ok t d lg code] by auto
  let ?w1 = "w\<lparr>cw_db := c1, cw_out := cw_out w @ [Ef_send k (printed lib (login_error 3 (refusal_text 3)))]\<rparr>"
  have t1: "tables_ok (tabs (cw_db ?w1))" using t c1(2) by simp
  obtain c2 where c2: "oneChat my lib js ?w1 = (Inr (), ?w1\<lparr>cw_db := c2,
      cw_out := cw_out ?w1 @ [Ef_publish (user_channel i) s]\<rparr>)" "tabs c2 = ?t"
    using oneChat_spec [OF ok t1 s _ js] up(1,3) c1(2) by (auto simp: route_def routed_def)
  obtain c3 where c3: "UserModel_resetState my c2 = (Inr (), c3)" "tabs c3 = apply_stmt 0 Reset_state ?t"
    using UserModel_resetState_spec [OF ok, of c2] c2(2) by auto
  have "login_code (tabs c3) i (usr_pwd (user_lookup ?t i)) = 0"
    unfolding c3(2) using up(2,3) by (rule login_code_reset)
  with c1(1) c2 c3(1) show ?thesis by (auto simp: refusal_text_def)
qed

theorem restart_locks_users_out_witness:
  "\<exists>w1 w2. login mem_mysql demo_lib 5 (json_obj [(''id'', JInt 8), (''password'', JStr ''q'')])
      (demo_world\<lparr>cw_conns := Map.empty\<rparr>) = (Inr (), w1) \<and>
    oneChat mem_mysql demo_lib (json_obj [(''toid'', JInt 8), (''msg'', JStr ''hi'')]) w1 = (Inr (), w2) \<and>
    cw_out w2 = [Ef_send 5 (printed demo_lib (login_error 3 ''this account is using'')),
      Ef_publish (user_channel 8) ''hi'']"
proof -
  have u: "8 \<in> fst ` set (t_users demo_tabs)" "usr_pwd (user_lookup demo_tabs 8) = ''q''"
    by (simp_all add: demo_tabs_def user_lookup_def User_make_def)
  let ?w = "demo_world\<lparr>cw_conns := Map.empty\<rparr>" and ?lg = "json_obj [(''id'', JInt 8), (''password'', JStr ''q'')]"
    and ?js = "json_obj [(''toid'', JInt 8), (''msg'', JStr ''hi'')]"
  have f: "int_field ?lg ''id'' = Inr 8" "str_field ?lg ''password'' = Inr ''q''" "int_field ?js ''toid'' = Inr 8"
    by simp_all
  have s: "js_dump demo_lib ?js = Some ''hi''" by (simp add: demo_lib_def json_utf8_obj)
  obtain w1 w2 c where "login mem_mysql demo_lib 5 ?lg ?w = (Inr (), w1)"
      "cw_out w1 = [Ef_send 5 (printed demo_lib (login_error 3 ''this account is using''))]"
      "oneChat mem_mysql demo_lib ?js w1 = (Inr (), w2)" "cw_out w2 = cw_out w1 @ [Ef_publish (user_channel 8) ''hi'']"
    using restart_locks_users_out [OF mem_mysql_ok _ demo_dumps _ _ _ f(1) _ f(3) s, of ?w 5] u f(2)
    by auto
  then show ?thesis by auto
qed

text \<open>
  The groups a login reports never list a member, however many the group has: the
  members are asked for on the connection on which the groups are still being fetched, and that
  query fails.
\<close>

theorem reported_groups_have_no_members:
  assumes "mysql_ok my tabs pending" and "tables_ok (tabs c)" and "int_range i"
  shows "\<exists>c' gs. GroupModel_queryGroups my i c = (Inr gs, c') \<and> mset gs = mset (groups_of (tabs c) i) \<and>
    map grp_users gs = replicate (length gs) []"
proof -
  obtain c' gs where gs: "GroupModel_queryGroups my i c = (Inr gs, c')"
      "mset gs = mset (groups_of (tabs c) i)" "\<forall>g \<in> set gs. grp_users g = []"
    using GroupModel_queryGroups_spec [OF assms] by blast
  have "map grp_users gs = replicate (length gs) []"
    using gs(3) by (simp add: map_replicate_const flip: map_replicate_const cong: map_cong)
  with gs show ?thesis by blast
qed

theorem reported_groups_have_no_members_witness:
  "others_of demo_tabs 1 7 = [8, 9] \<and>
   (\<exists>c' g. GroupModel_queryGroups mem_mysql 7 (mem_start demo_tabs) = (Inr [g], c') \<and> grp_users g = [])"
proof -
  have "groups_of demo_tabs 7 = [Group_make 1 ''g'' ''d'']" "int_range 7" "others_of demo_tabs 1 7 = [8, 9]"
    by (simp_all add: groups_of_def others_of_def demo_tabs_def int_range_def int_min_def int_max_def)
  then show ?thesis
    using reported_groups_have_no_members [OF mem_mysql_ok, of "mem_start demo_tabs" 7] by auto
qed

section \<open>Sessions\<close>

text \<open>
  Property (C6). On a server that has its database for itself the users online are exactly those
  in the connection map. Whatever bytes arrive on whatever connections and whichever connections
  close, this stays true, provided the messages can be stored (\<open>clean_message\<close>: the printed message
  and the names, passwords and group texts in it have no quote, backslash or NUL, and are at most
  960 and 400 characters). A handler can fail only on malformed JSON or because a text it would
  print is not UTF-8, and leaves the sessions intact even then.
\<close>

theorem sessions_invariant:
  assumes "mysql_ok my tabs pending" and "dumps_ok lib" and "sessions_ok tabs w"
    and "\<forall>e \<in> set es. clean_event lib e"
  shows "sessions_ok tabs (snd (chat_run my lib order es w)) \<and>
    fst (chat_run my lib order es w) \<in> {Inr (), Inl Json_parse, Inl Json_type, Inl Json_utf8}"
  using chat_backend.run_keeps [OF chat_backend.intro [OF assms(1,2)] assms(4), of order] assms(3)
  by (auto simp: keeps_def)

theorem sessions_invariant_witness:
  "sessions_ok md_tabs (snd (chat_run mem_mysql demo_lib (\<lambda>_. [7, 8, 9])
     [Ev_bytes 5 ''login'', Ev_close 0, Ev_bytes 5 ''?''] demo_world))"
proof -
  have "\<forall>e \<in> set [Ev_bytes 5 ''login'', Ev_close 0, Ev_bytes 5 ''?'']. clean_event demo_lib e"
    by (auto simp: clean_message_def demo_lib_def storable_def sql_safe_def split: if_splits)
  from sessions_invariant [OF mem_mysql_ok demo_dumps demo_sessions this] show ?thesis by blast
qed

text \<open>
  When two users logged in over one connection and it closes, only one of them is
  put offline: the other stays online with the dead connection, to which messages keep going.
\<close>

theorem close_leaves_second_user:
  assumes "mysql_ok my tabs pending" and "dumps_ok lib" and "sessions_ok tabs w"
    and "cw_conns w i = Some k" and "cw_conns w j = Some k" and "i \<noteq> j"
    and "set (order (cw_conns w)) = dom (cw_conns w)"
  shows "\<exists>w' x. ChatServer_OnConnection my order False k w = (Inr (), w') \<and> x \<in> {i, j} \<and>
    cw_conns w' x = Some k \<and> usr_state (user_lookup (tabs (cw_db w')) x) = ''online''"
proof -
  let ?u = "conn_user order k (cw_conns w)"
  note backend = chat_backend.intro [OF assms(1,2)]
  have "\<exists>u. u \<in> set (filter (\<lambda>i. cw_conns w i = Some k) (order (cw_conns w)))"
    using assms(4,7) by (intro exI [of _ i]) auto
  then have u: "cw_conns w ?u = Some k"
    by (auto simp: conn_user_def split: list.splits dest!: arg_cong [where f = set])
  have pos: "0 < ?u" "int_range ?u" using chat_backend.online_user [OF backend assms(3) u] by simp_all
  then obtain c' out where c: "clientCloseException my order k w =
      (Inr (), w\<lparr>cw_db := c', cw_conns := map_erase ?u (cw_conns w), cw_out := out\<rparr>)"
    "tabs c' = set_state ?u ''offline'' (tabs (cw_db w))"
    using clientCloseException_spec [OF assms(1) chat_backend.ok_tables [OF backend assms(3)] refl, of order k]
    by fastforce
  obtain x where x: "x \<in> {i, j}" "x \<noteq> ?u" using assms(6) by blast
  have "cw_conns w x = Some k" using x(1) assms(4,5) by auto
  then have "usr_state (user_lookup (tabs (cw_db w)) x) = ''online''"
    using assms(3) by (auto simp: sessions_ok_def session_inv_def)
  then have "usr_state (user_lookup (tabs c') x) = ''online''" using x(2) by (simp add: c(2) user_lookup_set_state)
  then show ?thesis
    using x \<open>cw_conns w x = Some k\<close> by (auto simp: ChatServer_OnConnection_def bind_act_simps c(1))
qed

theorem close_leaves_second_user_witness:
  "\<exists>w' x. ChatServer_OnConnection mem_mysql (\<lambda>m. [8, 9]) False 0 demo_world = (Inr (), w') \<and> x \<in> {8, 9} \<and>
    cw_conns w' x = Some 0"
  using close_leaves_second_user [OF mem_mysql_ok demo_dumps demo_sessions, of 8 0 9 "\<lambda>m. [8, 9]"] by auto

section \<open>Statement texts\<close>

text \<open>
  Property (C38). Keeping an offline message, once the connection to the database is made, overruns
  the 1024-byte statement buffer exactly when the printed message and the receiver's number
  together exceed 983 characters; at 983 the statement and its NUL still fit.
\<close>

theorem offline_message_overflow:
  assumes "fst (my_connect my c)"
  shows "fst (OfflineMsgModel_insert my i s c) = Inl Sql_overflow \<longleftrightarrow> 983 < length (to_string i) + length (c_str s)"
proof -
  have len: "length (sql_insert_offline i s) = 40 + length (to_string i) + length (c_str s)"
    by (simp add: sql_insert_offline_def)
  obtain c1 where c1: "my_connect my c = (True, c1)" using assms by (cases "my_connect my c") auto
  then show ?thesis
    by (auto simp: OfflineMsgModel_insert_def with_db_def Db_connect_def bind_act_def sprintf_sql_def len)
qed

theorem offline_message_overflow_witness:
  "fst (OfflineMsgModel_insert mem_mysql 7 (replicate 983 CHR ''x'') (mem_start demo_tabs)) = Inl Sql_overflow"
proof -
  have "c_str (replicate 983 CHR ''x'') = replicate 983 CHR ''x''" by (rule c_str_plain) (simp add: set_replicate_conv_if)
  then show ?thesis
    using offline_message_overflow [of mem_mysql "mem_start demo_tabs" 7 "replicate 983 CHR ''x''"]
    by (simp add: mem_mysql_def length_replicate)
qed

text \<open>
  A registration whose name contains a quote sends a statement of the client's
  choice: any registration statement, with any state of the new user, is a prefix of it.
\<close>

theorem registration_injection:
  assumes "NUL \<notin> set name" and "NUL \<notin> set pwd" and "NUL \<notin> set state"
  shows "\<exists>evil rest. sql_insert_user evil pwd' ''offline'' = stmt_text (Ins_user name pwd state) @ rest"
proof -
  let ?q = "CHR 0x27" and ?c = "[CHR 0x27] @ '','' @ [CHR 0x27]"
  let ?evil = "name @ ?c @ pwd @ ?c @ state @ [?q] @ '')''"
  have "c_str ?evil = ?evil" using assms by (intro c_str_plain) auto
  then show ?thesis
    using assms by (intro exI [of _ ?evil]
        exI [of _ "?c @ c_str pwd' @ ?c @ ''offline'' @ [?q] @ '')''"]) (simp add: sql_insert_user_def c_str_plain)
qed

theorem registration_injection_witness:
  "\<exists>evil rest. sql_insert_user evil ''x'' ''offline'' =
     stmt_text (Ins_user ''eve'' ''pw'' ''online'') @ rest"
  using registration_injection [of "''eve''" "''pw''" "''online''" "''x''"] by simp

end
