(* ===== verification/ChatRedis.thy ===== *)
theory ChatRedis
  imports ChatProperties
begin

text \<open>
  The Redis client of the chat server, \<^verbatim>\<open>chat-main/src/server/Redis.cpp\<close>: two connections, one
  to publish and one to subscribe and listen, the loop that flushes a command, and the loop of
  the listening thread. The hiredis library is a record of functions on its state.
\<close>

section \<open>hiredis\<close>

type_synonym redis_ctx = int

text \<open>
  \<open>hr_connect\<close> is \<^verbatim>\<open>redisConnect\<close>: a null pointer or a context with its error flag.
  \<open>hr_command\<close> says whether a reply came back, \<open>hr_append\<close> whether the command was accepted,
  and \<open>hr_buffer_write\<close> is \<^term>\<open>None\<close> for \<^verbatim>\<open>REDIS_ERR\<close> and \<^verbatim>\<open>done\<close> otherwise. The arguments of
  a command are what hiredis makes of its format string, one per word and one per \<^verbatim>\<open>%s\<close>.
\<close>

record 'h hiredis =
  hr_connect :: "'h \<Rightarrow> (redis_ctx \<times> bool) option \<times> 'h"
  hr_free :: "redis_ctx \<Rightarrow> 'h \<Rightarrow> 'h"
  hr_command :: "redis_ctx \<Rightarrow> string list \<Rightarrow> 'h \<Rightarrow> bool \<times> 'h"
  hr_append :: "redis_ctx \<Rightarrow> string list \<Rightarrow> 'h \<Rightarrow> bool \<times> 'h"
  hr_buffer_write :: "redis_ctx \<Rightarrow> 'h \<Rightarrow> bool option \<times> 'h"

datatype redis_reply =
    R_string string | R_status string | R_error string | R_integer int | R_nil
  | R_array "redis_reply option list"

text \<open>The member \<^verbatim>\<open>str\<close>, null unless the reply is textual.\<close>

fun reply_str :: "redis_reply \<Rightarrow> string option" where
  "reply_str (R_string s) = Some s" | "reply_str (R_status s) = Some s" | "reply_str (R_error s) = Some s"
| "reply_str (R_integer i) = None" | "reply_str R_nil = None" | "reply_str (R_array rs) = None"

section \<open>The class\<close>

record redis =
  rd_publish :: "redis_ctx option"
  rd_subscribe :: "redis_ctx option"
  rd_observing :: bool

definition new_redis :: redis where
  "new_redis = \<lparr>rd_publish = None, rd_subscribe = None, rd_observing = False\<rparr>"

definition free_ctx :: "'h hiredis \<Rightarrow> redis_ctx option \<Rightarrow> 'h \<Rightarrow> 'h" where
  "free_ctx hr c h = (case c of None \<Rightarrow> h | Some c \<Rightarrow> hr_free hr c h)"

definition Redis_destroy :: "'h hiredis \<Rightarrow> redis \<Rightarrow> 'h \<Rightarrow> redis \<times> 'h" where
  "Redis_destroy hr r h =
     (let h1 = free_ctx hr (rd_publish r) h; r1 = r\<lparr>rd_publish := None\<rparr>;
          h2 = free_ctx hr (rd_subscribe r1) h1
      in (r1\<lparr>rd_subscribe := None\<rparr>, h2))"

text \<open>A context that is null or has its error flag set is freed and forgotten.\<close>

definition open_ctx :: "'h hiredis \<Rightarrow> 'h \<Rightarrow> redis_ctx option \<times> 'h" where
  "open_ctx hr h =
     (case hr_connect hr h of
        (None, h1) \<Rightarrow> (None, h1)
      | (Some (c, True), h1) \<Rightarrow> (None, hr_free hr c h1)
      | (Some (c, False), h1) \<Rightarrow> (Some c, h1))"

definition Redis_connect :: "'h hiredis \<Rightarrow> redis \<Rightarrow> 'h \<Rightarrow> bool \<times> redis \<times> 'h" where
  "Redis_connect hr r h =
     (case open_ctx hr h of
        (None, h1) \<Rightarrow> (False, r\<lparr>rd_publish := None\<rparr>, h1)
      | (Some p, h1) \<Rightarrow>
          (case open_ctx hr h1 of
             (None, h2) \<Rightarrow> (False, r\<lparr>rd_publish := None, rd_subscribe := None\<rparr>, hr_free hr p h2)
           | (Some s, h2) \<Rightarrow> (True, r\<lparr>rd_publish := Some p, rd_subscribe := Some s, rd_observing := True\<rparr>, h2)))"

definition Redis_publish :: "'h hiredis \<Rightarrow> redis \<Rightarrow> string \<Rightarrow> string \<Rightarrow> 'h \<Rightarrow> bool \<times> 'h" where
  "Redis_publish hr r chan msg h =
     (case rd_publish r of
        None \<Rightarrow> (False, h)
      | Some c \<Rightarrow> hr_command hr c [''PUBLISH'', c_str chan, c_str msg] h)"

text \<open>\<^verbatim>\<open>while (!done)\<close>: \<^term>\<open>None\<close> when it never ends.\<close>

partial_function (option) flush_command :: "'h hiredis \<Rightarrow> redis_ctx \<Rightarrow> 'h \<Rightarrow> (bool \<times> 'h) option" where
  "flush_command hr c h =
     (case hr_buffer_write hr c h of (r, h1) \<Rightarrow>
        (case r of
           None \<Rightarrow> Some (False, h1)
         | Some finished \<Rightarrow> if finished then Some (True, h1) else flush_command hr c h1))"

definition send_command :: "'h hiredis \<Rightarrow> redis \<Rightarrow> string list \<Rightarrow> 'h \<Rightarrow> (bool \<times> 'h) option" where
  "send_command hr r args h =
     (case rd_subscribe r of
        None \<Rightarrow> Some (False, h)
      | Some c \<Rightarrow> (case hr_append hr c args h of
            (False, h1) \<Rightarrow> Some (False, h1)
          | (True, h1) \<Rightarrow> flush_command hr c h1))"

definition Redis_subscribe :: "'h hiredis \<Rightarrow> redis \<Rightarrow> string \<Rightarrow> 'h \<Rightarrow> (bool \<times> 'h) option" where
  "Redis_subscribe hr r chan h = send_command hr r [''SUBSCRIBE'', c_str chan] h"

definition Redis_unsubscribe :: "'h hiredis \<Rightarrow> redis \<Rightarrow> string \<Rightarrow> 'h \<Rightarrow> (bool \<times> 'h) option" where
  "Redis_unsubscribe hr r chan h = send_command hr r [''UNSUBSCRIBE'', c_str chan] h"

text \<open>What the listening thread takes from a reply. The text of the last two elements is not checked.\<close>

definition message_of :: "redis_reply option \<Rightarrow> chat_fault + (string \<times> string) option" where
  "message_of reply =
     (case reply of
        Some (R_array [Some a, Some b, Some c]) \<Rightarrow>
          (case reply_str a of
             None \<Rightarrow> Inr None
           | Some kind \<Rightarrow>
               if c_str kind = ''message'' then
                 (case (reply_str b, reply_str c) of
                    (Some chan, Some msg) \<Rightarrow> Inr (Some (c_str chan, c_str msg))
                  | _ \<Rightarrow> Inl Null_column)
               else Inr None)
      | _ \<Rightarrow> Inr None)"

text \<open>\<open>replies\<close> are what \<^verbatim>\<open>redisGetReply\<close> delivers before it fails.\<close>

fun observer_channel_message ::
  "(string \<Rightarrow> string \<Rightarrow> ('w, unit) action) option \<Rightarrow> redis_reply option list \<Rightarrow> ('w, unit) action" where
  "observer_channel_message notify [] = ret ()"
| "observer_channel_message notify (r # rs) =
     bind_act (lift_res (message_of r)) (\<lambda>m.
     bind_act (case (m, notify) of (Some (chan, msg), Some f) \<Rightarrow> f chan msg | _ \<Rightarrow> ret ()) (\<lambda>_.
       observer_channel_message notify rs))"

text \<open>
  The constructor of the service: the handler for the messages of other servers is set once
  \<open>connect\<close> has succeeded. \<^term>\<open>None\<close> is the empty \<^verbatim>\<open>std::function\<close>.
\<close>

definition new_ChatService ::
  "'h hiredis \<Rightarrow> 'c mysql \<Rightarrow> 'h \<Rightarrow> redis \<times> (string \<Rightarrow> string \<Rightarrow> ('c chat_world, unit) action) option \<times> 'h" where
  "new_ChatService hr my h =
     (case Redis_connect hr new_redis h of (ok, r, h1) \<Rightarrow>
        (r, if ok then Some (handleRedisSubscribeMessage my) else None, h1))"

lemma Redis_connect_observes: "Redis_connect hr new_redis h = (ok, r, h1) \<Longrightarrow> rd_observing r = ok"
  by (auto simp: Redis_connect_def new_redis_def split: prod.splits option.splits)

lemma handler_installed_iff_listening:
  "new_ChatService hr my h = (r, notify, h1) \<Longrightarrow> (notify \<noteq> None) = rd_observing r"
  by (auto simp: new_ChatService_def split: prod.splits if_splits dest: Redis_connect_observes)

section \<open>Contexts\<close>

text \<open>
  What hiredis does with its contexts: \<open>live\<close> are those allocated and not freed. Connecting
  allocates at most the context it returns, a new one; freeing takes one away.
\<close>

definition hiredis_ok :: "'h hiredis \<Rightarrow> ('h \<Rightarrow> redis_ctx set) \<Rightarrow> bool" where
  "hiredis_ok hr live \<longleftrightarrow>
     (\<forall>h. case hr_connect hr h of
        (None, h1) \<Rightarrow> live h1 = live h
      | (Some (c, e), h1) \<Rightarrow> c \<notin> live h \<and> live h1 = insert c (live h)) \<and>
     (\<forall>c h. live (hr_free hr c h) = live h - {c})"

lemma open_ctx_live:
  assumes "hiredis_ok hr live"
  shows "case open_ctx hr h of (None, h1) \<Rightarrow> live h1 = live h
    | (Some c, h1) \<Rightarrow> c \<notin> live h \<and> live h1 = insert c (live h)"
proof -
  have a: "case hr_connect hr h of (None, h1) \<Rightarrow> live h1 = live h
      | (Some (c, e), h1) \<Rightarrow> c \<notin> live h \<and> live h1 = insert c (live h)"
    and b: "\<And>c h. live (hr_free hr c h) = live h - {c}"
    using assms by (auto simp: hiredis_ok_def)
  show ?thesis
    using a b by (auto simp: open_ctx_def split: prod.splits option.splits bool.splits)
qed

text \<open>
  Property (C35). \<open>connect\<close> ends with both contexts open and the listening thread started, or with
  none, and then everything it allocated has been freed; the destructor frees what is open.
\<close>

theorem redis_contexts_accounted:
  assumes "hiredis_ok hr live" and "Redis_connect hr new_redis h = (up, r, h1)"
  shows "rd_observing r = up \<and> (rd_publish r \<noteq> None) = up \<and> (rd_subscribe r \<noteq> None) = up \<and>
    live h1 = live h \<union> set_option (rd_publish r) \<union> set_option (rd_subscribe r) \<and>
    live (snd (Redis_destroy hr r h1)) = live h"
proof -
  have f: "live (hr_free hr c h) = live h - {c}" for c h using assms(1) by (simp add: hiredis_ok_def)
  obtain p h2 where o1: "open_ctx hr h = (p, h2)" by (cases "open_ctx hr h")
  obtain s h3 where o2: "open_ctx hr h2 = (s, h3)" by (cases "open_ctx hr h2")
  note l1 = open_ctx_live [OF assms(1), of h] and l2 = open_ctx_live [OF assms(1), of h2]
  note run = Redis_connect_def new_redis_def Redis_destroy_def free_ctx_def Let_def f
  show ?thesis
  proof (cases p)
    case None
    then have "\<not> up" "h1 = h2" "r = new_redis" "live h2 = live h"
      using assms(2) o1 l1 by (simp_all add: run)
    then show ?thesis by (simp add: run)
  next
    case (Some c)
    then have c: "live h2 = insert c (live h)" "c \<notin> live h" using l1 o1 by simp_all
    show ?thesis
    proof (cases s)
      case None
      then have "\<not> up" "h1 = hr_free hr c h3" "r = new_redis" "live h3 = live h2"
        using assms(2) o1 o2 Some l2 by (simp_all add: run)
      with c show ?thesis by (simp add: run)
    next
      case (Some d)
      then have d: "live h3 = insert d (insert c (live h))" "d \<notin> insert c (live h)" using l2 o2 c by simp_all
      have "up" "h1 = h3" "r = \<lparr>rd_publish = Some c, rd_subscribe = Some d, rd_observing = True\<rparr>"
        using assms(2) o1 o2 Some \<open>p = Some c\<close> by (simp_all add: run)
      with c d show ?thesis by (simp add: run insert_commute insert_Diff_if)
    qed
  qed
qed

text \<open>
  A library that numbers its contexts; the connection with number \<open>bad\<close> comes back with its
  error flag set, and two bytes of a command are written at a time.
\<close>

record demo_redis =
  dr_live :: "redis_ctx list"
  dr_pending :: nat

definition demo_hiredis :: "redis_ctx \<Rightarrow> demo_redis hiredis" where
  "demo_hiredis bad = \<lparr>hr_connect = \<lambda>h. (let c = 1 + foldr max (dr_live h) 0 in
       (Some (c, c = bad), h\<lparr>dr_live := c # dr_live h\<rparr>)),
     hr_free = \<lambda>c h. h\<lparr>dr_live := filter (\<lambda>d. d \<noteq> c) (dr_live h)\<rparr>,
     hr_command = \<lambda>c args h. (True, h),
     hr_append = \<lambda>c args h. (True, h\<lparr>dr_pending := dr_pending h + length (concat args)\<rparr>),
     hr_buffer_write = \<lambda>c h. (Some (dr_pending h \<le> 2), h\<lparr>dr_pending := dr_pending h - 2\<rparr>)\<rparr>"

lemma demo_hiredis_ok: "hiredis_ok (demo_hiredis bad) (\<lambda>h. set (dr_live h))"
proof -
  have "1 + foldr max ks 0 \<notin> set ks" for ks :: "int list"
    using foldr_max_bound(1) [of "1 + foldr max ks 0" ks] by auto
  then show ?thesis by (auto simp: hiredis_ok_def demo_hiredis_def Let_def)
qed

theorem redis_contexts_accounted_witness:
  "\<exists>r h1. Redis_connect (demo_hiredis 2) new_redis \<lparr>dr_live = [], dr_pending = 0\<rparr> = (False, r, h1) \<and> dr_live h1 = []"
proof -
  obtain up r h1 where run: "Redis_connect (demo_hiredis 2) new_redis \<lparr>dr_live = [], dr_pending = 0\<rparr> = (up, r, h1)"
    by (metis prod_cases3)
  from redis_contexts_accounted [OF demo_hiredis_ok this] run show ?thesis
    by (auto simp: Redis_connect_def open_ctx_def demo_hiredis_def Let_def)
qed

section \<open>Commands\<close>

text \<open>
  The loop that writes a command out ends when every write that is not the last
  leaves less to write, and the call succeeds unless a write or the command fails.
\<close>

theorem subscribe_returns:
  assumes "\<And>c h h1. hr_buffer_write hr c h = (Some False, h1) \<Longrightarrow> todo h1 < (todo h :: nat)"
  shows "\<exists>ok h1. Redis_subscribe hr r chan h = Some (ok, h1)"
proof -
  have "\<exists>ok h1. flush_command hr c h = Some (ok, h1)" for c h
  proof (induction "todo h" arbitrary: h rule: less_induct)
    case less
    show ?case
    proof (cases "hr_buffer_write hr c h")
      case (Pair d h1)
      then show ?thesis
        using less [of h1] assms [of c h h1]
        by (cases d) (subst flush_command.simps; auto split: if_splits)+
    qed
  qed
  then show ?thesis
    by (auto simp: Redis_subscribe_def send_command_def split: option.splits prod.splits bool.splits)
qed

theorem subscribe_returns_witness:
  "\<exists>ok h1. Redis_subscribe (demo_hiredis 0) \<lparr>rd_publish = Some 1, rd_subscribe = Some 2, rd_observing = True\<rparr>
     ''chat:user:7'' \<lparr>dr_live = [1, 2], dr_pending = 0\<rparr> = Some (ok, h1)"
  by (rule subscribe_returns [where todo = dr_pending]) (auto simp: demo_hiredis_def)

section \<open>The listening thread\<close>

text \<open>A published message as Redis hands it to a subscriber, and the confirmation of a command.\<close>

definition message_reply :: "string \<Rightarrow> string \<Rightarrow> redis_reply option" where
  "message_reply chan msg = Some (R_array [Some (R_string ''message''), Some (R_string chan), Some (R_string msg)])"

definition confirmation :: "string \<Rightarrow> string \<Rightarrow> int \<Rightarrow> redis_reply option" where
  "confirmation kind chan n = Some (R_array [Some (R_string kind), Some (R_string chan), Some (R_integer n)])"

lemma message_of_message [simp]: "message_of (message_reply chan msg) = Inr (Some (c_str chan, c_str msg))"
  by (simp add: message_of_def message_reply_def c_str_def)

lemma message_of_confirmation [simp]:
  "kind \<in> {''subscribe'', ''unsubscribe''} \<Longrightarrow> message_of (confirmation kind chan n) = Inr None"
  by (auto simp: message_of_def confirmation_def c_str_def)

datatype redis_event = Published string string | Confirmed string string int

fun reply_of :: "redis_event \<Rightarrow> redis_reply option" where
  "reply_of (Published chan msg) = message_reply chan msg"
| "reply_of (Confirmed kind chan n) = confirmation kind chan n"

fun published :: "redis_event list \<Rightarrow> (string \<times> string) list" where
  "published [] = []"
| "published (Published chan msg # es) = (chan, msg) # published es"
| "published (Confirmed kind chan n # es) = published es"

fun event_ok :: "redis_event \<Rightarrow> bool" where
  "event_ok (Published chan msg) \<longleftrightarrow> NUL \<notin> set chan \<and> NUL \<notin> set msg"
| "event_ok (Confirmed kind chan n) \<longleftrightarrow> kind \<in> {''subscribe'', ''unsubscribe''}"

text \<open>
  The listening thread hands every published message to the handler, once and in
  the order of publication, with the confirmations of the server's own commands left out.
\<close>

theorem observer_delivers:
  assumes "\<forall>e \<in> set es. event_ok e"
  shows "observer_channel_message (Some f) (map reply_of es) w =
    bind_act (map_act (\<lambda>(chan, msg). f chan msg) (published es)) (\<lambda>_. ret ()) w"
  using assms
proof (induction es arbitrary: w)
  case (Cons e es)
  then show ?case
    by (cases e) (auto simp: bind_act_def c_str_plain split: sum.splits prod.splits)
qed simp

theorem observer_delivers_witness:
  "observer_channel_message (Some (\<lambda>chan msg. change (\<lambda>out. out @ [msg])))
     (map reply_of [Confirmed ''subscribe'' ''c'' 1, Published ''c'' ''a'', Published ''c'' ''b'']) [] =
   (Inr (), [''a'', ''b''])"
  by (subst observer_delivers) (simp_all add: bind_act_def)

lemma stoi_user [simp]: "int_range i \<Longrightarrow> stoi (to_string i) = Inr i"
  by (simp add: stoi_to_string int_range_def)

lemma NUL_user_channel [simp]: "NUL \<notin> set (user_channel i)"
  using to_string_plain by (auto simp: user_channel_def)

lemma handle_user_channel:
  assumes "int_range i"
  shows "handleRedisSubscribeMessage my (user_channel i) msg b =
    (case cw_conns b i of Some k \<Rightarrow> (Inr (), b\<lparr>cw_out := cw_out b @ [Ef_send k msg]\<rparr>)
       | None \<Rightarrow> on_db (OfflineMsgModel_insert my i msg) b)"
  using assms by (simp add: handleRedisSubscribeMessage_def user_channel_def split: option.splits)

text \<open>
  Property (C19). In a cluster a message to a user who is online at another server is published
  by the first server and sent by the second one to the user's connection, unchanged, whatever its
  text (a printed message has no NUL, at which Redis' texts end). Should the user have left the
  second server meanwhile, it sends nothing and keeps the message as an offline message; this part
  is for a printed message without quotes and backslashes, and ends with the overflow when the
  message does not fit the statement.
\<close>

theorem cluster_delivery:
  assumes ok: "mysql_ok my tabs pending" and t: "tables_ok (tabs (cw_db a))" "tables_ok (tabs (cw_db b))"
    and s: "js_dump lib js = Some s" "NUL \<notin> set s" and js: "int_field js ''toid'' = Inr i"
    and up: "online (tabs (cw_db a)) i" "cw_conns a i = None"
  shows "\<exists>a' r b'. oneChat my lib js a = (Inr (), a') \<and>
    cw_out a' = cw_out a @ [Ef_publish (user_channel i) s] \<and> tabs (cw_db a') = tabs (cw_db a) \<and>
    observer_channel_message (Some (handleRedisSubscribeMessage my)) [message_reply (user_channel i) s] b = (r, b') \<and>
    (case cw_conns b i of
       Some k \<Rightarrow> r = Inr () \<and> cw_out b' = cw_out b @ [Ef_send k s] \<and> tabs (cw_db b') = tabs (cw_db b)
     | None \<Rightarrow> cw_out b' = cw_out b \<and> (sql_safe s \<longrightarrow>
         r = (if too_long i s then Inl Sql_overflow else Inr ()) \<and>
         tabs (cw_db b') = (if too_long i s then tabs (cw_db b)
           else (tabs (cw_db b))\<lparr>t_offline := t_offline (tabs (cw_db b)) @ [(i, s)]\<rparr>)))"
proof -
  have i: "int_range i" using js by (rule int_field_range)
  obtain c1 where c1: "oneChat my lib js a = (Inr (), a\<lparr>cw_db := c1, cw_out := cw_out a @ [Ef_publish (user_channel i) s]\<rparr>)"
      "tabs c1 = tabs (cw_db a)"
    using oneChat_spec [OF ok t(1) s(1) _ js] up by (auto simp: route_def routed_def)
  have plain: "c_str (user_channel i) = user_channel i" "c_str s = s"
    using s(2) by (auto intro!: c_str_plain)
  obtain r c2 where c2: "OfflineMsgModel_insert my i s (cw_db b) = (r, c2)" by (cases "OfflineMsgModel_insert my i s (cw_db b)")
  have kept: "r = (if too_long i s then Inl Sql_overflow else Inr ()) \<and>
      tabs c2 = (if too_long i s then tabs (cw_db b)
        else (tabs (cw_db b))\<lparr>t_offline := t_offline (tabs (cw_db b)) @ [(i, s)]\<rparr>)" if "sql_safe s"
    using OfflineMsgModel_insert_any [OF ok that, of i "cw_db b"] c2 by auto
  note h = handle_user_channel [OF i, of my s b]
  show ?thesis
  proof (cases "cw_conns b i")
    case None
    have "handleRedisSubscribeMessage my (user_channel i) s b = (r, b\<lparr>cw_db := c2\<rparr>)"
      using h None c2 by (simp add: on_db_def)
    then have "observer_channel_message (Some (handleRedisSubscribeMessage my)) [message_reply (user_channel i) s] b =
        (r, b\<lparr>cw_db := c2\<rparr>)"
      by (cases r) (simp_all add: plain bind_act_simps)
    with c1 kept None show ?thesis by simp
  next
    case (Some k)
    with h c1 show ?thesis by (simp add: plain bind_act_simps)
  qed
qed

theorem cluster_delivery_witness:
  "\<exists>a' b'. oneChat mem_mysql demo_lib (json_obj [(''toid'', JInt 8), (''msg'', JStr ''hi'')])
      (demo_world\<lparr>cw_conns := Map.empty\<rparr>) = (Inr (), a') \<and> cw_out a' = [Ef_publish (user_channel 8) ''hi''] \<and>
    observer_channel_message (Some (handleRedisSubscribeMessage mem_mysql)) [message_reply (user_channel 8) ''hi''] demo_world =
      (Inr (), b') \<and> cw_out b' = [Ef_send 0 ''hi'']"
proof -
  let ?js = "json_obj [(''toid'', JInt 8), (''msg'', JStr ''hi'')]"
  have "js_dump demo_lib ?js = Some ''hi''" "int_field ?js ''toid'' = Inr 8"
    by (simp_all add: demo_lib_def json_utf8_obj)
  from cluster_delivery [OF mem_mysql_ok _ _ this(1) _ this(2), of "demo_world\<lparr>cw_conns := Map.empty\<rparr>" demo_world]
  show ?thesis by fastforce
qed

end
