(* ===== verification/ChatClientRuns.thy ===== *)
theory ChatClientRuns
  imports ChatClient ChatRedis
begin

text \<open>
  How the chat client runs: what its operations leave alone, how they use up standard input, the
  invariant of its session, and its conversation with the server.
\<close>

section \<open>What an action may change\<close>

text \<open>Whatever \<open>m\<close> returns, the worlds before and after are related.\<close>

definition moves :: "('w \<Rightarrow> 'w \<Rightarrow> bool) \<Rightarrow> ('w, 'a) action \<Rightarrow> bool" where
  "moves R m \<longleftrightarrow> (\<forall>w a w'. m w = (Inr a, w') \<longrightarrow> R w w')"

lemma movesD: "moves R m \<Longrightarrow> m w = (Inr a, w') \<Longrightarrow> R w w'"
  by (auto simp: moves_def)

lemma moves_bind: "transp R \<Longrightarrow> moves R m \<Longrightarrow> (\<And>a. moves R (f a)) \<Longrightarrow> moves R (bind_act m f)"
  unfolding moves_def bind_act_Inr by (meson transpD)

lemma moves_trivial:
  "reflp R \<Longrightarrow> moves R (ret a)" "moves R (raise e)" "reflp R \<Longrightarrow> moves R (lift_res r)"
  by (auto simp: moves_def reflpD)

lemma moves_if: "moves R a \<Longrightarrow> moves R b \<Longrightarrow> moves R (if c then a else b)"
  by simp

lemma moves_for_each: "reflp R \<Longrightarrow> transp R \<Longrightarrow> (\<And>x. moves R (f x)) \<Longrightarrow> moves R (for_each f xs)"
  by (induction xs) (simp_all add: moves_trivial moves_bind)

text \<open>
  Two relations: the members of the client stay as they are, and standard input is not given
  back: it never gets longer, and a failed stream stays failed.
\<close>

definition same_client :: "'s client_world \<Rightarrow> 's client_world \<Rightarrow> bool" where
  "same_client w w' \<longleftrightarrow> kw_client w' = kw_client w"

definition same_input :: "'s client_world \<Rightarrow> 's client_world \<Rightarrow> bool" where
  "same_input w w' \<longleftrightarrow> kw_cin w' = kw_cin w \<and> kw_fail w' = kw_fail w"

definition reads_on :: "'s client_world \<Rightarrow> 's client_world \<Rightarrow> bool" where
  "reads_on w w' \<longleftrightarrow> length (kw_cin w') \<le> length (kw_cin w) \<and> (kw_fail w \<longrightarrow> kw_fail w')"

lemma frames [simp]:
  "reflp same_client" "transp same_client" "reflp same_input" "transp same_input" "reflp reads_on" "transp reads_on"
  by (auto simp: reflp_def transp_def same_client_def same_input_def reads_on_def)

lemma moves_reads_on: "moves same_input m \<Longrightarrow> moves reads_on m"
  by (auto simp: moves_def same_input_def reads_on_def)

lemmas moves_intros = moves_bind [OF frames(2)] moves_bind [OF frames(4)] moves_bind [OF frames(6)]
  moves_trivial(1) [OF frames(1)] moves_trivial(1) [OF frames(3)] moves_trivial(1) [OF frames(5)]
  moves_trivial(2) moves_trivial(3) [OF frames(1)] moves_trivial(3) [OF frames(3)] moves_trivial(3) [OF frames(5)]
  moves_if moves_for_each [OF frames(1,2)] moves_for_each [OF frames(3,4)] moves_for_each [OF frames(5,6)]

named_theorems client_frame \<open>operations that leave the client's members alone\<close>
named_theorems input_frame \<open>operations that do not read standard input\<close>

lemma basic_client_frame [client_frame]:
  "moves same_client the_client" "moves same_client (tell e)" "moves same_client (on_sock f)"
  "moves same_client (sock_effect g)" "moves same_client cin_int" "moves same_client cin_word"
  "moves same_client cin_get" "moves same_client cin_getline"
  by (auto simp: moves_def same_client_def the_client_def tell_def on_sock_def sock_effect_def cin_int_def
      cin_word_def cin_get_def cin_getline_def Let_def split: if_splits prod.splits)

lemma basic_input_frame [input_frame]:
  "moves same_input the_client" "moves same_input (tell e)" "moves same_input (on_sock f)"
  "moves same_input (sock_effect g)" "moves same_input (set_client h)"
  by (auto simp: moves_def same_input_def the_client_def tell_def on_sock_def sock_effect_def set_client_def
      split: prod.splits)

lemma moves_dump: "reflp R \<Longrightarrow> moves R (dump lib js)"
  by (auto simp: dump_def moves_trivial split: option.splits)

lemma moves_int_at: "reflp R \<Longrightarrow> moves R (int_at js k)" "reflp R \<Longrightarrow> moves R (str_at js k)"
  by (simp_all add: int_at_def str_at_def moves_trivial)

lemma moves_parse: "reflp R \<Longrightarrow> moves R (parse_json lib s)"
  by (auto simp: parse_json_def moves_trivial split: option.splits)

lemma send_request_client [client_frame]: "moves same_client (send_request sk lib js)"
  and send_request_input [input_frame]: "moves same_input (send_request sk lib js)"
  unfolding send_request_def by (intro moves_intros client_frame input_frame moves_dump frames)+

lemma read_answer_client [client_frame]: "moves same_client (read_answer sk lib n)"
  and read_answer_input [input_frame]: "moves same_input (read_answer sk lib n)"
  unfolding read_answer_def
  by (auto intro!: moves_intros client_frame input_frame frames split: option.splits prod.splits)

lemma show_field_client [client_frame]: "moves same_client (show_field l js k)"
  and show_field_input [input_frame]: "moves same_input (show_field l js k)"
  unfolding show_field_def by (intro moves_intros client_frame input_frame)+

lemma show_fields_client [client_frame]: "moves same_client (show_fields lks js)"
  and show_fields_input [input_frame]: "moves same_input (show_fields lks js)"
  by (induction lks js rule: show_fields.induct) (auto intro!: moves_intros client_frame input_frame)

lemma for_strings_frame:
  "(\<And>s. moves same_client (f s)) \<Longrightarrow> moves same_client (for_strings js k f)"
  "(\<And>s. moves same_input (f s)) \<Longrightarrow> moves same_input (for_strings js k f)"
  unfolding for_strings_def by (auto intro!: moves_intros)

lemma showCurrentUserData_client [client_frame]: "moves same_client (showCurrentUserData lib js)"
  and showCurrentUserData_input [input_frame]: "moves same_input (showCurrentUserData lib js)"
  unfolding showCurrentUserData_def show_friend_def show_group_def show_member_def
  by (intro moves_intros for_strings_frame client_frame input_frame moves_parse frames)+

lemma client_help_client [client_frame]: "moves same_client client_help"
  and client_help_input [input_frame]: "moves same_input client_help"
  unfolding client_help_def by (intro moves_intros client_frame input_frame)+

lemma command_frame [client_frame]:
  "moves same_client (client_oneChat sk lib)" "moves same_client (client_addFriend sk lib)"
  "moves same_client (client_createGroup sk lib)" "moves same_client (client_addGroup sk lib)"
  "moves same_client (client_groupChat sk lib)"
  unfolding client_oneChat_def client_addFriend_def client_createGroup_def client_addGroup_def client_groupChat_def
  by (intro moves_intros client_frame)+

lemma connection_input_frame [input_frame]:
  "moves same_input (connectServer sk ip port)" "moves same_input (ensure_connected sk)"
  "moves same_input (drop_connection sk)" "moves same_input join_reader" "moves same_input (quit_client sk)"
  "moves same_input (client_loginout sk lib)"
proof -
  show c: "moves same_input (connectServer sk ip port)" for ip port
    unfolding connectServer_def by (intro moves_intros input_frame)
  show "moves same_input (ensure_connected sk)"
    unfolding ensure_connected_def by (intro moves_intros input_frame c)
  show d: "moves same_input (drop_connection sk)"
    unfolding drop_connection_def by (intro moves_intros input_frame)
  show j: "moves same_input join_reader"
    unfolding join_reader_def by (intro moves_intros input_frame)
  show "moves same_input (quit_client sk)" "moves same_input (client_loginout sk lib)"
    unfolding quit_client_def client_loginout_def by (intro moves_intros input_frame d j)+
qed

section \<open>Standard input\<close>

lemma length_dropWhile_tl: "length (dropWhile P (tl xs)) \<le> length xs"
  using length_dropWhile_le [of P "tl xs"] by (simp add: le_trans)

lemma cin_reads_on:
  "moves reads_on cin_int" "moves reads_on cin_word" "moves reads_on cin_get" "moves reads_on cin_getline"
proof -
  have d: "length (dropWhile P (dropWhile Q xs)) \<le> length xs" for P Q and xs :: string
    using length_dropWhile_le [of P "dropWhile Q xs"] length_dropWhile_le [of Q xs] by linarith
  have e: "length (dropWhile P (tl (dropWhile Q xs))) \<le> length xs" for P Q and xs :: string
    using length_dropWhile_tl [of P "dropWhile Q xs"] length_dropWhile_le [of Q xs] by linarith
  show "moves reads_on cin_int" "moves reads_on cin_word"
    using d e by (auto simp: moves_def reads_on_def cin_int_def cin_word_def Let_def split: if_splits)
  show "moves reads_on cin_get" by (auto simp: moves_def reads_on_def cin_get_def)
  have f: "length (tl (dropWhile Q xs)) \<le> length xs" for Q and xs :: string
    using length_dropWhile_le [of Q xs] by (simp add: le_trans)
  show "moves reads_on cin_getline"
    using f by (auto simp: moves_def reads_on_def cin_getline_def split: if_splits)
qed

text \<open>A read that works takes something from the input.\<close>

lemma cin_int_progress:
  assumes "cin_int w = (Inr i, w')" and "\<not> kw_fail w'"
  shows "length (kw_cin w') < length (kw_cin w)"
proof -
  have "length (dropWhile is_digit u) < length u" if "takeWhile is_digit u \<noteq> []" for u
    using that takeWhile_dropWhile_id [of is_digit u] by (metis add_less_cancel_right add_0 length_append length_greater_0_conv)
  note d = this
  let ?t = "dropWhile is_space (kw_cin w)"
  let ?u = "if ?t \<noteq> [] \<and> (hd ?t = CHR ''-'' \<or> hd ?t = CHR ''+'') then tl ?t else ?t"
  have "takeWhile is_digit ?u \<noteq> [] \<and> kw_cin w' = dropWhile is_digit ?u"
    using assms by (auto simp: cin_int_def Let_def split: if_splits)
  then have "length (kw_cin w') < length ?u" using d by metis
  also have "length ?u \<le> length ?t" by simp
  also have "length ?t \<le> length (kw_cin w)" by (rule length_dropWhile_le)
  finally show ?thesis .
qed

lemma cin_getline_progress:
  assumes "cin_getline w = (Inr s, w')" and "\<not> kw_fail w'"
  shows "length (kw_cin w') < length (kw_cin w)"
proof -
  have "kw_cin w \<noteq> []" "kw_cin w' = tl (dropWhile (\<lambda>c. c \<noteq> CHR 0x0A) (kw_cin w))"
    using assms by (auto simp: cin_getline_def split: if_splits)
  then show ?thesis
    using length_dropWhile_le [of "\<lambda>c. c \<noteq> CHR 0x0A" "kw_cin w"]
    by (cases "dropWhile (\<lambda>c. c \<noteq> CHR 0x0A) (kw_cin w)") auto
qed

lemma run_command_reads_on: "moves reads_on (run_command sk lib cmd)"
  unfolding run_command_def client_oneChat_def client_addFriend_def client_createGroup_def client_addGroup_def
    client_groupChat_def
  by (intro moves_intros cin_reads_on input_frame [THEN moves_reads_on])+

lemma command_loop_reads_on: "moves reads_on (command_loop sk lib n)"
  by (induction n; unfold command_loop.simps;
      intro moves_intros cin_reads_on run_command_reads_on input_frame [THEN moves_reads_on]; assumption)

lemma login_succeeded_reads_on: "moves reads_on (login_succeeded sk lib js)"
  unfolding login_succeeded_def
  by (intro moves_intros cin_reads_on moves_int_at frames input_frame [THEN moves_reads_on])

lemma login_attempt_reads_on: "moves reads_on (login_attempt sk lib)"
  unfolding login_attempt_def
  by (auto intro!: moves_intros cin_reads_on login_succeeded_reads_on moves_int_at input_frame [THEN moves_reads_on]
      split: option.splits)

lemma client_login_reads_on: "moves reads_on (client_login sk lib n)"
  unfolding client_login_def by (intro moves_intros login_attempt_reads_on command_loop_reads_on)

lemma client_reg_reads_on: "moves reads_on (client_reg sk lib)"
  unfolding client_reg_def
  by (auto intro!: moves_intros cin_reads_on moves_int_at input_frame [THEN moves_reads_on] split: option.splits)

lemma mainMenu_reads_on: "moves reads_on (mainMenu sk lib n)"
  by (induction n; unfold mainMenu.simps;
      intro moves_intros cin_reads_on client_login_reads_on client_reg_reads_on input_frame [THEN moves_reads_on];
      assumption)

section \<open>When the loops end\<close>

lemma reads_onD: "moves reads_on m \<Longrightarrow> m w = (Inr a, w') \<Longrightarrow>
    length (kw_cin w') \<le> length (kw_cin w) \<and> (kw_fail w \<longrightarrow> kw_fail w')"
  by (auto simp: moves_def reads_on_def)

lemma command_loop_fuel:
  "command_loop sk lib n w = (Inr False, w') \<Longrightarrow> length (kw_cin w) < n \<Longrightarrow> kw_fail w'"
proof (induction n arbitrary: w)
  case (Suc n)
  obtain cmd w1 where w1: "cin_getline w = (Inr cmd, w1)"
      "bind_act (run_command sk lib cmd) (\<lambda>_. command_loop sk lib n) w1 = (Inr False, w')"
    using Suc.prems(1) by (auto simp: bind_act_Inr the_client_def split: if_splits)
  then obtain w2 where w2: "run_command sk lib cmd w1 = (Inr (), w2)" "command_loop sk lib n w2 = (Inr False, w')"
    by (auto simp: bind_act_Inr)
  show ?case
  proof (cases "kw_fail w1")
    case True
    then show ?thesis
      using reads_onD [OF run_command_reads_on w2(1)] reads_onD [OF command_loop_reads_on w2(2)] by blast
  next
    case False
    have "length (kw_cin w2) < n"
      using cin_getline_progress [OF w1(1) False] reads_onD [OF run_command_reads_on w2(1)] Suc.prems(2) by linarith
    with Suc.IH [OF w2(2)] show ?thesis .
  qed
qed simp

lemma client_login_fuel:
  assumes "client_login sk lib n w = (Inr False, w')" and "length (kw_cin w) < n"
  shows "kw_fail w'"
proof -
  obtain go w1 where w1: "login_attempt sk lib w = (Inr go, w1)"
      "(if go then command_loop sk lib n else ret True) w1 = (Inr False, w')"
    using assms(1) by (auto simp: client_login_def bind_act_Inr)
  then have "command_loop sk lib n w1 = (Inr False, w')" by (cases go) simp_all
  moreover have "length (kw_cin w1) < n"
    using reads_onD [OF login_attempt_reads_on w1(1)] assms(2) by linarith
  ultimately show ?thesis by (rule command_loop_fuel)
qed

lemma mainMenu_fuel:
  "mainMenu sk lib n w = (Inr False, w') \<Longrightarrow> length (kw_cin w) < n \<Longrightarrow> kw_fail w'"
proof (induction n arbitrary: w)
  case (Suc n)
  obtain choice w1 where w1: "cin_int w = (Inr choice, w1)" using Suc.prems(1) by (auto simp: bind_act_Inr)
  let ?rest = "if choice = 1 then bind_act (client_login sk lib n) (\<lambda>back. if back then mainMenu sk lib n else ret False)
     else if choice = 2 then bind_act (client_reg sk lib) (\<lambda>_. mainMenu sk lib n)
     else if choice = 3 then bind_act (quit_client sk) (\<lambda>_. ret True)
     else bind_act (tell (Say ''invalid input!'')) (\<lambda>_. mainMenu sk lib n)"
  have rest: "?rest w1 = (Inr False, w')" using Suc.prems(1) by (simp add: bind_act_def w1)
  have mono: "moves reads_on ?rest"
    by (intro moves_intros cin_reads_on client_login_reads_on client_reg_reads_on mainMenu_reads_on
        input_frame [THEN moves_reads_on])
  show ?case
  proof (cases "kw_fail w1")
    case True
    then show ?thesis using reads_onD [OF mono rest] by blast
  next
    case False
    have short: "length (kw_cin w1) < n"
      using cin_int_progress [OF w1 False] Suc.prems(2) by linarith
    consider "choice = 1" | "choice = 2" | "choice = 3" | "choice \<notin> {1, 2, 3}" by blast
    then show ?thesis
    proof cases
      case 1
      then obtain over w2 where w2: "client_login sk lib n w1 = (Inr over, w2)"
          "(if over then mainMenu sk lib n else ret False) w2 = (Inr False, w')"
        using rest by (auto simp: bind_act_Inr)
      show ?thesis
      proof (cases over)
        case True
        with w2 reads_onD [OF client_login_reads_on w2(1)] short show ?thesis by (intro Suc.IH [of w2]) auto
      next
        case False
        with w2 client_login_fuel [of sk lib n w1 w2] short show ?thesis by auto
      qed
    next
      case 2
      then obtain w2 where "client_reg sk lib w1 = (Inr (), w2)" "mainMenu sk lib n w2 = (Inr False, w')"
        using rest by (auto simp: bind_act_Inr)
      with reads_onD [OF client_reg_reads_on this(1)] short show ?thesis by (intro Suc.IH [of w2]) auto
    next
      case 3
      then show ?thesis using rest by (auto simp: bind_act_Inr)
    next
      case 4
      then obtain w2 where "mainMenu sk lib n w2 = (Inr False, w')" "kw_cin w2 = kw_cin w1"
        using rest by (auto simp: bind_act_Inr tell_def)
      with short show ?thesis by (intro Suc.IH [of w2]) auto
    qed
  qed
qed simp

text \<open>On a failed stream the loops go round for ever.\<close>

lemma command_loop_spins:
  "kw_fail w \<Longrightarrow> cl_logged (kw_client w) \<Longrightarrow> command_loop sk lib n w = (Inr False, w)"
  by (induction n) (simp_all add: bind_act_def the_client_def cin_getline_def run_command_def)

lemma mainMenu_spins:
  "kw_fail w \<Longrightarrow> mainMenu sk lib n w =
     (Inr False, w\<lparr>kw_out := kw_out w @ replicate n (Say ''invalid input!'')\<rparr>)"
proof (induction n arbitrary: w)
  case (Suc n)
  then show ?case by (simp add: bind_act_def cin_int_def tell_def replicate_app_Cons_same)
qed simp

section \<open>The session of the client\<close>

text \<open>Being logged in goes with an open connection and a reading thread.\<close>

definition client_ok :: "client \<Rightarrow> bool" where
  "client_ok c \<longleftrightarrow> (cl_logged c \<longrightarrow> cl_fd c \<noteq> -1) \<and> cl_reader c = cl_logged c"

lemma same_clientD: "moves same_client m \<Longrightarrow> m w = (Inr a, w') \<Longrightarrow> kw_client w' = kw_client w"
  by (auto simp: moves_def same_client_def)

lemma connectServer_fd:
  "connectServer sk ip port w = (Inr up, w') \<Longrightarrow>
     \<exists>fd. kw_client w' = (kw_client w)\<lparr>cl_fd := fd\<rparr> \<and> up = (fd \<noteq> -1)"
  by (auto simp: connectServer_def bind_act_Inr on_sock_def set_client_def tell_def sock_effect_def
      split: prod.splits if_splits)

lemma ensure_connected_fd:
  assumes "ensure_connected sk w = (Inr up, w')"
  shows "\<exists>fd. kw_client w' = (kw_client w)\<lparr>cl_fd := fd\<rparr> \<and> up = (fd \<noteq> -1)"
proof (cases "cl_fd (kw_client w) = -1")
  case True
  with assms show ?thesis
    by (intro connectServer_fd) (simp add: ensure_connected_def bind_act_def the_client_def)
next
  case False
  then have "up" "w' = w" using assms by (simp_all add: ensure_connected_def bind_act_def the_client_def)
  with False show ?thesis by (intro exI [of _ "cl_fd (kw_client w)"]) simp
qed

lemma drop_join:
  assumes "bind_act (drop_connection sk) (\<lambda>_. join_reader) w = (Inr (), w')"
  shows "kw_client w' = (kw_client w)\<lparr>cl_fd := -1, cl_reader := False\<rparr>"
  using assms by (cases "kw_client w")
    (auto simp: drop_connection_def join_reader_def bind_act_Inr the_client_def sock_effect_def set_client_def tell_def
      split: if_splits)

lemma client_loginout_session:
  assumes "client_loginout sk lib w = (Inr (), w')" and "client_ok (kw_client w)"
  shows "client_ok (kw_client w')"
proof (cases "cl_logged (kw_client w)")
  case True
  then obtain sent w1 where w1: "send_request sk lib loginout_json w = (Inr sent, w1)"
      "(if \<not> sent then tell (Complain ''send loginout msg error'')
       else bind_act (set_client (\<lambda>c. c\<lparr>cl_logged := False, cl_id := 0, cl_name := []\<rparr>)) (\<lambda>_.
         bind_act (drop_connection sk) (\<lambda>_. bind_act join_reader (\<lambda>_. tell (Say ''logout success!''))))) w1 = (Inr (), w')"
    using assms(1) by (auto simp: client_loginout_def bind_act_Inr the_client_def)
  have c: "kw_client w1 = kw_client w" using same_clientD [OF send_request_client w1(1)] .
  show ?thesis
  proof (cases sent)
    case True
    let ?w2 = "w1\<lparr>kw_client := (kw_client w1)\<lparr>cl_logged := False, cl_id := 0, cl_name := []\<rparr>\<rparr>"
    obtain w3 where "bind_act (drop_connection sk) (\<lambda>_. join_reader) ?w2 = (Inr (), w3)" "kw_client w' = kw_client w3"
      using w1(2) True by (auto simp: bind_act_Inr set_client_def tell_def)
    from drop_join [OF this(1)] this(2) show ?thesis by (simp add: client_ok_def)
  next
    case False
    with w1(2) c assms(2) show ?thesis by (auto simp: tell_def)
  qed
next
  case False
  with assms show ?thesis by (simp add: client_loginout_def bind_act_def the_client_def)
qed

lemma run_command_session:
  assumes "run_command sk lib cmd w = (Inr (), w')" and "client_ok (kw_client w)"
  shows "client_ok (kw_client w')"
proof (cases "cmd = ''loginout''")
  case True
  with assms client_loginout_session [of sk lib w w'] show ?thesis by (simp add: run_command_def)
next
  case False
  have "moves same_client (if cmd = ''help'' then client_help
      else if cmd = ''chat'' then client_oneChat sk lib
      else if cmd = ''addfriend'' then client_addFriend sk lib
      else if cmd = ''creategroup'' then client_createGroup sk lib
      else if cmd = ''addgroup'' then client_addGroup sk lib
      else if cmd = ''groupchat'' then client_groupChat sk lib
      else if cmd \<noteq> [] then tell (Say ''invalid command!'') else ret ())"
    by (intro moves_intros client_frame)
  then have "moves same_client (run_command sk lib cmd)" by (simp only: run_command_def False if_False)
  with same_clientD [of "run_command sk lib cmd" w "()" w'] assms show ?thesis by simp
qed

lemma command_loop_session:
  "command_loop sk lib n w = (Inr over, w') \<Longrightarrow> client_ok (kw_client w) \<Longrightarrow>
     client_ok (kw_client w') \<and> (over \<longrightarrow> \<not> cl_logged (kw_client w'))"
proof (induction n arbitrary: w)
  case (Suc n)
  show ?case
  proof (cases "cl_logged (kw_client w)")
    case True
    then obtain cmd w1 w2 where s: "cin_getline w = (Inr cmd, w1)" "run_command sk lib cmd w1 = (Inr (), w2)"
        "command_loop sk lib n w2 = (Inr over, w')"
      using Suc.prems(1) by (auto simp: bind_act_Inr the_client_def)
    have "kw_client w1 = kw_client w" using same_clientD [OF basic_client_frame(8) s(1)] .
    then have "client_ok (kw_client w2)" using run_command_session [OF s(2)] Suc.prems(2) by simp
    with Suc.IH [OF s(3)] show ?thesis .
  next
    case False
    with Suc.prems show ?thesis by (auto simp: bind_act_Inr the_client_def)
  qed
qed simp

lemma login_succeeded_session:
  assumes "login_succeeded sk lib js w = (Inr (), w')"
  shows "\<exists>i nm. kw_client w' = (kw_client w)\<lparr>cl_logged := True, cl_id := i, cl_name := nm, cl_reader := True\<rparr> \<and>
    int_field js ''id'' = Inr i \<and> str_field js ''name'' = Inr nm"
proof -
  let ?set = "\<lambda>f (w :: 'a client_world). w\<lparr>kw_client := f (kw_client w)\<rparr>"
  let ?c = "(kw_client w)\<lparr>cl_logged := True\<rparr>"
  obtain i nm where f: "int_field js ''id'' = Inr i" "str_field js ''name'' = Inr nm"
    using assms by (auto simp: login_succeeded_def bind_act_Inr set_client_def int_at_def str_at_def)
  have "bind_act (tell (Say ''login success!'')) (\<lambda>_. bind_act (showCurrentUserData lib js) (\<lambda>_.
      bind_act client_help (\<lambda>_. bind_act join_reader (\<lambda>_.
      bind_act (tell Spawn_reader) (\<lambda>_. bind_act (set_client (\<lambda>c. c\<lparr>cl_reader := True\<rparr>)) (\<lambda>_. cin_get))))))
      (w\<lparr>kw_client := ?c\<lparr>cl_id := i, cl_name := nm\<rparr>\<rparr>) = (Inr (), w')"
    using assms f by (simp add: login_succeeded_def set_client_def int_at_def str_at_def)
  then obtain w1 w2 w3 w4 w5 where s: "tell (Say ''login success!'') (w\<lparr>kw_client := ?c\<lparr>cl_id := i, cl_name := nm\<rparr>\<rparr>) = (Inr (), w1)"
      "showCurrentUserData lib js w1 = (Inr (), w2)" "client_help w2 = (Inr (), w3)" "join_reader w3 = (Inr (), w4)"
      "cin_get w5 = (Inr (), w')" "kw_client w5 = (kw_client w4)\<lparr>cl_reader := True\<rparr>"
    by (auto simp: bind_act_Inr set_client_def tell_def)
  have "kw_client w3 = ?c\<lparr>cl_id := i, cl_name := nm\<rparr>" "kw_client w' = kw_client w5"
    using same_clientD [OF basic_client_frame(2) s(1)] same_clientD [OF showCurrentUserData_client s(2)]
      same_clientD [OF client_help_client s(3)] same_clientD [OF basic_client_frame(7) s(5)] by simp_all
  moreover have "\<exists>r. kw_client w4 = (kw_client w3)\<lparr>cl_reader := r\<rparr>"
    using s(4) by (cases "kw_client w3")
      (auto simp: join_reader_def bind_act_Inr the_client_def tell_def set_client_def split: if_splits)
  ultimately show ?thesis using f s(6) by (cases "kw_client w") auto
qed

lemma login_attempt_session:
  assumes "login_attempt sk lib w = (Inr go, w')" and "\<not> cl_logged (kw_client w)" "\<not> cl_reader (kw_client w)"
  shows "client_ok (kw_client w') \<and> cl_logged (kw_client w') = go"
proof -
  obtain up w1 where w1: "ensure_connected sk w = (Inr up, w1)"
    using assms(1) by (auto simp: login_attempt_def bind_act_Inr)
  obtain fd where fd: "kw_client w1 = (kw_client w)\<lparr>cl_fd := fd\<rparr>" "up = (fd \<noteq> -1)"
    using ensure_connected_fd [OF w1] by blast
  show ?thesis
  proof (cases up)
    case False
    with assms w1 fd show ?thesis by (auto simp: login_attempt_def bind_act_def client_ok_def)
  next
    case True
    let ?tail = "\<lambda>response. bind_act (int_at response ''errno'') (\<lambda>code.
         if code \<noteq> 0 then bind_act (show_field [] response ''errmsg'') (\<lambda>_. ret False)
         else bind_act (login_succeeded sk lib response) (\<lambda>_. ret True))"
    obtain i w2 pwd w3 sent w4 where s: "cin_int w1 = (Inr i, w2)" "cin_word w2 = (Inr pwd, w3)"
        "send_request sk lib (\<lambda>_. login_json i pwd) w3 = (Inr sent, w4)"
        "(if \<not> sent then bind_act (tell (Complain ''send login msg error'')) (\<lambda>_. ret False)
          else bind_act (read_answer sk lib 4096) (\<lambda>answer. case answer of
            None \<Rightarrow> bind_act (tell (Complain ''read login response error'')) (\<lambda>_. ret False)
          | Some response \<Rightarrow> ?tail response)) w4 = (Inr go, w')"
      using assms(1) True w1 by (auto simp: login_attempt_def bind_act_Inr)
    have c4: "kw_client w4 = kw_client w1"
      using same_clientD [OF basic_client_frame(5) s(1)] same_clientD [OF basic_client_frame(6) s(2)]
        same_clientD [OF send_request_client s(3)] by simp
    have stay: "\<not> cl_logged (kw_client w4)" "\<not> cl_reader (kw_client w4)" "cl_fd (kw_client w4) \<noteq> -1"
      using c4 fd True assms(2,3) by simp_all
    show ?thesis
    proof (cases "go")
      case True
      then obtain response w5 w6 where t: "read_answer sk lib 4096 w4 = (Inr (Some response), w5)"
          "login_succeeded sk lib response w5 = (Inr (), w')"
        using s(4) by (auto simp: bind_act_Inr int_at_def split: if_splits option.splits)
      have "kw_client w5 = kw_client w4" using same_clientD [OF read_answer_client t(1)] .
      with login_succeeded_session [OF t(2)] stay True show ?thesis by (auto simp: client_ok_def)
    next
      case False
      have "kw_client w' = kw_client w4"
      proof (cases sent)
        case True
        then obtain answer w5 where t: "read_answer sk lib 4096 w4 = (Inr answer, w5)"
            "(case answer of None \<Rightarrow> bind_act (tell (Complain ''read login response error'')) (\<lambda>_. ret False)
             | Some response \<Rightarrow> ?tail response) w5 = (Inr False, w')"
          using s(4) False by (auto simp: bind_act_Inr)
        have "kw_client w' = kw_client w5"
          using t(2) same_clientD [OF show_field_client]
          by (cases answer) (auto simp: bind_act_Inr tell_def int_at_def split: if_splits)
        then show ?thesis using same_clientD [OF read_answer_client t(1)] by simp
      next
        case False
        with s(4) show ?thesis by (auto simp: bind_act_Inr tell_def)
      qed
      with stay False show ?thesis by (simp add: client_ok_def)
    qed
  qed
qed

lemma client_login_session:
  assumes "client_login sk lib n w = (Inr over, w')" and "\<not> cl_logged (kw_client w)" "\<not> cl_reader (kw_client w)"
  shows "client_ok (kw_client w') \<and> (over \<longrightarrow> \<not> cl_logged (kw_client w'))"
proof -
  obtain go w1 where w1: "login_attempt sk lib w = (Inr go, w1)"
      "(if go then command_loop sk lib n else ret True) w1 = (Inr over, w')"
    using assms(1) by (auto simp: client_login_def bind_act_Inr)
  from login_attempt_session [OF w1(1) assms(2,3)] w1(2) command_loop_session [of sk lib n w1 over w']
  show ?thesis by (cases go) auto
qed

lemma client_reg_session:
  assumes "client_reg sk lib w = (Inr (), w')"
  shows "\<exists>fd. kw_client w' = (kw_client w)\<lparr>cl_fd := fd\<rparr>"
proof -
  let ?m = "\<lambda>up. if \<not> up then ret ()
     else bind_act cin_word (\<lambda>name. bind_act cin_word (\<lambda>password.
     bind_act (send_request sk lib (\<lambda>_. reg_request name password)) (\<lambda>sent.
     if \<not> sent then tell (Complain ''send reg response error'')
     else bind_act (read_answer sk lib 1024) (\<lambda>answer. case answer of
       None \<Rightarrow> tell (Complain ''recv reg response error'')
     | Some response \<Rightarrow> bind_act (int_at response ''errno'') (\<lambda>code.
         if code = 0 then show_field ''reg success, userid is '' response ''id''
         else tell (Say ''reg failed''))))))"
  obtain up w1 where w1: "ensure_connected sk w = (Inr up, w1)" "?m up w1 = (Inr (), w')"
    using assms by (auto simp: client_reg_def bind_act_Inr)
  have "moves same_client (?m up)"
    by (auto intro!: moves_intros client_frame moves_int_at split: option.splits)
  from same_clientD [of "?m up", OF this w1(2)] ensure_connected_fd [OF w1(1)] show ?thesis by auto
qed

lemma mainMenu_session:
  "mainMenu sk lib n w = (Inr over, w') \<Longrightarrow> \<not> cl_logged (kw_client w) \<Longrightarrow> \<not> cl_reader (kw_client w) \<Longrightarrow>
     client_ok (kw_client w') \<and>
     (over \<longrightarrow> cl_fd (kw_client w') = -1 \<and> \<not> cl_logged (kw_client w') \<and> \<not> cl_reader (kw_client w'))"
proof (induction n arbitrary: w)
  case 0
  then show ?case by (auto simp: client_ok_def)
next
  case (Suc n)
  obtain choice w1 where w1: "cin_int w = (Inr choice, w1)" using Suc.prems(1) by (auto simp: bind_act_Inr)
  let ?rest = "if choice = 1 then bind_act (client_login sk lib n) (\<lambda>back. if back then mainMenu sk lib n else ret False)
     else if choice = 2 then bind_act (client_reg sk lib) (\<lambda>_. mainMenu sk lib n)
     else if choice = 3 then bind_act (quit_client sk) (\<lambda>_. ret True)
     else bind_act (tell (Say ''invalid input!'')) (\<lambda>_. mainMenu sk lib n)"
  have rest: "?rest w1 = (Inr over, w')" using Suc.prems(1) by (simp add: bind_act_def w1)
  have off: "\<not> cl_logged (kw_client w1)" "\<not> cl_reader (kw_client w1)"
    using same_clientD [OF basic_client_frame(5) w1] Suc.prems(2,3) by simp_all
  consider "choice = 1" | "choice = 2" | "choice = 3" | "choice \<notin> {1, 2, 3}" by blast
  then show ?case
  proof cases
    case 1
    then obtain b w2 where w2: "client_login sk lib n w1 = (Inr b, w2)"
        "(if b then mainMenu sk lib n else ret False) w2 = (Inr over, w')"
      using rest by (auto simp: bind_act_Inr)
    have c: "client_ok (kw_client w2) \<and> (b \<longrightarrow> \<not> cl_logged (kw_client w2))"
      using client_login_session [OF w2(1) off] .
    show ?thesis
    proof (cases b)
      case True
      with c w2(2) show ?thesis by (intro Suc.IH [of w2]) (auto simp: client_ok_def)
    next
      case False
      with c w2(2) show ?thesis by auto
    qed
  next
    case 2
    then obtain w2 where w2: "client_reg sk lib w1 = (Inr (), w2)" "mainMenu sk lib n w2 = (Inr over, w')"
      using rest by (auto simp: bind_act_Inr)
    from client_reg_session [OF w2(1)] off have "\<not> cl_logged (kw_client w2)" "\<not> cl_reader (kw_client w2)" by auto
    then show ?thesis by (rule Suc.IH [OF w2(2)])
  next
    case 3
    then have "quit_client sk w1 = (Inr (), w')" "over" using rest by (auto simp: bind_act_Inr)
    then have "bind_act (drop_connection sk) (\<lambda>_. join_reader) (w1\<lparr>kw_client := (kw_client w1)\<lparr>cl_logged := False\<rparr>\<rparr>) = (Inr (), w')"
      by (simp add: quit_client_def set_client_def)
    from drop_join [OF this] show ?thesis by (simp add: client_ok_def)
  next
    case 4
    then obtain w2 where "mainMenu sk lib n w2 = (Inr over, w')" "kw_client w2 = kw_client w1"
      using rest by (auto simp: bind_act_Inr tell_def)
    with off show ?thesis by (intro Suc.IH [of w2]) auto
  qed
qed

end
