(* ===== verification/ChatConversation.thy ===== *)
theory ChatConversation
  imports ChatClientRuns
begin

text \<open>
  The properties of the chat client: how it ends, that it loses no descriptor, and a message on
  its way from one user's keyboard to another user's screen.
\<close>

section \<open>Descriptors\<close>

text \<open>
  \<open>live\<close> are the open descriptors of the process: \<^verbatim>\<open>socket\<close> opens a new one or returns -1,
  \<^verbatim>\<open>close\<close> closes one, and the other calls open and close none.
\<close>

definition sockets_ok :: "'s sockets \<Rightarrow> ('s \<Rightarrow> fd set) \<Rightarrow> bool" where
  "sockets_ok sk live \<longleftrightarrow>
     (\<forall>s. case sk_socket sk s of (fd, s1) \<Rightarrow> live s1 = (if fd = -1 then live s else insert fd (live s)) \<and> fd \<notin> live s) \<and>
     (\<forall>fd ip port s. live (snd (sk_connect sk fd ip port s)) = live s) \<and>
     (\<forall>fd d s. live (snd (sk_write sk fd d s)) = live s) \<and>
     (\<forall>fd n s. live (snd (sk_read sk fd n s)) = live s) \<and>
     (\<forall>fd s. live (sk_shutdown sk fd s) = live s) \<and>
     (\<forall>fd s. live (sk_close sk fd s) = live s - {fd})"

text \<open>The descriptor in the member is the only one the client has open.\<close>

definition fds_ok :: "('s \<Rightarrow> fd set) \<Rightarrow> 's client_world \<Rightarrow> bool" where
  "fds_ok live w \<longleftrightarrow> live (kw_sock w) = {fd. fd = cl_fd (kw_client w) \<and> fd \<noteq> -1}"

definition keeps_fds :: "('s \<Rightarrow> fd set) \<Rightarrow> 's client_world \<Rightarrow> 's client_world \<Rightarrow> bool" where
  "keeps_fds live w w' \<longleftrightarrow> (fds_ok live w \<longrightarrow> fds_ok live w')"

lemma keeps_fds_rel [simp]: "reflp (keeps_fds live)" "transp (keeps_fds live)"
  by (auto simp: reflp_def transp_def keeps_fds_def)

lemmas fds_intros = moves_bind [OF keeps_fds_rel(2)] moves_trivial(1) [OF keeps_fds_rel(1)] moves_trivial(2)
  moves_trivial(3) [OF keeps_fds_rel(1)] moves_if moves_for_each [OF keeps_fds_rel]
  moves_dump [OF keeps_fds_rel(1)] moves_int_at [OF keeps_fds_rel(1)] moves_parse [OF keeps_fds_rel(1)]

named_theorems fds_frame \<open>operations that lose no descriptor\<close>

lemma quiet_fds [fds_frame]:
  "moves (keeps_fds live) the_client" "moves (keeps_fds live) (tell e)" "moves (keeps_fds live) cin_int"
  "moves (keeps_fds live) cin_word" "moves (keeps_fds live) cin_get" "moves (keeps_fds live) cin_getline"
  by (auto simp: moves_def keeps_fds_def fds_ok_def the_client_def tell_def cin_int_def cin_word_def cin_get_def
      cin_getline_def Let_def split: if_splits)

lemma set_client_fds: "(\<And>c. cl_fd (f c) = cl_fd c) \<Longrightarrow> moves (keeps_fds live) (set_client f)"
  by (auto simp: moves_def keeps_fds_def fds_ok_def set_client_def)

lemma show_fields_fds [fds_frame]: "moves (keeps_fds live) (show_fields lks js)"
  by (induction lks js rule: show_fields.induct; unfold show_fields.simps show_field_def;
      intro fds_intros fds_frame; assumption)

lemma for_strings_fds: "(\<And>s. moves (keeps_fds live) (f s)) \<Longrightarrow> moves (keeps_fds live) (for_strings js k f)"
  unfolding for_strings_def by (auto intro!: fds_intros)

lemma showCurrentUserData_fds [fds_frame]: "moves (keeps_fds live) (showCurrentUserData lib js)"
  unfolding showCurrentUserData_def show_friend_def show_group_def show_member_def
  by (intro fds_intros for_strings_fds fds_frame)

lemma help_fds [fds_frame]: "moves (keeps_fds live) client_help" "moves (keeps_fds live) join_reader"
  unfolding client_help_def join_reader_def by (intro fds_intros fds_frame set_client_fds; simp)+

lemma on_sock_fds:
  assumes "\<And>s. live (snd (f s)) = live s" shows "moves (keeps_fds live) (on_sock f)"
  unfolding moves_def keeps_fds_def fds_ok_def
proof (intro allI impI)
  fix w a and w' :: "'a client_world"
  assume run: "on_sock f w = (Inr a, w')" and "live (kw_sock w) = {fd. fd = cl_fd (kw_client w) \<and> fd \<noteq> -1}"
  moreover have "kw_client w' = kw_client w" "kw_sock w' = snd (f (kw_sock w))"
    using run by (auto simp: on_sock_def split: prod.splits)
  ultimately show "live (kw_sock w') = {fd. fd = cl_fd (kw_client w') \<and> fd \<noteq> -1}" by (simp add: assms)
qed

lemma socket_fds:
  assumes "sockets_ok sk live"
  shows "moves (keeps_fds live) (send_request sk lib js)" "moves (keeps_fds live) (read_answer sk lib n)"
    "moves (keeps_fds live) (drop_connection sk)"
proof -
  have w: "moves (keeps_fds live) (on_sock (sk_write sk fd d))" "moves (keeps_fds live) (on_sock (sk_read sk fd n))" for fd d n
    using assms by (auto intro!: on_sock_fds simp: sockets_ok_def)
  show "moves (keeps_fds live) (send_request sk lib js)"
    unfolding send_request_def by (intro fds_intros fds_frame w)
  show "moves (keeps_fds live) (read_answer sk lib n)"
    unfolding read_answer_def by (auto intro!: fds_intros fds_frame w split: option.splits prod.splits)
  show "moves (keeps_fds live) (drop_connection sk)"
    unfolding moves_def keeps_fds_def
  proof (intro allI impI)
    fix w a w' assume run: "drop_connection sk w = (Inr a, w')" and w: "fds_ok live w"
    have "live (sk_close sk fd (sk_shutdown sk fd s)) = live s - {fd}" for fd s
      using assms by (simp add: sockets_ok_def)
    with run w show "fds_ok live w'"
      by (auto simp: drop_connection_def bind_act_def the_client_def sock_effect_def set_client_def fds_ok_def
          split: if_splits)
  qed
qed

lemma connectServer_fds:
  assumes sk: "sockets_ok sk live" and w: "fds_ok live w" "cl_fd (kw_client w) = -1"
    and run: "connectServer sk ip port w = (Inr up, w')"
  shows "fds_ok live w'"
proof -
  obtain fd s1 where s1: "sk_socket sk (kw_sock w) = (fd, s1)" by (cases "sk_socket sk (kw_sock w)")
  obtain r s2 where s2: "sk_connect sk fd (c_str ip) port s1 = (r, s2)" by (cases "sk_connect sk fd (c_str ip) port s1")
  have none: "live (kw_sock w) = {}" using w by (auto simp: fds_ok_def)
  have l1: "live s1 = (if fd = -1 then {} else {fd})"
    using sk s1 none unfolding sockets_ok_def by (metis (mono_tags, lifting) case_prod_conv)
  have l2: "live s2 = live s1" using sk s2 unfolding sockets_ok_def by (metis snd_conv)
  have l3: "live (sk_close sk fd s2) = live s2 - {fd}" using sk unfolding sockets_ok_def by blast
  show ?thesis
    using run l1 l2 l3 by (auto simp: connectServer_def bind_act_def on_sock_def s1 s2 set_client_def tell_def
        sock_effect_def fds_ok_def split: if_splits)
qed

lemma ensure_connected_fds:
  assumes "sockets_ok sk live" shows "moves (keeps_fds live) (ensure_connected sk)"
  unfolding moves_def keeps_fds_def
proof (intro allI impI)
  fix w a w' assume run: "ensure_connected sk w = (Inr a, w')" and w: "fds_ok live w"
  show "fds_ok live w'"
  proof (cases "cl_fd (kw_client w) = -1")
    case True
    with run have "connectServer sk (cl_ip (kw_client w)) (cl_port (kw_client w)) w = (Inr a, w')"
      by (simp add: ensure_connected_def bind_act_def the_client_def)
    with connectServer_fds [OF assms w True] show ?thesis by blast
  next
    case False
    with run w show ?thesis by (simp add: ensure_connected_def bind_act_def the_client_def)
  qed
qed

lemma client_fds:
  assumes "sockets_ok sk live"
  shows "moves (keeps_fds live) (run_command sk lib cmd)" "moves (keeps_fds live) (login_attempt sk lib)"
    "moves (keeps_fds live) (client_reg sk lib)" "moves (keeps_fds live) (quit_client sk)"
proof -
  note s = socket_fds [OF assms] ensure_connected_fds [OF assms]
  show "moves (keeps_fds live) (run_command sk lib cmd)"
    unfolding run_command_def client_oneChat_def client_addFriend_def client_createGroup_def client_addGroup_def
      client_groupChat_def client_loginout_def
    by (intro fds_intros fds_frame s set_client_fds; simp)
  show "moves (keeps_fds live) (login_attempt sk lib)"
    unfolding login_attempt_def login_succeeded_def show_field_def
    by (auto intro!: fds_intros fds_frame s set_client_fds split: option.splits)
  show "moves (keeps_fds live) (client_reg sk lib)"
    unfolding client_reg_def show_field_def
    by (auto intro!: fds_intros fds_frame s set_client_fds split: option.splits)
  show "moves (keeps_fds live) (quit_client sk)"
    unfolding quit_client_def by (intro fds_intros fds_frame s set_client_fds; simp)
qed

lemma loops_fds:
  assumes "sockets_ok sk live"
  shows "moves (keeps_fds live) (command_loop sk lib n)" "moves (keeps_fds live) (mainMenu sk lib n)"
proof -
  note f = client_fds [OF assms]
  show c: "moves (keeps_fds live) (command_loop sk lib n)" for n
    by (induction n; unfold command_loop.simps; intro fds_intros fds_frame f; assumption)
  show "moves (keeps_fds live) (mainMenu sk lib n)"
    by (induction n; unfold mainMenu.simps client_login_def; intro fds_intros fds_frame f c; assumption)
qed

section \<open>How the client ends\<close>

text \<open>A machine with one descriptor table; connecting works, reads return nothing.\<close>

record demo_net =
  dn_fds :: "fd list"
  dn_sent :: "string list"

definition demo_sockets :: "demo_net sockets" where
  "demo_sockets = \<lparr>sk_socket = \<lambda>s. (let fd = 1 + foldr max (dn_fds s) 0 in (fd, s\<lparr>dn_fds := fd # dn_fds s\<rparr>)),
     sk_connect = \<lambda>fd ip port s. (0, s), sk_write = \<lambda>fd d s. (int (length d), s\<lparr>dn_sent := dn_sent s @ [d]\<rparr>),
     sk_read = \<lambda>fd n s. ((-1, []), s), sk_shutdown = \<lambda>fd s. s,
     sk_close = \<lambda>fd s. s\<lparr>dn_fds := filter (\<lambda>d. d \<noteq> fd) (dn_fds s)\<rparr>\<rparr>"

definition demo_client :: "string \<Rightarrow> demo_net client_world" where
  "demo_client input = \<lparr>kw_client = new_client, kw_cin = input, kw_fail = False,
     kw_sock = \<lparr>dn_fds = [], dn_sent = []\<rparr>, kw_out = []\<rparr>"

lemma demo_sockets_ok: "sockets_ok demo_sockets (\<lambda>s. set (dn_fds s))"
proof -
  have "1 + foldr max ks 0 \<notin> set ks" "1 + foldr max ks 0 \<noteq> -1" for ks :: "int list"
    using foldr_max_bound(1) [of "1 + foldr max ks 0" ks] foldr_max_bound(2) [of ks] by auto
  then show ?thesis by (auto simp: sockets_ok_def demo_sockets_def Let_def)
qed

text \<open>
  Property (C21). A client that ends by itself has logged out, joined its reading thread and closed
  every descriptor it opened, whatever was typed and whatever the server answered; while it runs
  it never has more than one connection, and it is logged in only over an open connection with a
  reading thread.
\<close>

theorem client_ends_clean:
  assumes "sockets_ok sk live" and "client_run sk lib n ip port w = (Inr over, w')"
    and "kw_client w = new_client" and "live (kw_sock w) = {}"
  shows "client_ok (kw_client w') \<and> live (kw_sock w') = {fd. fd = cl_fd (kw_client w') \<and> fd \<noteq> -1} \<and>
    (over \<longrightarrow> live (kw_sock w') = {} \<and> \<not> cl_logged (kw_client w') \<and> \<not> cl_reader (kw_client w'))"
proof -
  let ?w1 = "w\<lparr>kw_client := (kw_client w)\<lparr>cl_ip := ip, cl_port := port\<rparr>\<rparr>"
  obtain up w2 where w2: "connectServer sk ip port ?w1 = (Inr up, w2)"
      "(if up then mainMenu sk lib n else ret True) w2 = (Inr over, w')"
    using assms(2) by (auto simp: client_run_def set_client_def bind_act_Inr)
  have start: "fds_ok live ?w1" "cl_fd (kw_client ?w1) = -1"
    using assms(3,4) by (simp_all add: fds_ok_def new_client_def)
  have fds2: "fds_ok live w2" by (rule connectServer_fds [OF assms(1) start w2(1)])
  obtain fd where fd: "kw_client w2 = (kw_client ?w1)\<lparr>cl_fd := fd\<rparr>" "up = (fd \<noteq> -1)"
    using connectServer_fd [OF w2(1)] by blast
  have off: "\<not> cl_logged (kw_client w2)" "\<not> cl_reader (kw_client w2)"
    using fd assms(3) by (simp_all add: new_client_def)
  show ?thesis
  proof (cases up)
    case True
    then have m: "mainMenu sk lib n w2 = (Inr over, w')" using w2(2) by simp
    have "fds_ok live w'" using movesD [OF loops_fds(2) [OF assms(1)] m] fds2 by (simp add: keeps_fds_def)
    then show ?thesis using mainMenu_session [OF m off] by (auto simp: fds_ok_def)
  next
    case False
    then have "w' = w2" "over" using w2(2) by auto
    then show ?thesis using fds2 fd off False by (auto simp: fds_ok_def client_ok_def)
  qed
qed

lemma demo_client_runs:
  "fst (client_run demo_sockets demo_lib 3 ''127.0.0.1'' 8000 (demo_client ''7 3'')) = Inr True"
  "fst (mainMenu demo_sockets demo_lib 4 (demo_client ''7 x'')) = Inr False"
  by code_simp+

theorem client_ends_clean_witness:
  "\<exists>w'. client_run demo_sockets demo_lib 3 ''127.0.0.1'' 8000 (demo_client ''7 3'') = (Inr True, w') \<and>
    dn_fds (kw_sock w') = []"
proof -
  obtain w' where run: "client_run demo_sockets demo_lib 3 ''127.0.0.1'' 8000 (demo_client ''7 3'') = (Inr True, w')"
    using demo_client_runs(1) by (metis prod.collapse)
  from client_ends_clean [OF demo_sockets_ok run] run show ?thesis by (auto simp: demo_client_def)
qed

text \<open>
  Property (C30). The menu needs no more rounds than there are characters to read: if it is still
  running after as many, standard input has failed.
\<close>

theorem menu_stops_unless_input_fails:
  assumes "mainMenu sk lib n w = (Inr False, w')" and "length (kw_cin w) < n"
  shows "kw_fail w'"
  using assms by (rule mainMenu_fuel)

theorem menu_stops_unless_input_fails_witness:
  "\<exists>w'. mainMenu demo_sockets demo_lib 4 (demo_client ''7 x'') = (Inr False, w') \<and> kw_fail w'"
proof -
  obtain w' where run: "mainMenu demo_sockets demo_lib 4 (demo_client ''7 x'') = (Inr False, w')"
    using demo_client_runs(2) by (metis prod.collapse)
  from menu_stops_unless_input_fails [OF run] run show ?thesis by (simp add: demo_client_def)
qed

text \<open>
  Once standard input has failed, as it does at its end or at a word where a number
  is expected, the menu never returns and the command loop of a logged-in client neither: each
  round reads nothing and starts again.
\<close>

theorem failed_input_spins:
  assumes "kw_fail w"
  shows "mainMenu sk lib n w = (Inr False, w\<lparr>kw_out := kw_out w @ replicate n (Say ''invalid input!'')\<rparr>) \<and>
    command_loop sk lib n (w\<lparr>kw_client := (kw_client w)\<lparr>cl_logged := True\<rparr>\<rparr>) =
      (Inr False, w\<lparr>kw_client := (kw_client w)\<lparr>cl_logged := True\<rparr>\<rparr>)"
  using mainMenu_spins [OF assms] command_loop_spins [of "w\<lparr>kw_client := (kw_client w)\<lparr>cl_logged := True\<rparr>\<rparr>"] assms
  by simp

theorem failed_input_spins_witness:
  "fst (mainMenu demo_sockets demo_lib 1000 ((demo_client [])\<lparr>kw_fail := True\<rparr>)) = Inr False"
  using failed_input_spins [of "(demo_client [])\<lparr>kw_fail := True\<rparr>" demo_sockets demo_lib 1000] by simp

section \<open>The answer to a login\<close>

text \<open>What the client shows for a friend and for a group of an answer.\<close>

definition friend_lines :: "user \<Rightarrow> client_out list" where
  "friend_lines f = [Show ''id:'' (JInt (usr_id f)), Show '' name:'' (JStr (usr_name f)), Show '' state:'' (JStr (usr_state f))]"

definition group_lines :: "chat_group \<Rightarrow> client_out list" where
  "group_lines g = [Show ''group id:'' (JInt (grp_id g)), Show '' group name:'' (JStr (grp_name g)),
     Show '' group desc:'' (JStr (grp_desc g))]"

definition display :: "client_out list \<Rightarrow> ('s, unit) client_act" where
  "display es = change (\<lambda>w. w\<lparr>kw_out := kw_out w @ es\<rparr>)"

lemma display_apply: "display es w = (Inr (), w\<lparr>kw_out := kw_out w @ es\<rparr>)"
  by (simp add: display_def)

lemma bind_display [simp]: "bind_act (display es) f w = f () (w\<lparr>kw_out := kw_out w @ es\<rparr>)"
  by (simp add: display_def)

lemma for_each_shows:
  "(\<And>x w. x \<in> set xs \<Longrightarrow> f x w = display (g x) w) \<Longrightarrow> for_each f xs w = display (concat (map g xs)) w"
proof (induction xs arbitrary: w)
  case Nil
  then show ?case by (simp add: display_def)
next
  case (Cons x xs)
  have "f x w = (Inr (), w\<lparr>kw_out := kw_out w @ g x\<rparr>)" using Cons.prems by (simp add: display_apply)
  moreover have "for_each f xs (w\<lparr>kw_out := kw_out w @ g x\<rparr>) = display (concat (map g xs)) (w\<lparr>kw_out := kw_out w @ g x\<rparr>)"
    using Cons by simp
  ultimately show ?case by (simp add: bind_act_simps display_apply)
qed

lemma has_key_obj [simp]: "has_key (json_obj kvs) k = (map_of (rev kvs) k \<noteq> None)"
  by (simp add: json_obj_def map_of_obj_puts)

lemma list_field_at:
  "map_of (rev (list_field k xs)) k' = (if k' = k \<and> xs \<noteq> [] then Some (JArr (map JStr xs)) else None)"
  by (simp add: list_field_def)

lemma for_each_map: "for_each f (map h ys) = for_each (\<lambda>y. f (h y)) ys"
  by (induction ys) simp_all

lemma for_strings_shows:
  assumes "json_at js k = Inr (JArr (map (\<lambda>y. JStr (h y)) ys))"
    and "\<And>y w. y \<in> set ys \<Longrightarrow> body (h y) w = display (g y) w"
  shows "for_strings js k body w = display (concat (map g ys)) w"
  using for_each_shows [of ys "\<lambda>y. bind_act (lift_res (Inr (h y))) body" g w] assms(2)
  by (simp add: for_strings_def assms(1) for_each_map)

lemma show_friend_lines:
  "js_parse lib s = Some (friend_json f) \<Longrightarrow> show_friend lib s w = display (friend_lines f) w"
  by (simp add: show_friend_def parse_json_def show_field_def friend_json_def friend_lines_def tell_def bind_act_def display_def)

lemma show_group_lines:
  "js_parse lib s = Some (bare_group_json g) \<Longrightarrow> show_group lib s w = display (group_lines g) w"
  by (simp add: show_group_def parse_json_def show_field_def bare_group_json_def group_lines_def tell_def bind_act_def
      display_def for_strings_def)

lemma answer_fields:
  "json_at (accepted_answer lib u msgs friends groups) ''errno'' = Inr (JInt 0)"
  "json_at (accepted_answer lib u msgs friends groups) ''id'' = Inr (JInt (usr_id u))"
  "json_at (accepted_answer lib u msgs friends groups) ''name'' = Inr (JStr (usr_name u))"
  by (simp_all add: accepted_answer_def login_answer_json_def map_of_append map_add_def list_field_at)

lemma answer_offline:
  "has_key (accepted_answer lib u msgs friends groups) ''offlinemsg'' = (msgs \<noteq> [])"
  "msgs \<noteq> [] \<Longrightarrow> json_at (accepted_answer lib u msgs friends groups) ''offlinemsg'' = Inr (JArr (map (\<lambda>m. JStr m) msgs))"
  by (simp_all add: accepted_answer_def login_answer_json_def map_of_append map_add_def list_field_at)

lemma answer_friends:
  "has_key (accepted_answer lib u msgs friends groups) ''friends'' = (friends \<noteq> [])"
  "friends \<noteq> [] \<Longrightarrow> json_at (accepted_answer lib u msgs friends groups) ''friends'' =
     Inr (JArr (map (\<lambda>f. JStr (printed lib (friend_json f))) friends))"
  by (simp_all add: accepted_answer_def login_answer_json_def map_of_append map_add_def list_field_at comp_def)

lemma answer_groups:
  "has_key (accepted_answer lib u msgs friends groups) ''groups'' = (groups \<noteq> [])"
  "groups \<noteq> [] \<Longrightarrow> json_at (accepted_answer lib u msgs friends groups) ''groups'' =
     Inr (JArr (map (\<lambda>g. JStr (printed lib (bare_group_json g))) groups))"
  by (simp_all add: accepted_answer_def login_answer_json_def map_of_append map_add_def list_field_at comp_def)

lemma user_data_shown:
  assumes f: "\<forall>f \<in> set friends. js_parse lib (printed lib (friend_json f)) = Some (friend_json f)"
    and g: "\<forall>g \<in> set groups. js_parse lib (printed lib (bare_group_json g)) = Some (bare_group_json g)"
  shows "showCurrentUserData lib (accepted_answer lib u msgs friends groups) w =
    display ([Show ''id: '' (JInt (usr_id u)), Show ''name: '' (JStr (usr_name u))] @ map Say msgs @
      concat (map friend_lines friends) @ concat (map group_lines groups)) w"
proof -
  let ?a = "accepted_answer lib u msgs friends groups"
  have m: "(if has_key ?a ''offlinemsg'' then for_strings ?a ''offlinemsg'' (\<lambda>m. tell (Say m)) else ret ()) w =
      display (map Say msgs) w" for w :: "'a client_world"
    using for_strings_shows [OF answer_offline(2), of msgs "\<lambda>m. tell (Say m)" "\<lambda>m. [Say m]" lib u friends groups w]
    by (auto simp: answer_offline(1) tell_def display_def)
  have fr: "(if has_key ?a ''friends'' then for_strings ?a ''friends'' (show_friend lib) else ret ()) w =
      display (concat (map friend_lines friends)) w" for w :: "'a client_world"
  proof -
    have "show_friend lib (printed lib (friend_json y)) w = display (friend_lines y) w"
      if "y \<in> set friends" for y and w :: "'a client_world"
      using f that by (intro show_friend_lines) blast
    from for_strings_shows [OF answer_friends(2), of friends "show_friend lib" lib friend_lines u msgs groups w, OF _ this]
    show ?thesis by (simp add: answer_friends(1) display_apply)
  qed
  have gr: "(if has_key ?a ''groups'' then for_strings ?a ''groups'' (show_group lib) else ret ()) w =
      display (concat (map group_lines groups)) w" for w :: "'a client_world"
  proof -
    have "show_group lib (printed lib (bare_group_json y)) w = display (group_lines y) w"
      if "y \<in> set groups" for y and w :: "'a client_world"
      using g that by (intro show_group_lines) blast
    from for_strings_shows [OF answer_groups(2), of groups "show_group lib" lib group_lines u msgs friends w, OF _ this]
    show ?thesis by (simp add: answer_groups(1) display_apply)
  qed
  show ?thesis
    by (simp add: showCurrentUserData_def show_field_def answer_fields tell_def bind_act_def m fr gr display_apply
        del: has_key_obj)
qed

lemma join_reader_runs: "\<exists>w' r. join_reader w = (Inr (), w') \<and> kw_out w' = kw_out w @ r"
  by (simp add: join_reader_def bind_act_def the_client_def tell_def set_client_def)

lemma cin_get_runs: "\<exists>w'. cin_get w = (Inr (), w') \<and> kw_out w' = kw_out w"
  by (simp add: cin_get_def)

text \<open>
  Property (C29). The answer to an accepted login has the form the client reads: no field is
  missing or of another type, so the client is then logged in under the user's number and name,
  has shown every kept message, friend and group, and has started its reading thread.
\<close>

theorem accepted_login_shown:
  assumes "\<forall>f \<in> set friends. js_parse lib (printed lib (friend_json f)) = Some (friend_json f)"
    and "\<forall>g \<in> set groups. js_parse lib (printed lib (bare_group_json g)) = Some (bare_group_json g)"
    and "int_range (usr_id u)"
  shows "\<exists>w' rest. login_succeeded sk lib (accepted_answer lib u msgs friends groups) w = (Inr (), w') \<and>
    kw_client w' = (kw_client w)\<lparr>cl_logged := True, cl_id := usr_id u, cl_name := usr_name u, cl_reader := True\<rparr> \<and>
    kw_out w' = kw_out w @ [Say ''login success!'', Show ''id: '' (JInt (usr_id u)), Show ''name: '' (JStr (usr_name u))] @
      map Say msgs @ concat (map friend_lines friends) @ concat (map group_lines groups) @ rest"
proof -
  let ?a = "accepted_answer lib u msgs friends groups"
  have hlp: "client_help w = display (map Say [''show command list:'', ''help : show all command'', ''chat : one to one chat'',
      ''addfriend : add friend'', ''creategroup : create group'', ''addgroup : add group'', ''groupchat : group chat'',
      ''loginout : logout'']) w" for w :: "'a client_world"
    by (simp add: client_help_def tell_def display_def)
  have f: "int_field ?a ''id'' = Inr (usr_id u)" "str_field ?a ''name'' = Inr (usr_name u)"
    using assms(3) by (simp_all add: answer_fields)
  let ?shown = "[Show ''id: '' (JInt (usr_id u)), Show ''name: '' (JStr (usr_name u))] @ map Say msgs @
      concat (map friend_lines friends) @ concat (map group_lines groups)"
  let ?w1 = "w\<lparr>kw_client := (kw_client w)\<lparr>cl_logged := True, cl_id := usr_id u, cl_name := usr_name u\<rparr>,
      kw_out := kw_out w @ [Say ''login success!'']\<rparr>"
  obtain h where h: "client_help w = display h w" for w :: "'a client_world" using hlp by blast
  let ?w2 = "?w1\<lparr>kw_out := (kw_out ?w1 @ ?shown) @ h\<rparr>"
  obtain w3 r where w3: "join_reader ?w2 = (Inr (), w3)" "kw_out w3 = kw_out ?w2 @ r"
    using join_reader_runs by blast
  let ?w4 = "w3\<lparr>kw_out := kw_out w3 @ [Spawn_reader], kw_client := (kw_client w3)\<lparr>cl_reader := True\<rparr>\<rparr>"
  obtain w5 where w5: "cin_get ?w4 = (Inr (), w5)" "kw_out w5 = kw_out ?w4" using cin_get_runs by blast
  have "login_succeeded sk lib ?a w = bind_act (showCurrentUserData lib ?a) (\<lambda>_. bind_act client_help (\<lambda>_. bind_act join_reader (\<lambda>_.
      bind_act (tell Spawn_reader) (\<lambda>_. bind_act (set_client (\<lambda>c. c\<lparr>cl_reader := True\<rparr>)) (\<lambda>_. cin_get))))) ?w1"
    by (simp add: login_succeeded_def set_client_def int_at_def str_at_def f tell_def)
  also have "\<dots> = bind_act join_reader (\<lambda>_. bind_act (tell Spawn_reader)
      (\<lambda>_. bind_act (set_client (\<lambda>c. c\<lparr>cl_reader := True\<rparr>)) (\<lambda>_. cin_get))) ?w2"
    by (simp add: bind_act_def user_data_shown [OF assms(1,2)] display_apply h)
  also have "\<dots> = (Inr (), w5)"
    using w3(1) w5(1) by (simp add: bind_act_simps tell_def set_client_def)
  finally have run: "login_succeeded sk lib ?a w = (Inr (), w5)" .
  have out: "kw_out w5 = kw_out w @ [Say ''login success!''] @ ?shown @ (h @ r @ [Spawn_reader])"
    using w5(2) w3(2) by simp
  have "kw_client w5 = (kw_client w)\<lparr>cl_logged := True, cl_id := usr_id u, cl_name := usr_name u, cl_reader := True\<rparr>"
    using login_succeeded_session [OF run] f by auto
  with run out show ?thesis
    by (intro exI [of _ w5] exI [of _ "h @ r @ [Spawn_reader]"]) simp
qed

theorem accepted_login_shown_witness:
  "\<exists>w' rest. login_succeeded demo_sockets \<lparr>js_parse = \<lambda>s. Some (friend_json (User_make 8 ''bob'' [] ''online'')),
        js_dump = \<lambda>j. Some ''f''\<rparr>
      (accepted_answer \<lparr>js_parse = \<lambda>s. Some (friend_json (User_make 8 ''bob'' [] ''online'')), js_dump = \<lambda>j. Some ''f''\<rparr>
        (User_make 7 ''ann'' ''p'' ''offline'') [''hello''] [User_make 8 ''bob'' [] ''online''] []) (demo_client []) = (Inr (), w') \<and>
    cl_id (kw_client w') = 7 \<and> kw_out w' = [Say ''login success!'', Show ''id: '' (JInt 7), Show ''name: '' (JStr ''ann''),
      Say ''hello'', Show ''id:'' (JInt 8), Show '' name:'' (JStr ''bob''), Show '' state:'' (JStr ''online'')] @ rest"
proof -
  let ?f = "User_make 8 ''bob'' [] ''online''" and ?u = "User_make 7 ''ann'' ''p'' ''offline''"
  let ?lib = "\<lparr>js_parse = \<lambda>s. Some (friend_json ?f), js_dump = \<lambda>j. Some ''f''\<rparr>"
  have "int_range (usr_id ?u)" by (simp add: User_make_def int_range_def int_min_def int_max_def)
  note i = this
  have f: "\<forall>f \<in> set [?f]. js_parse ?lib (printed ?lib (friend_json f)) = Some (friend_json f)"
    and g: "\<forall>g \<in> set []. js_parse ?lib (printed ?lib (bare_group_json g)) = Some (bare_group_json g)" by simp_all
  obtain w' rest where w': "login_succeeded demo_sockets ?lib (accepted_answer ?lib ?u [''hello''] [?f] []) (demo_client []) = (Inr (), w')"
      "kw_client w' = (kw_client (demo_client []))\<lparr>cl_logged := True, cl_id := usr_id ?u, cl_name := usr_name ?u, cl_reader := True\<rparr>"
      "kw_out w' = kw_out (demo_client []) @ [Say ''login success!'', Show ''id: '' (JInt (usr_id ?u)), Show ''name: '' (JStr (usr_name ?u))] @
      map Say [''hello''] @ concat (map friend_lines [?f]) @ concat (map group_lines []) @ rest"
    using accepted_login_shown [OF f g i, of demo_sockets "[''hello'']" "demo_client []"] by blast
  have "cl_id (kw_client w') = 7" by (simp add: w'(2) User_make_def)
  moreover have "kw_out w' = [Say ''login success!'', Show ''id: '' (JInt 7), Show ''name: '' (JStr ''ann''),
      Say ''hello'', Show ''id:'' (JInt 8), Show '' name:'' (JStr ''bob''), Show '' state:'' (JStr ''online'')] @ rest"
    by (simp add: w'(3) demo_client_def friend_lines_def User_make_def)
  ultimately show ?thesis using w'(1) by blast
qed

section \<open>From keyboard to screen\<close>

lemma cin_int_typed:
  assumes "int_range i" and "\<not> kw_fail w" and "kw_cin w = to_string i @ CHR 0x0A # rest"
  shows "cin_int w = (Inr i, w\<lparr>kw_cin := CHR 0x0A # rest\<rparr>)"
proof -
  have nl: "\<not> is_digit CHR 0x0A" by (simp add: is_digit_def)
  have tw: "takeWhile is_digit (dec_digits n @ CHR 0x0A # rest) = dec_digits n" for n
    by (rule takeWhile_digits) (use nl in auto)
  have dw: "dropWhile is_digit (dec_digits n @ CHR 0x0A # rest) = CHR 0x0A # rest" for n
    using dec_digits_all nl by (subst dropWhile_append2) auto
  show ?thesis
  proof (cases "i < 0")
    case True
    then show ?thesis
      using assms by (simp add: cin_int_def to_string_def is_space_def tw dw)
  next
    case False
    obtain d ds where d: "dec_digits (nat i) = d # ds" using dec_digits_nonempty list.exhaust by blast
    then have digit: "is_digit d" using hd_dec_digits [of "nat i"] by simp
    let ?x = "dec_digits (nat i) @ CHR 0x0A # rest"
    have "dropWhile is_space ?x = ?x" "hd ?x = d" using d digit_not_sign [OF digit] by simp_all
    then show ?thesis
      using False assms digit_not_sign [OF digit] tw [of "nat i"] dw [of "nat i"]
      by (simp add: cin_int_def to_string_def Let_def)
  qed
qed

lemma cin_getline_typed:
  "\<not> kw_fail w \<Longrightarrow> kw_cin w = line @ CHR 0x0A # rest \<Longrightarrow> CHR 0x0A \<notin> set line \<Longrightarrow>
    cin_getline w = (Inr line, w\<lparr>kw_cin := rest\<rparr>)"
proof -
  assume a: "\<not> kw_fail w" "kw_cin w = line @ CHR 0x0A # rest" "CHR 0x0A \<notin> set line"
  have "takeWhile (\<lambda>c. c \<noteq> CHR 0x0A) (line @ CHR 0x0A # rest) = line"
    "dropWhile (\<lambda>c. c \<noteq> CHR 0x0A) (line @ CHR 0x0A # rest) = CHR 0x0A # rest"
    using a(3) by (subst takeWhile_append2 dropWhile_append2; auto)+
  with a(1,2) show ?thesis by (simp add: cin_getline_def)
qed

text \<open>
  Property (C20). What one user types reaches the other's screen: the client sends the typed number
  and line as a message, the server sends the same bytes on to the connection of that user, and
  the reading thread there shows the sender and the line. The receiver is online at the sender's
  server; the printed message fits the reader's buffer of 1024 bytes, has no NUL and arrives by
  itself, and is otherwise any text, quotes and backslashes included, that the json library reads
  back as it was.
\<close>

theorem typed_message_shown:
  assumes ok: "mysql_ok my tabs pending" and t: "tables_ok (tabs (cw_db v))"
    and typed: "\<not> kw_fail a" "kw_cin a = to_string i @ CHR 0x0A # line @ CHR 0x0A # rest"
      "int_range i" "CHR 0x0A \<notin> set line" "int_range (cl_id (kw_client a))"
    and print: "js_dump lib (one_chat_json i line (kw_client a)) = Some s" "NUL \<notin> set s"
      "js_parse lib s = Some (one_chat_json i line (kw_client a))" "s \<noteq> []" "length s \<le> 1024"
    and sent: "sk_write sk (cl_fd (kw_client a)) s (kw_sock a) = (len, s1)" "len \<noteq> -1"
    and up: "usr_state (user_lookup (tabs (cw_db v)) i) = ''online''" "cw_conns v i = Some k'"
  shows "\<exists>v'. client_oneChat sk lib a = (Inr (), a\<lparr>kw_cin := rest, kw_sock := s1\<rparr>) \<and>
    ChatServer_OnMessage my lib k s v = (Inr (), v') \<and>
      cw_out v' = cw_out v @ [Ef_send k' s] \<and> tabs (cw_db v') = tabs (cw_db v) \<and>
    readTaskHandler lib [(True, int (length s), s, still)] b =
      (Inr (), b\<lparr>kw_out := kw_out b @ [Show ''[one chat] user '' (JInt (cl_id (kw_client a))), Show '' said: '' (JStr line)]\<rparr>)"
proof -
  let ?js = "one_chat_json i line (kw_client a)"
  have f: "json_at ?js ''msgid'' = Inr (JInt 3)" "json_at ?js ''toid'' = Inr (JInt i)"
      "json_at ?js ''id'' = Inr (JInt (cl_id (kw_client a)))" "json_at ?js ''msg'' = Inr (JStr line)"
    by (simp_all add: one_chat_json_def msg_types)
  have toid: "int_field ?js ''toid'' = Inr i" using typed(3) by (simp add: f)
  have "client_oneChat sk lib a = (Inr (), a\<lparr>kw_cin := rest, kw_sock := s1\<rparr>)"
    using cin_int_typed [of i a "line @ CHR 0x0A # rest"] cin_getline_typed [of "a\<lparr>kw_cin := line @ CHR 0x0A # rest\<rparr>" line rest]
      typed print(1) sent
    by (simp add: client_oneChat_def bind_act_def cin_get_def send_request_def the_client_def dump_def on_sock_def)
  moreover obtain c' where "oneChat my lib ?js v = (Inr (), v\<lparr>cw_db := c', cw_out := cw_out v @ [Ef_send k' s]\<rparr>)"
      "tabs c' = tabs (cw_db v)"
    using oneChat_spec [OF ok t print(1) _ toid] up by (auto simp: route_def routed_def)
  then have "\<exists>v'. ChatServer_OnMessage my lib k s v = (Inr (), v') \<and> cw_out v' = cw_out v @ [Ef_send k' s] \<and>
      tabs (cw_db v') = tabs (cw_db v)"
    by (simp add: ChatServer_OnMessage_def print(3) int_at_def f getHandler_def msg_types)
  moreover have "c_str s = s" using print(2) by (rule c_str_plain)
  then have "readTaskHandler lib [(True, int (length s), s, still)] b =
      (Inr (), b\<lparr>kw_out := kw_out b @ [Show ''[one chat] user '' (JInt (cl_id (kw_client a))), Show '' said: '' (JStr line)]\<rparr>)"
    using print(3-5) by (simp add: parse_json_def int_at_def f msg_types show_field_def tell_def bind_act_def)
  ultimately show ?thesis by blast
qed

theorem typed_message_shown_witness:
  "\<exists>v'. ChatServer_OnMessage mem_mysql \<lparr>js_parse = \<lambda>s. Some (one_chat_json 8 ''hi'' new_client), js_dump = \<lambda>j. Some ''m''\<rparr>
      5 ''m'' demo_world = (Inr (), v') \<and> cw_out v' = [Ef_send 0 ''m'']"
proof -
  let ?lib = "\<lparr>js_parse = \<lambda>s. Some (one_chat_json 8 ''hi'' new_client), js_dump = \<lambda>j. Some ''m''\<rparr>"
  let ?a = "demo_client (to_string 8 @ CHR 0x0A # ''hi'' @ CHR 0x0A # [])"
  obtain len s1 where w: "sk_write demo_sockets (-1) ''m'' (kw_sock ?a) = (len, s1)" "len \<noteq> -1"
    by (simp add: demo_sockets_def)
  have "int_range 8" "int_range 0"
    by (simp_all add: int_range_def int_min_def int_max_def)
  with typed_message_shown [OF mem_mysql_ok, of demo_world ?a 8 "''hi''" "[]" ?lib "''m''" demo_sockets len s1 0 5] w
  show ?thesis by (simp add: demo_client_def new_client_def) blast
qed

end
