(* ===== verification/NetBuffer.thy ===== *)
theory NetBuffer
  imports Prelude
begin

text \<open>
  The receive/send buffer of the network library, \<^verbatim>\<open>mymuduo-main/src/Buffer.cpp\<close>: one
  vector of bytes with a reader and a writer index. Every member function is one definition;
  the two indices and the vector's size are \<open>size_t\<close> values, so that the subtractions
  wrap where the code's would. The abstract view of a buffer is the queue of its readable
  bytes (\<open>content\<close>); the locale \<open>byte_queue\<close> states what its clients rely on.
\<close>

section \<open>State\<close>

record net_buffer =
  storage :: bytes
  readerIndex :: nat
  writerIndex :: nat

text \<open>
  \<open>std::length_error\<close> from the vector, or a failed \<open>assert\<close>. \<open>BadAccess\<close> is an access outside a
  buffer, which no operation of the class makes but a user's callback may.
\<close>

datatype buf_error = LengthError | AssertFailed | BadAccess

definition kCheapPrepend :: nat where "kCheapPrepend = 8"
definition kInitialSize :: nat where "kInitialSize = 1024"

section \<open>Operations\<close>

definition vec_new :: "nat \<Rightarrow> buf_error + bytes" where
  "vec_new n = (if n > vec_max then Inl LengthError else Inr (replicate n NUL))"

definition vec_resize :: "nat \<Rightarrow> bytes \<Rightarrow> buf_error + bytes" where
  "vec_resize n xs =
     (if n > vec_max then Inl LengthError else Inr (take n xs @ replicate (n - length xs) NUL))"

definition new_buffer :: "nat \<Rightarrow> buf_error + net_buffer" where
  "new_buffer initialSize =
     bind_res (vec_new (sz_add kCheapPrepend initialSize)) (\<lambda>v.
       Inr \<lparr>storage = v, readerIndex = kCheapPrepend, writerIndex = kCheapPrepend\<rparr>)"

definition peek :: "net_buffer \<Rightarrow> nat" where
  "peek b = readerIndex b"

definition readableBytes :: "net_buffer \<Rightarrow> nat" where
  "readableBytes b = sz_sub (writerIndex b) (readerIndex b)"

definition writableBytes :: "net_buffer \<Rightarrow> nat" where
  "writableBytes b = sz_sub (length (storage b)) (writerIndex b)"

definition prependableBytes :: "net_buffer \<Rightarrow> nat" where
  "prependableBytes b = readerIndex b"

definition beginWrite :: "net_buffer \<Rightarrow> nat" where
  "beginWrite b = writerIndex b"

definition retrieveAll :: "net_buffer \<Rightarrow> net_buffer" where
  "retrieveAll b = b\<lparr>readerIndex := kCheapPrepend, writerIndex := kCheapPrepend\<rparr>"

definition retrieve :: "nat \<Rightarrow> net_buffer \<Rightarrow> net_buffer" where
  "retrieve len b =
     (if len \<ge> sz_sub (writerIndex b) (readerIndex b) then retrieveAll b
      else b\<lparr>readerIndex := sz_add (readerIndex b) len\<rparr>)"

definition retrieveAllAsString :: "net_buffer \<Rightarrow> bytes \<times> net_buffer" where
  "retrieveAllAsString b =
     (take (readableBytes b) (drop (peek b) (storage b)), retrieveAll b)"

definition makeSpace :: "nat \<Rightarrow> net_buffer \<Rightarrow> buf_error + net_buffer" where
  "makeSpace len b =
     (if sz_add (prependableBytes b) (writableBytes b) < sz_add len kCheapPrepend
      then bind_res (vec_resize (sz_add (writerIndex b) len) (storage b))
             (\<lambda>v. Inr (b\<lparr>storage := v\<rparr>))
      else let readable = readableBytes b in
        Inr (b\<lparr>storage := copy_within (peek b) kCheapPrepend readable (storage b),
               readerIndex := kCheapPrepend,
               writerIndex := sz_add kCheapPrepend readable\<rparr>))"

definition ensureWritableBytes :: "nat \<Rightarrow> net_buffer \<Rightarrow> buf_error + net_buffer" where
  "ensureWritableBytes len b =
     bind_res (if writableBytes b < len then makeSpace len b else Inr b)
       (\<lambda>b'. if writableBytes b' \<ge> len then Inr b' else Inl AssertFailed)"

definition hasWritten :: "nat \<Rightarrow> net_buffer \<Rightarrow> buf_error + net_buffer" where
  "hasWritten len b =
     (if len \<le> writableBytes b then Inr (b\<lparr>writerIndex := sz_add (writerIndex b) len\<rparr>)
      else Inl AssertFailed)"

text \<open>Both overloads of \<open>append\<close>: the \<open>std::string\<close> one passes its data and size on.\<close>

definition buf_append :: "net_buffer \<Rightarrow> bytes \<Rightarrow> buf_error + net_buffer" where
  "buf_append b data =
     bind_res (ensureWritableBytes (length data) b) (\<lambda>b1.
       hasWritten (length data) (b1\<lparr>storage := copy_into (beginWrite b1) data (storage b1)\<rparr>))"

text \<open>
  \<open>readv\<close> is the kernel's: given the total length of the two buffers it returns an error
  number or the bytes read. The first \<open>writable\<close> of them land in the vector, the rest in the
  64 KiB array on the stack, which is appended.
\<close>

definition extrabuf_size :: nat where "extrabuf_size = 65536"

definition iov_total :: "net_buffer \<Rightarrow> nat" where
  "iov_total b =
     (if writableBytes b < extrabuf_size then writableBytes b + extrabuf_size
      else writableBytes b)"

definition readFd ::
  "(nat \<Rightarrow> errno + bytes) \<Rightarrow> net_buffer \<Rightarrow> buf_error + (net_buffer \<times> (errno + nat))" where
  "readFd readv b =
     (let writable = writableBytes b
      in case readv (iov_total b) of
           Inl e \<Rightarrow> Inr (b, Inl e)
         | Inr data \<Rightarrow>
             (let n = length data;
                  b1 = b\<lparr>storage := copy_into (beginWrite b) (take writable data) (storage b)\<rparr>
              in if n \<le> writable
                 then Inr (b1\<lparr>writerIndex := sz_add (writerIndex b1) n\<rparr>, Inr n)
                 else bind_res
                        (buf_append (b1\<lparr>writerIndex := length (storage b1)\<rparr>)
                           (drop writable data))
                        (\<lambda>b2. Inr (b2, Inr n))))"

section \<open>Invariant and abstract content\<close>

definition buf_inv :: "net_buffer \<Rightarrow> bool" where
  "buf_inv b \<longleftrightarrow> kCheapPrepend \<le> readerIndex b \<and> readerIndex b \<le> writerIndex b
     \<and> writerIndex b \<le> length (storage b) \<and> length (storage b) \<le> vec_max"

definition content :: "net_buffer \<Rightarrow> bytes" where
  "content b = take (writerIndex b - readerIndex b) (drop (readerIndex b) (storage b))"

text \<open>The vector may grow by \<open>n\<close> bytes past the writer index without exceeding its maximum.\<close>

definition buf_room :: "net_buffer \<Rightarrow> nat \<Rightarrow> bool" where
  "buf_room b n \<longleftrightarrow> writerIndex b + n \<le> vec_max"

lemma buf_inv_bounds:
  assumes "buf_inv b"
  shows "readerIndex b \<le> writerIndex b" "writerIndex b \<le> length (storage b)"
    "length (storage b) < sz_mod" "writerIndex b < sz_mod" "kCheapPrepend \<le> readerIndex b"
  using assms by (auto simp: buf_inv_def vec_max_def sz_mod_def)

lemma readableBytes_eq [size_arith]: "buf_inv b \<Longrightarrow> readableBytes b = writerIndex b - readerIndex b"
  by (simp add: readableBytes_def size_arith buf_inv_bounds)

lemma writableBytes_eq [size_arith]:
  "buf_inv b \<Longrightarrow> writableBytes b = length (storage b) - writerIndex b"
  by (simp add: writableBytes_def size_arith buf_inv_bounds)

lemma length_content: "buf_inv b \<Longrightarrow> length (content b) = readableBytes b"
  using buf_inv_bounds [of b] by (simp add: content_def readableBytes_eq)

section \<open>Lemmas: every operation keeps the invariant and acts on the content\<close>

lemma content_full_write:
  "r \<le> w \<Longrightarrow> w + length d \<le> length s \<Longrightarrow>
   take (w + length d - r) (drop r (copy_into w d s)) = take (w - r) (drop r s) @ d"
  by (simp add: copy_simps drop_take)

lemma retrieveAll_inv [inv_pres]: "buf_inv b \<Longrightarrow> buf_inv (retrieveAll b)"
  by (simp add: buf_inv_def retrieveAll_def)

lemma retrieveAll_content [simp]: "content (retrieveAll b) = []"
  by (simp add: content_def retrieveAll_def)

lemma retrieve_less: 
  assumes "buf_inv b" "n < length (content b)"
  shows "retrieve n b = b\<lparr>readerIndex := readerIndex b + n\<rparr>"
proof -
  have "n < writerIndex b - readerIndex b"
    using assms by (simp add: length_content readableBytes_eq)
  then show ?thesis
    using buf_inv_bounds [OF assms(1)] by (simp add: retrieve_def size_arith)
qed

lemma retrieve_all: "buf_inv b \<Longrightarrow> length (content b) \<le> n \<Longrightarrow> retrieve n b = retrieveAll b"
  using buf_inv_bounds [of b] by (simp add: retrieve_def size_arith length_content)

lemma retrieve_inv [inv_pres]:
  assumes "buf_inv b" shows "buf_inv (retrieve n b)"
proof (cases "n < length (content b)")
  case True
  then have "n < writerIndex b - readerIndex b"
    using assms by (simp add: length_content readableBytes_eq)
  with True assms show ?thesis by (auto simp: retrieve_less buf_inv_def)
next
  case False
  with assms show ?thesis by (simp add: retrieve_all inv_pres)
qed

lemma retrieve_content: 
  assumes "buf_inv b" shows "content (retrieve n b) = drop n (content b)"
proof (cases "n < length (content b)")
  case True
  then show ?thesis
    using assms by (simp add: retrieve_less content_def drop_take add.commute)
next
  case False
  with assms show ?thesis by (simp add: retrieve_all)
qed

text \<open>\<open>makeSpace\<close> with its \<open>size_t\<close> arithmetic resolved.\<close>

lemma makeSpace_eq:
  assumes inv: "buf_inv b" and room: "buf_room b n"
  shows "makeSpace n b =
    (if readerIndex b + (length (storage b) - writerIndex b) < n + kCheapPrepend
     then Inr (b\<lparr>storage := take (writerIndex b + n) (storage b)
                   @ replicate (writerIndex b + n - length (storage b)) NUL\<rparr>)
     else Inr (b\<lparr>storage := copy_within (readerIndex b) kCheapPrepend
                    (writerIndex b - readerIndex b) (storage b),
                 readerIndex := kCheapPrepend,
                 writerIndex := kCheapPrepend + (writerIndex b - readerIndex b)\<rparr>))"
proof -
  note bd = buf_inv_bounds [OF inv]
  have room': "writerIndex b + n \<le> vec_max" using room by (simp add: buf_room_def)
  have "sz_add (readerIndex b) (length (storage b) - writerIndex b)
      = readerIndex b + (length (storage b) - writerIndex b)"
    using bd by (intro sz_add_small) auto
  moreover have "sz_add n kCheapPrepend = n + kCheapPrepend"
    using room' vec_max_room by (intro sz_add_small) (simp add: kCheapPrepend_def)
  moreover have "sz_add (writerIndex b) n = writerIndex b + n"
    using room' vec_max_room by (intro sz_add_small) simp
  moreover have "sz_add kCheapPrepend (writerIndex b - readerIndex b)
      = kCheapPrepend + (writerIndex b - readerIndex b)"
    using bd by (intro sz_add_small) simp
  ultimately show ?thesis
    using room' inv
    by (simp add: makeSpace_def prependableBytes_def writableBytes_eq readableBytes_eq
        vec_resize_def peek_def Let_def)
qed

lemma makeSpace_ok:
  assumes inv: "buf_inv b" and room: "buf_room b n" and small: "writableBytes b < n"
  obtains b' where "makeSpace n b = Inr b'" "buf_inv b'" "content b' = content b"
    "writerIndex b' + n \<le> length (storage b')" "writerIndex b' \<le> writerIndex b"
proof (cases "readerIndex b + (length (storage b) - writerIndex b) < n + kCheapPrepend")
  note bd = buf_inv_bounds [OF inv]
  case True
  let ?v = "storage b @ replicate (writerIndex b + n - length (storage b)) NUL"
  have "length (storage b) < writerIndex b + n"
    using small bd by (simp add: writableBytes_eq inv)
  then have "makeSpace n b = Inr (b\<lparr>storage := ?v\<rparr>)"
    using True by (simp add: makeSpace_eq [OF inv room])
  moreover have "buf_inv (b\<lparr>storage := ?v\<rparr>)"
    using inv room by (auto simp: buf_inv_def buf_room_def)
  moreover have "content (b\<lparr>storage := ?v\<rparr>) = content b"
    using bd by (simp add: content_def)
  ultimately show thesis by (rule that) auto
next
  note bd = buf_inv_bounds [OF inv]
  case False
  let ?k = "writerIndex b - readerIndex b"
  let ?b = "b\<lparr>storage := copy_within (readerIndex b) kCheapPrepend ?k (storage b),
      readerIndex := kCheapPrepend, writerIndex := kCheapPrepend + ?k\<rparr>"
  have "makeSpace n b = Inr ?b"
    using False by (simp add: makeSpace_eq [OF inv room])
  moreover have "buf_inv ?b"
    using inv by (auto simp: buf_inv_def)
  moreover have "content ?b = content b"
    using bd by (simp add: content_def copy_simps)
  ultimately show thesis by (rule that) (use False bd in auto)
qed

lemma ensureWritableBytes_ok:
  assumes "buf_inv b" "buf_room b n"
  obtains b' where "ensureWritableBytes n b = Inr b'" "buf_inv b'" "content b' = content b"
    "writerIndex b' + n \<le> length (storage b')" "writerIndex b' \<le> writerIndex b"
proof (cases "writableBytes b < n")
  case True
  from makeSpace_ok [OF assms True] obtain b' where b':
    "makeSpace n b = Inr b'" "buf_inv b'" "content b' = content b"
    "writerIndex b' + n \<le> length (storage b')" "writerIndex b' \<le> writerIndex b" .
  with True have "ensureWritableBytes n b = Inr b'"
    by (simp add: ensureWritableBytes_def writableBytes_eq)
  with b' show thesis by (intro that)
next
  case False
  with assms show thesis
    by (intro that [of b]) (auto simp: ensureWritableBytes_def writableBytes_eq buf_inv_def)
qed

text \<open>What an append does once there is space.\<close>

lemma buf_append_finish:
  assumes "ensureWritableBytes (length d) b = Inr b1" "buf_inv b1" "content b1 = content b"
    "writerIndex b1 + length d \<le> length (storage b1)"
  obtains b' where "buf_append b d = Inr b'" "buf_inv b'" "content b' = content b @ d"
    "writerIndex b' = writerIndex b1 + length d" "storage b' = copy_into (writerIndex b1) d (storage b1)"
proof -
  note bd = buf_inv_bounds [OF assms(2)]
  let ?b2 = "b1\<lparr>storage := copy_into (writerIndex b1) d (storage b1)\<rparr>"
  let ?b3 = "?b2\<lparr>writerIndex := writerIndex b1 + length d\<rparr>"
  have inv2: "buf_inv ?b2" and inv3: "buf_inv ?b3"
    using assms(2,4) by (auto simp: buf_inv_def)
  have "sz_add (writerIndex b1) (length d) = writerIndex b1 + length d"
    using assms(4) bd by (intro sz_add_small) auto
  then have "hasWritten (length d) ?b2 = Inr ?b3"
    using assms(4) inv2 by (simp add: hasWritten_def writableBytes_eq)
  then have "buf_append b d = Inr ?b3"
    by (simp add: buf_append_def assms(1) beginWrite_def)
  moreover have "content ?b3 = content b @ d"
    using content_full_write [of "readerIndex b1" "writerIndex b1" d "storage b1"] bd assms(3,4)
    by (simp add: content_def)
  ultimately show thesis using inv3 by (intro that) auto
qed

lemma buf_append_ok:
  assumes "buf_inv b" "buf_room b (length d)"
  obtains b' where "buf_append b d = Inr b'" "buf_inv b'" "content b' = content b @ d"
    "writerIndex b' \<le> writerIndex b + length d"
proof -
  from ensureWritableBytes_ok [OF assms] obtain b1 where b1:
    "ensureWritableBytes (length d) b = Inr b1" "buf_inv b1" "content b1 = content b"
    "writerIndex b1 + length d \<le> length (storage b1)" "writerIndex b1 \<le> writerIndex b" .
  from buf_append_finish [OF b1(1-4)] obtain b' where
    "buf_append b d = Inr b'" "buf_inv b'" "content b' = content b @ d"
    "writerIndex b' = writerIndex b1 + length d" by metis
  with b1(5) show thesis by (intro that) auto
qed

text \<open>
  Without the room for growth an append of a real string throws, or compaction made the space;
  when it returns, it has appended.
\<close>

lemma buf_append_returns:
  assumes "buf_inv b" "length d \<le> vec_max" "buf_append b d = Inr b'"
  shows "buf_inv b'" "content b' = content b @ d"
proof -
  have "buf_inv b' \<and> content b' = content b @ d"
  proof (cases "buf_room b (length d)")
    case True
    from buf_append_ok [OF assms(1) True] assms(3) show ?thesis by auto
  next
    case False
    note bd = buf_inv_bounds [OF assms(1)]
    have big: "vec_max < writerIndex b + length d" "length (storage b) \<le> vec_max"
      using False assms(1) by (auto simp: buf_room_def buf_inv_def)
    then have small: "writableBytes b < length d" using assms(1) bd by (simp add: writableBytes_eq)
    obtain b1 where b1: "ensureWritableBytes (length d) b = Inr b1"
      using assms(3) by (auto simp: buf_append_def bind_res_eq_Inr)
    with small have ms: "makeSpace (length d) b = Inr b1"
      by (auto simp: ensureWritableBytes_def bind_res_eq_Inr split: if_splits)
    have dbl: "vec_max + vec_max < sz_mod" by (simp add: vec_max_def sz_mod_def)
    then have sums: "sz_add (readerIndex b) (length (storage b) - writerIndex b)
          = readerIndex b + (length (storage b) - writerIndex b)"
        "sz_add (writerIndex b) (length d) = writerIndex b + length d"
        "sz_add kCheapPrepend (writerIndex b - readerIndex b) = kCheapPrepend + (writerIndex b - readerIndex b)"
      using bd big(2) assms(2) by (intro sz_add_small; simp)+
    have "sz_add (length d) kCheapPrepend = length d + kCheapPrepend"
      using assms(2) by (intro sz_add_small) (simp add: vec_max_def sz_mod_def kCheapPrepend_def)
    with ms sums big(1) have c: "length d + kCheapPrepend \<le> readerIndex b + (length (storage b) - writerIndex b)"
      "b1 = b\<lparr>storage := copy_within (readerIndex b) kCheapPrepend (writerIndex b - readerIndex b) (storage b),
        readerIndex := kCheapPrepend, writerIndex := kCheapPrepend + (writerIndex b - readerIndex b)\<rparr>"
      using assms(1)
      by (auto simp: makeSpace_def prependableBytes_def peek_def writableBytes_eq readableBytes_eq
          vec_resize_def Let_def split: if_splits)
    have "buf_inv b1" "content b1 = content b" "writerIndex b1 + length d \<le> length (storage b1)"
      using c bd assms(1) by (auto simp: buf_inv_def content_def copy_simps)
    from buf_append_finish [OF b1 this] assms(3) show ?thesis by auto
  qed
  then show "buf_inv b'" "content b' = content b @ d" by auto
qed

lemma buf_append_storage:
  assumes "buf_inv b" and "buf_room b (length d)" and "buf_append b d = Inr b'"
  shows "length (storage b') =
    (if length d \<le> writableBytes b
        \<or> kCheapPrepend + readableBytes b + length d \<le> length (storage b)
     then length (storage b) else writerIndex b + length d)"
proof -
  note bd = buf_inv_bounds [OF assms(1)]
  obtain b1 where b1: "ensureWritableBytes (length d) b = Inr b1"
      "length (storage b') = length (storage b1)"
    using assms(3) by (auto simp: buf_append_def bind_res_eq_Inr hasWritten_def split: if_splits)
  then have "(if writableBytes b < length d then makeSpace (length d) b else Inr b) = Inr b1"
    by (auto simp: ensureWritableBytes_def bind_res_eq_Inr split: if_splits)
  then show ?thesis
    using b1(2) bd
    by (auto simp: makeSpace_eq [OF assms(1,2)] writableBytes_eq readableBytes_eq assms(1)
        split: if_splits)
qed

lemma buf_append_bound:
  assumes "buf_inv b" "writerIndex b + length d \<le> m" "length (storage b) \<le> m" "m \<le> vec_max"
  obtains b' where "buf_append b d = Inr b'" "buf_inv b'" "content b' = content b @ d"
    "writerIndex b' \<le> writerIndex b + length d" "length (storage b') \<le> m"
proof -
  have room: "buf_room b (length d)" using assms(2,4) by (simp add: buf_room_def)
  from buf_append_ok [OF assms(1) room] obtain b' where b':
    "buf_append b d = Inr b'" "buf_inv b'" "content b' = content b @ d"
    "writerIndex b' \<le> writerIndex b + length d" .
  moreover have "length (storage b') \<le> m"
    using buf_append_storage [OF assms(1) room b'(1)] assms(2,3) by (simp split: if_splits)
  ultimately show thesis by (rule that)
qed

section \<open>The interface the clients rely on: a FIFO queue of bytes\<close>

text \<open>
  Clients append bytes, look at the content, and drop a prefix of it. A run of appends and
  takes collects what was taken.
\<close>

datatype queue_op = Put bytes | Take nat

fun queue_run ::
  "('b \<Rightarrow> bytes \<Rightarrow> 'e + 'b) \<Rightarrow> (nat \<Rightarrow> 'b \<Rightarrow> 'b) \<Rightarrow> ('b \<Rightarrow> bytes) \<Rightarrow> 'b \<Rightarrow> queue_op list
     \<Rightarrow> 'e + ('b \<times> bytes)" where
  "queue_run app drp view b [] = Inr (b, [])"
| "queue_run app drp view b (Put d # ops) =
     bind_res (app b d) (\<lambda>b'. queue_run app drp view b' ops)"
| "queue_run app drp view b (Take n # ops) =
     bind_res (queue_run app drp view (drp n b) ops)
       (\<lambda>(b', out). Inr (b', take n (view b) @ out))"

fun puts :: "queue_op list \<Rightarrow> bytes" where
  "puts [] = []"
| "puts (Put d # ops) = d @ puts ops"
| "puts (Take n # ops) = puts ops"

locale byte_queue =
  fixes inv :: "'b \<Rightarrow> bool"
    and room :: "'b \<Rightarrow> nat \<Rightarrow> bool"
    and view :: "'b \<Rightarrow> bytes"
    and app :: "'b \<Rightarrow> bytes \<Rightarrow> 'e + 'b"
    and drp :: "nat \<Rightarrow> 'b \<Rightarrow> 'b"
  assumes app_ok: "inv b \<Longrightarrow> room b (length d) \<Longrightarrow>
      \<exists>b'. app b d = Inr b' \<and> inv b' \<and> view b' = view b @ d"
    and app_room: "inv b \<Longrightarrow> room b (length d + n) \<Longrightarrow> app b d = Inr b' \<Longrightarrow> room b' n"
    and room_mono: "room b n \<Longrightarrow> m \<le> n \<Longrightarrow> room b m"
    and drp_inv: "inv b \<Longrightarrow> inv (drp n b)"
    and drp_view: "inv b \<Longrightarrow> view (drp n b) = drop n (view b)"
    and drp_room: "inv b \<Longrightarrow> room b m \<Longrightarrow> room (drp n b) m"
begin

lemma app_step:
  assumes "inv b" "room b (length d + n)"
  obtains b' where "app b d = Inr b'" "inv b'" "view b' = view b @ d" "room b' n"
proof -
  have "room b (length d)" using assms(2) by (rule room_mono) simp
  with assms(1) obtain b' where "app b d = Inr b'" "inv b'" "view b' = view b @ d"
    using app_ok by blast
  with assms that app_room show thesis by blast
qed

lemma feed_ok:
  "inv b \<Longrightarrow> room b (length (concat ds)) \<Longrightarrow>
   \<exists>b'. feed app b ds = Inr b' \<and> inv b' \<and> view b' = view b @ concat ds"
proof (induction ds arbitrary: b)
  case Nil
  then show ?case by simp
next
  case (Cons d ds)
  from Cons.prems have "room b (length d + length (concat ds))" by simp
  with Cons.prems(1) obtain b1 where "app b d = Inr b1" "inv b1" "view b1 = view b @ d"
    "room b1 (length (concat ds))"
    by (rule app_step)
  with Cons.IH [of b1] show ?case by auto
qed

lemma queue_run_fifo:
  "inv b \<Longrightarrow> room b (length (puts ops)) \<Longrightarrow>
   \<exists>b' out. queue_run app drp view b ops = Inr (b', out) \<and> inv b'
     \<and> out @ view b' = view b @ puts ops"
proof (induction ops arbitrary: b)
  case Nil
  then show ?case by simp
next
  case (Cons op ops)
  show ?case
  proof (cases op)
    case (Put d)
    with Cons.prems have "room b (length d + length (puts ops))" by simp
    with Cons.prems(1) obtain b1 where "app b d = Inr b1" "inv b1" "view b1 = view b @ d"
      "room b1 (length (puts ops))"
      by (rule app_step)
    with Cons.IH [of b1] Put show ?thesis by auto
  next
    case (Take n)
    with Cons have "\<exists>b' out. queue_run app drp view (drp n b) ops = Inr (b', out) \<and> inv b'
        \<and> out @ view b' = view (drp n b) @ puts ops"
      by (simp add: drp_inv drp_room)
    then obtain b' out where b': "queue_run app drp view (drp n b) ops = Inr (b', out)" "inv b'"
      "out @ view b' = drop n (view b) @ puts ops"
      by (auto simp: drp_view Cons.prems(1))
    then have "(take n (view b) @ out) @ view b' = view b @ puts ops"
      by (metis append.assoc append_take_drop_id)
    with b' Take show ?thesis by auto
  qed
qed

end

lemma buf_append_room:
  assumes "buf_inv b" "buf_room b (length d + n)" "buf_append b d = Inr b'"
  shows "buf_room b' n"
proof -
  have "buf_room b (length d)" using assms(2) by (simp add: buf_room_def)
  with assms(1) obtain b1 where "buf_append b d = Inr b1"
      "writerIndex b1 \<le> writerIndex b + length d"
    by (rule buf_append_ok)
  with assms show ?thesis by (simp add: buf_room_def)
qed

lemma retrieve_room:
  assumes "buf_inv b" "buf_room b m" shows "buf_room (retrieve n b) m"
  using assms by (auto simp: retrieve_def buf_room_def buf_inv_def retrieveAll_def)

interpretation nb: byte_queue buf_inv buf_room content buf_append retrieve
proof unfold_locales
  fix b and d :: bytes assume "buf_inv b" "buf_room b (length d)"
  then show "\<exists>b'. buf_append b d = Inr b' \<and> buf_inv b' \<and> content b' = content b @ d"
    by (rule buf_append_ok) blast
next
  fix b :: net_buffer and n m assume "buf_room b n" "m \<le> n"
  then show "buf_room b m" by (simp add: buf_room_def)
qed (auto intro: buf_append_room retrieve_inv retrieve_room simp: retrieve_content)

lemma new_buffer_ok:
  "n \<le> vec_max - kCheapPrepend \<Longrightarrow>
   \<exists>b. new_buffer n = Inr b \<and> buf_inv b \<and> content b = [] \<and> writerIndex b = kCheapPrepend"
  by (auto simp: new_buffer_def vec_new_def buf_inv_def content_def sz_add_def
      kCheapPrepend_def vec_max_def sz_mod_def)

lemma retrieveAllAsString_ok:
  "buf_inv b \<Longrightarrow> retrieveAllAsString b = (content b, retrieveAll b)"
  by (simp add: retrieveAllAsString_def content_def readableBytes_eq peek_def)

lemma content_overwrite_tail:
  "r \<le> w \<Longrightarrow> w + length d \<le> length s \<Longrightarrow> n = length d \<Longrightarrow>
   take (w + n - r) (drop r (copy_into w d s)) = take (w - r) (drop r s) @ d"
  by (simp add: content_full_write)

lemma readFd_data:
  assumes inv: "buf_inv b" and rd: "readv (iov_total b) = Inr d"
    and room: "buf_room b (length d)"
  obtains b' where "readFd readv b = Inr (b', Inr (length d))" "buf_inv b'"
    "content b' = content b @ d" "writerIndex b' \<le> writerIndex b + length d"
proof -
  note bd = buf_inv_bounds [OF inv]
  let ?w = "writableBytes b" and ?s = "storage b"
  have w: "?w = length ?s - writerIndex b" using inv by (rule writableBytes_eq)
  let ?b1 = "b\<lparr>storage := copy_into (writerIndex b) (take ?w d) ?s\<rparr>"
  show thesis
  proof (cases "length d \<le> ?w")
    case True
    let ?b2 = "?b1\<lparr>writerIndex := writerIndex b + length d\<rparr>"
    have "sz_add (writerIndex b) (length d) = writerIndex b + length d"
      using True w bd by (intro sz_add_small) auto
    then have "readFd readv b = Inr (?b2, Inr (length d))"
      using True by (simp add: readFd_def rd Let_def beginWrite_def)
    moreover have "buf_inv ?b2" using inv True w by (auto simp: buf_inv_def)
    moreover have "content ?b2 = content b @ d"
      using True w bd by (simp add: content_def content_full_write)
    ultimately show thesis by (rule that) simp
  next
    case False
    let ?b2 = "?b1\<lparr>writerIndex := length ?s\<rparr>"
    have inv2: "buf_inv ?b2" using inv by (auto simp: buf_inv_def)
    have "content ?b2 = content b @ take ?w d"
      using False w bd content_full_write [of "readerIndex b" "writerIndex b" "take ?w d" ?s]
      by (simp add: content_def)
    moreover have "buf_room ?b2 (length (drop ?w d))"
      using room False w bd by (simp add: buf_room_def)
    then obtain b' where b': "buf_append ?b2 (drop ?w d) = Inr b'" "buf_inv b'"
      "content b' = content ?b2 @ drop ?w d"
      "writerIndex b' \<le> writerIndex ?b2 + length (drop ?w d)"
      using buf_append_ok [OF inv2] by blast
    ultimately have "content b' = content b @ d" by simp
    moreover have "readFd readv b = Inr (b', Inr (length d))"
      using False b'(1) by (simp add: readFd_def rd Let_def beginWrite_def)
    ultimately show thesis using b' False w bd by (intro that) auto
  qed
qed

text \<open>The vector grows no further than the data needs.\<close>

lemma readFd_bound:
  assumes inv: "buf_inv b" and rd: "readv (iov_total b) = Inr d"
    and m: "writerIndex b + length d \<le> m" "length (storage b) \<le> m" "m \<le> vec_max"
  obtains b' where "readFd readv b = Inr (b', Inr (length d))" "buf_inv b'"
    "content b' = content b @ d" "writerIndex b' \<le> writerIndex b + length d" "length (storage b') \<le> m"
proof -
  have room: "buf_room b (length d)" using m by (simp add: buf_room_def)
  obtain b' where b': "readFd readv b = Inr (b', Inr (length d))" "buf_inv b'"
      "content b' = content b @ d" "writerIndex b' \<le> writerIndex b + length d"
    using readFd_data [of b readv d, OF inv rd room] .
  let ?w = "writableBytes b" and ?s = "storage b"
  have w: "?w = length ?s - writerIndex b" using inv by (rule writableBytes_eq)
  let ?b1 = "b\<lparr>storage := copy_into (writerIndex b) (take ?w d) ?s\<rparr>"
  have "length (storage b') \<le> m"
  proof (cases "length d \<le> ?w")
    case True
    then have "storage b' = storage ?b1" using b'(1) rd by (auto simp: readFd_def Let_def beginWrite_def)
    then show ?thesis using m(2) by simp
  next
    case False
    let ?b2 = "?b1\<lparr>writerIndex := length ?s\<rparr>"
    have inv2: "buf_inv ?b2" using inv by (auto simp: buf_inv_def)
    have ap: "buf_append ?b2 (drop ?w d) = Inr b'"
      using b'(1) rd False by (auto simp: readFd_def Let_def beginWrite_def bind_res_eq_Inr)
    have "writerIndex ?b2 + length (drop ?w d) \<le> m" "length (storage ?b2) \<le> m"
      using m False w buf_inv_bounds [OF inv] by auto
    from buf_append_bound [OF inv2 this m(3)] ap show ?thesis by auto
  qed
  with b' show thesis by (intro that)
qed

lemma readFd_returns:
  assumes inv: "buf_inv b" and bound: "\<And>m d. readv m = Inr d \<Longrightarrow> length d \<le> m"
    and ret: "readFd readv b = Inr (b', r)"
  shows "buf_inv b' \<and> (case readv (iov_total b) of
      Inl e \<Rightarrow> r = Inl e \<and> b' = b
    | Inr d \<Rightarrow> r = Inr (length d) \<and> content b' = content b @ d)"
proof (cases "readv (iov_total b)")
  case (Inl e)
  with ret inv show ?thesis by (simp add: readFd_def Let_def)
next
  case (Inr d)
  note bd = buf_inv_bounds [OF inv]
  let ?w = "writableBytes b" and ?s = "storage b"
  have w: "?w = length ?s - writerIndex b" using inv by (rule writableBytes_eq)
  let ?b1 = "b\<lparr>storage := copy_into (writerIndex b) (take ?w d) ?s\<rparr>"
  show ?thesis
  proof (cases "length d \<le> ?w")
    case True
    have "sz_add (writerIndex b) (length d) = writerIndex b + length d"
      using True w bd by (intro sz_add_small) auto
    then have "b' = ?b1\<lparr>writerIndex := writerIndex b + length d\<rparr>" "r = Inr (length d)"
      using ret True by (simp_all add: readFd_def Inr Let_def beginWrite_def)
    then show ?thesis using inv True w bd Inr
      by (auto simp: buf_inv_def content_def content_full_write)
  next
    case False
    let ?b2 = "?b1\<lparr>writerIndex := length ?s\<rparr>"
    have inv2: "buf_inv ?b2" using inv by (auto simp: buf_inv_def)
    have c2: "content ?b2 = content b @ take ?w d"
      using False w bd content_full_write [of "readerIndex b" "writerIndex b" "take ?w d" ?s]
      by (simp add: content_def)
    have "length d \<le> iov_total b" using bound Inr by blast
    then have len: "length (drop ?w d) \<le> vec_max"
      by (auto simp: iov_total_def extrabuf_size_def vec_max_def split: if_splits)
    have ap: "buf_append ?b2 (drop ?w d) = Inr b'" "r = Inr (length d)"
      using ret False by (auto simp: readFd_def Inr Let_def beginWrite_def bind_res_eq_Inr)
    from buf_append_returns [OF inv2 len ap(1)] c2 ap(2) Inr show ?thesis by simp
  qed
qed

section \<open>Properties\<close>

text \<open>
  Property (C16). A buffer is a FIFO stream: whatever sequence of appends and retrieves runs on
  a fresh buffer, no operation fails as long as the appended bytes fit a vector, and the bytes
  taken out followed by the bytes still readable are exactly the bytes appended, in order;
  compaction and growth lose, duplicate and reorder nothing.
\<close>

theorem buffer_fifo:
  assumes "n \<le> vec_max - kCheapPrepend" and "length (puts ops) \<le> vec_max - kCheapPrepend"
  shows "\<exists>b0 b out. new_buffer n = Inr b0 \<and>
    queue_run buf_append retrieve content b0 ops = Inr (b, out) \<and>
    buf_inv b \<and> out @ content b = puts ops"
proof -
  obtain b0 where b0: "new_buffer n = Inr b0" "buf_inv b0" "content b0 = []"
      "writerIndex b0 = kCheapPrepend"
    using new_buffer_ok [OF assms(1)] by blast
  then have "buf_room b0 (length (puts ops))"
    using assms(2) by (simp add: buf_room_def kCheapPrepend_def vec_max_def)
  from nb.queue_run_fifo [OF b0(2) this] b0 show ?thesis by auto
qed

lemma buffer_fifo_witness:
  "\<exists>b0 b out. new_buffer 1024 = Inr b0 \<and>
    queue_run buf_append retrieve content b0 [Put ''abc'', Take 2, Put ''d''] = Inr (b, out) \<and>
    buf_inv b \<and> out @ content b = ''abcd''"
  using buffer_fifo [of 1024 "[Put ''abc'', Take 2, Put ''d'']"]
  by (simp add: vec_max_def kCheapPrepend_def)

text \<open>
  Reading from a descriptor: if the kernel returns at most the bytes it was
  asked for, the bytes are appended to the readable content whole and in order, however they
  split over the vector and the stack array, and their number is returned; an error of the
  kernel is returned with the buffer untouched.
\<close>

theorem readFd_appends:
  assumes "buf_inv b"
    and "\<And>m d. readv m = Inr d \<Longrightarrow> length d \<le> m"
    and "buf_room b (iov_total b)"
  shows "\<exists>b' r. readFd readv b = Inr (b', r) \<and> buf_inv b' \<and>
    (case readv (iov_total b) of
       Inl e \<Rightarrow> r = Inl e \<and> b' = b
     | Inr d \<Rightarrow> r = Inr (length d) \<and> content b' = content b @ d)"
proof (cases "readv (iov_total b)")
  case (Inl e)
  then show ?thesis using assms(1) by (simp add: readFd_def Let_def)
next
  case (Inr d)
  then have "buf_room b (length d)" using assms(2,3) by (rule_tac nb.room_mono) auto
  then obtain b' where "readFd readv b = Inr (b', Inr (length d))" "buf_inv b'"
      "content b' = content b @ d"
    using readFd_data [where readv = readv, OF assms(1) Inr] by blast
  with Inr show ?thesis by simp
qed

lemma readFd_appends_witness:
  "let b = \<lparr>storage = replicate 10 NUL, readerIndex = 8, writerIndex = 8\<rparr>
   in \<exists>b'. readFd (\<lambda>m. Inr (take m ''hello'')) b = Inr (b', Inr (length ''hello''))
     \<and> content b' = ''hello''"
proof -
  let ?b = "\<lparr>storage = replicate 10 NUL, readerIndex = 8, writerIndex = 8\<rparr>"
  have "buf_inv ?b" "buf_room ?b (iov_total ?b)" "iov_total ?b = 65538" "content ?b = []"
    using vec_max_room
    by (simp_all add: buf_inv_def buf_room_def kCheapPrepend_def iov_total_def
        writableBytes_def sz_sub_small extrabuf_size_def content_def)
  with readFd_appends [of ?b "\<lambda>m. Inr (take m ''hello'')"] show ?thesis by auto
qed

text \<open>
  Growth: an append enlarges the vector only when the free space before the
  readable bytes and after them, less the 8 reserved bytes, cannot hold the data; then it
  grows to exactly the old write position plus the data. Otherwise the readable bytes are at
  most moved to the front and the vector keeps its size.
\<close>

theorem buf_append_growth:
  assumes "buf_inv b" and "buf_room b (length d)" and "buf_append b d = Inr b'"
  shows "length (storage b') =
    (if length d \<le> writableBytes b
        \<or> kCheapPrepend + readableBytes b + length d \<le> length (storage b)
     then length (storage b) else writerIndex b + length d)"
  using buf_append_storage [OF assms] .

lemma buf_append_growth_witness:
  "\<exists>b'. buf_append \<lparr>storage = replicate 12 CHR ''x'', readerIndex = 10, writerIndex = 11\<rparr> ''abc''
      = Inr b' \<and> length (storage b') = 12"
proof -
  let ?b = "\<lparr>storage = replicate 12 CHR ''x'', readerIndex = 10, writerIndex = 11\<rparr>"
  have inv: "buf_inv ?b" and room: "buf_room ?b (length ''abc'')"
    by (simp_all add: buf_inv_def buf_room_def kCheapPrepend_def vec_max_def)
  from buf_append_ok [OF this] obtain b' where b': "buf_append ?b ''abc'' = Inr b'" .
  from buf_append_growth [OF inv room b'] b' show ?thesis
    by (simp add: writableBytes_def readableBytes_def size_arith sz_mod_def kCheapPrepend_def)
qed

end
