(* ===== verification/EventPoll.thy ===== *)
theory EventPoll
  imports Prelude
begin

text \<open>
  Channels and the epoll poller of the network library: \<^verbatim>\<open>Channel.h\<close>, \<^verbatim>\<open>Channel.cpp\<close>,
  \<^verbatim>\<open>Poller.cpp\<close>, \<^verbatim>\<open>EPollPoller.cpp\<close>. A channel is an object at an address, so the poller's
  world has a store of channels; the kernel's epoll instance is a parameter with the documented
  behaviour of \<^verbatim>\<open>epoll_ctl\<close>.
\<close>

unbundle bit_operations_syntax

section \<open>Channels\<close>

definition EPOLLIN :: u32 where "EPOLLIN = 0x001"
definition EPOLLPRI :: u32 where "EPOLLPRI = 0x002"
definition EPOLLOUT :: u32 where "EPOLLOUT = 0x004"
definition EPOLLERR :: u32 where "EPOLLERR = 0x008"
definition EPOLLHUP :: u32 where "EPOLLHUP = 0x010"
definition EPOLLRDHUP :: u32 where "EPOLLRDHUP = 0x2000"

lemmas epoll_flags = EPOLLIN_def EPOLLPRI_def EPOLLOUT_def EPOLLERR_def EPOLLHUP_def EPOLLRDHUP_def

definition knoEvent :: u32 where "knoEvent = 0"
definition kreadEvent :: u32 where "kreadEvent = EPOLLIN OR EPOLLPRI"
definition kwriteEvent :: u32 where "kwriteEvent = EPOLLOUT"

definition kNew :: int where "kNew = -1"
definition kAdded :: int where "kAdded = 1"
definition kDeleted :: int where "kDeleted = 2"

lemmas index_defs = kNew_def kAdded_def kDeleted_def

record channel =
  ch_fd :: fd
  ch_events :: u32
  ch_revents :: u32
  ch_index :: int
  ch_tied :: bool

definition new_channel :: "fd \<Rightarrow> channel" where
  "new_channel f = \<lparr>ch_fd = f, ch_events = 0, ch_revents = 0, ch_index = -1, ch_tied = False\<rparr>"

definition Setindex :: "int \<Rightarrow> channel \<Rightarrow> channel" where "Setindex i c = c\<lparr>ch_index := i\<rparr>"
definition Setrevents :: "u32 \<Rightarrow> channel \<Rightarrow> channel" where "Setrevents r c = c\<lparr>ch_revents := r\<rparr>"
definition tie :: "channel \<Rightarrow> channel" where "tie c = c\<lparr>ch_tied := True\<rparr>"

definition iswrite :: "channel \<Rightarrow> bool" where "iswrite c \<longleftrightarrow> kwriteEvent AND ch_events c \<noteq> 0"
definition isread :: "channel \<Rightarrow> bool" where "isread c \<longleftrightarrow> kreadEvent AND ch_events c \<noteq> 0"
definition isnoall :: "channel \<Rightarrow> bool" where "isnoall c \<longleftrightarrow> knoEvent = ch_events c"

text \<open>The change of \<open>events_\<close> each of the five requests makes before it calls \<open>update\<close>.\<close>

datatype interest = Able_read | Disable_read | Able_write | Disable_write | Disable_all

definition set_interest :: "interest \<Rightarrow> channel \<Rightarrow> channel" where
  "set_interest i c = c\<lparr>ch_events := (case i of
      Able_read \<Rightarrow> ch_events c OR kreadEvent
    | Disable_read \<Rightarrow> ch_events c AND NOT kreadEvent
    | Able_write \<Rightarrow> ch_events c OR kwriteEvent
    | Disable_write \<Rightarrow> ch_events c AND NOT kwriteEvent
    | Disable_all \<Rightarrow> knoEvent)\<rparr>"

text \<open>
  Which callbacks \<open>handleEventGuard\<close> runs, in order; \<open>handleEvent\<close> runs none when the channel
  is tied to an object that is gone.
\<close>

datatype chan_callback = Cb_close | Cb_error | Cb_read | Cb_write

definition handleEventGuard :: "(chan_callback \<Rightarrow> bool) \<Rightarrow> channel \<Rightarrow> chan_callback list" where
  "handleEventGuard has c =
     (let r = ch_revents c in
      (if r AND EPOLLHUP \<noteq> 0 \<and> \<not> (r AND EPOLLIN \<noteq> 0) then (if has Cb_close then [Cb_close] else []) else []) @
      (if r AND EPOLLERR \<noteq> 0 then (if has Cb_error then [Cb_error] else []) else []) @
      (if r AND (EPOLLIN OR EPOLLPRI OR EPOLLRDHUP) \<noteq> 0
       then (if has Cb_read then [Cb_read] else []) else []) @
      (if r AND EPOLLOUT \<noteq> 0 then (if has Cb_write then [Cb_write] else []) else []))"

definition handleEvent :: "(chan_callback \<Rightarrow> bool) \<Rightarrow> bool \<Rightarrow> channel \<Rightarrow> chan_callback list" where
  "handleEvent has owner_alive c =
     (if ch_tied c then (if owner_alive then handleEventGuard has c else [])
      else handleEventGuard has c)"

section \<open>The poller\<close>

type_synonym chan_ptr = nat

datatype ctl_op = CTL_ADD | CTL_MOD | CTL_DEL

record epoll_ctl =
  ctl_op :: ctl_op
  ctl_fd :: fd
  ctl_events :: u32
  ctl_ptr :: chan_ptr

text \<open>The kernel: \<open>ctl\<close> is \<^verbatim>\<open>epoll_ctl\<close>, whether it succeeded and the state after it.\<close>

record 'k poll_world =
  pw_heap :: "chan_ptr \<Rightarrow> channel"
  pw_channels :: "fd \<rightharpoonup> chan_ptr"
  pw_nevents :: nat
  pw_kernel :: 'k
  pw_errors :: "epoll_ctl list"

definition KInitEventListSize :: nat where "KInitEventListSize = 16"

definition new_poller :: "(chan_ptr \<Rightarrow> channel) \<Rightarrow> 'k \<Rightarrow> 'k poll_world" where
  "new_poller heap k = \<lparr>pw_heap = heap, pw_channels = (\<lambda>_. None), pw_nevents = KInitEventListSize,
     pw_kernel = k, pw_errors = []\<rparr>"

definition modify_channel :: "chan_ptr \<Rightarrow> (channel \<Rightarrow> channel) \<Rightarrow> 'k poll_world \<Rightarrow> 'k poll_world" where
  "modify_channel p f w = w\<lparr>pw_heap := (pw_heap w)(p := f (pw_heap w p))\<rparr>"

text \<open>A failed call is logged (neither log macro ends the process) and otherwise ignored.\<close>

definition poller_update ::
  "('k \<Rightarrow> epoll_ctl \<Rightarrow> bool \<times> 'k) \<Rightarrow> ctl_op \<Rightarrow> chan_ptr \<Rightarrow> 'k poll_world \<Rightarrow> 'k poll_world" where
  "poller_update ctl operation p w =
     (let c = pw_heap w p;
          call = \<lparr>ctl_op = operation, ctl_fd = ch_fd c, ctl_events = ch_events c, ctl_ptr = p\<rparr>
      in case ctl (pw_kernel w) call of
           (ok, k') \<Rightarrow> w\<lparr>pw_kernel := k', pw_errors := pw_errors w @ (if ok then [] else [call])\<rparr>)"

definition updateChannel ::
  "('k \<Rightarrow> epoll_ctl \<Rightarrow> bool \<times> 'k) \<Rightarrow> chan_ptr \<Rightarrow> 'k poll_world \<Rightarrow> 'k poll_world" where
  "updateChannel ctl p w =
     (let index = ch_index (pw_heap w p) in
      if index = kNew \<or> index = kDeleted then
        (let w1 = (if index = kNew
                   then w\<lparr>pw_channels := (pw_channels w)(ch_fd (pw_heap w p) \<mapsto> p)\<rparr> else w)
         in poller_update ctl CTL_ADD p (modify_channel p (Setindex kAdded) w1))
      else if isnoall (pw_heap w p)
      then modify_channel p (Setindex kDeleted) (poller_update ctl CTL_DEL p w)
      else poller_update ctl CTL_MOD p w)"

definition removeChannel ::
  "('k \<Rightarrow> epoll_ctl \<Rightarrow> bool \<times> 'k) \<Rightarrow> chan_ptr \<Rightarrow> 'k poll_world \<Rightarrow> 'k poll_world" where
  "removeChannel ctl p w =
     (let fd = ch_fd (pw_heap w p);
          w1 = w\<lparr>pw_channels := map_erase fd (pw_channels w)\<rparr>;
          index = ch_index (pw_heap w p);
          w2 = (if index = kAdded then poller_update ctl CTL_DEL p w1 else w1)
      in modify_channel p (Setindex kNew) w2)"

definition hasChannel :: "chan_ptr \<Rightarrow> 'k poll_world \<Rightarrow> bool" where
  "hasChannel p w \<longleftrightarrow> pw_channels w (ch_fd (pw_heap w p)) = Some p"

definition channel_request ::
  "('k \<Rightarrow> epoll_ctl \<Rightarrow> bool \<times> 'k) \<Rightarrow> interest \<Rightarrow> chan_ptr \<Rightarrow> 'k poll_world \<Rightarrow> 'k poll_world" where
  "channel_request ctl i p w = updateChannel ctl p (modify_channel p (set_interest i) w)"

text \<open>The events the kernel reported: the channel's address and the ready flags.\<close>

fun fillActiveChannels ::
  "(chan_ptr \<times> u32) list \<Rightarrow> 'k poll_world \<Rightarrow> 'k poll_world \<times> chan_ptr list" where
  "fillActiveChannels [] w = (w, [])"
| "fillActiveChannels ((p, r) # evs) w =
     (case fillActiveChannels evs (modify_channel p (Setrevents r) w) of (w', ps) \<Rightarrow> (w', p # ps))"

text \<open>
  \<open>wait\<close> is \<^verbatim>\<open>epoll_wait\<close>: given the size of the event array it returns an error or the
  ready events.
\<close>

definition poller_poll ::
  "('k \<Rightarrow> nat \<Rightarrow> errno + (chan_ptr \<times> u32) list) \<Rightarrow> 'k poll_world \<Rightarrow> 'k poll_world \<times> chan_ptr list" where
  "poller_poll wait w =
     (case wait (pw_kernel w) (pw_nevents w) of
        Inl e \<Rightarrow> (w, [])
      | Inr evs \<Rightarrow>
          if length evs > 0 then
            (let (w', ps) = fillActiveChannels evs w
             in (if length evs = pw_nevents w then w'\<lparr>pw_nevents := pw_nevents w * 2\<rparr> else w', ps))
          else (w, []))"

section \<open>Documented behaviour of the kernel\<close>

text \<open>
  The interest list of an epoll instance: adding a descriptor fails exactly when it is there,
  changing or deleting one fails exactly when it is not.
\<close>

definition ctl_allowed :: "(fd \<rightharpoonup> u32 \<times> chan_ptr) \<Rightarrow> epoll_ctl \<Rightarrow> bool" where
  "ctl_allowed m c \<longleftrightarrow> (case ctl_op c of CTL_ADD \<Rightarrow> m (ctl_fd c) = None | _ \<Rightarrow> m (ctl_fd c) \<noteq> None)"

definition ctl_apply :: "(fd \<rightharpoonup> u32 \<times> chan_ptr) \<Rightarrow> epoll_ctl \<Rightarrow> (fd \<rightharpoonup> u32 \<times> chan_ptr)" where
  "ctl_apply m c = (case ctl_op c of
      CTL_DEL \<Rightarrow> map_erase (ctl_fd c) m
    | _ \<Rightarrow> m(ctl_fd c \<mapsto> (ctl_events c, ctl_ptr c)))"

definition epoll_ok ::
  "('k \<Rightarrow> epoll_ctl \<Rightarrow> bool \<times> 'k) \<Rightarrow> ('k \<Rightarrow> (fd \<rightharpoonup> u32 \<times> chan_ptr)) \<Rightarrow> bool" where
  "epoll_ok ctl interest \<longleftrightarrow>
     (\<forall>k c. fst (ctl k c) = ctl_allowed (interest k) c \<and>
        interest (snd (ctl k c)) = (if ctl_allowed (interest k) c then ctl_apply (interest k) c else interest k))"

section \<open>The invariant\<close>

text \<open>
  \<open>P\<close> are the channels in use. The kernel's interest list has exactly the channels whose
  index is \<open>kAdded\<close>, with the events they ask for; the poller's map has those that are not new.
\<close>

definition poll_inv ::
  "('k \<Rightarrow> (fd \<rightharpoonup> u32 \<times> chan_ptr)) \<Rightarrow> chan_ptr set \<Rightarrow> 'k poll_world \<Rightarrow> bool" where
  "poll_inv interest P w \<longleftrightarrow>
     inj_on (\<lambda>p. ch_fd (pw_heap w p)) P \<and>
     (\<forall>p\<in>P. ch_index (pw_heap w p) \<in> {kNew, kAdded, kDeleted}) \<and>
     (\<forall>f p. pw_channels w f = Some p \<longleftrightarrow>
        p \<in> P \<and> ch_fd (pw_heap w p) = f \<and> ch_index (pw_heap w p) \<noteq> kNew) \<and>
     (\<forall>f e p. interest (pw_kernel w) f = Some (e, p) \<longleftrightarrow>
        p \<in> P \<and> ch_fd (pw_heap w p) = f \<and> ch_index (pw_heap w p) = kAdded \<and> e = ch_events (pw_heap w p))"

lemma heap_modify [simp]:
  "pw_heap (modify_channel p f w) q = (if q = p then f (pw_heap w p) else pw_heap w q)"
  "pw_channels (modify_channel p f w) = pw_channels w"
  "pw_kernel (modify_channel p f w) = pw_kernel w"
  "pw_errors (modify_channel p f w) = pw_errors w"
  "pw_nevents (modify_channel p f w) = pw_nevents w"
  by (simp_all add: modify_channel_def)

lemma chan_simps [simp]:
  "ch_fd (set_interest i c) = ch_fd c" "ch_index (set_interest i c) = ch_index c"
  "ch_fd (Setindex j c) = ch_fd c" "ch_index (Setindex j c) = j"
  "ch_events (Setindex j c) = ch_events c"
  "ch_fd (Setrevents r c) = ch_fd c" "ch_index (Setrevents r c) = ch_index c"
  "ch_events (Setrevents r c) = ch_events c"
  by (simp_all add: set_interest_def Setindex_def Setrevents_def split: interest.splits)

text \<open>The request bits: what is enabled is enabled, and the other direction is left alone.\<close>

lemma kwrite_exp: "kwriteEvent = 2 ^ 2"
  by (simp add: kwriteEvent_def epoll_flags)

lemma iswrite_bit: "iswrite c \<longleftrightarrow> bit (ch_events c) 2"
  by (simp only: iswrite_def kwrite_exp and.commute [of "2 ^ 2"] and_exp_eq_0_iff_not_bit not_not)

lemma kread_bit [simp]: "\<not> bit kreadEvent 2"
  by (simp add: kreadEvent_def epoll_flags)

lemma iswrite_simps [simp]:
  "iswrite (set_interest Able_write c)" "\<not> iswrite (set_interest Disable_write c)"
  "\<not> iswrite (set_interest Disable_all c)"
  "iswrite (set_interest Able_read c) = iswrite c"
  "iswrite (set_interest Disable_read c) = iswrite c"
  "\<not> iswrite (new_channel f)"
  by (simp_all add: iswrite_bit set_interest_def new_channel_def kwrite_exp bit_or_iff bit_and_iff
      bit_not_iff bit_exp_iff knoEvent_def)

lemma poller_update_ok:
  assumes "epoll_ok ctl interest"
    and "ctl_allowed (interest (pw_kernel w)) \<lparr>ctl_op = op, ctl_fd = ch_fd (pw_heap w p),
      ctl_events = ch_events (pw_heap w p), ctl_ptr = p\<rparr>"
  shows "interest (pw_kernel (poller_update ctl op p w)) = ctl_apply (interest (pw_kernel w))
      \<lparr>ctl_op = op, ctl_fd = ch_fd (pw_heap w p), ctl_events = ch_events (pw_heap w p), ctl_ptr = p\<rparr>"
    and "pw_errors (poller_update ctl op p w) = pw_errors w"
    and "pw_heap (poller_update ctl op p w) = pw_heap w"
    and "pw_channels (poller_update ctl op p w) = pw_channels w"
  using assms
  by (auto simp: poller_update_def epoll_ok_def Let_def split: prod.splits)
     (metis fst_conv snd_conv)+

lemma poll_invD:
  assumes "poll_inv interest P w"
  shows "p \<in> P \<Longrightarrow> q \<in> P \<Longrightarrow> ch_fd (pw_heap w p) = ch_fd (pw_heap w q) \<Longrightarrow> p = q"
    and "p \<in> P \<Longrightarrow> ch_index (pw_heap w p) = kNew \<or> ch_index (pw_heap w p) = kAdded
      \<or> ch_index (pw_heap w p) = kDeleted"
    and "pw_channels w f = Some p \<longleftrightarrow>
      p \<in> P \<and> ch_fd (pw_heap w p) = f \<and> ch_index (pw_heap w p) \<noteq> kNew"
    and "interest (pw_kernel w) f = Some (e, p) \<longleftrightarrow>
      p \<in> P \<and> ch_fd (pw_heap w p) = f \<and> ch_index (pw_heap w p) = kAdded \<and> e = ch_events (pw_heap w p)"
  using assms unfolding poll_inv_def inj_on_def by auto

lemma interest_None:
  assumes "poll_inv interest P w" "p \<in> P" "ch_index (pw_heap w p) \<noteq> kAdded"
  shows "interest (pw_kernel w) (ch_fd (pw_heap w p)) = None"
proof (rule ccontr)
  assume "\<not> ?thesis"
  then obtain e q where "interest (pw_kernel w) (ch_fd (pw_heap w p)) = Some (e, q)" by auto
  then have "q \<in> P" "ch_fd (pw_heap w q) = ch_fd (pw_heap w p)" "ch_index (pw_heap w q) = kAdded"
    using poll_invD(4) [OF assms(1)] by blast+
  with assms(2,3) poll_invD(1) [OF assms(1)] show False by metis
qed

lemma interest_Some:
  assumes "poll_inv interest P w" "p \<in> P" "ch_index (pw_heap w p) = kAdded"
  shows "interest (pw_kernel w) (ch_fd (pw_heap w p)) = Some (ch_events (pw_heap w p), p)"
  using assms poll_invD(4) by blast

lemma channels_eq:
  assumes "poll_inv interest P w" "p \<in> P"
  shows "pw_channels w (ch_fd (pw_heap w p)) =
    (if ch_index (pw_heap w p) = kNew then None else Some p)"
proof (cases "pw_channels w (ch_fd (pw_heap w p))")
  case None
  then show ?thesis using assms poll_invD(3) [OF assms(1)] by (metis option.distinct(1))
next
  case (Some q)
  then have "q \<in> P" "ch_fd (pw_heap w q) = ch_fd (pw_heap w p)" "ch_index (pw_heap w q) \<noteq> kNew"
    using poll_invD(3) [OF assms(1)] by blast+
  with assms poll_invD(1) [OF assms(1)] have "q = p" by metis
  with Some \<open>ch_index (pw_heap w q) \<noteq> kNew\<close> show ?thesis by simp
qed

text \<open>
  How an operation on one channel keeps the invariant: the channel's own entries are right and
  everybody else's are untouched.
\<close>

lemma poll_inv_step:
  assumes inv: "poll_inv interest P w" and p: "p \<in> P"
    and other: "\<And>q. q \<noteq> p \<Longrightarrow> pw_heap w' q = pw_heap w q"
    and fd: "ch_fd (pw_heap w' p) = ch_fd (pw_heap w p)"
    and idx: "ch_index (pw_heap w' p) \<in> {kNew, kAdded, kDeleted}"
    and chans: "pw_channels w' = (pw_channels w)(ch_fd (pw_heap w p) :=
      (if ch_index (pw_heap w' p) = kNew then None else Some p))"
    and kern: "interest (pw_kernel w') = (interest (pw_kernel w))(ch_fd (pw_heap w p) :=
      (if ch_index (pw_heap w' p) = kAdded then Some (ch_events (pw_heap w' p), p) else None))"
  shows "poll_inv interest P w'"
proof -
  have fds: "ch_fd (pw_heap w' q) = ch_fd (pw_heap w q)" for q using other fd by (cases "q = p") auto
  have inj: "q = p" if "q \<in> P" "ch_fd (pw_heap w q) = ch_fd (pw_heap w p)" for q
    using poll_invD(1) [OF inv that(1) p that(2)] .
  show ?thesis
    unfolding poll_inv_def
  proof (intro conjI allI ballI)
    show "inj_on (\<lambda>p. ch_fd (pw_heap w' p)) P" using inv by (simp add: poll_inv_def fds)
    show "ch_index (pw_heap w' q) \<in> {kNew, kAdded, kDeleted}" if "q \<in> P" for q
      using poll_invD(2) [OF inv that] idx other by (cases "q = p") auto
    show "pw_channels w' f = Some q \<longleftrightarrow>
        q \<in> P \<and> ch_fd (pw_heap w' q) = f \<and> ch_index (pw_heap w' q) \<noteq> kNew" for f q
    proof (cases "f = ch_fd (pw_heap w p)")
      case True
      then show ?thesis using p inj fds by (auto simp: chans split: if_splits)
    next
      case False
      then have "q \<noteq> p" if "ch_fd (pw_heap w q) = f" using that by auto
      then show ?thesis using False poll_invD(3) [OF inv, of f q] other fds
        by (auto simp: chans)
    qed
    show "interest (pw_kernel w') f = Some (e, q) \<longleftrightarrow> q \<in> P \<and> ch_fd (pw_heap w' q) = f \<and>
        ch_index (pw_heap w' q) = kAdded \<and> e = ch_events (pw_heap w' q)" for f e q
    proof (cases "f = ch_fd (pw_heap w p)")
      case True
      then show ?thesis using p inj fds by (auto simp: kern split: if_splits)
    next
      case False
      then have "q \<noteq> p" if "ch_fd (pw_heap w q) = f" using that by auto
      then show ?thesis using False poll_invD(4) [OF inv, of f e q] other fds
        by (auto simp: kern)
    qed
  qed
qed

lemma channel_request_inv:
  assumes ok: "epoll_ok ctl interest" and inv: "poll_inv interest P w" and p: "p \<in> P"
  shows "poll_inv interest P (channel_request ctl i p w)"
    and "pw_errors (channel_request ctl i p w) = pw_errors w"
proof -
  let ?w = "modify_channel p (set_interest i) w"
  let ?c = "pw_heap w p"
  have int: "interest (pw_kernel w) (ch_fd ?c) =
      (if ch_index ?c = kAdded then Some (ch_events ?c, p) else None)"
    using interest_None [OF inv p] interest_Some [OF inv p] by simp
  note ch = channels_eq [OF inv p]
  consider (Fresh) "ch_index ?c = kNew \<or> ch_index ?c = kDeleted"
    | (Del) "ch_index ?c = kAdded" "isnoall (set_interest i ?c)"
    | (Mod) "ch_index ?c = kAdded" "\<not> isnoall (set_interest i ?c)"
    using poll_invD(2) [OF inv p] by blast
  then have "poll_inv interest P (channel_request ctl i p w) \<and>
      pw_errors (channel_request ctl i p w) = pw_errors w"
  proof cases
    case Fresh
    define w1 where "w1 = (if ch_index ?c = kNew
      then ?w\<lparr>pw_channels := (pw_channels ?w)(ch_fd ?c \<mapsto> p)\<rparr> else ?w)"
    define w2 where "w2 = modify_channel p (Setindex kAdded) w1"
    have w2: "pw_heap w2 p = Setindex kAdded (set_interest i ?c)"
        "\<And>q. q \<noteq> p \<Longrightarrow> pw_heap w2 q = pw_heap w q" "pw_kernel w2 = pw_kernel w"
        "pw_channels w2 = (pw_channels w)(ch_fd ?c \<mapsto> p)" "pw_errors w2 = pw_errors w"
      using Fresh ch by (auto simp: w2_def w1_def index_defs fun_eq_iff)
    have r: "channel_request ctl i p w = poller_update ctl CTL_ADD p w2"
      using Fresh by (simp add: channel_request_def updateChannel_def w1_def w2_def Let_def)
    have al: "ctl_allowed (interest (pw_kernel w2)) \<lparr>ctl_op = CTL_ADD, ctl_fd = ch_fd (pw_heap w2 p),
        ctl_events = ch_events (pw_heap w2 p), ctl_ptr = p\<rparr>"
      using int Fresh by (auto simp: w2 ctl_allowed_def index_defs)
    note u = poller_update_ok [OF ok al]
    show ?thesis unfolding r
      by (intro conjI poll_inv_step [OF inv p]) (auto simp: u w2 index_defs ctl_apply_def)
  next
    case Del
    have r: "channel_request ctl i p w =
        modify_channel p (Setindex kDeleted) (poller_update ctl CTL_DEL p ?w)"
      using Del by (simp add: channel_request_def updateChannel_def index_defs)
    have al: "ctl_allowed (interest (pw_kernel ?w)) \<lparr>ctl_op = CTL_DEL, ctl_fd = ch_fd (pw_heap ?w p),
        ctl_events = ch_events (pw_heap ?w p), ctl_ptr = p\<rparr>"
      using int Del by (simp add: ctl_allowed_def)
    note u = poller_update_ok [OF ok al]
    show ?thesis unfolding r
      by (intro conjI poll_inv_step [OF inv p])
         (use ch Del in \<open>auto simp: u index_defs ctl_apply_def map_erase_def\<close>)
  next
    case Mod
    have r: "channel_request ctl i p w = poller_update ctl CTL_MOD p ?w"
      using Mod by (simp add: channel_request_def updateChannel_def index_defs)
    have al: "ctl_allowed (interest (pw_kernel ?w)) \<lparr>ctl_op = CTL_MOD, ctl_fd = ch_fd (pw_heap ?w p),
        ctl_events = ch_events (pw_heap ?w p), ctl_ptr = p\<rparr>"
      using int Mod by (simp add: ctl_allowed_def)
    note u = poller_update_ok [OF ok al]
    show ?thesis unfolding r
      by (intro conjI poll_inv_step [OF inv p])
         (use ch Mod in \<open>auto simp: u index_defs ctl_apply_def\<close>)
  qed
  then show "poll_inv interest P (channel_request ctl i p w)"
    "pw_errors (channel_request ctl i p w) = pw_errors w" by auto
qed

lemma removeChannel_inv:
  assumes ok: "epoll_ok ctl interest" and inv: "poll_inv interest P w" and p: "p \<in> P"
  shows "poll_inv interest P (removeChannel ctl p w)"
    and "pw_errors (removeChannel ctl p w) = pw_errors w"
    and "ch_index (pw_heap (removeChannel ctl p w) p) = kNew"
proof -
  let ?c = "pw_heap w p"
  let ?w = "w\<lparr>pw_channels := map_erase (ch_fd ?c) (pw_channels w)\<rparr>"
  have int: "interest (pw_kernel w) (ch_fd ?c) =
      (if ch_index ?c = kAdded then Some (ch_events ?c, p) else None)"
    using interest_None [OF inv p] interest_Some [OF inv p] by simp
  define w2 where "w2 = (if ch_index ?c = kAdded then poller_update ctl CTL_DEL p ?w else ?w)"
  have r: "removeChannel ctl p w = modify_channel p (Setindex kNew) w2"
    by (simp add: removeChannel_def w2_def Let_def)
  have "ctl_allowed (interest (pw_kernel ?w)) \<lparr>ctl_op = CTL_DEL, ctl_fd = ch_fd (pw_heap ?w p),
        ctl_events = ch_events (pw_heap ?w p), ctl_ptr = p\<rparr>" if "ch_index ?c = kAdded"
    using int that by (simp add: ctl_allowed_def)
  note u = poller_update_ok [OF ok this]
  have w2: "pw_heap w2 = pw_heap w" "pw_errors w2 = pw_errors w"
      "pw_channels w2 = (pw_channels w)(ch_fd ?c := None)"
      "interest (pw_kernel w2) = (interest (pw_kernel w))(ch_fd ?c := None)"
    using int by (auto simp: w2_def u ctl_apply_def fun_eq_iff)
  show "poll_inv interest P (removeChannel ctl p w)" unfolding r
    by (intro poll_inv_step [OF inv p]) (auto simp: w2 index_defs)
  show "pw_errors (removeChannel ctl p w) = pw_errors w"
    "ch_index (pw_heap (removeChannel ctl p w) p) = kNew" by (simp_all add: r w2)
qed

lemma fillActiveChannels_ok:
  "poll_inv interest P w \<Longrightarrow> poll_inv interest P (fst (fillActiveChannels evs w)) \<and>
   pw_errors (fst (fillActiveChannels evs w)) = pw_errors w \<and>
   pw_nevents (fst (fillActiveChannels evs w)) = pw_nevents w"
proof (induction evs arbitrary: w)
  case Nil
  then show ?case by simp
next
  case (Cons e evs)
  obtain q r where e: "e = (q, r)" by (cases e)
  have fields: "ch_fd (pw_heap (modify_channel q (Setrevents r) w) x) = ch_fd (pw_heap w x)"
    "ch_index (pw_heap (modify_channel q (Setrevents r) w) x) = ch_index (pw_heap w x)"
    "ch_events (pw_heap (modify_channel q (Setrevents r) w) x) = ch_events (pw_heap w x)" for x
    by simp_all
  have "poll_inv interest P (modify_channel q (Setrevents r) w)"
    using Cons.prems unfolding poll_inv_def fields by simp
  from Cons.IH [OF this] show ?case by (simp add: e split_beta)
qed

lemma fillActiveChannels_active: "snd (fillActiveChannels evs w) = map fst evs"
  by (induction evs w rule: fillActiveChannels.induct) (simp_all add: split_beta)

lemma fillActiveChannels_revents:
  "distinct (map fst evs) \<Longrightarrow>
   ch_revents (pw_heap (fst (fillActiveChannels evs w)) p) =
     (case map_of evs p of Some r \<Rightarrow> r | None \<Rightarrow> ch_revents (pw_heap w p))"
proof (induction evs w rule: fillActiveChannels.induct)
  case (1 w)
  then show ?case by simp
next
  case (2 q r evs w)
  have "map_of evs q = None" using "2.prems" by (simp add: map_of_eq_None_iff)
  with 2 show ?case by (simp add: Setrevents_def split_beta split: option.splits)
qed

text \<open>Sequences of operations on a poller.\<close>

datatype poll_op = Poll_request interest chan_ptr | Poll_remove chan_ptr | Poll_wait

fun run_poll_op ::
  "('k \<Rightarrow> epoll_ctl \<Rightarrow> bool \<times> 'k) \<Rightarrow> ('k \<Rightarrow> nat \<Rightarrow> errno + (chan_ptr \<times> u32) list)
     \<Rightarrow> poll_op \<Rightarrow> 'k poll_world \<Rightarrow> 'k poll_world" where
  "run_poll_op ctl wait (Poll_request i p) w = channel_request ctl i p w"
| "run_poll_op ctl wait (Poll_remove p) w = removeChannel ctl p w"
| "run_poll_op ctl wait Poll_wait w = fst (poller_poll wait w)"

fun poll_op_on :: "chan_ptr set \<Rightarrow> poll_op \<Rightarrow> bool" where
  "poll_op_on P (Poll_request i p) \<longleftrightarrow> p \<in> P"
| "poll_op_on P (Poll_remove p) \<longleftrightarrow> p \<in> P"
| "poll_op_on P Poll_wait \<longleftrightarrow> True"

lemma poller_poll_ok:
  assumes "poll_inv interest P w"
  shows "poll_inv interest P (fst (poller_poll wait w)) \<and>
    pw_errors (fst (poller_poll wait w)) = pw_errors w"
proof (cases "wait (pw_kernel w) (pw_nevents w)")
  case (Inl e)
  with assms show ?thesis by (simp add: poller_poll_def)
next
  case (Inr evs)
  have resize: "poll_inv interest P (v\<lparr>pw_nevents := n\<rparr>) = poll_inv interest P v" for v n
    by (simp add: poll_inv_def)
  show ?thesis
    using fillActiveChannels_ok [OF assms, of evs] assms
    by (simp add: poller_poll_def Inr Let_def resize split_beta)
qed

lemma run_poll_op_inv:
  assumes "epoll_ok ctl interest" "poll_inv interest P w" "poll_op_on P op"
  shows "poll_inv interest P (run_poll_op ctl wait op w) \<and>
    pw_errors (run_poll_op ctl wait op w) = pw_errors w"
  using assms poller_poll_ok [OF assms(2)]
  by (cases op) (simp_all add: channel_request_inv removeChannel_inv)

lemma run_poll_ops_inv:
  "epoll_ok ctl interest \<Longrightarrow> poll_inv interest P w \<Longrightarrow> list_all (poll_op_on P) ops \<Longrightarrow>
   poll_inv interest P (fold (run_poll_op ctl wait) ops w) \<and>
   pw_errors (fold (run_poll_op ctl wait) ops w) = pw_errors w"
  by (induction ops arbitrary: w) (use run_poll_op_inv in \<open>fastforce simp: list_all_iff\<close>)+

lemma new_poller_inv:
  assumes "inj_on (\<lambda>p. ch_fd (heap p)) P" "\<And>p. p \<in> P \<Longrightarrow> ch_index (heap p) = kNew"
    and "interest k = (\<lambda>_. None)"
  shows "poll_inv interest P (new_poller heap k)"
  using assms by (auto simp: poll_inv_def new_poller_def index_defs)

text \<open>A kernel that is its interest list, for the witnesses.\<close>

definition list_kernel :: "(fd \<rightharpoonup> u32 \<times> chan_ptr) \<Rightarrow> epoll_ctl \<Rightarrow> bool \<times> (fd \<rightharpoonup> u32 \<times> chan_ptr)" where
  "list_kernel m c = (ctl_allowed m c, if ctl_allowed m c then ctl_apply m c else m)"

lemma list_kernel_ok: "epoll_ok list_kernel (\<lambda>m. m)"
  by (simp add: epoll_ok_def list_kernel_def)

section \<open>Properties\<close>

text \<open>
  Property (C17). The poller and the kernel agree: for any sequence of interest requests,
  removals and polls on channels with distinct descriptors, no \<^verbatim>\<open>epoll_ctl\<close> call of the poller
  ever fails, the kernel watches a channel exactly when its index is \<open>kAdded\<close> and then for
  exactly the events the channel asks for, and \<open>hasChannel\<close> is true exactly for the channels
  that are not \<open>kNew\<close>.
\<close>

theorem poller_tracks_kernel:
  assumes "epoll_ok ctl interest" and "interest k = (\<lambda>_. None)"
    and "inj_on (\<lambda>p. ch_fd (heap p)) P" and "\<And>p. p \<in> P \<Longrightarrow> ch_index (heap p) = kNew"
    and "list_all (poll_op_on P) ops"
  shows "let w = fold (run_poll_op ctl wait) ops (new_poller heap k) in
    pw_errors w = [] \<and>
    (\<forall>p\<in>P. interest (pw_kernel w) (ch_fd (pw_heap w p)) =
        (if ch_index (pw_heap w p) = kAdded then Some (ch_events (pw_heap w p), p) else None) \<and>
      (hasChannel p w \<longleftrightarrow> ch_index (pw_heap w p) \<noteq> kNew))"
proof -
  define w where "w = fold (run_poll_op ctl wait) ops (new_poller heap k)"
  have "poll_inv interest P (new_poller heap k)"
    using assms(3,4,2) by (rule new_poller_inv)
  from run_poll_ops_inv [OF assms(1) this assms(5), of wait]
  have w: "poll_inv interest P w" "pw_errors w = []"
    by (simp_all add: w_def new_poller_def)
  show ?thesis
    unfolding w_def [symmetric] Let_def hasChannel_def
    using w(2) interest_None [OF w(1)] interest_Some [OF w(1)] channels_eq [OF w(1)] by auto
qed

lemma poller_tracks_kernel_witness:
  "pw_errors (fold (run_poll_op list_kernel (\<lambda>_ _. Inl 0))
     [Poll_request Able_read 0, Poll_request Able_write 1, Poll_request Disable_all 0,
      Poll_remove 1, Poll_wait, Poll_request Able_read 0, Poll_remove 0]
     (new_poller (\<lambda>p. new_channel (int p)) (\<lambda>_. None))) = []"
proof -
  let ?ops = "[Poll_request Able_read 0, Poll_request Able_write 1, Poll_request Disable_all 0,
      Poll_remove 1, Poll_wait, Poll_request Able_read 0, Poll_remove 0]"
  have "let w = fold (run_poll_op list_kernel (\<lambda>_ _. Inl 0)) ?ops
      (new_poller (\<lambda>p. new_channel (int p)) (\<lambda>_. None)) in pw_errors w = [] \<and>
    (\<forall>p\<in>{0, 1}. pw_kernel w (ch_fd (pw_heap w p)) =
        (if ch_index (pw_heap w p) = kAdded then Some (ch_events (pw_heap w p), p) else None) \<and>
      (hasChannel p w \<longleftrightarrow> ch_index (pw_heap w p) \<noteq> kNew))"
    by (rule poller_tracks_kernel [OF list_kernel_ok]) (simp_all add: new_channel_def kNew_def)
  then show ?thesis by (simp add: Let_def del: fold.simps fold_simps)
qed

text \<open>
  Turning everything off twice turns the channel on again: on a channel that is
  registered, the first \<open>disableAll\<close> takes it out of the interest list, the second one finds
  the index \<open>kDeleted\<close> and adds the descriptor with no events, so that error and hang-up
  conditions, which epoll always reports, are delivered again.
\<close>

theorem disableAll_twice_registers:
  assumes "epoll_ok ctl interest" and "poll_inv interest P w" and "p \<in> P"
    and "ch_index (pw_heap w p) = kAdded"
  shows "let w1 = channel_request ctl Disable_all p w; w2 = channel_request ctl Disable_all p w1 in
    interest (pw_kernel w1) (ch_fd (pw_heap w p)) = None \<and>
    interest (pw_kernel w2) (ch_fd (pw_heap w p)) = Some (0, p)"
proof -
  define w1 where "w1 = channel_request ctl Disable_all p w"
  define w2 where "w2 = channel_request ctl Disable_all p w1"
  have inv1: "poll_inv interest P w1" unfolding w1_def
    using assms(1-3) by (rule channel_request_inv)
  have inv2: "poll_inv interest P w2" unfolding w2_def
    using assms(1) inv1 assms(3) by (rule channel_request_inv)
  have noall: "isnoall (set_interest Disable_all c)" for c
    by (simp add: isnoall_def set_interest_def)
  have heap [simp]: "pw_heap (poller_update ctl op q v) = pw_heap v" for op q v
    by (simp add: poller_update_def Let_def split: prod.splits)
  have h1: "pw_heap w1 p = Setindex kDeleted (set_interest Disable_all (pw_heap w p))"
    using assms(4) noall by (simp add: w1_def channel_request_def updateChannel_def index_defs)
  have h2: "pw_heap w2 p = Setindex kAdded (set_interest Disable_all (pw_heap w1 p))"
    using h1 by (simp add: w2_def channel_request_def updateChannel_def index_defs Let_def)
  have "interest (pw_kernel w1) (ch_fd (pw_heap w1 p)) = None"
    using h1 by (intro interest_None [OF inv1 assms(3)]) (simp add: index_defs)
  moreover have "interest (pw_kernel w2) (ch_fd (pw_heap w2 p)) = Some (ch_events (pw_heap w2 p), p)"
    using h2 by (intro interest_Some [OF inv2 assms(3)]) simp
  ultimately show ?thesis
    unfolding w1_def [symmetric] w2_def [symmetric] Let_def
    using h1 h2 by (simp add: set_interest_def knoEvent_def)
qed

lemma sample_poll_inv:
  "poll_inv (\<lambda>m. m) {0} (channel_request list_kernel Able_read 0
     (new_poller (\<lambda>p. new_channel (int p)) (\<lambda>_. None)))"
proof -
  let ?w0 = "new_poller (\<lambda>p. new_channel (int p)) (\<lambda>_. None)"
  have "poll_inv (\<lambda>m. m) {0} ?w0"
    by (rule new_poller_inv) (simp_all add: new_channel_def kNew_def)
  then show ?thesis by (rule channel_request_inv(1) [OF list_kernel_ok]) simp
qed

lemma disableAll_twice_registers_witness:
  "\<exists>w. pw_kernel (channel_request list_kernel Disable_all 0
      (channel_request list_kernel Disable_all 0 w)) 0 = Some (0, 0)"
proof -
  let ?w0 = "new_poller (\<lambda>p. new_channel (int p)) (\<lambda>_. None)"
  let ?w = "channel_request list_kernel Able_read 0 ?w0"
  note inv = sample_poll_inv
  have "ch_index (pw_heap ?w 0) = kAdded \<and> ch_fd (pw_heap ?w 0) = 0"
    by (simp add: channel_request_def updateChannel_def poller_update_def new_poller_def
        new_channel_def index_defs Let_def split: prod.splits)
  with disableAll_twice_registers [OF list_kernel_ok inv, of 0]
  have "pw_kernel (channel_request list_kernel Disable_all 0
      (channel_request list_kernel Disable_all 0 ?w)) 0 = Some (0, 0)"
    by (simp add: Let_def)
  then show ?thesis by blast
qed

text \<open>
  What a poll delivers: when the kernel reports at most as many events as the
  array has room for, one per channel, the active channels are those the kernel reported, in
  its order, each carries the flags reported for it, the other channels' flags are unchanged,
  and the array doubles exactly when it was full; it never shrinks.
\<close>

theorem poll_delivers:
  assumes "wait (pw_kernel w) (pw_nevents w) = Inr evs" and "length evs \<le> pw_nevents w"
    and "distinct (map fst evs)" and "0 < pw_nevents w"
  shows "let (w', active) = poller_poll wait w in
    active = map fst evs \<and>
    (\<forall>p. ch_revents (pw_heap w' p) =
      (case map_of evs p of Some r \<Rightarrow> r | None \<Rightarrow> ch_revents (pw_heap w p))) \<and>
    pw_nevents w' = (if length evs = pw_nevents w then 2 * pw_nevents w else pw_nevents w)"
proof -
  have n: "pw_nevents (fst (fillActiveChannels evs w)) = pw_nevents w" for evs :: "(chan_ptr \<times> u32) list"
    by (induction evs w rule: fillActiveChannels.induct) (simp_all add: split_beta)
  show ?thesis
    using assms fillActiveChannels_revents [OF assms(3), of w]
    by (cases evs) (simp_all add: poller_poll_def Let_def split_beta n fillActiveChannels_active
        del: fillActiveChannels.simps)
qed

lemma poll_delivers_witness:
  "snd (poller_poll (\<lambda>_ _. Inr [(3, EPOLLIN), (1, EPOLLOUT)])
     (new_poller (\<lambda>p. new_channel (int p)) ())) = [3, 1]"
  using poll_delivers [of "\<lambda>_ _. Inr [(3, EPOLLIN), (1, EPOLLOUT)]"
      "new_poller (\<lambda>p. new_channel (int p)) ()" "[(3, EPOLLIN), (1, EPOLLOUT)]"]
  by (simp add: new_poller_def KInitEventListSize_def split_beta)

end
