(* ===== verification/NetConnection.thy ===== *)
theory NetConnection
  imports NetBuffer EventPoll
begin

text \<open>
  One connection, \<^verbatim>\<open>TcpConnection.cpp\<close>: its state, its two buffers and its channel, the
  handlers the channel calls, sending and shutting down from the loop's thread or another one.
  The results of the system calls are inputs; what the connection does is recorded in a trace:
  bytes handed to the kernel, callbacks, channel requests, the half-close. The user's callbacks
  are functions on the connection.
\<close>

section \<open>State\<close>

datatype conn_state = kDisconnected | kConnecting | kConnected | kDisconnecting

text \<open>Functions queued in the loop by other threads.\<close>

datatype deferred = D_send bytes | D_shutdown

text \<open>
  \<open>E_accepted\<close> marks the data \<open>sendInLoop\<close> was given; \<open>E_fault\<close> the drop of its unsent rest
  when the peer is gone.
\<close>

datatype conn_event =
    E_accepted bytes | E_written bytes | E_fault | E_shutdown_write
  | E_connection_cb bool | E_message_cb | E_write_complete_cb | E_close_cb
  | E_request interest | E_remove | E_log

record tcp_conn =
  tc_state :: conn_state
  tc_channel :: channel
  tc_input :: net_buffer
  tc_output :: net_buffer
  tc_queue :: "deferred list"
  tc_trace :: "conn_event list"

type_synonym conn_op = "tcp_conn \<Rightarrow> buf_error + tcp_conn"

text \<open>An empty \<^verbatim>\<open>std::function\<close> is \<^term>\<open>None\<close>.\<close>

record conn_callbacks =
  cb_connection :: "conn_op option"
  cb_message :: "conn_op option"
  cb_write_complete :: "conn_op option"
  cb_close :: "conn_op option"

definition emit :: "conn_event \<Rightarrow> tcp_conn \<Rightarrow> tcp_conn" where
  "emit e c = c\<lparr>tc_trace := tc_trace c @ [e]\<rparr>"

definition setState :: "conn_state \<Rightarrow> tcp_conn \<Rightarrow> tcp_conn" where
  "setState s c = c\<lparr>tc_state := s\<rparr>"

definition connected :: "tcp_conn \<Rightarrow> bool" where "connected c \<longleftrightarrow> tc_state c = kConnected"
definition disconnected :: "tcp_conn \<Rightarrow> bool" where "disconnected c \<longleftrightarrow> tc_state c = kDisconnected"

definition call_back :: "conn_event \<Rightarrow> conn_op option \<Rightarrow> conn_op" where
  "call_back e f c = (case f of None \<Rightarrow> Inr c | Some g \<Rightarrow> g (emit e c))"

text \<open>\<open>TcpConnection\<close> after its constructor.\<close>

definition new_connection :: "fd \<Rightarrow> net_buffer \<Rightarrow> net_buffer \<Rightarrow> tcp_conn" where
  "new_connection sockfd input output = \<lparr>tc_state = kConnecting, tc_channel = new_channel sockfd,
     tc_input = input, tc_output = output, tc_queue = [], tc_trace = []\<rparr>"

definition request :: "interest \<Rightarrow> tcp_conn \<Rightarrow> tcp_conn" where
  "request i c = emit (E_request i) (c\<lparr>tc_channel := set_interest i (tc_channel c)\<rparr>)"

section \<open>Sending\<close>

definition EWOULDBLOCK :: errno where "EWOULDBLOCK = 11"
definition EPIPE :: errno where "EPIPE = 32"
definition ECONNRESET :: errno where "ECONNRESET = 104"

text \<open>
  A result of \<^verbatim>\<open>write\<close>: an error number, or how many of the bytes the kernel would take.
\<close>

type_synonym write_result = "errno + nat"

definition write_count :: "nat \<Rightarrow> bytes \<Rightarrow> nat" where
  "write_count n d = min n (length d)"

text \<open>
  The direct write of \<open>sendInLoop\<close>: how much was written, \<open>faultError\<close>, and the connection
  afterwards.
\<close>

definition send_direct ::
  "conn_callbacks \<Rightarrow> write_result \<Rightarrow> bytes \<Rightarrow> tcp_conn \<Rightarrow> buf_error + (nat \<times> bool \<times> tcp_conn)" where
  "send_direct cbs wr data c =
     (if \<not> iswrite (tc_channel c) \<and> readableBytes (tc_output c) = 0 then
        (case wr of
           Inr n \<Rightarrow>
             (let nwrote = write_count n data;
                  c1 = emit (E_written (take nwrote data)) c;
                  remaining = length data - nwrote
              in if remaining = 0
                 then bind_res (call_back E_write_complete_cb (cb_write_complete cbs) c1)
                        (\<lambda>c2. Inr (nwrote, False, c2))
                 else Inr (nwrote, False, c1))
         | Inl e \<Rightarrow>
             if e \<noteq> EWOULDBLOCK then
               (if e = EPIPE \<or> e = ECONNRESET then Inr (0, True, emit E_fault (emit E_log c))
                else Inr (0, False, emit E_log c))
             else Inr (0, False, c))
      else Inr (0, False, c))"

text \<open>The rest goes to the output buffer, and the channel asks to be told when it can write.\<close>

definition send_rest :: "nat \<Rightarrow> bool \<Rightarrow> bytes \<Rightarrow> conn_op" where
  "send_rest nwrote faultError data c =
     (if \<not> faultError \<and> length data - nwrote > 0 then
        bind_res (buf_append (tc_output c) (drop nwrote data)) (\<lambda>out.
          let c1 = c\<lparr>tc_output := out\<rparr>
          in Inr (if \<not> iswrite (tc_channel c1) then request Able_write c1 else c1))
      else Inr c)"

definition sendInLoop :: "conn_callbacks \<Rightarrow> write_result \<Rightarrow> bytes \<Rightarrow> conn_op" where
  "sendInLoop cbs wr data c =
     (if tc_state c = kDisconnected then Inr c
      else bind_res (send_direct cbs wr data (emit (E_accepted data) c))
             (\<lambda>(nwrote, faultError, c1). send_rest nwrote faultError data c1))"

definition conn_send :: "conn_callbacks \<Rightarrow> bool \<Rightarrow> write_result \<Rightarrow> bytes \<Rightarrow> conn_op" where
  "conn_send cbs in_thread wr data c =
     (if tc_state c = kConnected then
        (if in_thread then sendInLoop cbs wr data c
         else Inr (c\<lparr>tc_queue := tc_queue c @ [D_send data]\<rparr>))
      else Inr c)"

section \<open>Shutting down\<close>

definition shutdownInLoop :: "tcp_conn \<Rightarrow> tcp_conn" where
  "shutdownInLoop c = (if \<not> iswrite (tc_channel c) then emit E_shutdown_write c else c)"

definition conn_shutdown :: "bool \<Rightarrow> tcp_conn \<Rightarrow> tcp_conn" where
  "conn_shutdown in_thread c =
     (if tc_state c = kConnected then
        (let c1 = setState kDisconnecting c
         in if in_thread then shutdownInLoop c1 else c1\<lparr>tc_queue := tc_queue c1 @ [D_shutdown]\<rparr>)
      else c)"

section \<open>Life cycle\<close>

definition connectEstablished :: "conn_callbacks \<Rightarrow> conn_op" where
  "connectEstablished cbs c =
     (let c1 = setState kConnected c;
          c2 = request Able_read (c1\<lparr>tc_channel := tie (tc_channel c1)\<rparr>)
      in call_back (E_connection_cb (connected c2)) (cb_connection cbs) c2)"

definition connectDestroyed :: "tcp_conn \<Rightarrow> tcp_conn" where
  "connectDestroyed c =
     (let c1 = (if tc_state c = kConnected then setState kDisconnected c else c)
      in emit E_remove (request Disable_all c1))"

definition handleClose :: "conn_callbacks \<Rightarrow> conn_op" where
  "handleClose cbs c =
     (let c1 = setState kDisconnected c
      in bind_res (call_back (E_connection_cb (connected c1)) (cb_connection cbs) c1)
           (call_back E_close_cb (cb_close cbs)))"

definition handleError :: "tcp_conn \<Rightarrow> tcp_conn" where
  "handleError c = emit E_log c"

section \<open>Events of the channel\<close>

definition conn_handleRead :: "conn_callbacks \<Rightarrow> (nat \<Rightarrow> errno + bytes) \<Rightarrow> conn_op" where
  "conn_handleRead cbs readv c =
     bind_res (readFd readv (tc_input c)) (\<lambda>(input, r).
       let c1 = c\<lparr>tc_input := input\<rparr> in
       case r of
         Inl e \<Rightarrow> Inr (handleError c1)
       | Inr n \<Rightarrow> if n > 0 then call_back E_message_cb (cb_message cbs) c1 else handleClose cbs c1)"

text \<open>The \<open>readableBytes\<close> bytes at \<open>peek\<close>.\<close>

definition readable_data :: "net_buffer \<Rightarrow> bytes" where
  "readable_data b = take (readableBytes b) (drop (peek b) (storage b))"

definition handleWrite :: "conn_callbacks \<Rightarrow> write_result \<Rightarrow> conn_op" where
  "handleWrite cbs wr c =
     (if iswrite (tc_channel c) then
        (let data = readable_data (tc_output c) in
         case wr of
           Inr n \<Rightarrow>
             (let k = write_count n data in
              if k > 0 then
                (let c1 = (emit (E_written (take k data)) c)\<lparr>tc_output := retrieve k (tc_output c)\<rparr> in
                 if readableBytes (tc_output c1) = 0 then
                   bind_res (call_back E_write_complete_cb (cb_write_complete cbs)
                               (request Disable_write c1))
                     (\<lambda>c2. Inr (if tc_state c2 = kDisconnecting then shutdownInLoop c2 else c2))
                 else Inr c1)
              else Inr (emit E_log c))
         | Inl e \<Rightarrow> Inr (emit E_log c))
      else Inr c)"

text \<open>The loop runs the first function another thread has queued.\<close>

fun run_deferred :: "conn_callbacks \<Rightarrow> write_result \<Rightarrow> deferred \<Rightarrow> conn_op" where
  "run_deferred cbs wr (D_send data) c = sendInLoop cbs wr data c"
| "run_deferred cbs wr D_shutdown c = Inr (shutdownInLoop c)"

section \<open>Runs\<close>

text \<open>
  What may happen to a connection: calls of its public functions, and events of its channel,
  each with the kernel's answers.
\<close>

datatype conn_input =
    I_send bool bytes write_result | I_shutdown bool | I_deferred write_result
  | I_readable "errno + bytes" | I_writable write_result | I_close | I_error | I_destroyed

fun conn_step :: "conn_callbacks \<Rightarrow> conn_input \<Rightarrow> conn_op" where
  "conn_step cbs (I_send in_thread data wr) c = conn_send cbs in_thread wr data c"
| "conn_step cbs (I_shutdown in_thread) c = Inr (conn_shutdown in_thread c)"
| "conn_step cbs (I_deferred wr) c =
     (case tc_queue c of
        [] \<Rightarrow> Inr c
      | d # ds \<Rightarrow> run_deferred cbs wr d (c\<lparr>tc_queue := ds\<rparr>))"
| "conn_step cbs (I_readable r) c =
     conn_handleRead cbs (\<lambda>m. map_sum id (take m) r) c"
| "conn_step cbs (I_writable wr) c = handleWrite cbs wr c"
| "conn_step cbs I_close c = handleClose cbs c"
| "conn_step cbs I_error c = Inr (handleError c)"
| "conn_step cbs I_destroyed c = Inr (connectDestroyed c)"

fun conn_run :: "conn_callbacks \<Rightarrow> conn_input list \<Rightarrow> conn_op" where
  "conn_run cbs [] c = Inr c"
| "conn_run cbs (i # is) c = bind_res (conn_step cbs i c) (conn_run cbs is)"

section \<open>What the trace says\<close>

fun accepted :: "conn_event list \<Rightarrow> bytes" where
  "accepted [] = []"
| "accepted (E_accepted d # es) = d @ accepted es"
| "accepted (_ # es) = accepted es"

fun written :: "conn_event list \<Rightarrow> bytes" where
  "written [] = []"
| "written (E_written d # es) = d @ written es"
| "written (_ # es) = written es"

text \<open>Nothing was dropped and the channel is still in use.\<close>

definition intact :: "conn_event list \<Rightarrow> bool" where
  "intact es \<longleftrightarrow> E_fault \<notin> set es \<and> E_remove \<notin> set es"

text \<open>Every half-close comes when all that was accepted before it has been written.\<close>

definition fin_last :: "conn_event list \<Rightarrow> bool" where
  "fin_last es \<longleftrightarrow> (\<forall>p q. es = p @ E_shutdown_write # q \<longrightarrow> intact p \<longrightarrow> written p = accepted p)"

text \<open>\<open>rest\<close> is accepted data that is neither written nor in the buffer yet.\<close>

definition unsent :: "bytes \<Rightarrow> tcp_conn \<Rightarrow> bool" where
  "unsent rest c \<longleftrightarrow> buf_inv (tc_input c) \<and> buf_inv (tc_output c) \<and> fin_last (tc_trace c) \<and>
     (\<forall>d. D_send d \<in> set (tc_queue c) \<longrightarrow> length d \<le> vec_max) \<and>
     (intact (tc_trace c) \<longrightarrow>
        accepted (tc_trace c) = written (tc_trace c) @ content (tc_output c) @ rest \<and>
        (\<not> iswrite (tc_channel c) \<longrightarrow> content (tc_output c) = []))"

definition conn_inv :: "tcp_conn \<Rightarrow> bool" where
  "conn_inv c \<longleftrightarrow> unsent [] c"

text \<open>A callback that keeps the invariant, as every composition of the public functions does.\<close>

definition op_keeps :: "conn_op \<Rightarrow> bool" where
  "op_keeps f \<longleftrightarrow> (\<forall>c c'. conn_inv c \<longrightarrow> f c = Inr c' \<longrightarrow> conn_inv c')"

definition opt_keeps :: "conn_op option \<Rightarrow> bool" where
  "opt_keeps f \<longleftrightarrow> (\<forall>g. f = Some g \<longrightarrow> op_keeps g)"

definition cbs_keep :: "conn_callbacks \<Rightarrow> bool" where
  "cbs_keep cbs \<longleftrightarrow> opt_keeps (cb_connection cbs) \<and> opt_keeps (cb_message cbs) \<and>
     opt_keeps (cb_write_complete cbs) \<and> opt_keeps (cb_close cbs)"

section \<open>Lemmas\<close>

lemma readable_data_content: "buf_inv b \<Longrightarrow> readable_data b = content b"
  by (simp add: readable_data_def content_def readableBytes_eq peek_def)

lemma accepted_append [simp]: "accepted (es @ fs) = accepted es @ accepted fs"
  by (induction es rule: accepted.induct) simp_all

lemma written_append [simp]: "written (es @ fs) = written es @ written fs"
  by (induction es rule: written.induct) simp_all

lemma intact_append [simp]: "intact (es @ fs) \<longleftrightarrow> intact es \<and> intact fs"
  by (auto simp: intact_def)

lemma intact_simps [simp]:
  "intact []" "intact (e # es) \<longleftrightarrow> e \<noteq> E_fault \<and> e \<noteq> E_remove \<and> intact es"
  by (auto simp: intact_def)

lemma fin_last_snoc:
  "fin_last (es @ [e]) \<longleftrightarrow> fin_last es \<and> (e = E_shutdown_write \<longrightarrow> intact es \<longrightarrow> written es = accepted es)"
proof
  assume l: "fin_last (es @ [e])"
  have "fin_last es" unfolding fin_last_def
  proof (intro allI impI)
    fix p q assume "es = p @ E_shutdown_write # q" "intact p"
    with l show "written p = accepted p" unfolding fin_last_def by (metis Cons_eq_appendI append_assoc)
  qed
  moreover have "written es = accepted es" if "e = E_shutdown_write" "intact es"
    using l that unfolding fin_last_def by blast
  ultimately show "fin_last es \<and> (e = E_shutdown_write \<longrightarrow> intact es \<longrightarrow> written es = accepted es)" by blast
next
  assume r: "fin_last es \<and> (e = E_shutdown_write \<longrightarrow> intact es \<longrightarrow> written es = accepted es)"
  show "fin_last (es @ [e])" unfolding fin_last_def
  proof (intro allI impI)
    fix p q assume eq: "es @ [e] = p @ E_shutdown_write # q" and i: "intact p"
    show "written p = accepted p"
    proof (cases q rule: rev_cases)
      case Nil
      with eq i r show ?thesis by simp
    next
      case (snoc q' x)
      with eq have "es = p @ E_shutdown_write # q'" by simp
      with i r show ?thesis by (simp add: fin_last_def)
    qed
  qed
qed

lemma fin_last_snoc2:
  "fin_last (es @ [d, e]) \<longleftrightarrow> fin_last (es @ [d]) \<and>
     (e = E_shutdown_write \<longrightarrow> intact (es @ [d]) \<longrightarrow> written (es @ [d]) = accepted (es @ [d]))"
  using fin_last_snoc [of "es @ [d]" e] by simp

lemma emit_simps [simp]:
  "tc_state (emit e c) = tc_state c" "tc_channel (emit e c) = tc_channel c"
  "tc_input (emit e c) = tc_input c" "tc_output (emit e c) = tc_output c"
  "tc_queue (emit e c) = tc_queue c" "tc_trace (emit e c) = tc_trace c @ [e]"
  by (simp_all add: emit_def)

lemma request_simps [simp]:
  "tc_state (request i c) = tc_state c" "tc_channel (request i c) = set_interest i (tc_channel c)"
  "tc_input (request i c) = tc_input c" "tc_output (request i c) = tc_output c"
  "tc_queue (request i c) = tc_queue c" "tc_trace (request i c) = tc_trace c @ [E_request i]"
  by (simp_all add: request_def)

fun silent :: "conn_event \<Rightarrow> bool" where
  "silent (E_accepted _) \<longleftrightarrow> False"
| "silent (E_written _) \<longleftrightarrow> False"
| "silent E_shutdown_write \<longleftrightarrow> False"
| "silent _ \<longleftrightarrow> True"

lemma silent_simps: "silent e \<Longrightarrow> accepted [e] = [] \<and> written [e] = [] \<and> e \<noteq> E_shutdown_write"
  by (cases e) simp_all

lemma unsent_emit: "unsent r c \<Longrightarrow> silent e \<Longrightarrow> unsent r (emit e c)"
  using silent_simps [of e] by (auto simp: unsent_def fin_last_snoc)

lemma conn_inv_emit: "conn_inv c \<Longrightarrow> silent e \<Longrightarrow> conn_inv (emit e c)"
  unfolding conn_inv_def by (rule unsent_emit)

lemma call_back_inv:
  assumes "call_back e f c = Inr c'" "conn_inv c" "silent e" "opt_keeps f"
  shows "conn_inv c'"
  using assms conn_inv_emit [OF assms(2,3)]
  by (auto simp: call_back_def opt_keeps_def op_keeps_def split: option.splits)

lemma cbs_keepD:
  assumes "cbs_keep cbs"
  shows "opt_keeps (cb_connection cbs)" "opt_keeps (cb_message cbs)"
    "opt_keeps (cb_write_complete cbs)" "opt_keeps (cb_close cbs)"
  using assms by (auto simp: cbs_keep_def)

lemma conn_inv_setState [simp]: "conn_inv (setState s c) = conn_inv c"
  by (simp add: conn_inv_def unsent_def setState_def)

lemma shutdownInLoop_inv: "conn_inv c \<Longrightarrow> conn_inv (shutdownInLoop c)"
  by (auto simp: shutdownInLoop_def conn_inv_def unsent_def fin_last_snoc)

lemma conn_shutdown_inv: "conn_inv c \<Longrightarrow> conn_inv (conn_shutdown in_thread c)"
  by (auto simp: conn_shutdown_def shutdownInLoop_inv Let_def)
     (auto simp: conn_inv_def unsent_def setState_def)

lemma send_direct_unsent:
  assumes un: "unsent data c" and cbs: "cbs_keep cbs" and ret: "send_direct cbs wr data c = Inr (n, fault, c1)"
  shows "if fault then conn_inv c1 else unsent (drop n data) c1"
proof (cases "\<not> iswrite (tc_channel c) \<and> readableBytes (tc_output c) = 0")
  case False
  with ret un show ?thesis by (auto simp: send_direct_def)
next
  case direct: True
  have empty: "content (tc_output c) = []"
    using direct un length_content [of "tc_output c"] by (simp add: unsent_def)
  show ?thesis
  proof (cases wr)
    case (Inr k)
    let ?k = "write_count k data"
    let ?c1 = "emit (E_written (take ?k data)) c"
    have un1: "unsent (drop ?k data) ?c1"
      using un empty by (auto simp: unsent_def fin_last_snoc)
    show ?thesis
    proof (cases "length data - ?k = 0")
      case True
      then have "call_back E_write_complete_cb (cb_write_complete cbs) ?c1 = Inr c1" "n = ?k" "\<not> fault"
        using ret direct Inr by (auto simp: send_direct_def Let_def bind_res_eq_Inr)
      moreover have "conn_inv ?c1" using un1 True by (simp add: conn_inv_def)
      ultimately have "conn_inv c1" using cbs_keepD(3) [OF cbs] by (auto dest: call_back_inv)
      with True \<open>n = ?k\<close> \<open>\<not> fault\<close> show ?thesis by (simp add: conn_inv_def)
    next
      case False
      with ret direct Inr un1 show ?thesis by (auto simp: send_direct_def Let_def)
    qed
  next
    case (Inl e)
    have "unsent data (emit E_log c)" using un by (simp add: unsent_emit)
    moreover have "conn_inv (emit E_fault (emit E_log c))"
      using un by (auto simp: conn_inv_def unsent_def fin_last_snoc fin_last_snoc2)
    ultimately show ?thesis
      using ret direct Inl un by (auto simp: send_direct_def split: if_splits)
  qed
qed

text \<open>The data \<open>sendInLoop\<close> could not write directly goes to the buffer.\<close>

lemma send_rest_inv:
  assumes "if fault then conn_inv c else unsent (drop n data) c" "length data \<le> vec_max"
    and "send_rest n fault data c = Inr c'"
  shows "conn_inv c'"
proof (cases "\<not> fault \<and> length data - n > 0")
  case True
  then obtain out where out: "buf_append (tc_output c) (drop n data) = Inr out"
    "c' = (if \<not> iswrite (tc_channel c) then request Able_write (c\<lparr>tc_output := out\<rparr>)
      else c\<lparr>tc_output := out\<rparr>)"
    using assms(3) by (auto simp: send_rest_def bind_res_eq_Inr Let_def)
  have un: "unsent (drop n data) c" "buf_inv (tc_output c)" "length (drop n data) \<le> vec_max"
    using True assms(1,2) by (auto simp: unsent_def)
  from buf_append_returns [OF un(2,3) out(1)] un(1) show ?thesis
    by (auto simp: out(2) conn_inv_def unsent_def fin_last_snoc)
next
  case False
  with assms(1,3) show ?thesis by (auto simp: send_rest_def conn_inv_def split: if_splits)
qed

lemma sendInLoop_inv:
  assumes "conn_inv c" "length data \<le> vec_max" "cbs_keep cbs" "sendInLoop cbs wr data c = Inr c'"
  shows "conn_inv c'"
proof (cases "tc_state c = kDisconnected")
  case True
  with assms show ?thesis by (simp add: sendInLoop_def)
next
  case False
  then obtain n fault c1 where
    d: "send_direct cbs wr data (emit (E_accepted data) c) = Inr (n, fault, c1)"
    and r: "send_rest n fault data c1 = Inr c'"
    using assms(4) by (auto simp: sendInLoop_def bind_res_eq_Inr)
  have "unsent data (emit (E_accepted data) c)"
    using assms(1) by (auto simp: conn_inv_def unsent_def fin_last_snoc)
  from send_rest_inv [OF send_direct_unsent [OF this assms(3) d] assms(2) r] show ?thesis .
qed

lemma connectDestroyed_inv: "conn_inv c \<Longrightarrow> conn_inv (connectDestroyed c)"
  by (auto simp: connectDestroyed_def Let_def conn_inv_def unsent_def fin_last_snoc fin_last_snoc2 setState_def)

lemma handleClose_inv:
  assumes "conn_inv c" "cbs_keep cbs" "handleClose cbs c = Inr c'" shows "conn_inv c'"
proof -
  let ?c1 = "setState kDisconnected c"
  obtain c2 where "call_back (E_connection_cb (connected ?c1)) (cb_connection cbs) ?c1 = Inr c2"
      "call_back E_close_cb (cb_close cbs) c2 = Inr c'"
    using assms(3) by (auto simp: handleClose_def Let_def bind_res_eq_Inr)
  with assms(1) cbs_keepD [OF assms(2)] show ?thesis
    by (metis call_back_inv conn_inv_setState silent.simps)
qed

lemma conn_handleRead_inv:
  assumes inv: "conn_inv c" and cbs: "cbs_keep cbs" and bound: "\<And>m d. readv m = Inr d \<Longrightarrow> length d \<le> m"
    and ret: "conn_handleRead cbs readv c = Inr c'"
  shows "conn_inv c'"
proof -
  obtain b r where rd: "readFd readv (tc_input c) = Inr (b, r)"
    using ret by (auto simp: conn_handleRead_def bind_res_eq_Inr)
  have "buf_inv (tc_input c)" using inv by (simp add: conn_inv_def unsent_def)
  from readFd_returns [OF this bound rd] have "buf_inv b" by simp
  then have c1: "conn_inv (c\<lparr>tc_input := b\<rparr>)" using inv by (simp add: conn_inv_def unsent_def)
  show ?thesis
  proof (cases r)
    case (Inl e)
    with ret rd c1 show ?thesis by (auto simp: conn_handleRead_def handleError_def intro: conn_inv_emit)
  next
    case (Inr n)
    with ret rd have "(if n > 0 then call_back E_message_cb (cb_message cbs) (c\<lparr>tc_input := b\<rparr>)
        else handleClose cbs (c\<lparr>tc_input := b\<rparr>)) = Inr c'"
      by (simp add: conn_handleRead_def Let_def)
    with c1 cbs cbs_keepD [OF cbs] show ?thesis
      by (auto dest: call_back_inv intro: handleClose_inv split: if_splits)
  qed
qed

lemma handleWrite_inv:
  assumes inv: "conn_inv c" and cbs: "cbs_keep cbs" and ret: "handleWrite cbs wr c = Inr c'"
  shows "conn_inv c'"
proof (cases "iswrite (tc_channel c) \<and> (\<exists>n. wr = Inr n \<and> write_count n (readable_data (tc_output c)) > 0)")
  case False
  with ret inv show ?thesis
    by (auto simp: handleWrite_def Let_def intro: conn_inv_emit split: if_splits sum.splits)
next
  case True
  have out: "buf_inv (tc_output c)" using inv by (simp add: conn_inv_def unsent_def)
  obtain n where n: "wr = Inr n" "iswrite (tc_channel c)" using True by auto
  let ?data = "readable_data (tc_output c)"
  let ?k = "write_count n ?data"
  let ?c1 = "(emit (E_written (take ?k ?data)) c)\<lparr>tc_output := retrieve ?k (tc_output c)\<rparr>"
  have inv1: "conn_inv ?c1"
    using inv n(2) retrieve_inv [OF out] retrieve_content [OF out]
    by (auto simp: conn_inv_def unsent_def fin_last_snoc readable_data_content [OF out])
  show ?thesis
  proof (cases "readableBytes (tc_output ?c1) = 0")
    case False
    with ret True n inv1 show ?thesis by (simp add: handleWrite_def Let_def)
  next
    case empty: True
    then have "content (tc_output ?c1) = []"
      using retrieve_inv [OF out] length_content [of "tc_output ?c1"] by simp
    then have inv2: "conn_inv (request Disable_write ?c1)"
      using inv1 by (auto simp: conn_inv_def unsent_def fin_last_snoc fin_last_snoc2)
    obtain c2 where c2: "call_back E_write_complete_cb (cb_write_complete cbs) (request Disable_write ?c1) = Inr c2"
        "c' = (if tc_state c2 = kDisconnecting then shutdownInLoop c2 else c2)"
      using ret True n empty by (auto simp: handleWrite_def Let_def bind_res_eq_Inr)
    have "conn_inv c2" using inv2 c2(1) cbs_keepD(3) [OF cbs] by (auto dest: call_back_inv)
    with c2(2) show ?thesis by (simp add: shutdownInLoop_inv)
  qed
qed

fun input_ok :: "conn_input \<Rightarrow> bool" where
  "input_ok (I_send _ data _) \<longleftrightarrow> length data \<le> vec_max"
| "input_ok _ \<longleftrightarrow> True"

lemma conn_step_inv:
  assumes inv: "conn_inv c" and cbs: "cbs_keep cbs" and i: "input_ok i" and ret: "conn_step cbs i c = Inr c'"
  shows "conn_inv c'"
proof (cases i)
  case (I_send in_thread data wr)
  with assms show ?thesis
    by (auto simp: conn_send_def intro: sendInLoop_inv split: if_splits)
       (auto simp: conn_inv_def unsent_def)
next
  case (I_deferred wr)
  show ?thesis
  proof (cases "tc_queue c")
    case (Cons d ds)
    have "conn_inv (c\<lparr>tc_queue := ds\<rparr>)" using inv Cons by (auto simp: conn_inv_def unsent_def)
    moreover have "length x \<le> vec_max" if "d = D_send x" for x
      using inv Cons that by (auto simp: conn_inv_def unsent_def)
    ultimately show ?thesis using ret I_deferred Cons cbs
      by (cases d) (auto intro: sendInLoop_inv shutdownInLoop_inv)
  qed (use ret I_deferred inv in simp)
next
  case (I_readable r)
  have "length d \<le> m" if "map_sum id (take m) r = Inr d" for m d
    using that by (cases r) auto
  with I_readable ret conn_handleRead_inv [OF inv cbs, of "\<lambda>m. map_sum id (take m) r"]
  show ?thesis by simp
qed (use inv cbs ret in \<open>auto simp: handleError_def intro: conn_shutdown_inv handleWrite_inv
  handleClose_inv connectDestroyed_inv conn_inv_emit\<close>)

lemma conn_run_inv:
  "conn_inv c \<Longrightarrow> cbs_keep cbs \<Longrightarrow> list_all input_ok is \<Longrightarrow> conn_run cbs is c = Inr c' \<Longrightarrow> conn_inv c'"
  by (induction "is" arbitrary: c) (auto simp: bind_res_eq_Inr intro: conn_step_inv)

lemma new_connection_inv:
  "buf_inv i \<Longrightarrow> buf_inv out \<Longrightarrow> content out = [] \<Longrightarrow> conn_inv (new_connection fd i out)"
  by (simp add: conn_inv_def unsent_def new_connection_def fin_last_def)

lemma connectEstablished_inv:
  assumes "conn_inv c" "cbs_keep cbs" "connectEstablished cbs c = Inr c'" shows "conn_inv c'"
proof -
  let ?c = "request Able_read ((setState kConnected c)\<lparr>tc_channel := tie (tc_channel c)\<rparr>)"
  have "iswrite (tie x) = iswrite x" for x by (simp add: iswrite_def tie_def)
  then have "conn_inv ?c"
    using assms(1) by (auto simp: conn_inv_def unsent_def fin_last_snoc fin_last_snoc2 setState_def)
  moreover have "call_back (E_connection_cb True) (cb_connection cbs) ?c = Inr c'"
    using assms(3) by (simp add: connectEstablished_def Let_def connected_def setState_def)
  ultimately show ?thesis using cbs_keepD(1) [OF assms(2)] by (auto dest: call_back_inv)
qed

lemma established_run_inv:
  assumes "buf_inv i" "buf_inv out" "content out = []" "cbs_keep cbs" "list_all input_ok is"
    and "connectEstablished cbs (new_connection fd i out) = Inr c0" "conn_run cbs is c0 = Inr c"
  shows "conn_inv c"
  using conn_run_inv [OF connectEstablished_inv [OF new_connection_inv [OF assms(1-3)] assms(4,6)]
    assms(4,5,7)] .

lemma conn_shutdown_down: "tc_state c \<noteq> kConnected \<Longrightarrow> conn_shutdown t c = c"
  by (simp add: conn_shutdown_def)

lemma state_setState [simp]: "tc_state (setState s c) = s"
  by (simp add: setState_def)

definition no_callbacks :: conn_callbacks where
  "no_callbacks = \<lparr>cb_connection = None, cb_message = None, cb_write_complete = None, cb_close = None\<rparr>"

lemma no_callbacks_keep: "cbs_keep no_callbacks"
  by (simp add: cbs_keep_def no_callbacks_def opt_keeps_def)

section \<open>Properties\<close>

text \<open>
  Property (C8). The byte stream is conserved: on an established connection, after any sequence
  of sends (from the loop's thread or another), shutdowns, readable, writable, error and close
  events with any answers of the kernel, and whatever callbacks built from the connection's
  functions do, the bytes given to \<open>sendInLoop\<close> are exactly those handed to the kernel followed
  by those in the output buffer, in order, unless a fault dropped data or the channel was
  removed; and output is left over only while the channel waits to write.
\<close>

theorem connection_stream_conserved:
  assumes "buf_inv i" and "buf_inv out" and "content out = []" and "cbs_keep cbs"
    and "list_all input_ok is"
    and "connectEstablished cbs (new_connection fd i out) = Inr c0" and "conn_run cbs is c0 = Inr c"
    and "intact (tc_trace c)"
  shows "accepted (tc_trace c) = written (tc_trace c) @ content (tc_output c) \<and>
    (content (tc_output c) \<noteq> [] \<longrightarrow> iswrite (tc_channel c))"
  using established_run_inv [OF assms(1-7)] assms(8) by (auto simp: conn_inv_def unsent_def)

text \<open>
  Property (C26). The half-close comes last: in every such run, whenever the connection shuts
  down its writing side, every byte accepted before has been handed to the kernel, so a
  graceful shutdown never cuts off buffered output.
\<close>

theorem half_close_after_data:
  assumes "buf_inv i" and "buf_inv out" and "content out = []" and "cbs_keep cbs"
    and "list_all input_ok is"
    and "connectEstablished cbs (new_connection fd i out) = Inr c0" and "conn_run cbs is c0 = Inr c"
    and "tc_trace c = before @ E_shutdown_write # after" and "intact before"
  shows "written before = accepted before"
  using established_run_inv [OF assms(1-7)] assms(8,9)
  by (simp add: conn_inv_def unsent_def fin_last_def)

text \<open>
  A graceful shutdown completes: a connection that is disconnecting with output
  left, when it becomes writable and the kernel takes all of it, empties its buffer, stops
  waiting to write and half-closes, in this order.
\<close>

theorem pending_shutdown_completes:
  assumes "conn_inv c" and "tc_state c = kDisconnecting" and "iswrite (tc_channel c)"
    and "content (tc_output c) \<noteq> []" and "length (content (tc_output c)) \<le> n"
    and "cb_write_complete cbs = None"
  shows "\<exists>c'. handleWrite cbs (Inr n) c = Inr c' \<and> content (tc_output c') = [] \<and>
    \<not> iswrite (tc_channel c') \<and>
    tc_trace c' = tc_trace c @ [E_written (content (tc_output c)), E_request Disable_write, E_shutdown_write]"
proof -
  have out: "buf_inv (tc_output c)" using assms(1) by (simp add: conn_inv_def unsent_def)
  let ?d = "content (tc_output c)"
  have k: "write_count n ?d = length ?d" using assms(5) by (simp add: write_count_def)
  have r: "content (retrieve (length ?d) (tc_output c)) = []" by (simp add: retrieve_content [OF out])
  then have "readableBytes (retrieve (length ?d) (tc_output c)) = 0"
    using length_content [OF retrieve_inv [OF out], of "length ?d"] by simp
  then show ?thesis
    using assms(2-4,6) k r
    by (simp add: handleWrite_def readable_data_content [OF out] Let_def call_back_def
        shutdownInLoop_def)
qed

text \<open>
  A connection that is not connected ignores \<open>shutdown\<close> and \<open>send\<close>: in
  particular a connection callback that calls \<open>shutdown\<close> when the connection is down, as the
  RPC provider's does, has no effect, because \<open>handleClose\<close> has already left the connected
  state when it calls it.
\<close>

theorem shutdown_when_down_ignored:
  assumes "cb_connection cbs = Some (\<lambda>c. Inr (if \<not> connected c then conn_shutdown True c else c))"
  shows "handleClose cbs c = handleClose (cbs\<lparr>cb_connection := Some Inr\<rparr>) c \<and>
    (\<not> connected c \<longrightarrow> conn_shutdown in_thread c = c \<and> conn_send cbs in_thread wr d c = Inr c)"
  using assms
  by (auto simp: handleClose_def call_back_def conn_shutdown_down conn_send_def connected_def
      Let_def split: option.splits)

text \<open>
  The close is reported more than once: \<open>handleClose\<close> leaves the channel's read
  interest on, so when the end of the stream is readable again before \<open>connectDestroyed\<close> runs,
  the connection callback and the close callback are called again.
\<close>

theorem close_reported_again:
  assumes "buf_inv (tc_input c)" and "cb_connection cbs = Some Inr" and "cb_close cbs = Some Inr"
  shows "\<exists>c'. conn_run cbs [I_readable (Inr []), I_readable (Inr [])] c = Inr c' \<and>
    tc_channel c' = tc_channel c \<and>
    tc_trace c' = tc_trace c @ [E_connection_cb False, E_close_cb, E_connection_cb False, E_close_cb]"
proof -
  have b: "sz_add (writerIndex (tc_input c)) 0 = writerIndex (tc_input c)"
    using buf_inv_bounds [OF assms(1)] by (simp add: sz_add_small)
  have "readFd (\<lambda>m. map_sum id (take m) (Inr [])) (tc_input c) = Inr (tc_input c, Inr 0)"
    using b by (simp add: readFd_def Let_def beginWrite_def copy_into_closed)
  then show ?thesis
    using assms(2,3)
    by (simp add: conn_handleRead_def handleClose_def call_back_def connected_def setState_def)
qed

section \<open>Witnesses\<close>

definition sample_buffer :: net_buffer where
  "sample_buffer = \<lparr>storage = replicate 64 NUL, readerIndex = 8, writerIndex = 8\<rparr>"

lemma sample_buffer: "buf_inv sample_buffer" "content sample_buffer = []"
  by (simp_all add: sample_buffer_def buf_inv_def kCheapPrepend_def vec_max_def content_def)

text \<open>A connection that sends, shuts down from another thread, and half-closes.\<close>

definition sample_inputs :: "conn_input list" where
  "sample_inputs = [I_send True ''abc'' (Inr 9), I_shutdown False, I_deferred (Inr 0)]"

definition sample_conn :: tcp_conn where
  "sample_conn = request Able_read ((setState kConnected (new_connection 5 sample_buffer sample_buffer))
     \<lparr>tc_channel := tie (new_channel 5)\<rparr>)"

lemma sample_established:
  "connectEstablished no_callbacks (new_connection 5 sample_buffer sample_buffer) = Inr sample_conn"
  by (simp add: connectEstablished_def sample_conn_def call_back_def no_callbacks_def Let_def
      new_connection_def setState_def)

lemma sample_run:
  "conn_run no_callbacks sample_inputs sample_conn = Inr (sample_conn\<lparr>tc_state := kDisconnecting,
     tc_trace := [E_request Able_read, E_accepted ''abc'', E_written ''abc'', E_shutdown_write]\<rparr>)"
proof -
  have w: "\<not> iswrite (tie (new_channel 5))"
    by (simp add: iswrite_def tie_def new_channel_def)
  have r: "readableBytes sample_buffer = 0"
    using sample_buffer length_content [of sample_buffer] by simp
  show ?thesis
    by (simp add: sample_inputs_def sample_conn_def conn_send_def sendInLoop_def send_direct_def
        send_rest_def conn_shutdown_def shutdownInLoop_def call_back_def no_callbacks_def w r
        write_count_def setState_def new_connection_def request_def emit_def Let_def)
qed

lemma connection_stream_conserved_witness:
  "\<exists>c. conn_run no_callbacks sample_inputs sample_conn = Inr c \<and>
     accepted (tc_trace c) = written (tc_trace c) @ content (tc_output c)"
  using connection_stream_conserved [OF sample_buffer(1) sample_buffer no_callbacks_keep _
      sample_established sample_run] sample_run
  by (simp add: sample_inputs_def vec_max_def intact_def)

lemma half_close_after_data_witness:
  "written [E_request Able_read, E_accepted ''abc'', E_written ''abc''] = ''abc'' \<and>
   accepted [E_request Able_read, E_accepted ''abc'', E_written ''abc''] = ''abc''"
  using half_close_after_data [OF sample_buffer(1) sample_buffer no_callbacks_keep _
      sample_established sample_run, of "[E_request Able_read, E_accepted ''abc'', E_written ''abc'']" "[]"]
  by (simp add: sample_inputs_def vec_max_def)

definition sample_pending :: tcp_conn where
  "sample_pending = \<lparr>tc_state = kDisconnecting, tc_channel = set_interest Able_write (new_channel 5),
     tc_input = sample_buffer,
     tc_output = \<lparr>storage = replicate 8 NUL @ ''hello'', readerIndex = 8, writerIndex = 13\<rparr>,
     tc_queue = [], tc_trace = [E_accepted ''hello'']\<rparr>"

lemma pending_shutdown_completes_witness:
  "\<exists>c'. handleWrite no_callbacks (Inr 100) sample_pending = Inr c' \<and>
    tc_trace c' = [E_accepted ''hello'', E_written ''hello'', E_request Disable_write, E_shutdown_write]"
proof -
  have c: "content (tc_output sample_pending) = ''hello''"
    by (simp add: sample_pending_def content_def)
  have f: "fin_last [E_accepted ''hello'']"
    using fin_last_snoc [of "[]" "E_accepted ''hello''"] by (simp add: fin_last_def)
  have "conn_inv sample_pending"
    using c f sample_buffer(1)
    by (auto simp: conn_inv_def unsent_def sample_pending_def buf_inv_def kCheapPrepend_def
        vec_max_def)
  from pending_shutdown_completes [OF this, of 100 no_callbacks] c show ?thesis
    by (auto simp: sample_pending_def no_callbacks_def)
qed

lemma shutdown_when_down_ignored_witness:
  "conn_shutdown True (new_connection 5 sample_buffer sample_buffer) =
     new_connection 5 sample_buffer sample_buffer"
  using shutdown_when_down_ignored [of "no_callbacks\<lparr>cb_connection :=
      Some (\<lambda>c. Inr (if \<not> connected c then conn_shutdown True c else c))\<rparr>"
      "new_connection 5 sample_buffer sample_buffer"]
  by (simp add: connected_def new_connection_def)

lemma close_reported_again_witness:
  "\<exists>c'. conn_run (no_callbacks\<lparr>cb_connection := Some Inr, cb_close := Some Inr\<rparr>)
      [I_readable (Inr []), I_readable (Inr [])] sample_conn = Inr c' \<and>
    tc_trace c' = E_request Able_read #
      [E_connection_cb False, E_close_cb, E_connection_cb False, E_close_cb]"
  using close_reported_again [of sample_conn "no_callbacks\<lparr>cb_connection := Some Inr, cb_close := Some Inr\<rparr>"]
    sample_buffer(1)
  by (auto simp: sample_conn_def new_connection_def setState_def request_def emit_def)

end
