(* ===== verification/NetApp.thy ===== *)
theory NetApp
  imports NetConnection
begin

text \<open>
  Server applications on a connection: callbacks that take what they can from the input buffer
  and send answers. The locale \<open>stream_app\<close> states what such callbacks do to the connection, as a
  function of the unread bytes; runs of its connections then answer as that function says,
  whatever the segments and the kernel's answers are.
\<close>

section \<open>Runs\<close>

text \<open>
  What happens to a connection whose callbacks need the kernel's answers \<open>w\<close> to their own writes.
\<close>

fun app_run :: "('w \<Rightarrow> conn_callbacks) \<Rightarrow> (conn_input \<times> 'w) list \<Rightarrow> conn_op" where
  "app_run cbs [] c = Inr c"
| "app_run cbs ((i, w) # rest) c = bind_res (conn_step (cbs w) i c) (app_run cbs rest)"

text \<open>Data, failed reads and writability; a segment is at most what one read takes.\<close>

fun app_input :: "conn_input \<Rightarrow> bytes list option" where
  "app_input (I_readable (Inr d)) = (if d \<noteq> [] \<and> length d \<le> extrabuf_size then Some [d] else None)"
| "app_input (I_readable (Inl e)) = Some []"
| "app_input (I_writable wr) = Some []"
| "app_input I_error = Some []"
| "app_input _ = None"

fun segments :: "(conn_input \<times> 'w) list \<Rightarrow> bytes list option" where
  "segments [] = Some []"
| "segments ((i, w) # rest) = (case (app_input i, segments rest) of
     (Some d, Some ds) \<Rightarrow> Some (d @ ds) | _ \<Rightarrow> None)"

text \<open>
  What an application answers to segments, when \<open>react\<close> gives the answer to the unread bytes and
  what is left of them.
\<close>

fun app_feed :: "(bytes \<Rightarrow> bytes \<times> bytes) \<Rightarrow> bytes \<Rightarrow> bytes list \<Rightarrow> bytes \<times> bytes" where
  "app_feed react r [] = ([], r)"
| "app_feed react r (p # ps) =
     (case react (r @ p) of (out, r1) \<Rightarrow> case app_feed react r1 ps of (out', r') \<Rightarrow> (out @ out', r'))"

fun app_fine :: "(bytes \<Rightarrow> bool) \<Rightarrow> (bytes \<Rightarrow> bytes \<times> bytes) \<Rightarrow> bytes \<Rightarrow> bytes list \<Rightarrow> bool" where
  "app_fine fine react r [] = True"
| "app_fine fine react r (p # ps) \<longleftrightarrow> fine (r @ p) \<and> app_fine fine react (snd (react (r @ p))) ps"

text \<open>
  The kernel's answers to the writes of one callback, the last of which repeats as "would block".
\<close>

fun next_answer :: "write_result list \<Rightarrow> write_result" where
  "next_answer [] = Inl EWOULDBLOCK"
| "next_answer (wr # wrs) = wr"

section \<open>Sending from a callback\<close>

lemma iov_total_room: "extrabuf_size \<le> iov_total b"
  by (simp add: iov_total_def)

lemma conn_inv_input: "conn_inv c \<Longrightarrow> buf_inv b \<Longrightarrow> conn_inv (c\<lparr>tc_input := b\<rparr>)"
  by (simp add: conn_inv_def unsent_def)

lemma buf_room_mono: "buf_room b n \<Longrightarrow> m \<le> n \<Longrightarrow> buf_room b m"
  by (simp add: buf_room_def)

lemma no_callbacks_call [simp]: "call_back e (cb_write_complete no_callbacks) c = Inr c"
  by (simp add: call_back_def no_callbacks_def)

lemma send_direct_ok:
  "\<exists>n f c1. send_direct no_callbacks wr d c = Inr (n, f, c1) \<and> tc_output c1 = tc_output c \<and>
     tc_input c1 = tc_input c \<and> tc_state c1 = tc_state c \<and> accepted (tc_trace c1) = accepted (tc_trace c)"
  by (cases "\<not> iswrite (tc_channel c) \<and> readableBytes (tc_output c) = 0"; cases wr)
     (auto simp: send_direct_def Let_def)

lemma handleWrite_ok:
  "\<exists>c'. handleWrite no_callbacks wr c = Inr c' \<and> tc_input c' = tc_input c \<and>
     (tc_state c \<noteq> kDisconnecting \<longrightarrow> tc_state c' = tc_state c) \<and> accepted (tc_trace c') = accepted (tc_trace c) \<and>
     (\<exists>k. tc_output c' = tc_output c \<or> tc_output c' = retrieve k (tc_output c))"
  by (cases wr) (auto simp: handleWrite_def Let_def shutdownInLoop_def)

text \<open>What a send leaves alone, and how much room it needs.\<close>

lemma send_rest_ok:
  assumes "buf_inv (tc_output c)" and room: "buf_room (tc_output c) (length d + m)"
  shows "\<exists>c'. send_rest n f d c = Inr c' \<and> tc_state c' = tc_state c \<and> tc_input c' = tc_input c \<and>
    accepted (tc_trace c') = accepted (tc_trace c) \<and> buf_room (tc_output c') m"
proof -
  have fits: "buf_room (tc_output c) (length (drop n d) + m)" using room by (rule buf_room_mono) simp
  obtain b' where b': "buf_append (tc_output c) (drop n d) = Inr b'"
    using nb.app_step [OF assms(1) fits] .
  have "buf_room b' m" using assms(1) fits b' by (rule buf_append_room)
  moreover have "buf_room (tc_output c) m" using room by (rule buf_room_mono) simp
  ultimately show ?thesis using b' by (simp add: send_rest_def Let_def)
qed

lemma conn_send_ok:
  assumes c: "conn_inv c" "tc_state c = kConnected" and room: "buf_room (tc_output c) (length d + m)"
  obtains c' where "conn_send no_callbacks True wr d c = Inr c'" "conn_inv c'" "tc_state c' = kConnected"
    "tc_input c' = tc_input c" "accepted (tc_trace c') = accepted (tc_trace c) @ d" "buf_room (tc_output c') m"
proof -
  obtain n f c1 where s: "send_direct no_callbacks wr d (emit (E_accepted d) c) = Inr (n, f, c1)"
      "tc_output c1 = tc_output c" "tc_input c1 = tc_input c" "tc_state c1 = kConnected"
      "accepted (tc_trace c1) = accepted (tc_trace c) @ d"
    using send_direct_ok [of wr d "emit (E_accepted d) c"] c(2) by auto
  have "buf_inv (tc_output c1)" using c(1) s(2) by (simp add: conn_inv_def unsent_def)
  from send_rest_ok [OF this, of d m n f] room s obtain c' where
    c': "send_rest n f d c1 = Inr c'" "tc_state c' = kConnected" "tc_input c' = tc_input c"
      "accepted (tc_trace c') = accepted (tc_trace c) @ d" "buf_room (tc_output c') m" by auto
  then have r: "sendInLoop no_callbacks wr d c = Inr c'" using s(1) c(2) by (simp add: sendInLoop_def)
  have "length d \<le> vec_max" using room by (simp add: buf_room_def)
  from sendInLoop_inv [OF c(1) this no_callbacks_keep r] c' r c(2) show thesis
    by (intro that [of c']) (simp_all add: conn_send_def)
qed

section \<open>The contract\<close>

locale stream_app =
  fixes cbs :: "'w \<Rightarrow> conn_callbacks"
    and room :: "net_buffer \<Rightarrow> nat \<Rightarrow> bool"
    and fine :: "bytes \<Rightarrow> bool"
    and react :: "bytes \<Rightarrow> bytes \<times> bytes"
  assumes quiet: "cb_write_complete (cbs w) = None"
    and established: "conn_inv c \<Longrightarrow> tc_state c = kConnected \<Longrightarrow>
      \<exists>c'. call_back (E_connection_cb True) (cb_connection (cbs w)) c = Inr c' \<and> conn_inv c' \<and>
        tc_state c' = kConnected \<and> tc_input c' = tc_input c \<and> tc_output c' = tc_output c \<and>
        accepted (tc_trace c') = accepted (tc_trace c)"
    and room_read: "buf_inv b \<Longrightarrow> room b (length d + n) \<Longrightarrow> readv (iov_total b) = Inr d \<Longrightarrow>
      \<exists>b'. readFd readv b = Inr (b', Inr (length d)) \<and> buf_inv b' \<and> content b' = content b @ d \<and> room b' n"
    and message: "conn_inv c \<Longrightarrow> tc_state c = kConnected \<Longrightarrow> room (tc_input c) n \<Longrightarrow>
      fine (content (tc_input c)) \<Longrightarrow> react (content (tc_input c)) = (out, r) \<Longrightarrow>
      buf_room (tc_output c) (length out + m) \<Longrightarrow>
      \<exists>c'. call_back E_message_cb (cb_message (cbs w)) c = Inr c' \<and> conn_inv c' \<and> tc_state c' = kConnected \<and>
        accepted (tc_trace c') = accepted (tc_trace c) @ out \<and> content (tc_input c') = r \<and>
        room (tc_input c') n \<and> buf_room (tc_output c') m"
begin

definition serving :: "tcp_conn \<Rightarrow> nat \<Rightarrow> nat \<Rightarrow> bool" where
  "serving c n m \<longleftrightarrow> conn_inv c \<and> tc_state c = kConnected \<and> room (tc_input c) n \<and> buf_room (tc_output c) m"

lemma readable_step:
  assumes c: "serving c (length d + n) (length out + m)" and d: "d \<noteq> []" "length d \<le> extrabuf_size"
    and f: "fine (content (tc_input c) @ d)" "react (content (tc_input c) @ d) = (out, r)"
  shows "\<exists>c'. conn_step (cbs w) (I_readable (Inr d)) c = Inr c' \<and> serving c' n m \<and>
    content (tc_input c') = r \<and> accepted (tc_trace c') = accepted (tc_trace c) @ out"
proof -
  have inv: "conn_inv c" "buf_inv (tc_input c)" using c by (simp_all add: serving_def conn_inv_def unsent_def)
  let ?readv = "\<lambda>k. map_sum id (take k) (Inr d)"
  have rd: "?readv (iov_total (tc_input c)) = Inr d"
    using d(2) iov_total_room [of "tc_input c"] by simp
  have "room (tc_input c) (length d + n)" using c by (simp add: serving_def)
  from room_read [of "tc_input c" d n ?readv, OF inv(2) this rd] obtain b where
    b: "readFd ?readv (tc_input c) = Inr (b, Inr (length d))" "buf_inv b" "content b = content (tc_input c) @ d" "room b n"
    by blast
  let ?c1 = "c\<lparr>tc_input := b\<rparr>"
  have "conn_inv ?c1" using inv(1) b(2) by (rule conn_inv_input)
  moreover have "tc_state ?c1 = kConnected" "room (tc_input ?c1) n" "content (tc_input ?c1) = content (tc_input c) @ d"
    "buf_room (tc_output ?c1) (length out + m)" "accepted (tc_trace ?c1) = accepted (tc_trace c)"
    using c b by (simp_all add: serving_def)
  ultimately obtain c' where "call_back E_message_cb (cb_message (cbs w)) ?c1 = Inr c'" "conn_inv c'"
      "tc_state c' = kConnected" "accepted (tc_trace c') = accepted (tc_trace c) @ out" "content (tc_input c') = r"
      "room (tc_input c') n" "buf_room (tc_output c') m"
    using message [of ?c1 n out r m w] f by auto
  then show ?thesis using b(1) d(1) by (auto simp: conn_handleRead_def serving_def)
qed

lemma writable_step:
  assumes "serving c n m"
  shows "\<exists>c'. conn_step (cbs w) (I_writable wr) c = Inr c' \<and> serving c' n m \<and>
    tc_input c' = tc_input c \<and> accepted (tc_trace c') = accepted (tc_trace c)"
proof -
  have inv: "conn_inv c" "buf_inv (tc_output c)" and st: "tc_state c = kConnected" "room (tc_input c) n"
      "buf_room (tc_output c) m"
    using assms by (simp_all add: serving_def conn_inv_def unsent_def)
  have q: "cb_write_complete no_callbacks = None" by (simp add: no_callbacks_def)
  have eq: "handleWrite (cbs w) wr c = handleWrite no_callbacks wr c"
    unfolding handleWrite_def quiet q ..
  obtain c' where c': "handleWrite no_callbacks wr c = Inr c'" "tc_state c' = kConnected" "tc_input c' = tc_input c"
      "accepted (tc_trace c') = accepted (tc_trace c)" "buf_room (tc_output c') m"
    using handleWrite_ok [of wr c] st retrieve_room [OF inv(2) st(3)] by auto
  with handleWrite_inv [OF inv(1) no_callbacks_keep c'(1)] st(2) show ?thesis
    by (auto simp: serving_def eq)
qed

lemma other_step:
  assumes "serving c n m" and "i = I_readable (Inl e) \<or> i = I_error"
  shows "\<exists>c'. conn_step (cbs w) i c = Inr c' \<and> serving c' n m \<and>
    tc_input c' = tc_input c \<and> accepted (tc_trace c') = accepted (tc_trace c)"
proof -
  have e: "conn_inv (emit E_log c)" using assms(1) by (intro conn_inv_emit) (simp_all add: serving_def)
  show ?thesis using assms e
    by (auto simp: conn_handleRead_def readFd_def handleError_def serving_def Let_def)
qed

lemma app_run_ok:
  assumes "segments evs = Some ds" and "serving c (length (concat ds)) (length out + m)"
    and "app_fine fine react (content (tc_input c)) ds" and "app_feed react (content (tc_input c)) ds = (out, r)"
  shows "\<exists>c'. app_run cbs evs c = Inr c' \<and> serving c' 0 m \<and> content (tc_input c') = r \<and>
    accepted (tc_trace c') = accepted (tc_trace c) @ out"
  using assms
proof (induction evs arbitrary: c ds out)
  case Nil
  then show ?case by simp
next
  case (Cons e evs)
  obtain i w where e: "e = (i, w)" by (cases e)
  obtain d ds' where ds: "app_input i = Some d" "segments evs = Some ds'" "ds = d @ ds'"
    using Cons.prems(1) e by (auto split: option.splits)
  show ?case
  proof (cases "d = []")
    case True
    have "\<exists>c'. conn_step (cbs w) i c = Inr c' \<and> serving c' (length (concat ds)) (length out + m) \<and>
        tc_input c' = tc_input c \<and> accepted (tc_trace c') = accepted (tc_trace c)"
    proof (cases i)
      case (I_writable wr)
      with writable_step [OF Cons.prems(2)] show ?thesis by blast
    next
      case (I_readable x)
      with ds(1) True obtain a where "i = I_readable (Inl a)" by (cases x) (auto split: if_splits)
      with other_step [OF Cons.prems(2)] show ?thesis by blast
    next
      case I_error
      with other_step [OF Cons.prems(2)] show ?thesis by blast
    qed (use ds(1) in auto)
    then obtain c1 where c1: "conn_step (cbs w) i c = Inr c1" "serving c1 (length (concat ds)) (length out + m)"
        "tc_input c1 = tc_input c" "accepted (tc_trace c1) = accepted (tc_trace c)" by blast
    from Cons.IH [of ds' c1 out] c1 ds True Cons.prems(3,4) show ?thesis by (auto simp: e)
  next
    case False
    then obtain x where i: "i = I_readable (Inr x)" "d = [x]" "x \<noteq> []" "length x \<le> extrabuf_size"
      using ds(1) by (cases i rule: app_input.cases) (auto split: if_splits)
    obtain o1 r1 where r1: "react (content (tc_input c) @ x) = (o1, r1)"
      by (cases "react (content (tc_input c) @ x)")
    obtain o2 where o2: "app_feed react r1 ds' = (o2, r)" "out = o1 @ o2"
      using Cons.prems(4) ds(3) i(2) r1 by (auto split: prod.splits)
    have "serving c (length x + length (concat ds')) (length o1 + (length o2 + m))"
      using Cons.prems(2) ds(3) i(2) o2(2) by (simp add: add.assoc)
    from readable_step [OF this i(3,4) _ r1] Cons.prems(3) ds(3) i(2) obtain c1 where
      c1: "conn_step (cbs w) i c = Inr c1" "serving c1 (length (concat ds')) (length o2 + m)"
        "content (tc_input c1) = r1" "accepted (tc_trace c1) = accepted (tc_trace c) @ o1"
      using i(1) by fastforce
    from Cons.IH [of ds' c1 o2] c1 ds o2 r1 i(2) Cons.prems(3) show ?thesis by (auto simp: e)
  qed
qed

text \<open>From the accepted connection on: what was written and what waits is the answer.\<close>

lemma established_app_run:
  assumes b: "buf_inv i" "content i = []" "buf_inv o'" "content o' = []"
    and room: "room i (length (concat ds))" "buf_room o' (length out)"
    and ds: "segments evs = Some ds" "app_fine fine react [] ds" "app_feed react [] ds = (out, r)"
  shows "\<exists>c0 c. connectEstablished (cbs w) (new_connection fd i o') = Inr c0 \<and> app_run cbs evs c0 = Inr c \<and>
    tc_state c = kConnected \<and> content (tc_input c) = r \<and> accepted (tc_trace c) = out \<and>
    (intact (tc_trace c) \<longrightarrow> written (tc_trace c) @ content (tc_output c) = out)"
proof -
  let ?c = "request Able_read ((setState kConnected (new_connection fd i o'))\<lparr>tc_channel := tie (new_channel fd)\<rparr>)"
  have w: "iswrite (tie x) = iswrite x" for x by (simp add: iswrite_def tie_def)
  have "conn_inv ?c"
    using new_connection_inv [OF b(1,3,4), of fd] w [of "new_channel fd"]
    by (auto simp: conn_inv_def unsent_def fin_last_snoc [of "[]", simplified] setState_def new_connection_def)
  moreover have s: "tc_state ?c = kConnected" "tc_input ?c = i" "tc_output ?c = o'" "accepted (tc_trace ?c) = []"
    by (simp_all add: new_connection_def setState_def)
  ultimately obtain c0 where c0: "call_back (E_connection_cb True) (cb_connection (cbs w)) ?c = Inr c0" "conn_inv c0"
      "tc_state c0 = kConnected" "tc_input c0 = i" "tc_output c0 = o'" "accepted (tc_trace c0) = []"
    using established [of ?c w] by metis
  have e: "connectEstablished (cbs w) (new_connection fd i o') = Inr c0"
    using c0(1) by (simp add: connectEstablished_def Let_def connected_def new_connection_def setState_def)
  have "serving c0 (length (concat ds)) (length out + 0)" using c0 room by (simp add: serving_def)
  from app_run_ok [OF ds(1) this] ds(2,3) b(2) c0(4,6) obtain c where
    c: "app_run cbs evs c0 = Inr c" "serving c 0 0" "content (tc_input c) = r" "accepted (tc_trace c) = out"
    by auto
  then have "intact (tc_trace c) \<longrightarrow> written (tc_trace c) @ content (tc_output c) = out"
    by (auto simp: serving_def conn_inv_def unsent_def)
  with e c show ?thesis by (auto simp: serving_def)
qed

end

end
