(* ===== verification/ChatOverTcp.thy ===== *)
theory ChatOverTcp
  imports ChatSessions NetApp "HOL-Library.Multiset"
begin

text \<open>
  The chat server on the network library: its connections are modelled connections, each on its
  loop thread; what a handler sends or shuts down becomes \<open>send\<close> and \<open>shutdown\<close> of the connection,
  called from the loop of the connection that was read (\<^verbatim>\<open>ChatServer.cpp\<close>, \<^verbatim>\<open>TcpConnection.cpp\<close>).
  A connection on another loop gets the text through that loop's queue.
\<close>

section \<open>The server\<close>

record 'c chat_server =
  cs_world :: "'c chat_world"
  cs_conns :: "conn \<rightharpoonup> tcp_conn"

text \<open>An exception leaves the handler, and the loop: the server is gone.\<close>

datatype server_fault = Thrown chat_fault | Buffer_fault buf_error

text \<open>
  The effects of a handler that runs on the loop \<open>here\<close> (none for the thread that listens to
  Redis); \<open>wrs\<close> are the kernel's answers to the writes.
\<close>

fun play_effects ::
  "(conn \<Rightarrow> nat) \<Rightarrow> nat option \<Rightarrow> write_result list \<Rightarrow> chat_effect list \<Rightarrow> (conn \<rightharpoonup> tcp_conn)
     \<Rightarrow> buf_error + (conn \<rightharpoonup> tcp_conn)" where
  "play_effects loop_of here wrs [] m = Inr m"
| "play_effects loop_of here wrs (Ef_send k s # es) m =
     (case m k of
        None \<Rightarrow> play_effects loop_of here wrs es m
      | Some c \<Rightarrow> bind_res (conn_send no_callbacks (here = Some (loop_of k)) (next_answer wrs) s c)
          (\<lambda>c'. play_effects loop_of here (tl wrs) es (m(k \<mapsto> c'))))"
| "play_effects loop_of here wrs (Ef_shutdown k # es) m =
     (case m k of
        None \<Rightarrow> play_effects loop_of here wrs es m
      | Some c \<Rightarrow> play_effects loop_of here wrs es (m(k \<mapsto> conn_shutdown (here = Some (loop_of k)) c)))"
| "play_effects loop_of here wrs (_ # es) m = play_effects loop_of here wrs es m"

type_synonym tagged = "(nat option \<times> chat_effect) list"

definition serve ::
  "(conn \<Rightarrow> nat) \<Rightarrow> nat option \<Rightarrow> write_result list \<Rightarrow> ('c chat_world, unit) action \<Rightarrow> 'c chat_server
     \<Rightarrow> server_fault + ('c chat_server \<times> tagged)" where
  "serve loop_of here wrs f s =
     (case f ((cs_world s)\<lparr>cw_out := []\<rparr>) of
        (Inl e, w) \<Rightarrow> Inl (Thrown e)
      | (Inr u, w) \<Rightarrow>
          (case play_effects loop_of here wrs (cw_out w) (cs_conns s) of
             Inl e \<Rightarrow> Inl (Buffer_fault e)
           | Inr m \<Rightarrow> Inr (\<lparr>cs_world = w, cs_conns = m\<rparr>, map (Pair here) (cw_out w))))"

definition set_conn :: "conn \<Rightarrow> tcp_conn \<Rightarrow> 'c chat_server \<Rightarrow> 'c chat_server" where
  "set_conn k c s = s\<lparr>cs_conns := (cs_conns s)(k \<mapsto> c)\<rparr>"

text \<open>The message callback takes the whole buffer as one message.\<close>

definition chat_onMessage ::
  "'c mysql \<Rightarrow> json_lib \<Rightarrow> (conn \<Rightarrow> nat) \<Rightarrow> write_result list \<Rightarrow> conn \<Rightarrow> tcp_conn \<Rightarrow> 'c chat_server
     \<Rightarrow> server_fault + ('c chat_server \<times> tagged)" where
  "chat_onMessage my lib loop_of wrs k c s =
     (case retrieveAllAsString (tc_input c) of
        (buff, input) \<Rightarrow> serve loop_of (Some (loop_of k)) wrs (ChatServer_OnMessage my lib k buff)
          (set_conn k (c\<lparr>tc_input := input\<rparr>) s))"

text \<open>\<open>handleClose\<close>, with the connection callback of the server between its two steps.\<close>

definition chat_close ::
  "'c mysql \<Rightarrow> ((int \<rightharpoonup> conn) \<Rightarrow> int list) \<Rightarrow> (conn \<Rightarrow> nat) \<Rightarrow> conn \<Rightarrow> tcp_conn \<Rightarrow> 'c chat_server
     \<Rightarrow> server_fault + ('c chat_server \<times> tagged)" where
  "chat_close my order loop_of k c s =
     bind_res (serve loop_of (Some (loop_of k)) [] (ChatServer_OnConnection my order False k)
         (set_conn k (emit (E_connection_cb False) (setState kDisconnected c)) s))
       (\<lambda>(s', es). Inr (s'\<lparr>cs_conns := (cs_conns s')(k := map_option (emit E_close_cb) (cs_conns s' k))\<rparr>, es))"

text \<open>\<open>handleRead\<close>, which calls the message callback or closes.\<close>

definition chat_read ::
  "'c mysql \<Rightarrow> json_lib \<Rightarrow> ((int \<rightharpoonup> conn) \<Rightarrow> int list) \<Rightarrow> (conn \<Rightarrow> nat) \<Rightarrow> errno + bytes \<Rightarrow> write_result list
     \<Rightarrow> conn \<Rightarrow> tcp_conn \<Rightarrow> 'c chat_server \<Rightarrow> server_fault + ('c chat_server \<times> tagged)" where
  "chat_read my lib order loop_of r wrs k c s =
     (case readFd (\<lambda>m. map_sum id (take m) r) (tc_input c) of
        Inl e \<Rightarrow> Inl (Buffer_fault e)
      | Inr (b, Inl e) \<Rightarrow> Inr (set_conn k (handleError (c\<lparr>tc_input := b\<rparr>)) s, [])
      | Inr (b, Inr n) \<Rightarrow>
          (if n > 0 then chat_onMessage my lib loop_of wrs k (emit E_message_cb (c\<lparr>tc_input := b\<rparr>)) s
           else chat_close my order loop_of k (c\<lparr>tc_input := b\<rparr>) s))"

text \<open>What happens to the server.\<close>

datatype chat_net_event =
    N_accept conn fd
  | N_readable conn "errno + bytes" "write_result list"
  | N_writable conn write_result
  | N_deferred conn write_result
  | N_hangup conn
  | N_error conn
  | N_published string string

definition lift_conn :: "buf_error + tcp_conn \<Rightarrow> conn \<Rightarrow> 'c chat_server \<Rightarrow> server_fault + ('c chat_server \<times> tagged)" where
  "lift_conn r k s = (case r of Inl e \<Rightarrow> Inl (Buffer_fault e) | Inr c \<Rightarrow> Inr (set_conn k c s, []))"

fun chat_net_step ::
  "'c mysql \<Rightarrow> json_lib \<Rightarrow> ((int \<rightharpoonup> conn) \<Rightarrow> int list) \<Rightarrow> (conn \<Rightarrow> nat) \<Rightarrow> chat_net_event \<Rightarrow> 'c chat_server
     \<Rightarrow> server_fault + ('c chat_server \<times> tagged)" where
  "chat_net_step my lib order loop_of (N_accept k f) s =
     (if cs_conns s k = None
      then lift_conn (bind_res (new_buffer kInitialSize) (\<lambda>b.
             connectEstablished (no_callbacks\<lparr>cb_connection := Some Inr\<rparr>) (new_connection f b b))) k s
      else Inr (s, []))"
| "chat_net_step my lib order loop_of (N_published chan msg) s =
     serve loop_of None [] (handleRedisSubscribeMessage my chan msg) s"
| "chat_net_step my lib order loop_of (N_readable k r wrs) s =
     (case cs_conns s k of None \<Rightarrow> Inr (s, []) | Some c \<Rightarrow> chat_read my lib order loop_of r wrs k c s)"
| "chat_net_step my lib order loop_of (N_writable k wr) s =
     (case cs_conns s k of None \<Rightarrow> Inr (s, []) | Some c \<Rightarrow> lift_conn (handleWrite no_callbacks wr c) k s)"
| "chat_net_step my lib order loop_of (N_deferred k wr) s =
     (case cs_conns s k of None \<Rightarrow> Inr (s, []) | Some c \<Rightarrow> lift_conn (conn_step no_callbacks (I_deferred wr) c) k s)"
| "chat_net_step my lib order loop_of (N_hangup k) s =
     (case cs_conns s k of None \<Rightarrow> Inr (s, []) | Some c \<Rightarrow> chat_close my order loop_of k c s)"
| "chat_net_step my lib order loop_of (N_error k) s =
     (case cs_conns s k of None \<Rightarrow> Inr (s, []) | Some c \<Rightarrow> Inr (set_conn k (handleError c) s, []))"

fun chat_net_run ::
  "'c mysql \<Rightarrow> json_lib \<Rightarrow> ((int \<rightharpoonup> conn) \<Rightarrow> int list) \<Rightarrow> (conn \<Rightarrow> nat) \<Rightarrow> chat_net_event list \<Rightarrow> 'c chat_server
     \<Rightarrow> server_fault + ('c chat_server \<times> tagged)" where
  "chat_net_run my lib order loop_of [] s = Inr (s, [])"
| "chat_net_run my lib order loop_of (ev # evs) s =
     bind_res (chat_net_step my lib order loop_of ev s) (\<lambda>(s1, es).
       bind_res (chat_net_run my lib order loop_of evs s1) (\<lambda>(s2, es'). Inr (s2, es @ es')))"

section \<open>Texts and the pieces a connection accepts\<close>

fun pieces :: "conn_event list \<Rightarrow> bytes list" where
  "pieces [] = []"
| "pieces (E_accepted d # es) = d # pieces es"
| "pieces (_ # es) = pieces es"

fun waiting :: "deferred list \<Rightarrow> bytes list" where
  "waiting [] = []"
| "waiting (D_send d # ds) = d # waiting ds"
| "waiting (D_shutdown # ds) = waiting ds"

text \<open>The texts sent to \<open>k\<close> from its own loop, and from elsewhere.\<close>

fun own_texts :: "(conn \<Rightarrow> nat) \<Rightarrow> conn \<Rightarrow> tagged \<Rightarrow> string list" where
  "own_texts loop_of k [] = []"
| "own_texts loop_of k ((here, e) # es) =
     (case e of Ef_send k' s \<Rightarrow> if k' = k \<and> here = Some (loop_of k) then [s] else [] | _ \<Rightarrow> []) @ own_texts loop_of k es"

fun other_texts :: "(conn \<Rightarrow> nat) \<Rightarrow> conn \<Rightarrow> tagged \<Rightarrow> string list" where
  "other_texts loop_of k [] = []"
| "other_texts loop_of k ((here, e) # es) =
     (case e of Ef_send k' s \<Rightarrow> if k' = k \<and> here \<noteq> Some (loop_of k) then [s] else [] | _ \<Rightarrow> []) @ other_texts loop_of k es"

lemma pieces_append [simp]: "pieces (xs @ ys) = pieces xs @ pieces ys"
  by (induction xs rule: pieces.induct) simp_all

lemma waiting_append [simp]: "waiting (xs @ ys) = waiting xs @ waiting ys"
  by (induction xs rule: waiting.induct) simp_all

lemma own_texts_append [simp]: "own_texts loop_of k (xs @ ys) = own_texts loop_of k xs @ own_texts loop_of k ys"
  by (induction xs) auto

lemma other_texts_append [simp]: "other_texts loop_of k (xs @ ys) = other_texts loop_of k xs @ other_texts loop_of k ys"
  by (induction xs) auto

lemma pieces_accepted: "concat (pieces es) = accepted es"
  by (induction es rule: pieces.induct) simp_all

lemma shuffles_append:
  "x \<in> shuffles a b \<Longrightarrow> y \<in> shuffles c d \<Longrightarrow> x @ y \<in> shuffles (a @ c) (b @ d)"
proof (induction a b arbitrary: x rule: shuffles.induct)
  case (1 ys)
  then show ?case
    by (induction ys arbitrary: x) (auto intro: Cons_in_shuffles_rightI)
next
  case (2 z zs)
  have "xs @ y \<in> shuffles (xs @ c) ([] @ d)" for xs
    using 2(2) by (induction xs) (auto intro: Cons_in_shuffles_leftI)
  then show ?case using 2(1) by auto
next
  case (3 z zs w ws)
  then show ?case by (auto intro: Cons_in_shuffles_leftI Cons_in_shuffles_rightI)
qed

text \<open>
  From \<open>c\<close> to \<open>c'\<close> the connection accepted the texts \<open>own\<close>, in order, shuffled with the first of
  the waiting ones and \<open>other\<close>, in order; the rest of these wait.
\<close>

definition takes :: "bytes list \<Rightarrow> bytes list \<Rightarrow> tcp_conn \<Rightarrow> tcp_conn \<Rightarrow> bool" where
  "takes own other c c' \<longleftrightarrow> (tc_state c' = kConnected \<longrightarrow> tc_state c = kConnected \<and>
     (\<exists>new done. pieces (tc_trace c') = pieces (tc_trace c) @ new \<and> new \<in> shuffles own done \<and>
        waiting (tc_queue c) @ other = done @ waiting (tc_queue c')))"

lemma takes_refl [simp]: "takes [] [] c c"
  by (simp add: takes_def)

lemma takes_trans:
  assumes "takes o1 p1 a b" "takes o2 p2 b c"
  shows "takes (o1 @ o2) (p1 @ p2) a c"
  unfolding takes_def
proof
  assume up: "tc_state c = kConnected"
  with assms(2) obtain n2 d2 where 2: "tc_state b = kConnected" "pieces (tc_trace c) = pieces (tc_trace b) @ n2"
      "n2 \<in> shuffles o2 d2" "waiting (tc_queue b) @ p2 = d2 @ waiting (tc_queue c)"
    by (auto simp: takes_def)
  with assms(1) obtain n1 d1 where 1: "tc_state a = kConnected" "pieces (tc_trace b) = pieces (tc_trace a) @ n1"
      "n1 \<in> shuffles o1 d1" "waiting (tc_queue a) @ p1 = d1 @ waiting (tc_queue b)"
    by (auto simp: takes_def)
  have "waiting (tc_queue a) @ p1 @ p2 = (d1 @ d2) @ waiting (tc_queue c)"
    using 1(4) 2(4) by (metis append_assoc)
  then show "tc_state a = kConnected \<and> (\<exists>new done. pieces (tc_trace c) = pieces (tc_trace a) @ new \<and>
      new \<in> shuffles (o1 @ o2) done \<and> waiting (tc_queue a) @ p1 @ p2 = done @ waiting (tc_queue c))"
    using 1 2(2) shuffles_append [OF 1(3) 2(3)] by (intro conjI exI [of _ "n1 @ n2"] exI [of _ "d1 @ d2"]) simp_all
qed

lemma takes_quiet:
  assumes "tc_state c' = kConnected \<Longrightarrow> tc_state c = kConnected \<and> pieces (tc_trace c') = pieces (tc_trace c) \<and>
    tc_queue c' = tc_queue c"
  shows "takes [] [] c c'"
  using assms by (simp add: takes_def)

section \<open>The operations of a connection\<close>

lemma sendInLoop_takes:
  assumes "sendInLoop no_callbacks wr d c = Inr c'"
  shows "tc_state c' = tc_state c" "tc_queue c' = tc_queue c"
    "tc_state c \<noteq> kDisconnected \<Longrightarrow> pieces (tc_trace c') = pieces (tc_trace c) @ [d]"
proof -
  have "tc_state c' = tc_state c \<and> tc_queue c' = tc_queue c \<and> pieces (tc_trace c') = pieces (tc_trace c) @ [d]"
    if up: "tc_state c \<noteq> kDisconnected"
  proof -
    obtain n f c1 where s: "send_direct no_callbacks wr d (emit (E_accepted d) c) = Inr (n, f, c1)"
        "send_rest n f d c1 = Inr c'"
      using assms up by (auto simp: sendInLoop_def bind_res_eq_Inr)
    have "tc_state c1 = tc_state c \<and> pieces (tc_trace c1) = pieces (tc_trace c) @ [d] \<and> tc_queue c1 = tc_queue c"
      using s(1) by (auto simp: send_direct_def Let_def split: if_splits sum.splits)
    moreover have "tc_state c' = tc_state c1 \<and> pieces (tc_trace c') = pieces (tc_trace c1) \<and> tc_queue c' = tc_queue c1"
      using s(2) by (auto simp: send_rest_def Let_def bind_res_eq_Inr split: if_splits)
    ultimately show ?thesis by simp
  qed
  then show "tc_state c' = tc_state c" "tc_queue c' = tc_queue c"
    "tc_state c \<noteq> kDisconnected \<Longrightarrow> pieces (tc_trace c') = pieces (tc_trace c) @ [d]"
    using assms by (cases "tc_state c = kDisconnected"; simp add: sendInLoop_def)+
qed

lemma conn_send_takes:
  assumes "conn_send no_callbacks t wr d c = Inr c'"
  shows "takes (if t then [d] else []) (if t then [] else [d]) c c'"
proof (cases "tc_state c = kConnected")
  case True
  with assms sendInLoop_takes [of wr d c c'] show ?thesis
    by (cases t) (auto simp: conn_send_def takes_def)
next
  case False
  with assms show ?thesis by (simp add: conn_send_def takes_def)
qed

lemma conn_shutdown_takes: "takes [] [] c (conn_shutdown t c)"
  by (rule takes_quiet) (auto simp: conn_shutdown_def shutdownInLoop_def Let_def setState_def split: if_splits)

lemma handleWrite_takes:
  assumes "handleWrite no_callbacks wr c = Inr c'" shows "takes [] [] c c'"
  using assms
  by (intro takes_quiet) (auto simp: handleWrite_def Let_def shutdownInLoop_def split: if_splits sum.splits)

lemma deferred_takes:
  assumes "conn_step no_callbacks (I_deferred wr) c = Inr c'" shows "takes [] [] c c'"
proof (cases "tc_queue c")
  case Nil
  with assms show ?thesis by simp
next
  case (Cons d ds)
  let ?c = "c\<lparr>tc_queue := ds\<rparr>"
  have run: "run_deferred no_callbacks wr d ?c = Inr c'" using assms Cons by simp
  show ?thesis
  proof (cases d)
    case (D_send x)
    with run sendInLoop_takes [of wr x ?c c'] Cons show ?thesis by (simp add: takes_def)
  next
    case D_shutdown
    with run Cons show ?thesis by (auto simp: takes_def shutdownInLoop_def split: if_splits)
  qed
qed

text \<open>\<open>takes\<close> together with the connection's own invariant.\<close>

definition serves :: "bytes list \<Rightarrow> bytes list \<Rightarrow> tcp_conn \<Rightarrow> tcp_conn \<Rightarrow> bool" where
  "serves own other c c' \<longleftrightarrow> takes own other c c' \<and>
     (conn_inv c \<longrightarrow> (\<forall>t \<in> set (own @ other). length t \<le> vec_max) \<longrightarrow> conn_inv c')"

lemma serves_refl [simp]: "serves [] [] c c"
  by (simp add: serves_def)

lemma serves_trans: "serves o1 p1 a b \<Longrightarrow> serves o2 p2 b c \<Longrightarrow> serves (o1 @ o2) (p1 @ p2) a c"
  unfolding serves_def using takes_trans [of o1 p1 a b o2 p2 c] by auto

lemma serves_quiet:
  assumes "tc_state c' = kConnected \<Longrightarrow> tc_state c = kConnected \<and> pieces (tc_trace c') = pieces (tc_trace c) \<and>
    tc_queue c' = tc_queue c" and "conn_inv c \<Longrightarrow> conn_inv c'"
  shows "serves [] [] c c'"
  using takes_quiet [OF assms(1)] assms(2) by (simp add: serves_def)

lemma conn_send_serves:
  assumes "conn_send no_callbacks t wr d c = Inr c'"
  shows "serves (if t then [d] else []) (if t then [] else [d]) c c'"
proof -
  have "conn_inv c'" if "conn_inv c" "length d \<le> vec_max"
    using conn_step_inv [of c no_callbacks "I_send t d wr" c'] that assms no_callbacks_keep by simp
  with conn_send_takes [OF assms] show ?thesis by (simp add: serves_def)
qed

lemma step_serves:
  "handleWrite no_callbacks wr c = Inr c' \<Longrightarrow> serves [] [] c c'"
  "conn_step no_callbacks (I_deferred wr) c = Inr c' \<Longrightarrow> serves [] [] c c'"
  "serves [] [] c (conn_shutdown t c)"
  "serves [] [] c (handleError c)"
  using handleWrite_takes [of wr c c'] deferred_takes [of wr c c'] conn_shutdown_takes [of c t]
    handleWrite_inv [of c no_callbacks wr c'] conn_step_inv [of c no_callbacks "I_deferred wr" c']
    conn_shutdown_inv [of c t] no_callbacks_keep conn_inv_emit [of c E_log]
  by (auto simp: serves_def takes_def handleError_def)

section \<open>The server's steps\<close>

definition server_serves :: "(conn \<Rightarrow> nat) \<Rightarrow> conn \<Rightarrow> tagged \<Rightarrow> (conn \<rightharpoonup> tcp_conn) \<Rightarrow> (conn \<rightharpoonup> tcp_conn) \<Rightarrow> bool" where
  "server_serves loop_of k es m m' \<longleftrightarrow> (\<forall>c. m k = Some c \<longrightarrow>
     (\<exists>c'. m' k = Some c' \<and> serves (own_texts loop_of k es) (other_texts loop_of k es) c c'))"

lemma server_serves_refl [simp]: "server_serves loop_of k [] m m"
  by (simp add: server_serves_def)

lemma server_serves_skip [simp]:
  "server_serves loop_of k ((here, Ef_shutdown q) # es) m m' = server_serves loop_of k es m m'"
  "server_serves loop_of k ((here, Ef_publish chan msg) # es) m m' = server_serves loop_of k es m m'"
  "server_serves loop_of k ((here, Ef_subscribe chan) # es) m m' = server_serves loop_of k es m m'"
  "server_serves loop_of k ((here, Ef_unsubscribe chan) # es) m m' = server_serves loop_of k es m m'"
  by (simp_all add: server_serves_def)

lemma server_serves_trans:
  "server_serves loop_of k es a b \<Longrightarrow> server_serves loop_of k es' b c \<Longrightarrow> server_serves loop_of k (es @ es') a c"
  unfolding server_serves_def using serves_trans by fastforce

lemma server_serves_update:
  assumes "m q = Some c" "serves (own_texts loop_of q es) (other_texts loop_of q es) c c'"
    "q \<noteq> k \<Longrightarrow> own_texts loop_of k es = [] \<and> other_texts loop_of k es = []"
  shows "server_serves loop_of k es m (m(q \<mapsto> c'))"
  using assms by (auto simp: server_serves_def)

lemma play_serves:
  "play_effects loop_of here wrs es m = Inr m' \<Longrightarrow> server_serves loop_of k (map (Pair here) es) m m'"
proof (induction loop_of here wrs es m rule: play_effects.induct)
  case (2 loop_of here wrs q s es m)
  let ?e = "[(here, Ef_send q s)]"
  show ?case
  proof (cases "m q")
    case None
    then have "server_serves loop_of k ?e m m" by (auto simp: server_serves_def)
    from server_serves_trans [OF this 2(1)] 2(3) None show ?thesis by simp
  next
    case (Some c)
    then obtain c' where c': "conn_send no_callbacks (here = Some (loop_of q)) (next_answer wrs) s c = Inr c'"
        "play_effects loop_of here (tl wrs) es (m(q \<mapsto> c')) = Inr m'"
      using 2(3) by (auto simp: bind_res_eq_Inr)
    have "serves (own_texts loop_of q ?e) (other_texts loop_of q ?e) c c'"
      using conn_send_serves [OF c'(1)] by (simp split: if_splits)
    then have "server_serves loop_of k ?e m (m(q \<mapsto> c'))" by (rule server_serves_update [of m q, OF Some]) simp
    from server_serves_trans [OF this 2(2) [OF Some c'(2)]] show ?thesis by simp
  qed
next
  case (3 loop_of here wrs q es m)
  show ?case
  proof (cases "m q")
    case (Some c)
    have "server_serves loop_of k [] m (m(q \<mapsto> conn_shutdown (here = Some (loop_of q)) c))"
      by (rule server_serves_update [of m q, OF Some]) (simp_all add: step_serves)
    moreover have "server_serves loop_of k (map (Pair here) es) (m(q \<mapsto> conn_shutdown (here = Some (loop_of q)) c)) m'"
      using 3(2) [OF Some] 3(3) Some by (simp del: fun_upd_apply)
    ultimately show ?thesis using server_serves_trans by fastforce
  qed (use 3 in simp)
qed simp_all

lemma serve_serves:
  assumes "serve loop_of here wrs f s = Inr (s', es)"
  shows "server_serves loop_of k es (cs_conns s) (cs_conns s')"
  using assms play_serves [of loop_of here wrs _ "cs_conns s" _ k]
  by (auto simp: serve_def split: prod.splits sum.splits)

text \<open>A step that first changes a connection quietly.\<close>

lemma quiet_first:
  assumes "cs_conns s q = Some c" "serves [] [] c c0"
    "server_serves loop_of k es (cs_conns (set_conn q c0 s)) m"
  shows "server_serves loop_of k es (cs_conns s) m"
proof -
  have "server_serves loop_of k [] (cs_conns s) (cs_conns (set_conn q c0 s))"
    unfolding set_conn_def using assms(1,2) by (auto simp: server_serves_def)
  from server_serves_trans [OF this assms(3)] show ?thesis by simp
qed

lemma chat_close_serves:
  assumes c: "cs_conns s q = Some c" and ret: "chat_close my order loop_of q c0 s = Inr (s', es)"
    and inv: "conn_inv c \<Longrightarrow> conn_inv c0"
  shows "server_serves loop_of k es (cs_conns s) (cs_conns s')"
proof -
  let ?c1 = "emit (E_connection_cb False) (setState kDisconnected c0)"
  obtain s1 where s1: "serve loop_of (Some (loop_of q)) [] (ChatServer_OnConnection my order False q) (set_conn q ?c1 s) = Inr (s1, es)"
      "s' = s1\<lparr>cs_conns := (cs_conns s1)(q := map_option (emit E_close_cb) (cs_conns s1 q))\<rparr>"
    using ret by (auto simp: chat_close_def bind_res_eq_Inr)
  have quiet: "serves [] [] c ?c1"
    using inv by (intro serves_quiet) (auto intro: conn_inv_emit)
  from quiet_first [OF c quiet serve_serves [OF s1(1)]]
  have a: "server_serves loop_of k es (cs_conns s) (cs_conns s1)" .
  have "serves [] [] x (emit E_close_cb x)" for x
    by (rule serves_quiet) (auto intro: conn_inv_emit)
  then have "server_serves loop_of k [] (cs_conns s1) (cs_conns s')" by (simp add: server_serves_def s1(2))
  from server_serves_trans [OF a this] show ?thesis by simp
qed

lemma readFd_keeps: 
  assumes "readFd (\<lambda>m. map_sum id (take m) r) (tc_input c) = Inr (b, q)"
  shows "conn_inv c \<Longrightarrow> conn_inv (c\<lparr>tc_input := b\<rparr>)"
proof -
  assume inv: "conn_inv c"
  have "length d \<le> m" if "map_sum id (take m) r = Inr d" for m d using that by (cases r) auto
  from readFd_returns [of "tc_input c" "\<lambda>m. map_sum id (take m) r" b q, OF _ this assms] inv
  have "buf_inv b" by (auto simp: conn_inv_def unsent_def)
  with inv show "conn_inv (c\<lparr>tc_input := b\<rparr>)" by (rule conn_inv_input)
qed

lemma chat_read_serves:
  assumes c: "cs_conns s q = Some c" and ret: "chat_read my lib order loop_of r wrs q c s = Inr (s', es)"
  shows "server_serves loop_of k es (cs_conns s) (cs_conns s')"
proof -
  obtain b x where b: "readFd (\<lambda>m. map_sum id (take m) r) (tc_input c) = Inr (b, x)"
    using ret by (auto simp: chat_read_def split: sum.splits)
  let ?c = "c\<lparr>tc_input := b\<rparr>"
  have inv: "conn_inv c \<Longrightarrow> conn_inv ?c" using readFd_keeps [OF b] .
  show ?thesis
  proof (cases x)
    case (Inl e)
    have "serves [] [] c (handleError ?c)"
      by (rule serves_quiet) (auto simp: handleError_def intro: conn_inv_emit inv)
    from quiet_first [OF c this server_serves_refl] ret b Inl show ?thesis by (simp add: chat_read_def)
  next
    case (Inr n)
    show ?thesis
    proof (cases "n > 0")
      case True
      let ?m = "emit E_message_cb ?c"
      obtain buff input where m: "retrieveAllAsString (tc_input ?m) = (buff, input)" by (metis surj_pair)
      have keep: "conn_inv c \<Longrightarrow> conn_inv (?m\<lparr>tc_input := input\<rparr>)"
      proof -
        assume "conn_inv c"
        then have i: "conn_inv ?m" by (intro conn_inv_emit inv) simp_all
        then have "buf_inv input" using m by (auto simp: retrieveAllAsString_def conn_inv_def unsent_def intro: retrieveAll_inv)
        with i show "conn_inv (?m\<lparr>tc_input := input\<rparr>)" by (rule conn_inv_input)
      qed
      have "serves [] [] c (?m\<lparr>tc_input := input\<rparr>)" by (rule serves_quiet) (simp_all add: keep)
      moreover have "serve loop_of (Some (loop_of q)) wrs (ChatServer_OnMessage my lib q buff) (set_conn q (?m\<lparr>tc_input := input\<rparr>) s) = Inr (s', es)"
        using ret b Inr True m by (simp add: chat_read_def chat_onMessage_def)
      ultimately show ?thesis using quiet_first [OF c _ serve_serves] by blast
    next
      case False
      then have "chat_close my order loop_of q ?c s = Inr (s', es)" using ret b Inr by (simp add: chat_read_def)
      from chat_close_serves [OF c this inv] show ?thesis .
    qed
  qed
qed

lemma lift_conn_serves:
  assumes c: "cs_conns s q = Some c" and ret: "lift_conn f q s = Inr (s', es)" and op: "\<And>c'. f = Inr c' \<Longrightarrow> serves [] [] c c'"
  shows "server_serves loop_of k es (cs_conns s) (cs_conns s')"
proof -
  obtain c' where c': "f = Inr c'" "s' = set_conn q c' s" "es = []"
    using ret by (auto simp: lift_conn_def split: sum.splits)
  from quiet_first [OF c op [OF c'(1)] server_serves_refl] c' show ?thesis by simp
qed

lemma chat_net_step_serves:
  assumes ret: "chat_net_step my lib order loop_of ev s = Inr (s', es)"
  shows "server_serves loop_of k es (cs_conns s) (cs_conns s')"
proof (cases ev)
  case (N_accept q f)
  show ?thesis
  proof (cases "cs_conns s q")
    case None
    with ret N_accept show ?thesis by (auto simp: lift_conn_def set_conn_def server_serves_def split: sum.splits)
  qed (use ret N_accept in simp)
next
  case (N_published chan msg)
  with ret show ?thesis by (auto intro: serve_serves)
next
  case (N_readable q r wrs)
  with ret show ?thesis by (auto intro: chat_read_serves split: option.splits)
next
  case (N_writable q wr)
  with ret show ?thesis by (auto intro: lift_conn_serves step_serves split: option.splits)
next
  case (N_deferred q wr)
  with ret step_serves(2) show ?thesis
    by (auto intro: lift_conn_serves simp del: conn_step.simps split: option.splits)
next
  case (N_hangup q)
  with ret show ?thesis by (auto intro: chat_close_serves split: option.splits)
next
  case (N_error q)
  show ?thesis
  proof (cases "cs_conns s q")
    case (Some c)
    from quiet_first [OF Some step_serves(4) server_serves_refl] ret N_error Some show ?thesis by auto
  qed (use ret N_error in simp)
qed

lemma chat_net_run_serves:
  "chat_net_run my lib order loop_of evs s = Inr (s', es) \<Longrightarrow>
   server_serves loop_of k es (cs_conns s) (cs_conns s')"
proof (induction evs arbitrary: s es)
  case (Cons ev evs)
  then obtain s1 es1 es2 where s1: "chat_net_step my lib order loop_of ev s = Inr (s1, es1)"
      "chat_net_run my lib order loop_of evs s1 = Inr (s', es2)" "es = es1 @ es2"
    by (auto simp: bind_res_eq_Inr)
  from server_serves_trans [OF chat_net_step_serves [OF s1(1)] Cons.IH [OF s1(2)]] s1(3) show ?case by simp
qed simp

text \<open>A segment that finds the buffer empty is one message to the service, and leaves it empty.\<close>

lemma segment_is_message:
  assumes "buf_inv (tc_input c)" and "content (tc_input c) = []" and "buf_room (tc_input c) (length d)"
    and "d \<noteq> []" and "length d \<le> extrabuf_size"
  shows "\<exists>b. buf_inv b \<and> content b = [] \<and> chat_read my lib order loop_of (Inr d) wrs k c s =
    serve loop_of (Some (loop_of k)) wrs (ChatServer_OnMessage my lib k d)
      (set_conn k ((emit E_message_cb c)\<lparr>tc_input := b\<rparr>) s)"
proof -
  have rd: "map_sum id (take (iov_total (tc_input c))) (Inr d) = Inr d"
    using assms(5) iov_total_room [of "tc_input c"] by simp
  obtain b where b: "readFd (\<lambda>m. map_sum id (take m) (Inr d)) (tc_input c) = Inr (b, Inr (length d))" "buf_inv b" "content b = d"
    using readFd_data [of "tc_input c" "\<lambda>m. map_sum id (take m) (Inr d)" d, OF assms(1) rd assms(3)] assms(2) by auto
  have msg: "(emit E_message_cb (c\<lparr>tc_input := b\<rparr>))\<lparr>tc_input := x\<rparr> = (emit E_message_cb c)\<lparr>tc_input := x\<rparr>" for x
    by (simp add: emit_def)
  then show ?thesis
    using b assms(4) retrieveAll_inv [OF b(2)]
    by (intro exI [of _ "retrieveAll b"]) (simp add: chat_read_def chat_onMessage_def retrieveAllAsString_ok [OF b(2)] msg)
qed

section \<open>Property\<close>

text \<open>
  Property (C18). Texts reach their connection: over any run of the server without an exception, a
  connection that is still connected at the end has accepted, each once and whole, the texts sent
  to it from its own loop, in order, and a first part of those other threads sent, in order, and
  the rest of these wait in its queue; texts from its own loop may overtake waiting ones. Unless a
  write failed for good, the bytes written and those in its output buffer are the accepted texts.
\<close>

theorem chat_texts_delivered:
  assumes "chat_net_run my lib order loop_of evs s = Inr (s', es)"
    and "cs_conns s k = Some c" and "conn_inv c" and "cs_conns s' k = Some c'" and "tc_state c' = kConnected"
    and "\<forall>t \<in> set (own_texts loop_of k es @ other_texts loop_of k es). length t \<le> vec_max"
  shows "(\<exists>new taken. pieces (tc_trace c') = pieces (tc_trace c) @ new \<and>
      new \<in> shuffles (own_texts loop_of k es) taken \<and>
      waiting (tc_queue c) @ other_texts loop_of k es = taken @ waiting (tc_queue c')) \<and>
    (intact (tc_trace c') \<longrightarrow> written (tc_trace c') @ content (tc_output c') = concat (pieces (tc_trace c')))"
proof -
  have "serves (own_texts loop_of k es) (other_texts loop_of k es) c c'"
    using chat_net_run_serves [OF assms(1), of k] assms(2,4) by (simp add: server_serves_def)
  then have "takes (own_texts loop_of k es) (other_texts loop_of k es) c c'" "conn_inv c'"
    using assms(3,6) by (simp_all add: serves_def)
  then show ?thesis
    using assms(5) by (simp add: takes_def pieces_accepted conn_inv_def unsent_def)
qed

text \<open>A message of another server for user 8, whose connection is on loop 1.\<close>

definition sample_server :: "unit chat_server" where
  "sample_server = \<lparr>cs_world = \<lparr>cw_db = (), cw_conns = [8 \<mapsto> 0], cw_out = []\<rparr>, cs_conns = [0 \<mapsto> sample_conn]\<rparr>"

definition sample_net_events :: "chat_net_event list" where
  "sample_net_events = [N_published (user_channel 8) ''hi'', N_deferred 0 (Inr 2)]"

lemma sample_net_run:
  "\<exists>s'. chat_net_run my lib order (\<lambda>_. 1) sample_net_events sample_server = Inr (s', [(None, Ef_send 0 ''hi'')]) \<and>
     cs_conns s' 0 = Some (emit (E_written ''hi'') (emit (E_accepted ''hi'') sample_conn))"
proof -
  have n: "stoi (to_string 8) = Inr 8" by (rule stoi_to_string) (simp_all add: int_min_def int_max_def)
  have c: "tc_state sample_conn = kConnected" "tc_queue sample_conn = []"
    by (simp_all add: sample_conn_def new_connection_def setState_def)
  have t: "\<not> iswrite (tie (new_channel 5))" by (simp add: iswrite_bit tie_def new_channel_def)
  have w: "\<not> iswrite (tc_channel sample_conn)" "readableBytes (tc_output sample_conn) = 0"
    using length_content [OF sample_buffer(1)] sample_buffer(2)
    by (simp_all add: sample_conn_def new_connection_def setState_def t)
  let ?q = "sample_conn\<lparr>tc_queue := [D_send ''hi'']\<rparr>"
  have pub: "chat_net_step my lib order (\<lambda>_. 1) (N_published (user_channel 8) ''hi'') sample_server =
      Inr (sample_server\<lparr>cs_world := \<lparr>cw_db = (), cw_conns = [8 \<mapsto> 0], cw_out = [Ef_send 0 ''hi'']\<rparr>, cs_conns := [0 \<mapsto> ?q]\<rparr>,
        [(None, Ef_send 0 ''hi'')])"
    by (simp add: serve_def handleRedisSubscribeMessage_def user_channel_def n sample_server_def effect_def conn_send_def c)
  have snd: "sendInLoop no_callbacks (Inr 2) ''hi'' sample_conn = Inr (emit (E_written ''hi'') (emit (E_accepted ''hi'') sample_conn))"
    using c w by (simp add: sendInLoop_def send_direct_def send_rest_def write_count_def)
  have "?q\<lparr>tc_queue := []\<rparr> = sample_conn" using c(2) by simp
  then have run: "conn_step no_callbacks (I_deferred (Inr 2)) ?q = Inr (emit (E_written ''hi'') (emit (E_accepted ''hi'') sample_conn))"
    using snd by simp
  let ?s = "sample_server\<lparr>cs_world := \<lparr>cw_db = (), cw_conns = [8 \<mapsto> 0], cw_out = [Ef_send 0 ''hi'']\<rparr>, cs_conns := [0 \<mapsto> ?q]\<rparr>"
  have "chat_net_step my lib order (\<lambda>_. 1) (N_deferred 0 (Inr 2)) ?s =
      Inr (set_conn 0 (emit (E_written ''hi'') (emit (E_accepted ''hi'') sample_conn)) ?s, [])"
    using run by (simp add: lift_conn_def del: conn_step.simps)
  then show ?thesis
    unfolding sample_net_events_def chat_net_run.simps pub by (simp add: set_conn_def del: chat_net_step.simps)
qed

lemma chat_texts_delivered_witness:
  "\<forall>(my :: unit mysql) lib order. \<exists>s' c'. chat_net_run my lib order (\<lambda>_. 1) sample_net_events sample_server = Inr (s', [(None, Ef_send 0 ''hi'')]) \<and>
     cs_conns s' 0 = Some c' \<and> written (tc_trace c') @ content (tc_output c') = ''hi''"
proof (intro allI)
  fix my :: "unit mysql" and lib order
  let ?c = "emit (E_written ''hi'') (emit (E_accepted ''hi'') sample_conn)"
  obtain s' where run: "chat_net_run my lib order (\<lambda>_. 1) sample_net_events sample_server = Inr (s', [(None, Ef_send 0 ''hi'')])"
      "cs_conns s' 0 = Some ?c"
    using sample_net_run by blast
  have start: "cs_conns sample_server 0 = Some sample_conn" by (simp add: sample_server_def)
  have inv: "conn_inv sample_conn"
    using connectEstablished_inv [OF new_connection_inv [OF sample_buffer(1,1,2)] no_callbacks_keep sample_established] .
  have up: "tc_state ?c = kConnected" "intact (tc_trace ?c)" "concat (pieces (tc_trace ?c)) = ''hi''"
    by (simp_all add: sample_conn_def new_connection_def setState_def)
  have short: "\<forall>t \<in> set (own_texts (\<lambda>_. 1) 0 [(None, Ef_send 0 ''hi'')] @ other_texts (\<lambda>_. 1) 0 [(None, Ef_send 0 ''hi'')]).
      length t \<le> vec_max" by (simp add: vec_max_def)
  from chat_texts_delivered [OF run(1) start inv run(2) up(1) short] up(2,3)
  have "written (tc_trace ?c) @ content (tc_output ?c) = ''hi''" by metis
  with run show "\<exists>s' c'. chat_net_run my lib order (\<lambda>_. 1) sample_net_events sample_server = Inr (s', [(None, Ef_send 0 ''hi'')]) \<and>
     cs_conns s' 0 = Some c' \<and> written (tc_trace c') @ content (tc_output c') = ''hi''" by blast
qed

end
