(* ===== verification/PbRuntime.thy ===== *)
theory PbRuntime
  imports Prelude
begin

text \<open>
  The protobuf runtime library as the generated code (\<^verbatim>\<open>mprpc.pb.cc\<close>, \<^verbatim>\<open>user.pb.cc\<close>)
  uses it. The library is not part of the repository: its readers and writers are the fields of
  a record \<open>pb_runtime\<close>, and what the generated code relies on is the predicate \<open>wire_ok\<close>,
  the documented behaviour of the wire format. The parse loop, the same in every generated
  \<^verbatim>\<open>_InternalParse\<close>, is defined here once over the message's \<open>switch\<close>.

  A message is a record of its fields together with its set of unknown fields.
\<close>

unbundle bit_operations_syntax

section \<open>The runtime's functions\<close>

text \<open>
  Readers take the input from the current position and return the value with the rest of the
  input, or \<^term>\<open>None\<close> for the null pointer. \<open>rt_Delimited\<close> is the length-prefixed body that
  \<^verbatim>\<open>ParseContext::ParseMessage\<close> hands to the sub-message's parser; \<open>rt_AtEnd\<close> is the
  acceptance test of \<^verbatim>\<open>ParseFromString\<close>, and of \<^verbatim>\<open>ParseMessage\<close> on the body of a
  sub-message, after \<^verbatim>\<open>_InternalParse\<close> returned, given the last
  tag the generated code set, if any, and the unread input; \<open>rt_CanSerialize\<close> is the size limit
  under which \<^verbatim>\<open>SerializeToString\<close> returns true. Writers return the bytes they add
  to the output.
\<close>

record 'u pb_runtime =
  rt_ReadTag :: "bytes \<Rightarrow> (u32 \<times> bytes) option"
  rt_ReadString :: "bytes \<Rightarrow> (bytes \<times> bytes) option"
  rt_ReadVarint32 :: "bytes \<Rightarrow> (u32 \<times> bytes) option"
  rt_ReadVarint64 :: "bytes \<Rightarrow> (u64 \<times> bytes) option"
  rt_Delimited :: "bytes \<Rightarrow> (bytes \<times> bytes) option"
  rt_UnknownFieldParse :: "u32 \<Rightarrow> 'u \<Rightarrow> bytes \<Rightarrow> ('u \<times> bytes) option"
  rt_VerifyUTF8 :: "bytes \<Rightarrow> bool"
  rt_AtEnd :: "u32 option \<Rightarrow> bytes \<Rightarrow> bool"
  rt_WriteString :: "nat \<Rightarrow> bytes \<Rightarrow> bytes"
  rt_WriteMessage :: "nat \<Rightarrow> bytes \<Rightarrow> bytes"
  rt_WriteUInt32 :: "nat \<Rightarrow> u32 \<Rightarrow> bytes"
  rt_WriteInt32 :: "nat \<Rightarrow> u32 \<Rightarrow> bytes"
  rt_WriteBool :: "nat \<Rightarrow> bool \<Rightarrow> bytes"
  rt_StringSize :: "bytes \<Rightarrow> nat"
  rt_MessageSize :: "nat \<Rightarrow> nat"
  rt_UInt32SizePlusOne :: "u32 \<Rightarrow> nat"
  rt_Int32SizePlusOne :: "u32 \<Rightarrow> nat"
  rt_NoUnknown :: "'u"
  rt_have_unknown :: "'u \<Rightarrow> bool"
  rt_SerializeUnknown :: "'u \<Rightarrow> bytes"
  rt_MergeUnknown :: "'u \<Rightarrow> 'u \<Rightarrow> 'u"
  rt_CanSerialize :: "nat \<Rightarrow> bool"

section \<open>The parse loop\<close>

text \<open>What a \<^verbatim>\<open>case\<close> of the generated \<^verbatim>\<open>switch (tag >> 3)\<close> does.\<close>

datatype 'f field_result = FR_failure | FR_unusual | FR_continue 'f bytes

text \<open>
  \<^verbatim>\<open>while (!ctx->Done(&ptr))\<close>: one unit of fuel per field. The result is the message, the
  last tag set, and the unread input.
\<close>

fun parse_fields ::
  "'u pb_runtime \<Rightarrow> (u32 \<Rightarrow> 'f \<Rightarrow> bytes \<Rightarrow> 'f field_result) \<Rightarrow> nat \<Rightarrow> 'f \<times> 'u \<Rightarrow> bytes
     \<Rightarrow> (('f \<times> 'u) \<times> u32 option \<times> bytes) option" where
  "parse_fields rt sw 0 m s = None"
| "parse_fields rt sw (Suc n) (f, u) s =
     (if s = [] then Some ((f, u), None, [])
      else case rt_ReadTag rt s of
          None \<Rightarrow> None
        | Some (tag, s1) \<Rightarrow>
            (case sw tag f s1 of
               FR_failure \<Rightarrow> None
             | FR_continue f' s2 \<Rightarrow> parse_fields rt sw n (f', u) s2
             | FR_unusual \<Rightarrow>
                 if tag = 0 \<or> tag AND 7 = 4 then Some ((f, u), Some tag, s1)
                 else (case rt_UnknownFieldParse rt tag u s1 of
                         None \<Rightarrow> None
                       | Some (u', s2) \<Rightarrow> parse_fields rt sw n (f, u') s2)))"

definition InternalParse ::
  "'u pb_runtime \<Rightarrow> (u32 \<Rightarrow> 'f \<Rightarrow> bytes \<Rightarrow> 'f field_result) \<Rightarrow> 'f \<times> 'u \<Rightarrow> bytes
     \<Rightarrow> (('f \<times> 'u) \<times> u32 option \<times> bytes) option" where
  "InternalParse rt sw m s = parse_fields rt sw (Suc (length s)) m s"

text \<open>Parsing a whole string into a cleared message; \<^verbatim>\<open>IsInitialized()\<close> is always true.\<close>

definition ParseFromString ::
  "'u pb_runtime \<Rightarrow> (u32 \<Rightarrow> 'f \<Rightarrow> bytes \<Rightarrow> 'f field_result) \<Rightarrow> 'f \<Rightarrow> bytes \<Rightarrow> ('f \<times> 'u) option"
  where
  "ParseFromString rt sw f0 s =
     (case InternalParse rt sw (f0, rt_NoUnknown rt) s of
        None \<Rightarrow> None
      | Some (m, last_tag, rest) \<Rightarrow> if rt_AtEnd rt last_tag rest then Some m else None)"

definition SerializeToString :: "'u pb_runtime \<Rightarrow> bytes \<Rightarrow> bytes option" where
  "SerializeToString rt out = (if rt_CanSerialize rt (length out) then Some out else None)"

text \<open>
  What the cases of a \<^verbatim>\<open>switch\<close> do with a field of each type: \<open>upd\<close> is the message with the
  value stored. \<^verbatim>\<open>ParseMessage\<close> runs the sub-message's parser, \<open>sub\<close>, on the delimited body.
\<close>

definition parse_bytes :: "'u pb_runtime \<Rightarrow> (bytes \<Rightarrow> 'f) \<Rightarrow> bytes \<Rightarrow> 'f field_result" where
  "parse_bytes rt upd s =
     (case rt_ReadString rt s of None \<Rightarrow> FR_failure | Some (x, s') \<Rightarrow> FR_continue (upd x) s')"

definition parse_varint32 :: "'u pb_runtime \<Rightarrow> (u32 \<Rightarrow> 'f) \<Rightarrow> bytes \<Rightarrow> 'f field_result" where
  "parse_varint32 rt upd s =
     (case rt_ReadVarint32 rt s of None \<Rightarrow> FR_failure | Some (x, s') \<Rightarrow> FR_continue (upd x) s')"

definition parse_bool :: "'u pb_runtime \<Rightarrow> (bool \<Rightarrow> 'f) \<Rightarrow> bytes \<Rightarrow> 'f field_result" where
  "parse_bool rt upd s =
     (case rt_ReadVarint64 rt s of
        None \<Rightarrow> FR_failure | Some (x, s') \<Rightarrow> FR_continue (upd (x \<noteq> 0)) s')"

definition parse_message ::
  "'u pb_runtime \<Rightarrow> (bytes \<Rightarrow> ('m \<times> u32 option \<times> bytes) option) \<Rightarrow> ('m \<Rightarrow> 'f) \<Rightarrow> bytes
     \<Rightarrow> 'f field_result" where
  "parse_message rt sub upd s =
     (case rt_Delimited rt s of
        None \<Rightarrow> FR_failure
      | Some (body, s') \<Rightarrow>
          (case sub body of
             None \<Rightarrow> FR_failure
           | Some (m, last_tag, rest) \<Rightarrow>
               if rt_AtEnd rt last_tag rest then FR_continue (upd m) s' else FR_failure))"

section \<open>Documented behaviour of the runtime\<close>

definition tag_word :: "nat \<Rightarrow> nat \<Rightarrow> u32" where
  "tag_word field wire_type = of_nat (8 * field + wire_type)"

definition field_ok :: "nat \<Rightarrow> bool" where
  "field_ok f \<longleftrightarrow> 1 \<le> f \<and> f \<le> 15"

definition wire_reads :: "'u pb_runtime \<Rightarrow> bool" where
  "wire_reads rt \<longleftrightarrow>
     (\<forall>s t r. rt_ReadTag rt s = Some (t, r) \<longrightarrow> length r < length s) \<and>
     (\<forall>s x r. rt_ReadString rt s = Some (x, r) \<longrightarrow> length r \<le> length s) \<and>
     (\<forall>s x r. rt_ReadVarint32 rt s = Some (x, r) \<longrightarrow> length r \<le> length s) \<and>
     (\<forall>s x r. rt_ReadVarint64 rt s = Some (x, r) \<longrightarrow> length r \<le> length s) \<and>
     (\<forall>s x r. rt_Delimited rt s = Some (x, r) \<longrightarrow> length r \<le> length s) \<and>
     (\<forall>t u s u' r. rt_UnknownFieldParse rt t u s = Some (u', r) \<longrightarrow> length r \<le> length s)"

definition wire_roundtrips :: "'u pb_runtime \<Rightarrow> bool" where
  "wire_roundtrips rt \<longleftrightarrow>
     (\<forall>f s r. field_ok f \<and> length s < 2 ^ 31 \<longrightarrow>
        (\<exists>b. rt_ReadTag rt (rt_WriteString rt f s @ r) = Some (tag_word f 2, b) \<and>
             rt_ReadString rt b = Some (s, r))) \<and>
     (\<forall>f s r. field_ok f \<and> length s < 2 ^ 31 \<longrightarrow>
        (\<exists>b. rt_ReadTag rt (rt_WriteMessage rt f s @ r) = Some (tag_word f 2, b) \<and>
             rt_Delimited rt b = Some (s, r))) \<and>
     (\<forall>f v r. field_ok f \<longrightarrow>
        (\<exists>b. rt_ReadTag rt (rt_WriteUInt32 rt f v @ r) = Some (tag_word f 0, b) \<and>
             rt_ReadVarint32 rt b = Some (v, r))) \<and>
     (\<forall>f v r. field_ok f \<longrightarrow>
        (\<exists>b. rt_ReadTag rt (rt_WriteInt32 rt f v @ r) = Some (tag_word f 0, b) \<and>
             rt_ReadVarint32 rt b = Some (v, r))) \<and>
     (\<forall>f v r. field_ok f \<longrightarrow>
        (\<exists>b. rt_ReadTag rt (rt_WriteBool rt f v @ r) = Some (tag_word f 0, b) \<and>
             rt_ReadVarint64 rt b = Some (if v then 1 else 0, r))) \<and>
     rt_AtEnd rt None [] \<and> \<not> rt_have_unknown rt (rt_NoUnknown rt) \<and>
     (\<forall>n < 2 ^ 31. rt_CanSerialize rt n) \<and> (\<forall>u. rt_MergeUnknown rt (rt_NoUnknown rt) u = u) \<and>
     (\<forall>u. rt_MergeUnknown rt u (rt_NoUnknown rt) = u)"

text \<open>The size functions of the runtime give the lengths its writers produce.\<close>

definition wire_sizes :: "'u pb_runtime \<Rightarrow> bool" where
  "wire_sizes rt \<longleftrightarrow>
     (\<forall>f s. field_ok f \<longrightarrow> length (rt_WriteString rt f s) = 1 + rt_StringSize rt s) \<and>
     (\<forall>f s. field_ok f \<longrightarrow> length (rt_WriteMessage rt f s) = 1 + rt_MessageSize rt (length s)) \<and>
     (\<forall>f v. field_ok f \<longrightarrow> length (rt_WriteUInt32 rt f v) = rt_UInt32SizePlusOne rt v) \<and>
     (\<forall>f v. field_ok f \<longrightarrow> length (rt_WriteInt32 rt f v) = rt_Int32SizePlusOne rt v) \<and>
     (\<forall>f v. field_ok f \<longrightarrow> length (rt_WriteBool rt f v) = 2)"

definition wire_ok :: "'u pb_runtime \<Rightarrow> bool" where
  "wire_ok rt \<longleftrightarrow> wire_reads rt \<and> wire_roundtrips rt"

section \<open>Lemmas\<close>

lemma wire_readsD:
  assumes "wire_reads rt"
  shows "rt_ReadTag rt s = Some (t, r) \<Longrightarrow> length r < length s"
    "rt_ReadString rt s = Some (x, r) \<Longrightarrow> length r \<le> length s"
    "rt_ReadVarint32 rt s = Some (v, r) \<Longrightarrow> length r \<le> length s"
    "rt_ReadVarint64 rt s = Some (w, r) \<Longrightarrow> length r \<le> length s"
    "rt_Delimited rt s = Some (x, r) \<Longrightarrow> length r \<le> length s"
    "rt_UnknownFieldParse rt t u s = Some (u', r) \<Longrightarrow> length r \<le> length s"
  using assms by (simp_all add: wire_reads_def)

text \<open>A \<open>switch\<close> makes progress: what it leaves is no longer than its input.\<close>

definition sw_progress :: "(u32 \<Rightarrow> 'f \<Rightarrow> bytes \<Rightarrow> 'f field_result) \<Rightarrow> bool" where
  "sw_progress sw \<longleftrightarrow> (\<forall>t f s f' r. sw t f s = FR_continue f' r \<longrightarrow> length r \<le> length s)"

text \<open>Fuel beyond the length of the input changes nothing: every field consumes a byte.\<close>

lemma parse_fields_fuel:
  "wire_reads rt \<Longrightarrow> sw_progress sw \<Longrightarrow> length s < n \<Longrightarrow> length s < k \<Longrightarrow>
   parse_fields rt sw n m s = parse_fields rt sw k m s"
proof (induction n arbitrary: k m s)
  case 0
  then show ?case by simp
next
  case (Suc n)
  obtain k' where k: "k = Suc k'" using Suc.prems(4) by (cases k) auto
  obtain f u where m: "m = (f, u)" by (cases m)
  have IH: "parse_fields rt sw n m' r = parse_fields rt sw k' m' r"
    if "length r < length s" for m' r
    using Suc.IH [of r k' m'] Suc.prems that k by simp
  show ?case
  proof (cases "rt_ReadTag rt s")
    case None
    then show ?thesis by (simp add: m k)
  next
    case (Some p)
    obtain tag s1 where p: "p = (tag, s1)" by (cases p)
    have len: "length s1 < length s" using Suc.prems(1) Some p by (auto dest: wire_readsD)
    show ?thesis
    proof (cases "sw tag f s1")
      case (FR_continue f' s2)
      then have "length s2 \<le> length s1" using Suc.prems(2) by (auto simp: sw_progress_def)
      with len IH FR_continue show ?thesis by (simp add: m k Some p)
    next
      case FR_unusual
      have "length s2 < length s" if "rt_UnknownFieldParse rt tag u s1 = Some (u', s2)" for u' s2
        using wire_readsD(6) [OF Suc.prems(1) that] len by simp
      with IH FR_unusual show ?thesis
        by (auto simp: m k Some p split: option.splits)
    qed (simp add: m k Some p)
  qed
qed

lemma InternalParse_Nil [simp]: "InternalParse rt sw m [] = Some (m, None, [])"
  by (cases m) (simp add: InternalParse_def)

text \<open>One known field at the front of the input.\<close>

lemma InternalParse_field:
  assumes "wire_reads rt" "sw_progress sw"
    and "rt_ReadTag rt s = Some (tag, s1)" "sw tag f s1 = FR_continue f' s2"
  shows "InternalParse rt sw (f, u) s = InternalParse rt sw (f', u) s2"
proof -
  have l1: "length s1 < length s" using assms(1,3) by (rule wire_readsD(1))
  have l2: "length s2 \<le> length s1" using assms(2,4) by (auto simp: sw_progress_def)
  from l1 have "s \<noteq> []" by auto
  then have "InternalParse rt sw (f, u) s = parse_fields rt sw (length s) (f', u) s2"
    by (simp add: InternalParse_def assms(3,4))
  also have "\<dots> = parse_fields rt sw (Suc (length s2)) (f', u) s2"
    using l1 l2 by (intro parse_fields_fuel assms(1,2)) auto
  finally show ?thesis by (simp add: InternalParse_def)
qed

lemma wire_roundtripsD:
  assumes "wire_roundtrips rt" "field_ok f"
  shows "length s < 2 ^ 31 \<Longrightarrow>
      \<exists>b. rt_ReadTag rt (rt_WriteString rt f s @ r) = Some (tag_word f 2, b) \<and>
        rt_ReadString rt b = Some (s, r)"
    and "length s < 2 ^ 31 \<Longrightarrow>
      \<exists>b. rt_ReadTag rt (rt_WriteMessage rt f s @ r) = Some (tag_word f 2, b) \<and>
        rt_Delimited rt b = Some (s, r)"
    and "\<exists>b. rt_ReadTag rt (rt_WriteUInt32 rt f v @ r) = Some (tag_word f 0, b) \<and>
        rt_ReadVarint32 rt b = Some (v, r)"
    and "\<exists>b. rt_ReadTag rt (rt_WriteInt32 rt f v @ r) = Some (tag_word f 0, b) \<and>
        rt_ReadVarint32 rt b = Some (v, r)"
    and "\<exists>b. rt_ReadTag rt (rt_WriteBool rt f w @ r) = Some (tag_word f 0, b) \<and>
        rt_ReadVarint64 rt b = Some (if w then 1 else 0, r)"
  using assms unfolding wire_roundtrips_def by blast+

lemma wire_roundtrips_end:
  assumes "wire_roundtrips rt"
  shows "rt_AtEnd rt None []" "\<not> rt_have_unknown rt (rt_NoUnknown rt)"
    "n < 2 ^ 31 \<Longrightarrow> rt_CanSerialize rt n" "rt_MergeUnknown rt (rt_NoUnknown rt) u = u"
    "rt_MergeUnknown rt u (rt_NoUnknown rt) = u"
  using assms unfolding wire_roundtrips_def by blast+

text \<open>One written field of each type at the front of the input.\<close>

lemma parse_written_bytes:
  assumes "wire_ok rt" "sw_progress sw" "field_ok n" "length x < 2 ^ 31"
    and "\<And>s. sw (tag_word n 2) f s = parse_bytes rt upd s"
  shows "InternalParse rt sw (f, u) (rt_WriteString rt n x @ q) = InternalParse rt sw (upd x, u) q"
proof -
  have rd: "wire_reads rt" and rts: "wire_roundtrips rt" using assms(1) by (auto simp: wire_ok_def)
  from wire_roundtripsD(1) [OF rts assms(3,4), of q] assms(5) show ?thesis
    by (auto intro!: InternalParse_field [OF rd assms(2)] simp: parse_bytes_def)
qed

lemma parse_written_int32:
  assumes "wire_ok rt" "sw_progress sw" "field_ok n"
    and "\<And>s. sw (tag_word n 0) f s = parse_varint32 rt upd s"
  shows "InternalParse rt sw (f, u) (rt_WriteInt32 rt n x @ q) = InternalParse rt sw (upd x, u) q"
    and "InternalParse rt sw (f, u) (rt_WriteUInt32 rt n x @ q) = InternalParse rt sw (upd x, u) q"
proof -
  have rd: "wire_reads rt" and rts: "wire_roundtrips rt" using assms(1) by (auto simp: wire_ok_def)
  from wire_roundtripsD(4) [OF rts assms(3), of x q] assms(4)
  show "InternalParse rt sw (f, u) (rt_WriteInt32 rt n x @ q) = InternalParse rt sw (upd x, u) q"
    by (auto intro!: InternalParse_field [OF rd assms(2)] simp: parse_varint32_def)
  from wire_roundtripsD(3) [OF rts assms(3), of x q] assms(4)
  show "InternalParse rt sw (f, u) (rt_WriteUInt32 rt n x @ q) = InternalParse rt sw (upd x, u) q"
    by (auto intro!: InternalParse_field [OF rd assms(2)] simp: parse_varint32_def)
qed

lemma parse_written_bool:
  assumes "wire_ok rt" "sw_progress sw" "field_ok n"
    and "\<And>s. sw (tag_word n 0) f s = parse_bool rt upd s"
  shows "InternalParse rt sw (f, u) (rt_WriteBool rt n x @ q) = InternalParse rt sw (upd x, u) q"
proof -
  have rd: "wire_reads rt" and rts: "wire_roundtrips rt" using assms(1) by (auto simp: wire_ok_def)
  from wire_roundtripsD(5) [OF rts assms(3), of x q] assms(4) show ?thesis
    by (auto intro!: InternalParse_field [OF rd assms(2)] simp: parse_bool_def)
qed

lemma parse_written_message:
  assumes "wire_ok rt" "sw_progress sw" "field_ok n" "length x < 2 ^ 31"
    and "\<And>s. sw (tag_word n 2) f s = parse_message rt sub upd s"
    and "sub x = Some (m, None, [])"
  shows "InternalParse rt sw (f, u) (rt_WriteMessage rt n x @ q) = InternalParse rt sw (upd m, u) q"
proof -
  have rd: "wire_reads rt" and rts: "wire_roundtrips rt" using assms(1) by (auto simp: wire_ok_def)
  from wire_roundtripsD(2) [OF rts assms(3,4), of q] assms(5,6) wire_roundtrips_end(1) [OF rts]
  show ?thesis
    by (auto intro!: InternalParse_field [OF rd assms(2)] simp: parse_message_def)
qed

lemma parse_field_progress:
  assumes "wire_reads rt"
  shows "parse_bytes rt upd s = FR_continue f r \<Longrightarrow> length r \<le> length s"
    and "parse_varint32 rt upd32 s = FR_continue f r \<Longrightarrow> length r \<le> length s"
    and "parse_bool rt updb s = FR_continue f r \<Longrightarrow> length r \<le> length s"
    and "parse_message rt sub updm s = FR_continue f r \<Longrightarrow> length r \<le> length s"
  using wire_readsD [OF assms]
  by (auto simp: parse_bytes_def parse_varint32_def parse_bool_def parse_message_def
      split: option.splits prod.splits if_splits)

section \<open>Messages\<close>

text \<open>
  The contract between a generated class and the code that uses it: writing a message in front
  of any input and parsing merges it into the message parsed into, and merging into the default
  message gives the message back.
\<close>

locale wire_message =
  fixes sw :: "'u pb_runtime \<Rightarrow> u32 \<Rightarrow> 'f \<Rightarrow> bytes \<Rightarrow> 'f field_result"
    and f0 :: 'f
    and ser :: "'u pb_runtime \<Rightarrow> 'f \<times> 'u \<Rightarrow> bytes"
    and merge :: "'u pb_runtime \<Rightarrow> 'f \<Rightarrow> 'f \<Rightarrow> 'f"
    and writable :: "'u pb_runtime \<Rightarrow> 'f \<Rightarrow> bool"
  assumes parse_merge: "wire_ok rt \<Longrightarrow> writable rt g \<Longrightarrow>
      InternalParse rt (sw rt) (f, u) (ser rt (g, rt_NoUnknown rt) @ r) =
      InternalParse rt (sw rt) (merge rt f g, u) r"
    and merge_first: "wire_ok rt \<Longrightarrow> writable rt g \<Longrightarrow> merge rt f0 g = g"
begin

lemma parse_one:
  assumes "wire_ok rt" "writable rt g"
  shows "InternalParse rt (sw rt) (f, u) (ser rt (g, rt_NoUnknown rt)) = Some ((merge rt f g, u), None, [])"
  using parse_merge [OF assms, of f u "[]"] by simp

lemma parse_written:
  assumes "wire_ok rt" "writable rt g"
  shows "ParseFromString rt (sw rt) f0 (ser rt (g, rt_NoUnknown rt)) = Some (g, rt_NoUnknown rt)"
  using parse_one [OF assms] merge_first [OF assms] assms(1) wire_roundtrips_end(1) [of rt]
  by (simp add: ParseFromString_def wire_ok_def)

lemma parse_two:
  assumes "wire_ok rt" "writable rt g" "writable rt h"
  shows "ParseFromString rt (sw rt) f0 (ser rt (g, rt_NoUnknown rt) @ ser rt (h, rt_NoUnknown rt)) =
    Some (merge rt g h, rt_NoUnknown rt)"
  using parse_merge [OF assms(1,2)] parse_one [OF assms(1,3)] merge_first [OF assms(1,2)] assms(1)
    wire_roundtrips_end(1) [of rt]
  by (simp add: ParseFromString_def wire_ok_def)

end

end
