(* ===== verification/PbWire.thy ===== *)
theory PbWire
  imports PbRuntime
begin

text \<open>
  A concrete instance of the runtime record: base-128 varints, tags, length-prefixed strings
  and sub-messages, following the published protobuf wire format. The model never uses it; the
  witnesses do, to show that the hypotheses about the runtime can hold. It rejects unknown
  fields and accepts ASCII text only.
\<close>

section \<open>Varints\<close>

fun put_varint :: "nat \<Rightarrow> bytes" where
  "put_varint n = (if n < 128 then [char_of n] else char_of (128 + n mod 128) # put_varint (n div 128))"

declare put_varint.simps [simp del]

fun get_varint :: "nat \<Rightarrow> bytes \<Rightarrow> (nat \<times> bytes) option" where
  "get_varint 0 s = None"
| "get_varint (Suc k) [] = None"
| "get_varint (Suc k) (c # cs) =
     (let b = of_char c in
      if b < 128 then Some (b, cs)
      else map_option (\<lambda>(v, r). (b - 128 + 128 * v, r)) (get_varint k cs))"

lemma get_put_varint: "0 < k \<Longrightarrow> n < 128 ^ k \<Longrightarrow> get_varint k (put_varint n @ r) = Some (n, r)"
proof (induction n arbitrary: k rule: put_varint.induct)
  case (1 n)
  obtain k' where k: "k = Suc k'" using 1(2) by (cases k) auto
  show ?case
  proof (cases "n < 128")
    case True
    then show ?thesis by (subst put_varint.simps) (simp add: k)
  next
    case False
    then have "128 ^ 1 < (128 :: nat) ^ k" using 1(3) by simp
    then have "0 < k'" using k by (cases k') auto
    moreover have "n div 128 < 128 ^ k'" using 1(3) k by (simp add: less_mult_imp_div_less mult.commute)
    ultimately have "get_varint k' (put_varint (n div 128) @ r) = Some (n div 128, r)"
      using 1(1) False by blast
    moreover have "of_char (char_of (128 + n mod 128) :: char) = 128 + n mod 128"
      by simp
    ultimately show ?thesis using False
      by (subst put_varint.simps) (simp add: k)
  qed
qed

lemma get_varint_len: "get_varint k s = Some (v, r) \<Longrightarrow> length r < length s"
proof (induction k s arbitrary: v r rule: get_varint.induct)
  case (3 k c cs)
  then show ?case by (fastforce simp: Let_def split: if_splits)
qed simp_all

lemma put_varint_nonempty [simp]: "put_varint n \<noteq> []"
  by (subst put_varint.simps) simp

section \<open>The runtime\<close>

definition get_delimited :: "bytes \<Rightarrow> (bytes \<times> bytes) option" where
  "get_delimited s =
     (case get_varint 5 s of
        None \<Rightarrow> None
      | Some (n, r) \<Rightarrow> if n \<le> length r then Some (take n r, drop n r) else None)"

definition put_delimited :: "nat \<Rightarrow> bytes \<Rightarrow> bytes" where
  "put_delimited f s = put_varint (8 * f + 2) @ put_varint (length s) @ s"

definition get_word :: "nat \<Rightarrow> bytes \<Rightarrow> ('a::len word \<times> bytes) option" where
  "get_word k s = map_option (\<lambda>(v, r). (of_nat v, r)) (get_varint k s)"

definition varint_len :: "nat \<Rightarrow> nat" where
  "varint_len n = length (put_varint n)"

definition wire_runtime :: "unit pb_runtime" where
  "wire_runtime = \<lparr>
     rt_ReadTag = get_word 5,
     rt_ReadString = get_delimited,
     rt_ReadVarint32 = get_word 10,
     rt_ReadVarint64 = get_word 10,
     rt_Delimited = get_delimited,
     rt_UnknownFieldParse = (\<lambda>_ _ _. None),
     rt_VerifyUTF8 = list_all (\<lambda>c. (of_char c :: nat) < 128),
     rt_AtEnd = (\<lambda>t r. t = None \<and> r = []),
     rt_WriteString = put_delimited,
     rt_WriteMessage = put_delimited,
     rt_WriteUInt32 = (\<lambda>f v. put_varint (8 * f) @ put_varint (unat v)),
     rt_WriteInt32 = (\<lambda>f v. put_varint (8 * f) @ put_varint (unat (scast v :: u64))),
     rt_WriteBool = (\<lambda>f v. put_varint (8 * f) @ put_varint (if v then 1 else 0)),
     rt_StringSize = (\<lambda>s. varint_len (length s) + length s),
     rt_MessageSize = (\<lambda>n. varint_len n + n),
     rt_UInt32SizePlusOne = (\<lambda>v. 1 + varint_len (unat v)),
     rt_Int32SizePlusOne = (\<lambda>v. 1 + varint_len (unat (scast v :: u64))),
     rt_NoUnknown = (),
     rt_have_unknown = (\<lambda>_. False),
     rt_SerializeUnknown = (\<lambda>_. []),
     rt_MergeUnknown = (\<lambda>_ _. ()),
     rt_CanSerialize = (\<lambda>n. n < 2 ^ 31)\<rparr>"

lemma get_word_put: "0 < k \<Longrightarrow> n < 128 ^ k \<Longrightarrow> get_word k (put_varint n @ r) = Some (of_nat n, r)"
  by (simp add: get_word_def get_put_varint)

lemma get_delimited_put:
  "length s < 2 ^ 31 \<Longrightarrow> get_delimited (put_varint (length s) @ s @ r) = Some (s, r)"
  using get_put_varint [of 5 "length s" "s @ r"] by (simp add: get_delimited_def)

lemma tag_put:
  "field_ok f \<Longrightarrow> w \<le> 7 \<Longrightarrow> get_word 5 (put_varint (8 * f + w) @ r) = Some (tag_word f w, r)"
  by (subst get_word_put) (auto simp: field_ok_def tag_word_def)

lemma wire_runtime_reads: "wire_reads wire_runtime"
  by (auto simp: wire_reads_def wire_runtime_def get_word_def get_delimited_def
      dest!: get_varint_len split: option.splits if_splits prod.splits)

lemma word_of_sign_extended: "(ucast (scast (v :: u32) :: u64) :: u32) = v"
  by (rule bit_word_eqI) (auto simp: bit_ucast_iff bit_signed_iff bit_imp_le_length)

lemma wire_runtime_roundtrips: "wire_roundtrips wire_runtime"
proof -
  have t: "get_word 5 (put_varint (8 * f) @ r) = Some (tag_word f 0, r)" if "field_ok f" for f r
    using tag_put [OF that, of 0] by simp
  have v32: "get_word 10 (put_varint (unat (v :: u32)) @ r) = Some (v, r)" for v r
  proof -
    have "unat v < 128 ^ 10" using unsigned_less [of v, where 'a = nat] by simp
    then show ?thesis by (simp add: get_word_put)
  qed
  have i32: "get_word 10 (put_varint (unat (scast (v :: u32) :: u64)) @ r) = Some (v, r)" for v r
  proof -
    have "unat (scast v :: u64) < 128 ^ 10"
      using unsigned_less [of "scast v :: u64", where 'a = nat] by simp
    then show ?thesis by (simp add: get_word_put word_of_sign_extended)
  qed
  have d: "get_word 5 (put_delimited f s @ r) = Some (tag_word f 2, put_varint (length s) @ s @ r)"
    if "field_ok f" for f s r
    using tag_put [OF that, of 2] by (simp add: put_delimited_def)
  show ?thesis
    unfolding wire_roundtrips_def
    by (intro conjI allI impI) (auto simp: wire_runtime_def d t v32 i32 get_delimited_put get_word_put)
qed

lemma wire_runtime_ok: "wire_ok wire_runtime"
  by (simp add: wire_ok_def wire_runtime_reads wire_runtime_roundtrips)

lemma tag_len: "field_ok f \<Longrightarrow> w \<le> 7 \<Longrightarrow> length (put_varint (8 * f + w)) = 1"
  by (subst put_varint.simps) (auto simp: field_ok_def)

lemma wire_runtime_sizes: "wire_sizes wire_runtime"
proof -
  have "length (put_varint (8 * f)) = 1" if "field_ok f" for f
    using tag_len [OF that, of 0] by simp
  moreover have "length (put_varint (8 * f + 2)) = 1" if "field_ok f" for f
    using tag_len [OF that, of 2] by simp
  moreover have "length (put_varint 1) = 1" "length (put_varint 0) = 1"
    by (subst put_varint.simps, simp)+
  ultimately show ?thesis
    by (simp add: wire_sizes_def wire_runtime_def put_delimited_def varint_len_def)
qed

end
