(* ===== verification/RpcHeader.thy ===== *)
theory RpcHeader
  imports PbWire
begin

text \<open>
  The message \<^verbatim>\<open>mprpc.RpcHeader\<close> that precedes the arguments of every request: the code in
  \<^verbatim>\<open>mprpc.pb.cc\<close> and \<^verbatim>\<open>mprpc.pb.h\<close>, over the runtime of \<open>PbRuntime\<close>.
\<close>

section \<open>The message\<close>

record rpc_header =
  service_name :: bytes
  method_name :: bytes
  args_size :: u32

definition default_header :: rpc_header where
  "default_header = \<lparr>service_name = [], method_name = [], args_size = 0\<rparr>"

definition header_Clear :: "'u pb_runtime \<Rightarrow> rpc_header \<times> 'u \<Rightarrow> rpc_header \<times> 'u" where
  "header_Clear rt m =
     ((fst m)\<lparr>service_name := [], method_name := [], args_size := 0\<rparr>, rt_NoUnknown rt)"

definition header_set_service_name :: "bytes \<Rightarrow> rpc_header \<times> 'u \<Rightarrow> rpc_header \<times> 'u" where
  "header_set_service_name v m = ((fst m)\<lparr>service_name := v\<rparr>, snd m)"

definition header_set_method_name :: "bytes \<Rightarrow> rpc_header \<times> 'u \<Rightarrow> rpc_header \<times> 'u" where
  "header_set_method_name v m = ((fst m)\<lparr>method_name := v\<rparr>, snd m)"

definition header_set_args_size :: "u32 \<Rightarrow> rpc_header \<times> 'u \<Rightarrow> rpc_header \<times> 'u" where
  "header_set_args_size v m = ((fst m)\<lparr>args_size := v\<rparr>, snd m)"

section \<open>Parsing\<close>

definition header_switch ::
  "'u pb_runtime \<Rightarrow> u32 \<Rightarrow> rpc_header \<Rightarrow> bytes \<Rightarrow> rpc_header field_result" where
  "header_switch rt tag f s =
     (let field = drop_bit 3 tag; low = (ucast tag :: 8 word) in
      if field = 1 then
        (if low = 10 then
           (case rt_ReadString rt s of
              None \<Rightarrow> FR_failure
            | Some (str, s') \<Rightarrow>
                if rt_VerifyUTF8 rt str then FR_continue (f\<lparr>service_name := str\<rparr>) s'
                else FR_failure)
         else FR_unusual)
      else if field = 2 then
        (if low = 18 then
           (case rt_ReadString rt s of
              None \<Rightarrow> FR_failure
            | Some (str, s') \<Rightarrow>
                if rt_VerifyUTF8 rt str then FR_continue (f\<lparr>method_name := str\<rparr>) s'
                else FR_failure)
         else FR_unusual)
      else if field = 3 then
        (if low = 24 then
           (case rt_ReadVarint32 rt s of
              None \<Rightarrow> FR_failure
            | Some (v, s') \<Rightarrow> FR_continue (f\<lparr>args_size := v\<rparr>) s')
         else FR_unusual)
      else FR_unusual)"

definition header_InternalParse ::
  "'u pb_runtime \<Rightarrow> rpc_header \<times> 'u \<Rightarrow> bytes
     \<Rightarrow> ((rpc_header \<times> 'u) \<times> u32 option \<times> bytes) option" where
  "header_InternalParse rt = InternalParse rt (header_switch rt)"

definition header_ParseFromString :: "'u pb_runtime \<Rightarrow> bytes \<Rightarrow> (rpc_header \<times> 'u) option" where
  "header_ParseFromString rt = ParseFromString rt (header_switch rt) default_header"

section \<open>Serialising\<close>

text \<open>\<^verbatim>\<open>VerifyUtf8String(..., SERIALIZE, ...)\<close> only logs; its result is not used.\<close>

definition header_InternalSerialize :: "'u pb_runtime \<Rightarrow> rpc_header \<times> 'u \<Rightarrow> bytes" where
  "header_InternalSerialize rt m =
     (let f = fst m; u = snd m in
      (if service_name f \<noteq> [] then rt_WriteString rt 1 (service_name f) else []) @
      (if method_name f \<noteq> [] then rt_WriteString rt 2 (method_name f) else []) @
      (if args_size f \<noteq> 0 then rt_WriteUInt32 rt 3 (args_size f) else []) @
      (if rt_have_unknown rt u then rt_SerializeUnknown rt u else []))"

definition header_ByteSizeLong :: "'u pb_runtime \<Rightarrow> rpc_header \<times> 'u \<Rightarrow> nat" where
  "header_ByteSizeLong rt m =
     (let f = fst m; u = snd m in
      (if service_name f \<noteq> [] then 1 + rt_StringSize rt (service_name f) else 0) +
      (if method_name f \<noteq> [] then 1 + rt_StringSize rt (method_name f) else 0) +
      (if args_size f \<noteq> 0 then rt_UInt32SizePlusOne rt (args_size f) else 0) +
      (if rt_have_unknown rt u then length (rt_SerializeUnknown rt u) else 0))"

definition header_SerializeToString :: "'u pb_runtime \<Rightarrow> rpc_header \<times> 'u \<Rightarrow> bytes option" where
  "header_SerializeToString rt m = SerializeToString rt (header_InternalSerialize rt m)"

section \<open>Merging, copying, swapping\<close>

definition merge_header :: "rpc_header \<Rightarrow> rpc_header \<Rightarrow> rpc_header" where
  "merge_header to from =
     (let t1 = (if service_name from \<noteq> [] then to\<lparr>service_name := service_name from\<rparr> else to);
          t2 = (if method_name from \<noteq> [] then t1\<lparr>method_name := method_name from\<rparr> else t1)
      in if args_size from \<noteq> 0 then t2\<lparr>args_size := args_size from\<rparr> else t2)"

definition header_MergeImpl ::
  "'u pb_runtime \<Rightarrow> rpc_header \<times> 'u \<Rightarrow> rpc_header \<times> 'u \<Rightarrow> rpc_header \<times> 'u" where
  "header_MergeImpl rt to from =
     (merge_header (fst to) (fst from), rt_MergeUnknown rt (snd to) (snd from))"

definition header_CopyFrom ::
  "'u pb_runtime \<Rightarrow> rpc_header \<times> 'u \<Rightarrow> rpc_header \<times> 'u \<Rightarrow> rpc_header \<times> 'u" where
  "header_CopyFrom rt to from = header_MergeImpl rt (header_Clear rt to) from"

text \<open>All members are exchanged: the unknown fields, the two strings, and the size.\<close>

definition header_InternalSwap ::
  "rpc_header \<times> 'u \<Rightarrow> rpc_header \<times> 'u \<Rightarrow> (rpc_header \<times> 'u) \<times> (rpc_header \<times> 'u)" where
  "header_InternalSwap a b =
     (((fst a)\<lparr>service_name := service_name (fst b), method_name := method_name (fst b),
          args_size := args_size (fst b)\<rparr>, snd b),
      ((fst b)\<lparr>service_name := service_name (fst a), method_name := method_name (fst a),
          args_size := args_size (fst a)\<rparr>, snd a))"

section \<open>Lemmas\<close>

lemma header_switch_progress: "wire_reads rt \<Longrightarrow> sw_progress (header_switch rt)"
  by (auto simp: sw_progress_def header_switch_def Let_def dest: wire_readsD
      split: if_splits option.splits)

lemma header_tags:
  "drop_bit 3 (tag_word (Suc 0) 2) = 1" "(ucast (tag_word (Suc 0) 2) :: 8 word) = 10"
  "drop_bit 3 (tag_word 2 2) = 2" "(ucast (tag_word 2 2) :: 8 word) = 18"
  "drop_bit 3 (tag_word 3 0) = 3" "(ucast (tag_word 3 0) :: 8 word) = 24"
  by (simp_all add: tag_word_def)

definition header_writable :: "'u pb_runtime \<Rightarrow> rpc_header \<Rightarrow> bool" where
  "header_writable rt f \<longleftrightarrow>
     length (service_name f) < 2 ^ 31 \<and> length (method_name f) < 2 ^ 31 \<and>
     (service_name f \<noteq> [] \<longrightarrow> rt_VerifyUTF8 rt (service_name f)) \<and>
     (method_name f \<noteq> [] \<longrightarrow> rt_VerifyUTF8 rt (method_name f))"

text \<open>The written form of one message in front of any input merges it into the message.\<close>

lemma header_parse_merge:
  assumes "wire_ok rt" "header_writable rt g"
  shows "InternalParse rt (header_switch rt) (f, u)
      (header_InternalSerialize rt (g, rt_NoUnknown rt) @ r) =
    InternalParse rt (header_switch rt) (merge_header f g, u) r"
proof -
  have rd: "wire_reads rt" and rts: "wire_roundtrips rt" using assms(1) by (auto simp: wire_ok_def)
  note sp = header_switch_progress [OF rd]
  note field = InternalParse_field [OF rd sp]
  have fo: "field_ok 1" "field_ok 2" "field_ok 3" by (simp_all add: field_ok_def)
  have s1: "InternalParse rt (header_switch rt) (h, u) (rt_WriteString rt 1 x @ q) =
      InternalParse rt (header_switch rt) (h\<lparr>service_name := x\<rparr>, u) q"
    if "length x < 2 ^ 31" "rt_VerifyUTF8 rt x" for h x q
    using wire_roundtripsD(1) [OF rts fo(1) that(1), of q] that(2)
    by (auto intro!: field simp: header_switch_def header_tags Let_def)
  have s2: "InternalParse rt (header_switch rt) (h, u) (rt_WriteString rt 2 x @ q) =
      InternalParse rt (header_switch rt) (h\<lparr>method_name := x\<rparr>, u) q"
    if "length x < 2 ^ 31" "rt_VerifyUTF8 rt x" for h x q
    using wire_roundtripsD(1) [OF rts fo(2) that(1), of q] that(2)
    by (auto intro!: field simp: header_switch_def header_tags Let_def)
  have s3: "InternalParse rt (header_switch rt) (h, u) (rt_WriteUInt32 rt 3 x @ q) =
      InternalParse rt (header_switch rt) (h\<lparr>args_size := x\<rparr>, u) q" for h x q
    using wire_roundtripsD(3) [OF rts fo(3), of x q]
    by (auto intro!: field simp: header_switch_def header_tags Let_def)
  show ?thesis
    using assms(2) wire_roundtrips_end [OF rts]
    by (simp add: header_InternalSerialize_def merge_header_def header_writable_def Let_def s1 [simplified] s2 [simplified] s3)
qed

lemma merge_default [simp]: "merge_header default_header g = g"
  by (cases g) (simp add: merge_header_def default_header_def Let_def)

interpretation hdr: wire_message header_switch default_header header_InternalSerialize
    "\<lambda>_. merge_header" header_writable
  by unfold_locales (simp_all add: header_parse_merge)

lemma header_roundtrip:
  assumes "wire_ok rt" "header_writable rt g"
  shows "header_ParseFromString rt (header_InternalSerialize rt (g, rt_NoUnknown rt)) =
    Some (g, rt_NoUnknown rt)"
  using hdr.parse_written [OF assms] by (simp add: header_ParseFromString_def)

lemma merge_header_writable:
  "header_writable rt f \<Longrightarrow> header_writable rt g \<Longrightarrow> header_writable rt (merge_header f g)"
  by (auto simp: header_writable_def merge_header_def Let_def)

section \<open>Properties\<close>

text \<open>
  Property (C32). The wire form of the header: whatever header is written, parsing the written
  bytes into a fresh message gives exactly that header, with no unknown fields, whichever of
  its fields have their default and are left out; and when a second header's bytes follow, the
  parser returns what \<open>MergeImpl\<close> makes of the two.
\<close>

theorem header_parse_serialize:
  assumes "wire_ok rt" and "header_writable rt f" and "header_writable rt g"
  shows "header_ParseFromString rt (header_InternalSerialize rt (f, rt_NoUnknown rt)) =
      Some (f, rt_NoUnknown rt) \<and>
    header_ParseFromString rt (header_InternalSerialize rt (f, rt_NoUnknown rt)
      @ header_InternalSerialize rt (g, rt_NoUnknown rt)) =
      Some (header_MergeImpl rt (f, rt_NoUnknown rt) (g, rt_NoUnknown rt))"
  using header_roundtrip [OF assms(1,2)] hdr.parse_two [OF assms] assms(1)
  by (simp add: header_ParseFromString_def header_MergeImpl_def wire_ok_def wire_roundtrips_end)

lemma header_parse_serialize_witness:
  "let f = \<lparr>service_name = ''User'', method_name = ''Login'', args_size = 7\<rparr> in
   header_ParseFromString wire_runtime (header_InternalSerialize wire_runtime (f, ())) = Some (f, ())"
proof -
  let ?f = "\<lparr>service_name = ''User'', method_name = ''Login'', args_size = 7\<rparr>"
  have "header_writable wire_runtime ?f" by (simp add: header_writable_def wire_runtime_def)
  from header_parse_serialize [OF wire_runtime_ok this this] show ?thesis by simp
qed

text \<open>
  \<open>ByteSizeLong\<close> is the number of bytes \<open>_InternalSerialize\<close> writes, unknown
  fields included, so the buffer the runtime allocates from it is exactly filled.
\<close>

theorem header_ByteSizeLong_exact:
  assumes "wire_sizes rt"
  shows "header_ByteSizeLong rt m = length (header_InternalSerialize rt m)"
  using assms
  by (simp add: header_ByteSizeLong_def header_InternalSerialize_def wire_sizes_def field_ok_def
      Let_def)

lemma header_ByteSizeLong_exact_witness:
  "header_ByteSizeLong wire_runtime (\<lparr>service_name = ''a'', method_name = [], args_size = 3\<rparr>, ()) =
   length (header_InternalSerialize wire_runtime
     (\<lparr>service_name = ''a'', method_name = [], args_size = 3\<rparr>, ()))"
  using header_ByteSizeLong_exact [OF wire_runtime_sizes] .

text \<open>
  \<open>CopyFrom\<close> makes the destination equal to the source whatever it held before,
  although it merges and merging skips default values; and \<open>InternalSwap\<close> exchanges two
  messages.
\<close>

theorem header_CopyFrom_copies:
  assumes "\<And>u. rt_MergeUnknown rt (rt_NoUnknown rt) u = u"
  shows "header_CopyFrom rt to from = from \<and>
    header_InternalSwap to from = (from, to)"
  using assms
  by (cases "fst from", cases "fst to")
     (auto simp: header_CopyFrom_def header_MergeImpl_def header_Clear_def merge_header_def
       header_InternalSwap_def Let_def prod_eq_iff)

lemma header_CopyFrom_copies_witness:
  "header_CopyFrom wire_runtime (\<lparr>service_name = ''a'', method_name = ''b'', args_size = 3\<rparr>, ())
     (default_header, ()) = (default_header, ())"
  using header_CopyFrom_copies [of wire_runtime] by (simp add: wire_runtime_def)

end
