(* ===== verification/UserMessages.thy ===== *)
theory UserMessages
  imports RpcHeader
begin

text \<open>
  The messages of the example service, the generated classes of
  \<^verbatim>\<open>mprpc-main/example/user.pb.cc\<close>, over the runtime of \<open>PbRuntime\<close>: for each class its fields,
  default instance, copy constructor, \<open>Clear\<close>, parser, serialiser, size, merge, copy and swap.
  A message is its fields with its set of unknown fields; fields of type \<^verbatim>\<open>bytes\<close> are not
  checked for UTF-8. Arenas and the cached size are left out: a size is computed when it is used.
\<close>

lemma tag_values [simp]:
  "tag_word (Suc 0) 0 = 8" "tag_word (Suc 0) 2 = 10" "tag_word 2 0 = 16" "tag_word 2 2 = 18"
  "tag_word 3 2 = 26"
  by (simp_all add: tag_word_def)

section \<open>ResultCode\<close>

text \<open>The outcome code of a call.\<close>

record result_code =
  rc_errcode :: "u32"
  rc_errmsg :: "bytes"

definition ResultCode_default :: "result_code" where
  "ResultCode_default = \<lparr>rc_errcode = 0, rc_errmsg = []\<rparr>"

definition ResultCode_copy :: "'u pb_runtime \<Rightarrow> result_code \<times> 'u \<Rightarrow> result_code \<times> 'u" where
  "ResultCode_copy rt from =
     (let f = fst from;
          m0 = ResultCode_default;
          m1 = (if rc_errmsg f \<noteq> [] then m0\<lparr>rc_errmsg := rc_errmsg f\<rparr> else m0)
      in (m1\<lparr>rc_errcode := rc_errcode f\<rparr>, rt_MergeUnknown rt (rt_NoUnknown rt) (snd from)))"

definition ResultCode_Clear :: "'u pb_runtime \<Rightarrow> result_code \<times> 'u \<Rightarrow> result_code \<times> 'u" where
  "ResultCode_Clear rt m = ((fst m)\<lparr>rc_errcode := 0, rc_errmsg := []\<rparr>, rt_NoUnknown rt)"

definition ResultCode_switch ::
  "'u pb_runtime \<Rightarrow> u32 \<Rightarrow> result_code \<Rightarrow> bytes \<Rightarrow> result_code field_result" where
  "ResultCode_switch rt tag f s =
     (let field = drop_bit 3 tag; low = (ucast tag :: 8 word) in
      if field = 1 then
        (if low = 8 then parse_varint32 rt (\<lambda>x. f\<lparr>rc_errcode := x\<rparr>) s
         else FR_unusual)
      else if field = 2 then
        (if low = 18 then parse_bytes rt (\<lambda>x. f\<lparr>rc_errmsg := x\<rparr>) s
         else FR_unusual)
      else FR_unusual)"

definition ResultCode_InternalParse ::
  "'u pb_runtime \<Rightarrow> result_code \<times> 'u \<Rightarrow> bytes \<Rightarrow> ((result_code \<times> 'u) \<times> u32 option \<times> bytes) option" where
  "ResultCode_InternalParse rt = InternalParse rt (ResultCode_switch rt)"

definition ResultCode_InternalSerialize :: "'u pb_runtime \<Rightarrow> result_code \<times> 'u \<Rightarrow> bytes" where
  "ResultCode_InternalSerialize rt m =
     (let f = fst m; u = snd m in
      (if rc_errcode f \<noteq> 0 then rt_WriteInt32 rt 1 (rc_errcode f) else []) @
      (if rc_errmsg f \<noteq> [] then rt_WriteString rt 2 (rc_errmsg f) else []) @
      (if rt_have_unknown rt u then rt_SerializeUnknown rt u else []))"

definition ResultCode_ByteSizeLong :: "'u pb_runtime \<Rightarrow> result_code \<times> 'u \<Rightarrow> nat" where
  "ResultCode_ByteSizeLong rt m =
     (let f = fst m; u = snd m in
      (if rc_errmsg f \<noteq> [] then 1 + rt_StringSize rt (rc_errmsg f) else 0) +
      (if rc_errcode f \<noteq> 0 then rt_Int32SizePlusOne rt (rc_errcode f) else 0) +
      (if rt_have_unknown rt u then length (rt_SerializeUnknown rt u) else 0))"

definition ResultCode_merge :: "'u pb_runtime \<Rightarrow> result_code \<Rightarrow> result_code \<Rightarrow> result_code" where
  "ResultCode_merge rt to from =
     (let t1 = (if rc_errmsg from \<noteq> [] then to\<lparr>rc_errmsg := rc_errmsg from\<rparr> else to);
          t2 = (if rc_errcode from \<noteq> 0 then t1\<lparr>rc_errcode := rc_errcode from\<rparr> else t1)
      in t2)"

definition ResultCode_MergeImpl ::
  "'u pb_runtime \<Rightarrow> result_code \<times> 'u \<Rightarrow> result_code \<times> 'u \<Rightarrow> result_code \<times> 'u" where
  "ResultCode_MergeImpl rt to from =
     (ResultCode_merge rt (fst to) (fst from), rt_MergeUnknown rt (snd to) (snd from))"

definition ResultCode_CopyFrom ::
  "'u pb_runtime \<Rightarrow> result_code \<times> 'u \<Rightarrow> result_code \<times> 'u \<Rightarrow> result_code \<times> 'u" where
  "ResultCode_CopyFrom rt to from = ResultCode_MergeImpl rt (ResultCode_Clear rt to) from"

definition ResultCode_InternalSwap ::
  "result_code \<times> 'u \<Rightarrow> result_code \<times> 'u \<Rightarrow> (result_code \<times> 'u) \<times> (result_code \<times> 'u)" where
  "ResultCode_InternalSwap a b =
     (((fst a)\<lparr>rc_errcode := rc_errcode (fst b), rc_errmsg := rc_errmsg (fst b)\<rparr>, snd b),
      ((fst b)\<lparr>rc_errcode := rc_errcode (fst a), rc_errmsg := rc_errmsg (fst a)\<rparr>, snd a))"

lemma ResultCode_progress: "wire_reads rt \<Longrightarrow> sw_progress (ResultCode_switch rt)"
  by (auto simp: sw_progress_def ResultCode_switch_def Let_def dest: parse_field_progress split: if_splits)

definition ResultCode_writable :: "'u pb_runtime \<Rightarrow> result_code \<Rightarrow> bool" where
  "ResultCode_writable rt f \<longleftrightarrow> length (rc_errmsg f) < 2 ^ 31"

lemma ResultCode_parse_merge:
  assumes "wire_ok rt" "ResultCode_writable rt g"
  shows "InternalParse rt (ResultCode_switch rt) (f, u) (ResultCode_InternalSerialize rt (g, rt_NoUnknown rt) @ r) =
    InternalParse rt (ResultCode_switch rt) (ResultCode_merge rt f g, u) r"
proof -
  have rd: "wire_reads rt" and rts: "wire_roundtrips rt" using assms(1) by (auto simp: wire_ok_def)
  note sp = ResultCode_progress [OF rd]
  have s1: "InternalParse rt (ResultCode_switch rt) (h, u) (rt_WriteInt32 rt 1 x @ q) =
      InternalParse rt (ResultCode_switch rt) (h\<lparr>rc_errcode := x\<rparr>, u) q" for h x q
    by (rule parse_written_int32(1) [OF assms(1) sp]) (simp_all add: field_ok_def ResultCode_switch_def Let_def)
  have s2: "InternalParse rt (ResultCode_switch rt) (h, u) (rt_WriteString rt 2 x @ q) =
      InternalParse rt (ResultCode_switch rt) (h\<lparr>rc_errmsg := x\<rparr>, u) q" if "length x < 2 ^ 31" for h x q
    by (rule parse_written_bytes [OF assms(1) sp _ that]) (simp_all add: field_ok_def ResultCode_switch_def Let_def)
  show ?thesis
    using assms(2) wire_roundtrips_end(2) [OF rts]
    by (cases f) (simp add: ResultCode_InternalSerialize_def ResultCode_merge_def ResultCode_writable_def Let_def
        s1 [simplified] s2 [simplified])
qed

lemma ResultCode_merge_first [simp]: "ResultCode_merge rt ResultCode_default g = g"
  by (cases g) (simp add: ResultCode_merge_def ResultCode_default_def Let_def)

interpretation rc_msg: wire_message ResultCode_switch ResultCode_default ResultCode_InternalSerialize ResultCode_merge ResultCode_writable
  by unfold_locales (simp_all add: ResultCode_parse_merge)

lemma ResultCode_size:
  assumes "wire_sizes rt"
  shows "ResultCode_ByteSizeLong rt m = length (ResultCode_InternalSerialize rt m)"
  using assms
  by (auto simp: ResultCode_ByteSizeLong_def ResultCode_InternalSerialize_def wire_sizes_def field_ok_def Let_def
      split: option.splits)

lemma ResultCode_copied:
  assumes "\<And>v. rt_MergeUnknown rt (rt_NoUnknown rt) v = v"
  shows "ResultCode_CopyFrom rt to from = from" "ResultCode_copy rt from = from" "ResultCode_InternalSwap to from = (from, to)"
  using assms
  by (cases "fst from"; cases "fst to"; auto simp: ResultCode_CopyFrom_def ResultCode_MergeImpl_def ResultCode_Clear_def
      ResultCode_merge_def ResultCode_copy_def ResultCode_default_def ResultCode_InternalSwap_def Let_def prod_eq_iff
      split: option.splits)+

section \<open>LoginRequest\<close>

text \<open>The arguments of \<open>Login\<close>.\<close>

record login_request =
  lgq_name :: "bytes"
  lgq_pwd :: "bytes"

definition LoginRequest_default :: "login_request" where
  "LoginRequest_default = \<lparr>lgq_name = [], lgq_pwd = []\<rparr>"

definition LoginRequest_copy :: "'u pb_runtime \<Rightarrow> login_request \<times> 'u \<Rightarrow> login_request \<times> 'u" where
  "LoginRequest_copy rt from =
     (let f = fst from;
          m0 = LoginRequest_default;
          m1 = (if lgq_name f \<noteq> [] then m0\<lparr>lgq_name := lgq_name f\<rparr> else m0);
          m2 = (if lgq_pwd f \<noteq> [] then m1\<lparr>lgq_pwd := lgq_pwd f\<rparr> else m1)
      in (m2, rt_MergeUnknown rt (rt_NoUnknown rt) (snd from)))"

definition LoginRequest_Clear :: "'u pb_runtime \<Rightarrow> login_request \<times> 'u \<Rightarrow> login_request \<times> 'u" where
  "LoginRequest_Clear rt m = ((fst m)\<lparr>lgq_name := [], lgq_pwd := []\<rparr>, rt_NoUnknown rt)"

definition LoginRequest_switch ::
  "'u pb_runtime \<Rightarrow> u32 \<Rightarrow> login_request \<Rightarrow> bytes \<Rightarrow> login_request field_result" where
  "LoginRequest_switch rt tag f s =
     (let field = drop_bit 3 tag; low = (ucast tag :: 8 word) in
      if field = 1 then
        (if low = 10 then parse_bytes rt (\<lambda>x. f\<lparr>lgq_name := x\<rparr>) s
         else FR_unusual)
      else if field = 2 then
        (if low = 18 then parse_bytes rt (\<lambda>x. f\<lparr>lgq_pwd := x\<rparr>) s
         else FR_unusual)
      else FR_unusual)"

definition LoginRequest_InternalParse ::
  "'u pb_runtime \<Rightarrow> login_request \<times> 'u \<Rightarrow> bytes \<Rightarrow> ((login_request \<times> 'u) \<times> u32 option \<times> bytes) option" where
  "LoginRequest_InternalParse rt = InternalParse rt (LoginRequest_switch rt)"

definition LoginRequest_InternalSerialize :: "'u pb_runtime \<Rightarrow> login_request \<times> 'u \<Rightarrow> bytes" where
  "LoginRequest_InternalSerialize rt m =
     (let f = fst m; u = snd m in
      (if lgq_name f \<noteq> [] then rt_WriteString rt 1 (lgq_name f) else []) @
      (if lgq_pwd f \<noteq> [] then rt_WriteString rt 2 (lgq_pwd f) else []) @
      (if rt_have_unknown rt u then rt_SerializeUnknown rt u else []))"

definition LoginRequest_ByteSizeLong :: "'u pb_runtime \<Rightarrow> login_request \<times> 'u \<Rightarrow> nat" where
  "LoginRequest_ByteSizeLong rt m =
     (let f = fst m; u = snd m in
      (if lgq_name f \<noteq> [] then 1 + rt_StringSize rt (lgq_name f) else 0) +
      (if lgq_pwd f \<noteq> [] then 1 + rt_StringSize rt (lgq_pwd f) else 0) +
      (if rt_have_unknown rt u then length (rt_SerializeUnknown rt u) else 0))"

definition LoginRequest_merge :: "'u pb_runtime \<Rightarrow> login_request \<Rightarrow> login_request \<Rightarrow> login_request" where
  "LoginRequest_merge rt to from =
     (let t1 = (if lgq_name from \<noteq> [] then to\<lparr>lgq_name := lgq_name from\<rparr> else to);
          t2 = (if lgq_pwd from \<noteq> [] then t1\<lparr>lgq_pwd := lgq_pwd from\<rparr> else t1)
      in t2)"

definition LoginRequest_MergeImpl ::
  "'u pb_runtime \<Rightarrow> login_request \<times> 'u \<Rightarrow> login_request \<times> 'u \<Rightarrow> login_request \<times> 'u" where
  "LoginRequest_MergeImpl rt to from =
     (LoginRequest_merge rt (fst to) (fst from), rt_MergeUnknown rt (snd to) (snd from))"

definition LoginRequest_CopyFrom ::
  "'u pb_runtime \<Rightarrow> login_request \<times> 'u \<Rightarrow> login_request \<times> 'u \<Rightarrow> login_request \<times> 'u" where
  "LoginRequest_CopyFrom rt to from = LoginRequest_MergeImpl rt (LoginRequest_Clear rt to) from"

definition LoginRequest_InternalSwap ::
  "login_request \<times> 'u \<Rightarrow> login_request \<times> 'u \<Rightarrow> (login_request \<times> 'u) \<times> (login_request \<times> 'u)" where
  "LoginRequest_InternalSwap a b =
     (((fst a)\<lparr>lgq_name := lgq_name (fst b), lgq_pwd := lgq_pwd (fst b)\<rparr>, snd b),
      ((fst b)\<lparr>lgq_name := lgq_name (fst a), lgq_pwd := lgq_pwd (fst a)\<rparr>, snd a))"

lemma LoginRequest_progress: "wire_reads rt \<Longrightarrow> sw_progress (LoginRequest_switch rt)"
  by (auto simp: sw_progress_def LoginRequest_switch_def Let_def dest: parse_field_progress split: if_splits)

definition LoginRequest_writable :: "'u pb_runtime \<Rightarrow> login_request \<Rightarrow> bool" where
  "LoginRequest_writable rt f \<longleftrightarrow> length (lgq_name f) < 2 ^ 31 \<and> length (lgq_pwd f) < 2 ^ 31"

lemma LoginRequest_parse_merge:
  assumes "wire_ok rt" "LoginRequest_writable rt g"
  shows "InternalParse rt (LoginRequest_switch rt) (f, u) (LoginRequest_InternalSerialize rt (g, rt_NoUnknown rt) @ r) =
    InternalParse rt (LoginRequest_switch rt) (LoginRequest_merge rt f g, u) r"
proof -
  have rd: "wire_reads rt" and rts: "wire_roundtrips rt" using assms(1) by (auto simp: wire_ok_def)
  note sp = LoginRequest_progress [OF rd]
  have s1: "InternalParse rt (LoginRequest_switch rt) (h, u) (rt_WriteString rt 1 x @ q) =
      InternalParse rt (LoginRequest_switch rt) (h\<lparr>lgq_name := x\<rparr>, u) q" if "length x < 2 ^ 31" for h x q
    by (rule parse_written_bytes [OF assms(1) sp _ that]) (simp_all add: field_ok_def LoginRequest_switch_def Let_def)
  have s2: "InternalParse rt (LoginRequest_switch rt) (h, u) (rt_WriteString rt 2 x @ q) =
      InternalParse rt (LoginRequest_switch rt) (h\<lparr>lgq_pwd := x\<rparr>, u) q" if "length x < 2 ^ 31" for h x q
    by (rule parse_written_bytes [OF assms(1) sp _ that]) (simp_all add: field_ok_def LoginRequest_switch_def Let_def)
  show ?thesis
    using assms(2) wire_roundtrips_end(2) [OF rts]
    by (cases f) (simp add: LoginRequest_InternalSerialize_def LoginRequest_merge_def LoginRequest_writable_def Let_def
        s1 [simplified] s2 [simplified])
qed

lemma LoginRequest_merge_first [simp]: "LoginRequest_merge rt LoginRequest_default g = g"
  by (cases g) (simp add: LoginRequest_merge_def LoginRequest_default_def Let_def)

interpretation lgq_msg: wire_message LoginRequest_switch LoginRequest_default LoginRequest_InternalSerialize LoginRequest_merge LoginRequest_writable
  by unfold_locales (simp_all add: LoginRequest_parse_merge)

lemma LoginRequest_size:
  assumes "wire_sizes rt"
  shows "LoginRequest_ByteSizeLong rt m = length (LoginRequest_InternalSerialize rt m)"
  using assms
  by (auto simp: LoginRequest_ByteSizeLong_def LoginRequest_InternalSerialize_def wire_sizes_def field_ok_def Let_def
      split: option.splits)

lemma LoginRequest_copied:
  assumes "\<And>v. rt_MergeUnknown rt (rt_NoUnknown rt) v = v"
  shows "LoginRequest_CopyFrom rt to from = from" "LoginRequest_copy rt from = from" "LoginRequest_InternalSwap to from = (from, to)"
  using assms
  by (cases "fst from"; cases "fst to"; auto simp: LoginRequest_CopyFrom_def LoginRequest_MergeImpl_def LoginRequest_Clear_def
      LoginRequest_merge_def LoginRequest_copy_def LoginRequest_default_def LoginRequest_InternalSwap_def Let_def prod_eq_iff
      split: option.splits)+

section \<open>LoginResponse\<close>

text \<open>The answer to \<open>Login\<close>; \<open>result_\<close> is a pointer to an own \<open>ResultCode\<close>, possibly null.\<close>

record 'u login_response =
  lgr_result :: "(result_code \<times> 'u) option"
  lgr_success :: "bool"

definition LoginResponse_default :: "'u login_response" where
  "LoginResponse_default = \<lparr>lgr_result = None, lgr_success = False\<rparr>"

definition LoginResponse_copy :: "'u pb_runtime \<Rightarrow> 'u login_response \<times> 'u \<Rightarrow> 'u login_response \<times> 'u" where
  "LoginResponse_copy rt from =
     (let f = fst from in
      (\<lparr>lgr_result = (case lgr_result f of None \<Rightarrow> None | Some r \<Rightarrow> Some (ResultCode_copy rt r)),
         lgr_success = lgr_success f\<rparr>, rt_MergeUnknown rt (rt_NoUnknown rt) (snd from)))"

definition LoginResponse_Clear :: "'u pb_runtime \<Rightarrow> 'u login_response \<times> 'u \<Rightarrow> 'u login_response \<times> 'u" where
  "LoginResponse_Clear rt m = ((fst m)\<lparr>lgr_result := None, lgr_success := False\<rparr>, rt_NoUnknown rt)"

definition LoginResponse_switch ::
  "'u pb_runtime \<Rightarrow> u32 \<Rightarrow> 'u login_response \<Rightarrow> bytes \<Rightarrow> ('u login_response) field_result" where
  "LoginResponse_switch rt tag f s =
     (let field = drop_bit 3 tag; low = (ucast tag :: 8 word) in
      if field = 1 then
        (if low = 10 then parse_message rt
             (ResultCode_InternalParse rt
                (case lgr_result f of None \<Rightarrow> (ResultCode_default, rt_NoUnknown rt) | Some r \<Rightarrow> r))
             (\<lambda>x. f\<lparr>lgr_result := Some x\<rparr>) s
         else FR_unusual)
      else if field = 2 then
        (if low = 16 then parse_bool rt (\<lambda>x. f\<lparr>lgr_success := x\<rparr>) s
         else FR_unusual)
      else FR_unusual)"

definition LoginResponse_InternalParse ::
  "'u pb_runtime \<Rightarrow> 'u login_response \<times> 'u \<Rightarrow> bytes \<Rightarrow> (('u login_response \<times> 'u) \<times> u32 option \<times> bytes) option" where
  "LoginResponse_InternalParse rt = InternalParse rt (LoginResponse_switch rt)"

definition LoginResponse_InternalSerialize :: "'u pb_runtime \<Rightarrow> 'u login_response \<times> 'u \<Rightarrow> bytes" where
  "LoginResponse_InternalSerialize rt m =
     (let f = fst m; u = snd m in
      (case lgr_result f of None \<Rightarrow> []
       | Some r \<Rightarrow> rt_WriteMessage rt 1 (ResultCode_InternalSerialize rt r)) @
      (if lgr_success f then rt_WriteBool rt 2 (lgr_success f) else []) @
      (if rt_have_unknown rt u then rt_SerializeUnknown rt u else []))"

definition LoginResponse_ByteSizeLong :: "'u pb_runtime \<Rightarrow> 'u login_response \<times> 'u \<Rightarrow> nat" where
  "LoginResponse_ByteSizeLong rt m =
     (let f = fst m; u = snd m in
      (case lgr_result f of None \<Rightarrow> 0
       | Some r \<Rightarrow> 1 + rt_MessageSize rt (ResultCode_ByteSizeLong rt r)) +
      (if lgr_success f then 1 + 1 else 0) +
      (if rt_have_unknown rt u then length (rt_SerializeUnknown rt u) else 0))"

definition LoginResponse_merge :: "'u pb_runtime \<Rightarrow> 'u login_response \<Rightarrow> 'u login_response \<Rightarrow> 'u login_response" where
  "LoginResponse_merge rt to from =
     (let t1 = (case lgr_result from of None \<Rightarrow> to
            | Some r \<Rightarrow> to\<lparr>lgr_result := Some (ResultCode_MergeImpl rt
                (case lgr_result to of None \<Rightarrow> (ResultCode_default, rt_NoUnknown rt) | Some q \<Rightarrow> q) r)\<rparr>);
          t2 = (if lgr_success from then t1\<lparr>lgr_success := lgr_success from\<rparr> else t1)
      in t2)"

definition LoginResponse_MergeImpl ::
  "'u pb_runtime \<Rightarrow> 'u login_response \<times> 'u \<Rightarrow> 'u login_response \<times> 'u \<Rightarrow> 'u login_response \<times> 'u" where
  "LoginResponse_MergeImpl rt to from =
     (LoginResponse_merge rt (fst to) (fst from), rt_MergeUnknown rt (snd to) (snd from))"

definition LoginResponse_CopyFrom ::
  "'u pb_runtime \<Rightarrow> 'u login_response \<times> 'u \<Rightarrow> 'u login_response \<times> 'u \<Rightarrow> 'u login_response \<times> 'u" where
  "LoginResponse_CopyFrom rt to from = LoginResponse_MergeImpl rt (LoginResponse_Clear rt to) from"

definition LoginResponse_InternalSwap ::
  "'u login_response \<times> 'u \<Rightarrow> 'u login_response \<times> 'u \<Rightarrow> ('u login_response \<times> 'u) \<times> ('u login_response \<times> 'u)" where
  "LoginResponse_InternalSwap a b =
     (((fst a)\<lparr>lgr_result := lgr_result (fst b), lgr_success := lgr_success (fst b)\<rparr>, snd b),
      ((fst b)\<lparr>lgr_result := lgr_result (fst a), lgr_success := lgr_success (fst a)\<rparr>, snd a))"

lemma LoginResponse_progress: "wire_reads rt \<Longrightarrow> sw_progress (LoginResponse_switch rt)"
  by (auto simp: sw_progress_def LoginResponse_switch_def Let_def dest: parse_field_progress split: if_splits)

definition LoginResponse_writable :: "'u pb_runtime \<Rightarrow> 'u login_response \<Rightarrow> bool" where
  "LoginResponse_writable rt f \<longleftrightarrow> (case lgr_result f of None \<Rightarrow> True
       | Some r \<Rightarrow> snd r = rt_NoUnknown rt \<and> ResultCode_writable rt (fst r) \<and>
           length (ResultCode_InternalSerialize rt r) < 2 ^ 31)"

lemma LoginResponse_parse_merge:
  assumes "wire_ok rt" "LoginResponse_writable rt g"
  shows "InternalParse rt (LoginResponse_switch rt) (f, u) (LoginResponse_InternalSerialize rt (g, rt_NoUnknown rt) @ r) =
    InternalParse rt (LoginResponse_switch rt) (LoginResponse_merge rt f g, u) r"
proof -
  have rd: "wire_reads rt" and rts: "wire_roundtrips rt" using assms(1) by (auto simp: wire_ok_def)
  note sp = LoginResponse_progress [OF rd]
  have s1: "InternalParse rt (LoginResponse_switch rt) (h, u) (rt_WriteMessage rt 1 (ResultCode_InternalSerialize rt x) @ q) =
      InternalParse rt (LoginResponse_switch rt) (h\<lparr>lgr_result := Some (ResultCode_MergeImpl rt
        (case lgr_result h of None \<Rightarrow> (ResultCode_default, rt_NoUnknown rt) | Some q \<Rightarrow> q) x)\<rparr>, u) q"
    if x: "snd x = rt_NoUnknown rt" "ResultCode_writable rt (fst x)"
      "length (ResultCode_InternalSerialize rt x) < 2 ^ 31" for h x q
  proof -
    obtain k where k: "x = (k, rt_NoUnknown rt)" using x(1) by (cases x) auto
    let ?m = "case lgr_result h of None \<Rightarrow> (ResultCode_default, rt_NoUnknown rt) | Some q \<Rightarrow> q"
    have "ResultCode_InternalParse rt ?m (ResultCode_InternalSerialize rt x) =
        Some (ResultCode_MergeImpl rt ?m x, None, [])"
      using rc_msg.parse_one [OF assms(1), of k "fst ?m" "snd ?m"] x(2) wire_roundtrips_end(5) [OF rts] k
      by (simp add: ResultCode_InternalParse_def ResultCode_MergeImpl_def)
    with x(3) show ?thesis
      by (intro parse_written_message [OF assms(1) sp, where sub = "ResultCode_InternalParse rt ?m"
            and upd = "\<lambda>y. h\<lparr>lgr_result := Some y\<rparr>"])
        (simp_all add: field_ok_def LoginResponse_switch_def Let_def)
  qed
  have s2: "InternalParse rt (LoginResponse_switch rt) (h, u) (rt_WriteBool rt 2 x @ q) =
      InternalParse rt (LoginResponse_switch rt) (h\<lparr>lgr_success := x\<rparr>, u) q" for h x q
    by (rule parse_written_bool [OF assms(1) sp]) (simp_all add: field_ok_def LoginResponse_switch_def Let_def)
  show ?thesis
    using assms(2) wire_roundtrips_end(2) [OF rts]
    by (cases "lgr_result g"; cases "lgr_success g")
      (simp_all add: LoginResponse_InternalSerialize_def LoginResponse_merge_def LoginResponse_writable_def Let_def
        s1 [unfolded One_nat_def] s2 [unfolded One_nat_def])
qed

lemma LoginResponse_merge_first:
  "wire_ok rt \<Longrightarrow> LoginResponse_writable rt g \<Longrightarrow> LoginResponse_merge rt LoginResponse_default g = g"
  by (cases g) (auto simp: LoginResponse_merge_def LoginResponse_default_def LoginResponse_writable_def Let_def ResultCode_MergeImpl_def
      ResultCode_merge_first wire_ok_def wire_roundtrips_end(4) prod_eq_iff split: option.splits)

interpretation lgr_msg: wire_message LoginResponse_switch LoginResponse_default LoginResponse_InternalSerialize LoginResponse_merge LoginResponse_writable
  by unfold_locales (simp_all add: LoginResponse_parse_merge LoginResponse_merge_first)

lemma LoginResponse_size:
  assumes "wire_sizes rt"
  shows "LoginResponse_ByteSizeLong rt m = length (LoginResponse_InternalSerialize rt m)"
  using assms
  by (auto simp: LoginResponse_ByteSizeLong_def LoginResponse_InternalSerialize_def wire_sizes_def field_ok_def Let_def ResultCode_size [OF assms]
      split: option.splits)

lemma LoginResponse_copied:
  assumes "\<And>v. rt_MergeUnknown rt (rt_NoUnknown rt) v = v"
  shows "LoginResponse_CopyFrom rt to from = from" "LoginResponse_copy rt from = from" "LoginResponse_InternalSwap to from = (from, to)"
  using assms ResultCode_copied [OF assms]
  by (cases "fst from"; cases "fst to"; auto simp: LoginResponse_CopyFrom_def LoginResponse_MergeImpl_def LoginResponse_Clear_def
      LoginResponse_merge_def LoginResponse_copy_def LoginResponse_default_def LoginResponse_InternalSwap_def Let_def prod_eq_iff ResultCode_MergeImpl_def
      split: option.splits)+

section \<open>RegisterRequest\<close>

text \<open>The arguments of \<open>Register\<close>.\<close>

record register_request =
  rgq_id :: "u32"
  rgq_name :: "bytes"
  rgq_pwd :: "bytes"

definition RegisterRequest_default :: "register_request" where
  "RegisterRequest_default = \<lparr>rgq_id = 0, rgq_name = [], rgq_pwd = []\<rparr>"

definition RegisterRequest_copy :: "'u pb_runtime \<Rightarrow> register_request \<times> 'u \<Rightarrow> register_request \<times> 'u" where
  "RegisterRequest_copy rt from =
     (let f = fst from;
          m0 = RegisterRequest_default;
          m1 = (if rgq_name f \<noteq> [] then m0\<lparr>rgq_name := rgq_name f\<rparr> else m0);
          m2 = (if rgq_pwd f \<noteq> [] then m1\<lparr>rgq_pwd := rgq_pwd f\<rparr> else m1)
      in (m2\<lparr>rgq_id := rgq_id f\<rparr>, rt_MergeUnknown rt (rt_NoUnknown rt) (snd from)))"

definition RegisterRequest_Clear :: "'u pb_runtime \<Rightarrow> register_request \<times> 'u \<Rightarrow> register_request \<times> 'u" where
  "RegisterRequest_Clear rt m = ((fst m)\<lparr>rgq_id := 0, rgq_name := [], rgq_pwd := []\<rparr>, rt_NoUnknown rt)"

definition RegisterRequest_switch ::
  "'u pb_runtime \<Rightarrow> u32 \<Rightarrow> register_request \<Rightarrow> bytes \<Rightarrow> register_request field_result" where
  "RegisterRequest_switch rt tag f s =
     (let field = drop_bit 3 tag; low = (ucast tag :: 8 word) in
      if field = 1 then
        (if low = 8 then parse_varint32 rt (\<lambda>x. f\<lparr>rgq_id := x\<rparr>) s
         else FR_unusual)
      else if field = 2 then
        (if low = 18 then parse_bytes rt (\<lambda>x. f\<lparr>rgq_name := x\<rparr>) s
         else FR_unusual)
      else if field = 3 then
        (if low = 26 then parse_bytes rt (\<lambda>x. f\<lparr>rgq_pwd := x\<rparr>) s
         else FR_unusual)
      else FR_unusual)"

definition RegisterRequest_InternalParse ::
  "'u pb_runtime \<Rightarrow> register_request \<times> 'u \<Rightarrow> bytes \<Rightarrow> ((register_request \<times> 'u) \<times> u32 option \<times> bytes) option" where
  "RegisterRequest_InternalParse rt = InternalParse rt (RegisterRequest_switch rt)"

definition RegisterRequest_InternalSerialize :: "'u pb_runtime \<Rightarrow> register_request \<times> 'u \<Rightarrow> bytes" where
  "RegisterRequest_InternalSerialize rt m =
     (let f = fst m; u = snd m in
      (if rgq_id f \<noteq> 0 then rt_WriteUInt32 rt 1 (rgq_id f) else []) @
      (if rgq_name f \<noteq> [] then rt_WriteString rt 2 (rgq_name f) else []) @
      (if rgq_pwd f \<noteq> [] then rt_WriteString rt 3 (rgq_pwd f) else []) @
      (if rt_have_unknown rt u then rt_SerializeUnknown rt u else []))"

definition RegisterRequest_ByteSizeLong :: "'u pb_runtime \<Rightarrow> register_request \<times> 'u \<Rightarrow> nat" where
  "RegisterRequest_ByteSizeLong rt m =
     (let f = fst m; u = snd m in
      (if rgq_name f \<noteq> [] then 1 + rt_StringSize rt (rgq_name f) else 0) +
      (if rgq_pwd f \<noteq> [] then 1 + rt_StringSize rt (rgq_pwd f) else 0) +
      (if rgq_id f \<noteq> 0 then rt_UInt32SizePlusOne rt (rgq_id f) else 0) +
      (if rt_have_unknown rt u then length (rt_SerializeUnknown rt u) else 0))"

definition RegisterRequest_merge :: "'u pb_runtime \<Rightarrow> register_request \<Rightarrow> register_request \<Rightarrow> register_request" where
  "RegisterRequest_merge rt to from =
     (let t1 = (if rgq_name from \<noteq> [] then to\<lparr>rgq_name := rgq_name from\<rparr> else to);
          t2 = (if rgq_pwd from \<noteq> [] then t1\<lparr>rgq_pwd := rgq_pwd from\<rparr> else t1);
          t3 = (if rgq_id from \<noteq> 0 then t2\<lparr>rgq_id := rgq_id from\<rparr> else t2)
      in t3)"

definition RegisterRequest_MergeImpl ::
  "'u pb_runtime \<Rightarrow> register_request \<times> 'u \<Rightarrow> register_request \<times> 'u \<Rightarrow> register_request \<times> 'u" where
  "RegisterRequest_MergeImpl rt to from =
     (RegisterRequest_merge rt (fst to) (fst from), rt_MergeUnknown rt (snd to) (snd from))"

definition RegisterRequest_CopyFrom ::
  "'u pb_runtime \<Rightarrow> register_request \<times> 'u \<Rightarrow> register_request \<times> 'u \<Rightarrow> register_request \<times> 'u" where
  "RegisterRequest_CopyFrom rt to from = RegisterRequest_MergeImpl rt (RegisterRequest_Clear rt to) from"

definition RegisterRequest_InternalSwap ::
  "register_request \<times> 'u \<Rightarrow> register_request \<times> 'u \<Rightarrow> (register_request \<times> 'u) \<times> (register_request \<times> 'u)" where
  "RegisterRequest_InternalSwap a b =
     (((fst a)\<lparr>rgq_id := rgq_id (fst b), rgq_name := rgq_name (fst b), rgq_pwd := rgq_pwd (fst b)\<rparr>, snd b),
      ((fst b)\<lparr>rgq_id := rgq_id (fst a), rgq_name := rgq_name (fst a), rgq_pwd := rgq_pwd (fst a)\<rparr>, snd a))"

lemma RegisterRequest_progress: "wire_reads rt \<Longrightarrow> sw_progress (RegisterRequest_switch rt)"
  by (auto simp: sw_progress_def RegisterRequest_switch_def Let_def dest: parse_field_progress split: if_splits)

definition RegisterRequest_writable :: "'u pb_runtime \<Rightarrow> register_request \<Rightarrow> bool" where
  "RegisterRequest_writable rt f \<longleftrightarrow> length (rgq_name f) < 2 ^ 31 \<and> length (rgq_pwd f) < 2 ^ 31"

lemma RegisterRequest_parse_merge:
  assumes "wire_ok rt" "RegisterRequest_writable rt g"
  shows "InternalParse rt (RegisterRequest_switch rt) (f, u) (RegisterRequest_InternalSerialize rt (g, rt_NoUnknown rt) @ r) =
    InternalParse rt (RegisterRequest_switch rt) (RegisterRequest_merge rt f g, u) r"
proof -
  have rd: "wire_reads rt" and rts: "wire_roundtrips rt" using assms(1) by (auto simp: wire_ok_def)
  note sp = RegisterRequest_progress [OF rd]
  have s1: "InternalParse rt (RegisterRequest_switch rt) (h, u) (rt_WriteUInt32 rt 1 x @ q) =
      InternalParse rt (RegisterRequest_switch rt) (h\<lparr>rgq_id := x\<rparr>, u) q" for h x q
    by (rule parse_written_int32(2) [OF assms(1) sp]) (simp_all add: field_ok_def RegisterRequest_switch_def Let_def)
  have s2: "InternalParse rt (RegisterRequest_switch rt) (h, u) (rt_WriteString rt 2 x @ q) =
      InternalParse rt (RegisterRequest_switch rt) (h\<lparr>rgq_name := x\<rparr>, u) q" if "length x < 2 ^ 31" for h x q
    by (rule parse_written_bytes [OF assms(1) sp _ that]) (simp_all add: field_ok_def RegisterRequest_switch_def Let_def)
  have s3: "InternalParse rt (RegisterRequest_switch rt) (h, u) (rt_WriteString rt 3 x @ q) =
      InternalParse rt (RegisterRequest_switch rt) (h\<lparr>rgq_pwd := x\<rparr>, u) q" if "length x < 2 ^ 31" for h x q
    by (rule parse_written_bytes [OF assms(1) sp _ that]) (simp_all add: field_ok_def RegisterRequest_switch_def Let_def)
  show ?thesis
    using assms(2) wire_roundtrips_end(2) [OF rts]
    by (cases f) (simp add: RegisterRequest_InternalSerialize_def RegisterRequest_merge_def RegisterRequest_writable_def Let_def
        s1 [simplified] s2 [simplified] s3 [simplified])
qed

lemma RegisterRequest_merge_first [simp]: "RegisterRequest_merge rt RegisterRequest_default g = g"
  by (cases g) (simp add: RegisterRequest_merge_def RegisterRequest_default_def Let_def)

interpretation rgq_msg: wire_message RegisterRequest_switch RegisterRequest_default RegisterRequest_InternalSerialize RegisterRequest_merge RegisterRequest_writable
  by unfold_locales (simp_all add: RegisterRequest_parse_merge)

lemma RegisterRequest_size:
  assumes "wire_sizes rt"
  shows "RegisterRequest_ByteSizeLong rt m = length (RegisterRequest_InternalSerialize rt m)"
  using assms
  by (auto simp: RegisterRequest_ByteSizeLong_def RegisterRequest_InternalSerialize_def wire_sizes_def field_ok_def Let_def
      split: option.splits)

lemma RegisterRequest_copied:
  assumes "\<And>v. rt_MergeUnknown rt (rt_NoUnknown rt) v = v"
  shows "RegisterRequest_CopyFrom rt to from = from" "RegisterRequest_copy rt from = from" "RegisterRequest_InternalSwap to from = (from, to)"
  using assms
  by (cases "fst from"; cases "fst to"; auto simp: RegisterRequest_CopyFrom_def RegisterRequest_MergeImpl_def RegisterRequest_Clear_def
      RegisterRequest_merge_def RegisterRequest_copy_def RegisterRequest_default_def RegisterRequest_InternalSwap_def Let_def prod_eq_iff
      split: option.splits)+

section \<open>RegisterResponse\<close>

text \<open>The answer to \<open>Register\<close>.\<close>

record 'u register_response =
  rgr_result :: "(result_code \<times> 'u) option"
  rgr_success :: "bool"

definition RegisterResponse_default :: "'u register_response" where
  "RegisterResponse_default = \<lparr>rgr_result = None, rgr_success = False\<rparr>"

definition RegisterResponse_copy :: "'u pb_runtime \<Rightarrow> 'u register_response \<times> 'u \<Rightarrow> 'u register_response \<times> 'u" where
  "RegisterResponse_copy rt from =
     (let f = fst from in
      (\<lparr>rgr_result = (case rgr_result f of None \<Rightarrow> None | Some r \<Rightarrow> Some (ResultCode_copy rt r)),
         rgr_success = rgr_success f\<rparr>, rt_MergeUnknown rt (rt_NoUnknown rt) (snd from)))"

definition RegisterResponse_Clear :: "'u pb_runtime \<Rightarrow> 'u register_response \<times> 'u \<Rightarrow> 'u register_response \<times> 'u" where
  "RegisterResponse_Clear rt m = ((fst m)\<lparr>rgr_result := None, rgr_success := False\<rparr>, rt_NoUnknown rt)"

definition RegisterResponse_switch ::
  "'u pb_runtime \<Rightarrow> u32 \<Rightarrow> 'u register_response \<Rightarrow> bytes \<Rightarrow> ('u register_response) field_result" where
  "RegisterResponse_switch rt tag f s =
     (let field = drop_bit 3 tag; low = (ucast tag :: 8 word) in
      if field = 1 then
        (if low = 10 then parse_message rt
             (ResultCode_InternalParse rt
                (case rgr_result f of None \<Rightarrow> (ResultCode_default, rt_NoUnknown rt) | Some r \<Rightarrow> r))
             (\<lambda>x. f\<lparr>rgr_result := Some x\<rparr>) s
         else FR_unusual)
      else if field = 2 then
        (if low = 16 then parse_bool rt (\<lambda>x. f\<lparr>rgr_success := x\<rparr>) s
         else FR_unusual)
      else FR_unusual)"

definition RegisterResponse_InternalParse ::
  "'u pb_runtime \<Rightarrow> 'u register_response \<times> 'u \<Rightarrow> bytes \<Rightarrow> (('u register_response \<times> 'u) \<times> u32 option \<times> bytes) option" where
  "RegisterResponse_InternalParse rt = InternalParse rt (RegisterResponse_switch rt)"

definition RegisterResponse_InternalSerialize :: "'u pb_runtime \<Rightarrow> 'u register_response \<times> 'u \<Rightarrow> bytes" where
  "RegisterResponse_InternalSerialize rt m =
     (let f = fst m; u = snd m in
      (case rgr_result f of None \<Rightarrow> []
       | Some r \<Rightarrow> rt_WriteMessage rt 1 (ResultCode_InternalSerialize rt r)) @
      (if rgr_success f then rt_WriteBool rt 2 (rgr_success f) else []) @
      (if rt_have_unknown rt u then rt_SerializeUnknown rt u else []))"

definition RegisterResponse_ByteSizeLong :: "'u pb_runtime \<Rightarrow> 'u register_response \<times> 'u \<Rightarrow> nat" where
  "RegisterResponse_ByteSizeLong rt m =
     (let f = fst m; u = snd m in
      (case rgr_result f of None \<Rightarrow> 0
       | Some r \<Rightarrow> 1 + rt_MessageSize rt (ResultCode_ByteSizeLong rt r)) +
      (if rgr_success f then 1 + 1 else 0) +
      (if rt_have_unknown rt u then length (rt_SerializeUnknown rt u) else 0))"

definition RegisterResponse_merge :: "'u pb_runtime \<Rightarrow> 'u register_response \<Rightarrow> 'u register_response \<Rightarrow> 'u register_response" where
  "RegisterResponse_merge rt to from =
     (let t1 = (case rgr_result from of None \<Rightarrow> to
            | Some r \<Rightarrow> to\<lparr>rgr_result := Some (ResultCode_MergeImpl rt
                (case rgr_result to of None \<Rightarrow> (ResultCode_default, rt_NoUnknown rt) | Some q \<Rightarrow> q) r)\<rparr>);
          t2 = (if rgr_success from then t1\<lparr>rgr_success := rgr_success from\<rparr> else t1)
      in t2)"

definition RegisterResponse_MergeImpl ::
  "'u pb_runtime \<Rightarrow> 'u register_response \<times> 'u \<Rightarrow> 'u register_response \<times> 'u \<Rightarrow> 'u register_response \<times> 'u" where
  "RegisterResponse_MergeImpl rt to from =
     (RegisterResponse_merge rt (fst to) (fst from), rt_MergeUnknown rt (snd to) (snd from))"

definition RegisterResponse_CopyFrom ::
  "'u pb_runtime \<Rightarrow> 'u register_response \<times> 'u \<Rightarrow> 'u register_response \<times> 'u \<Rightarrow> 'u register_response \<times> 'u" where
  "RegisterResponse_CopyFrom rt to from = RegisterResponse_MergeImpl rt (RegisterResponse_Clear rt to) from"

definition RegisterResponse_InternalSwap ::
  "'u register_response \<times> 'u \<Rightarrow> 'u register_response \<times> 'u \<Rightarrow> ('u register_response \<times> 'u) \<times> ('u register_response \<times> 'u)" where
  "RegisterResponse_InternalSwap a b =
     (((fst a)\<lparr>rgr_result := rgr_result (fst b), rgr_success := rgr_success (fst b)\<rparr>, snd b),
      ((fst b)\<lparr>rgr_result := rgr_result (fst a), rgr_success := rgr_success (fst a)\<rparr>, snd a))"

lemma RegisterResponse_progress: "wire_reads rt \<Longrightarrow> sw_progress (RegisterResponse_switch rt)"
  by (auto simp: sw_progress_def RegisterResponse_switch_def Let_def dest: parse_field_progress split: if_splits)

definition RegisterResponse_writable :: "'u pb_runtime \<Rightarrow> 'u register_response \<Rightarrow> bool" where
  "RegisterResponse_writable rt f \<longleftrightarrow> (case rgr_result f of None \<Rightarrow> True
       | Some r \<Rightarrow> snd r = rt_NoUnknown rt \<and> ResultCode_writable rt (fst r) \<and>
           length (ResultCode_InternalSerialize rt r) < 2 ^ 31)"

lemma RegisterResponse_parse_merge:
  assumes "wire_ok rt" "RegisterResponse_writable rt g"
  shows "InternalParse rt (RegisterResponse_switch rt) (f, u) (RegisterResponse_InternalSerialize rt (g, rt_NoUnknown rt) @ r) =
    InternalParse rt (RegisterResponse_switch rt) (RegisterResponse_merge rt f g, u) r"
proof -
  have rd: "wire_reads rt" and rts: "wire_roundtrips rt" using assms(1) by (auto simp: wire_ok_def)
  note sp = RegisterResponse_progress [OF rd]
  have s1: "InternalParse rt (RegisterResponse_switch rt) (h, u) (rt_WriteMessage rt 1 (ResultCode_InternalSerialize rt x) @ q) =
      InternalParse rt (RegisterResponse_switch rt) (h\<lparr>rgr_result := Some (ResultCode_MergeImpl rt
        (case rgr_result h of None \<Rightarrow> (ResultCode_default, rt_NoUnknown rt) | Some q \<Rightarrow> q) x)\<rparr>, u) q"
    if x: "snd x = rt_NoUnknown rt" "ResultCode_writable rt (fst x)"
      "length (ResultCode_InternalSerialize rt x) < 2 ^ 31" for h x q
  proof -
    obtain k where k: "x = (k, rt_NoUnknown rt)" using x(1) by (cases x) auto
    let ?m = "case rgr_result h of None \<Rightarrow> (ResultCode_default, rt_NoUnknown rt) | Some q \<Rightarrow> q"
    have "ResultCode_InternalParse rt ?m (ResultCode_InternalSerialize rt x) =
        Some (ResultCode_MergeImpl rt ?m x, None, [])"
      using rc_msg.parse_one [OF assms(1), of k "fst ?m" "snd ?m"] x(2) wire_roundtrips_end(5) [OF rts] k
      by (simp add: ResultCode_InternalParse_def ResultCode_MergeImpl_def)
    with x(3) show ?thesis
      by (intro parse_written_message [OF assms(1) sp, where sub = "ResultCode_InternalParse rt ?m"
            and upd = "\<lambda>y. h\<lparr>rgr_result := Some y\<rparr>"])
        (simp_all add: field_ok_def RegisterResponse_switch_def Let_def)
  qed
  have s2: "InternalParse rt (RegisterResponse_switch rt) (h, u) (rt_WriteBool rt 2 x @ q) =
      InternalParse rt (RegisterResponse_switch rt) (h\<lparr>rgr_success := x\<rparr>, u) q" for h x q
    by (rule parse_written_bool [OF assms(1) sp]) (simp_all add: field_ok_def RegisterResponse_switch_def Let_def)
  show ?thesis
    using assms(2) wire_roundtrips_end(2) [OF rts]
    by (cases "rgr_result g"; cases "rgr_success g")
      (simp_all add: RegisterResponse_InternalSerialize_def RegisterResponse_merge_def RegisterResponse_writable_def Let_def
        s1 [unfolded One_nat_def] s2 [unfolded One_nat_def])
qed

lemma RegisterResponse_merge_first:
  "wire_ok rt \<Longrightarrow> RegisterResponse_writable rt g \<Longrightarrow> RegisterResponse_merge rt RegisterResponse_default g = g"
  by (cases g) (auto simp: RegisterResponse_merge_def RegisterResponse_default_def RegisterResponse_writable_def Let_def ResultCode_MergeImpl_def
      ResultCode_merge_first wire_ok_def wire_roundtrips_end(4) prod_eq_iff split: option.splits)

interpretation rgr_msg: wire_message RegisterResponse_switch RegisterResponse_default RegisterResponse_InternalSerialize RegisterResponse_merge RegisterResponse_writable
  by unfold_locales (simp_all add: RegisterResponse_parse_merge RegisterResponse_merge_first)

lemma RegisterResponse_size:
  assumes "wire_sizes rt"
  shows "RegisterResponse_ByteSizeLong rt m = length (RegisterResponse_InternalSerialize rt m)"
  using assms
  by (auto simp: RegisterResponse_ByteSizeLong_def RegisterResponse_InternalSerialize_def wire_sizes_def field_ok_def Let_def ResultCode_size [OF assms]
      split: option.splits)

lemma RegisterResponse_copied:
  assumes "\<And>v. rt_MergeUnknown rt (rt_NoUnknown rt) v = v"
  shows "RegisterResponse_CopyFrom rt to from = from" "RegisterResponse_copy rt from = from" "RegisterResponse_InternalSwap to from = (from, to)"
  using assms ResultCode_copied [OF assms]
  by (cases "fst from"; cases "fst to"; auto simp: RegisterResponse_CopyFrom_def RegisterResponse_MergeImpl_def RegisterResponse_Clear_def
      RegisterResponse_merge_def RegisterResponse_copy_def RegisterResponse_default_def RegisterResponse_InternalSwap_def Let_def prod_eq_iff ResultCode_MergeImpl_def
      split: option.splits)+

section \<open>Properties\<close>

text \<open>
  Property (C33). The wire form of the service's messages, for each of the five classes: a message
  that is written and parsed again is the same message, whichever of its fields have their default
  and whether or not a response has a result; and a message followed by a second one of its class
  parses as \<open>MergeImpl\<close> of the two, the results of responses merged field by field. The messages
  carry no unknown fields, and each text and sub-message is shorter than \<open>2\<^sup>31\<close> bytes.
\<close>

theorem user_messages_parse_serialize:
  assumes "wire_ok rt" and
    "ResultCode_writable rt e" and "ResultCode_writable rt e2" and
    "LoginRequest_writable rt q" and "LoginRequest_writable rt q2" and
    "LoginResponse_writable rt a" and "LoginResponse_writable rt a2" and
    "RegisterRequest_writable rt r" and "RegisterRequest_writable rt r2" and
    "RegisterResponse_writable rt c" and "RegisterResponse_writable rt c2"
  shows "ParseFromString rt (ResultCode_switch rt) ResultCode_default
      (ResultCode_InternalSerialize rt (e, rt_NoUnknown rt)) = Some (e, rt_NoUnknown rt) \<and>
    ParseFromString rt (ResultCode_switch rt) ResultCode_default
      (ResultCode_InternalSerialize rt (e, rt_NoUnknown rt) @ ResultCode_InternalSerialize rt (e2, rt_NoUnknown rt)) =
      Some (ResultCode_MergeImpl rt (e, rt_NoUnknown rt) (e2, rt_NoUnknown rt)) \<and>
    ParseFromString rt (LoginRequest_switch rt) LoginRequest_default
      (LoginRequest_InternalSerialize rt (q, rt_NoUnknown rt)) = Some (q, rt_NoUnknown rt) \<and>
    ParseFromString rt (LoginRequest_switch rt) LoginRequest_default
      (LoginRequest_InternalSerialize rt (q, rt_NoUnknown rt) @ LoginRequest_InternalSerialize rt (q2, rt_NoUnknown rt)) =
      Some (LoginRequest_MergeImpl rt (q, rt_NoUnknown rt) (q2, rt_NoUnknown rt)) \<and>
    ParseFromString rt (LoginResponse_switch rt) LoginResponse_default
      (LoginResponse_InternalSerialize rt (a, rt_NoUnknown rt)) = Some (a, rt_NoUnknown rt) \<and>
    ParseFromString rt (LoginResponse_switch rt) LoginResponse_default
      (LoginResponse_InternalSerialize rt (a, rt_NoUnknown rt) @ LoginResponse_InternalSerialize rt (a2, rt_NoUnknown rt)) =
      Some (LoginResponse_MergeImpl rt (a, rt_NoUnknown rt) (a2, rt_NoUnknown rt)) \<and>
    ParseFromString rt (RegisterRequest_switch rt) RegisterRequest_default
      (RegisterRequest_InternalSerialize rt (r, rt_NoUnknown rt)) = Some (r, rt_NoUnknown rt) \<and>
    ParseFromString rt (RegisterRequest_switch rt) RegisterRequest_default
      (RegisterRequest_InternalSerialize rt (r, rt_NoUnknown rt) @ RegisterRequest_InternalSerialize rt (r2, rt_NoUnknown rt)) =
      Some (RegisterRequest_MergeImpl rt (r, rt_NoUnknown rt) (r2, rt_NoUnknown rt)) \<and>
    ParseFromString rt (RegisterResponse_switch rt) RegisterResponse_default
      (RegisterResponse_InternalSerialize rt (c, rt_NoUnknown rt)) = Some (c, rt_NoUnknown rt) \<and>
    ParseFromString rt (RegisterResponse_switch rt) RegisterResponse_default
      (RegisterResponse_InternalSerialize rt (c, rt_NoUnknown rt) @ RegisterResponse_InternalSerialize rt (c2, rt_NoUnknown rt)) =
      Some (RegisterResponse_MergeImpl rt (c, rt_NoUnknown rt) (c2, rt_NoUnknown rt))"
proof -
  have u: "rt_MergeUnknown rt (rt_NoUnknown rt) (rt_NoUnknown rt) = rt_NoUnknown rt"
    using assms(1) by (simp add: wire_ok_def wire_roundtrips_end(4))
  show ?thesis
    unfolding ResultCode_MergeImpl_def LoginRequest_MergeImpl_def LoginResponse_MergeImpl_def RegisterRequest_MergeImpl_def RegisterResponse_MergeImpl_def
    using
    rc_msg.parse_written [OF assms(1,2)] rc_msg.parse_two [OF assms(1,2,3)]
    lgq_msg.parse_written [OF assms(1,4)] lgq_msg.parse_two [OF assms(1,4,5)]
    lgr_msg.parse_written [OF assms(1,6)] lgr_msg.parse_two [OF assms(1,6,7)]
    rgq_msg.parse_written [OF assms(1,8)] rgq_msg.parse_two [OF assms(1,8,9)]
    rgr_msg.parse_written [OF assms(1,10)] rgr_msg.parse_two [OF assms(1,10,11)]
    by (simp only: u fst_conv snd_conv simp_thms)
qed

lemma user_messages_parse_serialize_witness:
  "ParseFromString wire_runtime (LoginResponse_switch wire_runtime) LoginResponse_default
     (LoginResponse_InternalSerialize wire_runtime
       (\<lparr>lgr_result = Some (\<lparr>rc_errcode = 3, rc_errmsg = ''no''\<rparr>, ()), lgr_success = True\<rparr>, ())) =
   Some (\<lparr>lgr_result = Some (\<lparr>rc_errcode = 3, rc_errmsg = ''no''\<rparr>, ()), lgr_success = True\<rparr>, ()) \<and>
   ParseFromString wire_runtime (ResultCode_switch wire_runtime) ResultCode_default
     (ResultCode_InternalSerialize wire_runtime (\<lparr>rc_errcode = 3, rc_errmsg = ''no''\<rparr>, ()) @
      ResultCode_InternalSerialize wire_runtime (\<lparr>rc_errcode = 4, rc_errmsg = []\<rparr>, ())) =
   Some (\<lparr>rc_errcode = 4, rc_errmsg = ''no''\<rparr>, ())"
proof -
  let ?a = "\<lparr>lgr_result = Some (\<lparr>rc_errcode = 3, rc_errmsg = ''no''\<rparr>, ()), lgr_success = True\<rparr>"
  let ?e = "\<lparr>rc_errcode = 3, rc_errmsg = ''no''\<rparr>" and ?e2 = "\<lparr>rc_errcode = 4, rc_errmsg = []\<rparr>"
  have "length (ResultCode_InternalSerialize wire_runtime (?e, ())) < 2 ^ 31"
    by (simp add: ResultCode_InternalSerialize_def wire_runtime_def put_delimited_def put_varint.simps Let_def)
  then have a: "LoginResponse_writable wire_runtime ?a" "ResultCode_writable wire_runtime ?e"
      "ResultCode_writable wire_runtime ?e2"
    by (simp_all add: LoginResponse_writable_def ResultCode_writable_def)
  have q: "LoginRequest_writable wire_runtime LoginRequest_default"
      "RegisterRequest_writable wire_runtime RegisterRequest_default"
      "RegisterResponse_writable wire_runtime RegisterResponse_default"
    by (simp_all add: LoginRequest_writable_def LoginRequest_default_def RegisterRequest_writable_def
        RegisterRequest_default_def RegisterResponse_writable_def RegisterResponse_default_def)
  have m: "ResultCode_MergeImpl wire_runtime (?e, ()) (?e2, ()) = (\<lparr>rc_errcode = 4, rc_errmsg = ''no''\<rparr>, ())"
    by (simp add: ResultCode_MergeImpl_def ResultCode_merge_def)
  from user_messages_parse_serialize [OF wire_runtime_ok a(2,3) q(1,1) a(1,1) q(2,2) q(3,3)]
  show ?thesis by (simp add: m)
qed

text \<open>
  \<open>ByteSizeLong\<close> of every message of the service is the number of bytes its
  serialiser writes, sub-messages and unknown fields included.
\<close>

theorem user_messages_size:
  assumes "wire_sizes rt"
  shows "LoginRequest_ByteSizeLong rt q = length (LoginRequest_InternalSerialize rt q) \<and>
    RegisterRequest_ByteSizeLong rt r = length (RegisterRequest_InternalSerialize rt r) \<and>
    LoginResponse_ByteSizeLong rt a = length (LoginResponse_InternalSerialize rt a) \<and>
    RegisterResponse_ByteSizeLong rt c = length (RegisterResponse_InternalSerialize rt c)"
  using LoginRequest_size [OF assms] RegisterRequest_size [OF assms] LoginResponse_size [OF assms]
    RegisterResponse_size [OF assms] by blast

lemma user_messages_size_witness:
  "LoginResponse_ByteSizeLong wire_runtime
      (\<lparr>lgr_result = Some (\<lparr>rc_errcode = 3, rc_errmsg = ''no''\<rparr>, ()), lgr_success = True\<rparr>, ()) =
   length (LoginResponse_InternalSerialize wire_runtime
      (\<lparr>lgr_result = Some (\<lparr>rc_errcode = 3, rc_errmsg = ''no''\<rparr>, ()), lgr_success = True\<rparr>, ()))"
  using user_messages_size [OF wire_runtime_sizes] by blast

end
