(* ===== verification/RpcConfig.thy ===== *)
theory RpcConfig
  imports CxxText
begin

text \<open>
  Configuration and call status of the RPC framework: \<^verbatim>\<open>mprpcconfig.cc\<close> (the
  \<open>key=value\<close> file), \<^verbatim>\<open>mprpcapplication.cc\<close> (the command line that names it) and
  \<^verbatim>\<open>mprpccontroller.cc\<close> (the failure flag and text of one call).
\<close>

section \<open>The configuration file\<close>

record mprpc_config =
  config_map :: "string \<rightharpoonup> string"

definition empty_config :: mprpc_config where
  "empty_config = \<lparr>config_map = (\<lambda>_. None)\<rparr>"

text \<open>
  \<open>end_idx - start_idx + 1\<close> characters from \<open>start_idx\<close>; the branch without a last
  position cannot be reached and would take the rest of the string.
\<close>

definition Trim :: "string \<Rightarrow> string" where
  "Trim src_buf =
     (case find_first_not_of src_buf CHR '' '' of
        None \<Rightarrow> []
      | Some start_idx \<Rightarrow>
          (case find_last_not_of src_buf CHR '' '' of
             None \<Rightarrow> drop start_idx src_buf
           | Some end_idx \<Rightarrow> substr src_buf start_idx (end_idx - start_idx + 1)))"

text \<open>One pass of the loop body: the entry a line contributes, if any.\<close>

definition config_line :: "string \<Rightarrow> (string \<times> string) option" where
  "config_line line =
     (if line = [] then None
      else if hd line = CHR ''#'' then None
      else case find_char CHR ''='' line of
          None \<Rightarrow> None
        | Some idx \<Rightarrow>
            let key = Trim (substr line 0 idx);
                value = Trim (substr line (idx + 1) (length line - idx))
            in if key = [] then None else Some (key, value))"

fun load_lines :: "mprpc_config \<Rightarrow> string list \<Rightarrow> mprpc_config" where
  "load_lines c [] = c"
| "load_lines c (line # ls) =
     (case config_line line of
        None \<Rightarrow> load_lines c ls
      | Some (key, value) \<Rightarrow>
          load_lines (c\<lparr>config_map := map_insert key value (config_map c)\<rparr>) ls)"

text \<open>The file is its text, or \<^term>\<open>None\<close> when it cannot be opened.\<close>

definition LoadConfigFile :: "mprpc_config \<Rightarrow> string option \<Rightarrow> mprpc_config" where
  "LoadConfigFile c file =
     (case file of None \<Rightarrow> c | Some txt \<Rightarrow> load_lines c (getlines [] txt))"

definition Load :: "mprpc_config \<Rightarrow> string \<Rightarrow> string" where
  "Load c key = (case config_map c key of None \<Rightarrow> [] | Some v \<Rightarrow> v)"

section \<open>The application's command line\<close>

text \<open>
  \<^verbatim>\<open>getopt(argc, argv, "c:")\<close> is the C library's: the list holds what its calls return
  until \<open>-1\<close>. \<^term>\<open>None\<close> is \<^verbatim>\<open>exit(EXIT_FAILURE)\<close>.
\<close>

datatype getopt_result = Opt_c string | Opt_other

fun init_options ::
  "(string \<Rightarrow> string option) \<Rightarrow> mprpc_config \<Rightarrow> getopt_result list \<Rightarrow> mprpc_config option" where
  "init_options fs c [] = Some c"
| "init_options fs c (Opt_c optarg # opts) = init_options fs (LoadConfigFile c (fs optarg)) opts"
| "init_options fs c (Opt_other # opts) = None"

definition MprpcApplication_Init ::
  "(string \<Rightarrow> string option) \<Rightarrow> mprpc_config \<Rightarrow> nat \<Rightarrow> getopt_result list \<Rightarrow> mprpc_config option" where
  "MprpcApplication_Init fs c argc opts = (if argc < 3 then None else init_options fs c opts)"

section \<open>The controller of one call\<close>

record mprpc_controller =
  failed :: bool
  err_text :: string

definition controller_Reset :: "mprpc_controller \<Rightarrow> mprpc_controller" where
  "controller_Reset c = c\<lparr>failed := False, err_text := []\<rparr>"

definition new_controller :: mprpc_controller where
  "new_controller = controller_Reset \<lparr>failed = False, err_text = []\<rparr>"

definition controller_Failed :: "mprpc_controller \<Rightarrow> bool" where
  "controller_Failed c = failed c"

definition controller_ErrorText :: "mprpc_controller \<Rightarrow> string" where
  "controller_ErrorText c = err_text c"

definition controller_SetFailed :: "mprpc_controller \<Rightarrow> string \<Rightarrow> mprpc_controller" where
  "controller_SetFailed c reason = c\<lparr>failed := True, err_text := reason\<rparr>"

text \<open>Cancellation is not implemented: starting it does nothing and nothing is cancelled.\<close>

definition controller_StartCancel :: "mprpc_controller \<Rightarrow> mprpc_controller" where
  "controller_StartCancel c = c"

definition controller_IsCanceled :: "mprpc_controller \<Rightarrow> bool" where
  "controller_IsCanceled c = False"

definition controller_NotifyOnCancel :: "'f \<Rightarrow> mprpc_controller \<Rightarrow> mprpc_controller" where
  "controller_NotifyOnCancel callback c = c"

section \<open>Lemmas\<close>

definition trimmed :: "string \<Rightarrow> bool" where
  "trimmed s \<longleftrightarrow> s = [] \<or> hd s \<noteq> CHR '' '' \<and> last s \<noteq> CHR '' ''"

lemma Trim_pad:
  assumes "trimmed s"
  shows "Trim (replicate m CHR '' '' @ s @ replicate n CHR '' '') = s"
proof (cases "s = []")
  case True
  have "set (replicate m CHR '' '' @ replicate n CHR '' '') \<subseteq> {CHR '' ''}" by auto
  then have "find_first_not_of (replicate m CHR '' '' @ replicate n CHR '' '') CHR '' '' = None"
    using find_first_not_of_None by blast
  with True show ?thesis by (simp add: Trim_def)
next
  case False
  with assms have h: "hd s \<noteq> CHR '' ''" "last s \<noteq> CHR '' ''" by (auto simp: trimmed_def)
  let ?t = "replicate m CHR '' '' @ s @ replicate n CHR '' ''"
  have "find_first_not_of ?t CHR '' '' = Some m"
    using False h by (simp add: find_first_not_of_replicate find_first_not_of_hd)
  moreover have "find_last_not_of ?t CHR '' '' = Some (m + length s - 1)"
  proof -
    have "find_last_not_of ?t CHR '' '' = find_last_not_of (replicate m CHR '' '' @ s) CHR '' ''"
      using find_last_not_of_replicate [of "replicate m CHR '' '' @ s" n "CHR '' ''"] by simp
    also have "\<dots> = Some (m + length s - 1)"
      using False h by (subst find_last_not_of_last) auto
    finally show ?thesis .
  qed
  ultimately show ?thesis using False by (simp add: Trim_def substr_def)
qed

lemma Trim_id: "trimmed s \<Longrightarrow> Trim s = s"
  using Trim_pad [of s 0 0] by simp

lemma load_lines_fold:
  "config_map (load_lines c ls) =
     fold (\<lambda>(k, v). map_insert k v) (List.map_filter config_line ls) (config_map c)"
  by (induction ls arbitrary: c) (auto simp: map_filter_simps split: option.splits)

definition clean_key :: "string \<Rightarrow> bool" where
  "clean_key k \<longleftrightarrow> k \<noteq> [] \<and> trimmed k \<and> hd k \<noteq> CHR ''#'' \<and> CHR ''='' \<notin> set k
     \<and> CHR 0x0A \<notin> set k"

definition clean_value :: "string \<Rightarrow> bool" where
  "clean_value v \<longleftrightarrow> trimmed v \<and> CHR 0x0A \<notin> set v"

lemma config_line_entry:
  assumes "clean_key k" "clean_value v"
  shows "config_line (k @ CHR ''='' # v) = Some (k, v)"
proof -
  from assms(1) obtain c cs where k: "k = c # cs" by (cases k) (auto simp: clean_key_def)
  have "find_char CHR ''='' (k @ CHR ''='' # v) = Some (length k)"
    using assms(1) by (intro find_char_append) (simp add: clean_key_def)
  then show ?thesis
    using assms k by (simp add: config_line_def substr_def clean_key_def clean_value_def Trim_id)
qed

section \<open>Properties\<close>

text \<open>
  Loading a configuration file: every key has the value it had before, if it had
  one, and otherwise the value of the first line of the file that defines it; later lines for
  the same key, empty lines, comments and lines without \<open>=\<close> or without a key change nothing.
\<close>

theorem LoadConfigFile_first_wins:
  "config_map (LoadConfigFile c (Some txt)) k =
     (case config_map c k of
        Some v \<Rightarrow> Some v
      | None \<Rightarrow> map_of (List.map_filter config_line (getlines [] txt)) k)"
  by (simp add: LoadConfigFile_def load_lines_fold fold_map_insert)

text \<open>
  Round trip of the configuration file: writing entries with clean keys and
  values as \<open>key=value\<close> lines and loading the file gives \<open>Load\<close> the first value written for
  each key, and the empty string for every other key.
\<close>

theorem config_roundtrip:
  assumes "\<forall>(k, v) \<in> set es. clean_key k \<and> clean_value v"
  shows "Load (LoadConfigFile empty_config
      (Some (concat (map (\<lambda>(k, v). k @ ''='' @ v @ [CHR 0x0A]) es)))) key =
    (case map_of es key of None \<Rightarrow> [] | Some v \<Rightarrow> v)"
proof -
  let ?ls = "map (\<lambda>(k, v). k @ CHR ''='' # v) es"
  have "concat (map (\<lambda>(k, v). k @ ''='' @ v @ [CHR 0x0A]) es)
      = concat (map (\<lambda>l. l @ [CHR 0x0A]) ?ls)"
    by (induction es) auto
  moreover have "\<forall>l\<in>set ?ls. CHR 0x0A \<notin> set l"
    using assms by (auto simp: clean_key_def clean_value_def)
  moreover have "List.map_filter config_line ?ls = es"
    using assms by (induction es) (auto simp: map_filter_simps config_line_entry)
  ultimately show ?thesis
    using LoadConfigFile_first_wins [of empty_config] getlines_lines [of ?ls]
    by (simp add: Load_def empty_config_def LoadConfigFile_def load_lines_fold fold_map_insert)
qed

lemma config_roundtrip_witness:
  "Load (LoadConfigFile empty_config (Some (''rpcserverport=8000'' @ [CHR 0x0A])))
     ''rpcserverport'' = ''8000''"
  using config_roundtrip [of "[(''rpcserverport'', ''8000'')]" "''rpcserverport''"]
  by (simp add: clean_key_def clean_value_def trimmed_def)

end
