(* ===== verification/FrameStream.thy ===== *)
theory FrameStream
  imports Prelude
begin

text \<open>
  A protocol that cuts messages out of a byte stream: a step function looks at the bytes
  received so far and either needs more, consumes a message from the front and produces output,
  refuses the stream, or crashes. The locale states when such a step function is independent of
  how the stream was cut into packets; its lemmas are proved once here and used by the RPC
  provider.
\<close>

section \<open>Draining a stream\<close>

datatype 'o outcome = More | Stop "'o list" | Got "'o list" nat | Crash

text \<open>Consume messages from the front while there are complete ones.\<close>

fun drain_fuel :: "(bytes \<Rightarrow> 'o outcome) \<Rightarrow> nat \<Rightarrow> bytes \<Rightarrow> 'o list \<times> bytes" where
  "drain_fuel step 0 s = ([], s)"
| "drain_fuel step (Suc n) s =
     (case step s of
        Got out k \<Rightarrow> (case drain_fuel step n (drop k s) of (out', r) \<Rightarrow> (out @ out', r))
      | _ \<Rightarrow> ([], s))"

definition drain :: "(bytes \<Rightarrow> 'o outcome) \<Rightarrow> bytes \<Rightarrow> 'o list \<times> bytes" where
  "drain step s = drain_fuel step (length s) s"

text \<open>Packets arrive one by one; each is appended to what is left and drained.\<close>

fun feed_stream :: "(bytes \<Rightarrow> 'o outcome) \<Rightarrow> bytes \<Rightarrow> bytes list \<Rightarrow> 'o list \<times> bytes" where
  "feed_stream step s [] = ([], s)"
| "feed_stream step s (c # cs) =
     (case drain step (s @ c) of (out, r) \<Rightarrow>
        (case feed_stream step r cs of (out', r') \<Rightarrow> (out @ out', r')))"

definition idle :: "(bytes \<Rightarrow> 'o outcome) \<Rightarrow> bytes \<Rightarrow> bool" where
  "idle step s \<longleftrightarrow> (\<forall>out n. step s \<noteq> Got out n)"

section \<open>The contract of a step function\<close>

locale frame_stream =
  fixes step :: "bytes \<Rightarrow> 'o outcome" and limit :: nat
  assumes got_bounds: "length s < limit \<Longrightarrow> step s = Got out n \<Longrightarrow> 0 < n \<and> n \<le> length s"
    and got_stable: "length (s @ t) < limit \<Longrightarrow> step s = Got out n \<Longrightarrow> step (s @ t) = Got out n"
    and stop_stable: "length (s @ t) < limit \<Longrightarrow> step s = Stop out \<Longrightarrow> step (s @ t) = Stop out"
    and crash_stable: "length (s @ t) < limit \<Longrightarrow> step s = Crash \<Longrightarrow> step (s @ t) = Crash"
begin

lemma drain_fuel_enough:
  "length s < limit \<Longrightarrow> length s \<le> n \<Longrightarrow> length s \<le> k \<Longrightarrow>
   drain_fuel step n s = drain_fuel step k s"
proof (induction n arbitrary: k s)
  case 0
  then have "s = []" by simp
  with 0 got_bounds [of "[]"] show ?case by (cases k) (auto split: outcome.splits)
next
  case (Suc n)
  show ?case
  proof (cases "step s")
    case (Got out m)
    with Suc.prems got_bounds have m: "0 < m" "m \<le> length s" by auto
    then obtain k' where k: "k = Suc k'" using Suc.prems by (cases k) auto
    have "drain_fuel step n (drop m s) = drain_fuel step k' (drop m s)"
      using Suc.prems m k by (intro Suc.IH) auto
    then show ?thesis by (simp add: k Got)
  qed (cases k; simp)+
qed

lemma drain_Got:
  assumes "length s < limit" "step s = Got out n"
  shows "drain step s = (out @ fst (drain step (drop n s)), snd (drain step (drop n s)))"
proof -
  have n: "0 < n" "n \<le> length s" using got_bounds assms by auto
  then obtain m where m: "length s = Suc m" by (cases "length s") auto
  have "drain_fuel step m (drop n s) = drain step (drop n s)"
    unfolding drain_def using assms(1) n m by (intro drain_fuel_enough) auto
  then show ?thesis
    using m assms(2) by (simp add: drain_def split: prod.splits)
qed

lemma drain_idle: "idle step s \<Longrightarrow> drain step s = ([], s)"
  by (cases "length s") (auto simp: drain_def idle_def split: outcome.splits)

lemma drain_induct [consumes 1, case_names Idle Step]:
  assumes "length s < limit"
    and "\<And>s. length s < limit \<Longrightarrow> idle step s \<Longrightarrow> P s"
    and "\<And>s out n. length s < limit \<Longrightarrow> step s = Got out n \<Longrightarrow> 0 < n \<Longrightarrow> n \<le> length s \<Longrightarrow>
        P (drop n s) \<Longrightarrow> P s"
  shows "P s"
  using assms(1)
proof (induction s rule: length_induct)
  case (1 s)
  show ?case
  proof (cases "idle step s")
    case True
    with 1 assms(2) show ?thesis by blast
  next
    case False
    then obtain out n where g: "step s = Got out n" by (auto simp: idle_def)
    with 1 got_bounds have n: "0 < n" "n \<le> length s" by auto
    then have "length (drop n s) < length s" by simp
    with 1 n have "P (drop n s)" by simp
    with g n 1 assms(3) show ?thesis by blast
  qed
qed

lemma drain_rest_idle: "length s < limit \<Longrightarrow> idle step (snd (drain step s))"
  by (induction s rule: drain_induct) (auto simp: drain_idle drain_Got)

lemma drain_rest_length: "length s < limit \<Longrightarrow> length (snd (drain step s)) \<le> length s"
  by (induction s rule: drain_induct) (auto simp: drain_idle drain_Got)

lemma drain_rest_suffix: "length s < limit \<Longrightarrow> \<exists>k. snd (drain step s) = drop k s"
proof (induction s rule: drain_induct)
  case (Idle s)
  then show ?case by (auto simp: drain_idle intro: exI [of _ 0])
next
  case (Step s out n)
  then show ?case by (auto simp: drain_Got)
qed

lemma drain_append:
  "length (s @ t) < limit \<Longrightarrow>
   drain step (s @ t) = (fst (drain step s) @ fst (drain step (snd (drain step s) @ t)),
     snd (drain step (snd (drain step s) @ t)))"
proof -
  assume lim: "length (s @ t) < limit"
  then have "length s < limit" by simp
  then show ?thesis using lim
  proof (induction s rule: drain_induct)
    case (Idle s)
    then show ?case by (simp add: drain_idle)
  next
    case (Step s out n)
    have "step (s @ t) = Got out n" using Step by (intro got_stable) auto
    then have "drain step (s @ t) =
        (out @ fst (drain step (drop n s @ t)), snd (drain step (drop n s @ t)))"
      using drain_Got [of "s @ t" out n] Step by simp
    with Step show ?case by (simp add: drain_Got)
  qed
qed

text \<open>The packets' boundaries do not matter.\<close>

lemma feed_stream_drain:
  "length (s @ concat cs) < limit \<Longrightarrow> idle step s \<Longrightarrow>
   feed_stream step s cs = drain step (s @ concat cs)"
proof (induction cs arbitrary: s)
  case Nil
  then show ?case by (simp add: drain_idle)
next
  case (Cons c cs)
  let ?r = "snd (drain step (s @ c))"
  have lim: "length (s @ c) < limit" using Cons.prems(1) by simp
  have "length ?r \<le> length (s @ c)" using lim by (rule drain_rest_length)
  then have "length (?r @ concat cs) < limit" using Cons.prems(1) by simp
  then have "feed_stream step ?r cs = drain step (?r @ concat cs)"
    using lim by (intro Cons.IH drain_rest_idle)
  then show ?case
    using drain_append [of "s @ c" "concat cs"] Cons.prems(1)
    by (simp add: split_beta)
qed

text \<open>A refused stream stays refused: nothing is ever taken from it again.\<close>

lemma feed_stream_stuck:
  assumes "length (s @ concat cs) < limit" "step s = Stop out \<or> step s = Crash"
  shows "feed_stream step s cs = ([], s @ concat cs)" "step (s @ concat cs) = step s"
proof -
  show st: "step (s @ concat cs) = step s"
    using assms stop_stable crash_stable by metis
  with assms(2) have "idle step (s @ concat cs)" "idle step s" by (auto simp: idle_def)
  with assms(1) show "feed_stream step s cs = ([], s @ concat cs)"
    by (simp add: feed_stream_drain drain_idle)
qed

text \<open>A stream of encoded messages yields the output of each, in order.\<close>

lemma drain_messages:
  assumes "\<And>x t. x \<in> set xs \<Longrightarrow> length (enc x @ t) < limit \<Longrightarrow>
      step (enc x @ t) = Got (out x) (length (enc x))"
    and "length (concat (map enc xs) @ t) < limit"
  shows "drain step (concat (map enc xs) @ t) =
    (concat (map out xs) @ fst (drain step t), snd (drain step t))"
  using assms
proof (induction xs)
  case Nil
  then show ?case by simp
next
  case (Cons x xs)
  have "step (enc x @ concat (map enc xs) @ t) = Got (out x) (length (enc x))"
    using Cons.prems by (intro Cons.prems(1)) auto
  with Cons show ?case by (subst drain_Got) (auto)
qed

end

end
