(* ===== verification/RpcProvider.thy ===== *)
theory RpcProvider
  imports NetBuffer RpcConfig RpcHeader PbWire FrameStream
begin

text \<open>
  The server side of the RPC framework, \<^verbatim>\<open>mprpc-main/src/rpcprovider.cc\<close>: registration of
  services, and the handler of received bytes that cuts requests out of the connection's
  buffer, looks the method up and dispatches it. The services themselves (generated classes and
  user code) are records of functions.

  \<^verbatim>\<open>header_size\<close>, \<^verbatim>\<open>args_size\<close> and \<^verbatim>\<open>total_size\<close> are 32-bit words, so
  \<^verbatim>\<open>4 + header_size\<close> wraps as in C++; a read past the end of the buffer's vector, which is
  undefined there, is the failure \<open>Out_of_bounds\<close>. Log output is left out.
\<close>

section \<open>Services\<close>

text \<open>
  A \<^verbatim>\<open>google::protobuf::Service\<close>: the name and the methods of its descriptor, parsing a
  request into a fresh message of the method's request prototype, the call itself (the response
  if the service has run the closure when \<^verbatim>\<open>CallMethod\<close> returns), and serialising the
  response.
\<close>

record ('q, 'r) rpc_service =
  svc_name :: string
  svc_methods :: "string list"
  svc_parse_request :: "nat \<Rightarrow> bytes \<Rightarrow> 'q option"
  svc_call :: "nat \<Rightarrow> 'q \<Rightarrow> 'r option"
  svc_serialize :: "nat \<Rightarrow> 'r \<Rightarrow> bytes option"

record ('q, 'r) service_info =
  svc_object :: "('q, 'r) rpc_service"
  svc_method_map :: "string \<rightharpoonup> nat"

type_synonym ('q, 'r) service_map = "string \<rightharpoonup> ('q, 'r) service_info"

text \<open>Method descriptors are their indices in the service's descriptor.\<close>

definition NotifyService ::
  "('q, 'r) service_map \<Rightarrow> ('q, 'r) rpc_service \<Rightarrow> ('q, 'r) service_map" where
  "NotifyService sm service =
     (let methods = fold (\<lambda>i m. map_insert (svc_methods service ! i) i m)
                      [0..<length (svc_methods service)] (\<lambda>_. None)
      in map_insert (svc_name service) \<lparr>svc_object = service, svc_method_map = methods\<rparr> sm)"

section \<open>Effects of the message handler\<close>

datatype 'q provider_event =
    Ev_dispatch string string 'q
  | Ev_send bytes
  | Ev_shutdown

definition SendRpcResponse ::
  "('q, 'r) rpc_service \<Rightarrow> nat \<Rightarrow> 'r \<Rightarrow> 'q provider_event list" where
  "SendRpcResponse service method response =
     (case svc_serialize service method response of
        None \<Rightarrow> [Ev_shutdown]
      | Some response_str \<Rightarrow> [Ev_send response_str])"

text \<open>\<^verbatim>\<open>RpcProviderClosure::Run\<close> sends the response and frees the messages.\<close>

definition Closure_Run :: "('q, 'r) rpc_service \<Rightarrow> nat \<Rightarrow> 'r \<Rightarrow> 'q provider_event list" where
  "Closure_Run service method response = SendRpcResponse service method response"

definition CallMethod_events ::
  "('q, 'r) rpc_service \<Rightarrow> nat \<Rightarrow> 'q \<Rightarrow> 'q provider_event list" where
  "CallMethod_events service method request =
     (case svc_call service method request of
        None \<Rightarrow> []
      | Some response \<Rightarrow> Closure_Run service method response)"

section \<open>The message handler\<close>

text \<open>
  One pass of the \<^verbatim>\<open>while (true)\<close> loop. \<open>readable\<close> is \<^verbatim>\<open>buffer->readableBytes()\<close> and
  \<open>rd off len\<close> reads \<open>len\<close> bytes at \<^verbatim>\<open>data + off\<close>. \<open>Got\<close> is the end of the loop body with
  the number of bytes to retrieve; every \<^verbatim>\<open>break\<close> is \<open>More\<close> (nothing was done) or \<open>Stop\<close>
  (the connection was shut down).
\<close>

definition om_iteration ::
  "'u pb_runtime \<Rightarrow> ('q, 'r) service_map \<Rightarrow> nat \<Rightarrow> (nat \<Rightarrow> nat \<Rightarrow> bytes option)
     \<Rightarrow> 'q provider_event outcome" where
  "om_iteration rt service_map readable rd =
     (if readable < 4 then More
      else case rd 0 4 of
        None \<Rightarrow> Crash
      | Some size_bytes \<Rightarrow>
      let header_size = le32_word size_bytes in
      if readable < unat (4 + header_size) then More
      else case rd 4 (unat header_size) of
        None \<Rightarrow> Crash
      | Some rpc_header_str \<Rightarrow>
      case header_ParseFromString rt rpc_header_str of
        None \<Rightarrow> Stop [Ev_shutdown]
      | Some (rpcHeader, _) \<Rightarrow>
      let args = args_size rpcHeader;
          total_size = 4 + header_size + args in
      if readable < unat total_size then More
      else case rd (4 + unat header_size) (unat args) of
        None \<Rightarrow> Crash
      | Some args_str \<Rightarrow>
      case service_map (service_name rpcHeader) of
        None \<Rightarrow> Stop [Ev_shutdown]
      | Some info \<Rightarrow>
      case svc_method_map info (method_name rpcHeader) of
        None \<Rightarrow> Stop [Ev_shutdown]
      | Some method \<Rightarrow>
      case svc_parse_request (svc_object info) method args_str of
        None \<Rightarrow> Stop [Ev_shutdown]
      | Some request \<Rightarrow>
          Got (Ev_dispatch (service_name rpcHeader) (method_name rpcHeader) request
                 # CallMethod_events (svc_object info) method request)
              (unat total_size))"

text \<open>Reading memory from the buffer's read position: inside its vector, or undefined.\<close>

definition read_mem :: "net_buffer \<Rightarrow> nat \<Rightarrow> nat \<Rightarrow> bytes option" where
  "read_mem b off len =
     (if peek b + off + len \<le> length (storage b)
      then Some (take len (drop (peek b + off) (storage b))) else None)"

datatype provider_fault = Out_of_bounds | Buffer_failed buf_error

text \<open>The loop, one unit of fuel per pass; \<^term>\<open>None\<close> is running out of fuel.\<close>

fun OnMessage_loop ::
  "'u pb_runtime \<Rightarrow> ('q, 'r) service_map \<Rightarrow> nat \<Rightarrow> net_buffer
     \<Rightarrow> (provider_fault + ('q provider_event list \<times> net_buffer)) option" where
  "OnMessage_loop rt sm 0 b = None"
| "OnMessage_loop rt sm (Suc n) b =
     (case om_iteration rt sm (readableBytes b) (read_mem b) of
        More \<Rightarrow> Some (Inr ([], b))
      | Stop evs \<Rightarrow> Some (Inr (evs, b))
      | Crash \<Rightarrow> Some (Inl Out_of_bounds)
      | Got evs k \<Rightarrow>
          map_option (\<lambda>r. bind_res r (\<lambda>(evs', b'). Inr (evs @ evs', b')))
            (OnMessage_loop rt sm n (retrieve k b)))"

definition OnMessage ::
  "'u pb_runtime \<Rightarrow> ('q, 'r) service_map \<Rightarrow> net_buffer
     \<Rightarrow> (provider_fault + ('q provider_event list \<times> net_buffer)) option" where
  "OnMessage rt sm b = OnMessage_loop rt sm (Suc (readableBytes b)) b"

text \<open>The connection callback: shut down when the connection is not connected.\<close>

definition provider_OnConnection :: "bool \<Rightarrow> 'q provider_event list" where
  "provider_OnConnection connected = (if \<not> connected then [Ev_shutdown] else [])"

section \<open>The handler as a reader of a byte stream\<close>

definition read_str :: "bytes \<Rightarrow> nat \<Rightarrow> nat \<Rightarrow> bytes option" where
  "read_str s off len = (if off + len \<le> length s then Some (take len (drop off s)) else None)"

definition request_step ::
  "'u pb_runtime \<Rightarrow> ('q, 'r) service_map \<Rightarrow> bytes \<Rightarrow> 'q provider_event outcome" where
  "request_step rt sm s = om_iteration rt sm (length s) (read_str s)"

lemma read_str_append:
  "read_str s off len = Some x \<Longrightarrow> read_str (s @ t) off len = Some x"
  by (auto simp: read_str_def split: if_splits)

text \<open>32-bit sums that do not exceed what is readable cannot have wrapped, unless they did.\<close>

lemma unat_add_4: "unat (4 + h :: u32) = (4 + unat h) mod 2 ^ 32"
  by (simp add: unat_word_ariths)

lemma unat_total: "unat (4 + h + a :: u32) = (4 + unat h + unat a) mod 2 ^ 32"
  by (simp add: unat_word_ariths mod_simps)

text \<open>
  Two views of the same bytes give the same pass: everything the first reader sees the second
  one sees, and where the first one fails the second one fails as well.
\<close>

lemma om_iteration_views:
  assumes n: "n1 \<le> n2"
    and some: "\<And>off len x. rd1 off len = Some x \<Longrightarrow> rd2 off len = Some x"
    and none: "\<And>off len. rd1 off len = None \<Longrightarrow> (off + len) mod 2 ^ 32 \<le> n1 \<Longrightarrow> rd2 off len = None"
    and more: "n1 = n2 \<or> om_iteration rt sm n1 rd1 \<noteq> More"
  shows "om_iteration rt sm n2 rd2 = om_iteration rt sm n1 rd1"
proof (cases "n1 < 4")
  case True
  then show ?thesis using more by (auto simp: om_iteration_def)
next
  case False
  show ?thesis
  proof (cases "rd1 0 4")
    case None
    then have "rd2 0 4 = None" using False by (intro none) auto
    with False n None show ?thesis by (simp add: om_iteration_def)
  next
    case (Some w)
    note w = Some some [OF Some]
    let ?h = "le32_word w"
    show ?thesis
    proof (cases "n1 < unat (4 + ?h)")
      case True
      then show ?thesis using more False n w by (auto simp: om_iteration_def Let_def)
    next
      case h: False
      show ?thesis
      proof (cases "rd1 4 (unat ?h)")
        case None
        then have "rd2 4 (unat ?h) = None" using h by (intro none) (auto simp: unat_add_4)
        with False n None h w show ?thesis by (simp add: om_iteration_def)
      next
        case (Some hdr)
        note hdr = Some some [OF Some]
        show ?thesis
        proof (cases "header_ParseFromString rt hdr")
          case None
          with False n h w hdr show ?thesis by (simp add: om_iteration_def)
        next
          case (Some p)
          obtain g u where p: "header_ParseFromString rt hdr = Some (g, u)" using Some by (cases p) auto
          show ?thesis
          proof (cases "n1 < unat (4 + ?h + args_size g)")
            case True
            with more False n h w hdr p show ?thesis by (auto simp: om_iteration_def Let_def)
          next
            case a: False
            have "rd2 (4 + unat ?h) (unat (args_size g)) = rd1 (4 + unat ?h) (unat (args_size g))"
              using a none [of "4 + unat ?h" "unat (args_size g)"]
                some [of "4 + unat ?h" "unat (args_size g)"]
              by (cases "rd1 (4 + unat ?h) (unat (args_size g))") (auto simp: unat_total)
            with False n h w hdr p a show ?thesis by (simp add: om_iteration_def)
          qed
        qed
      qed
    qed
  qed
qed

lemma request_step_append:
  assumes "length (s @ t) < 2 ^ 32" "request_step rt sm s \<noteq> More"
  shows "request_step rt sm (s @ t) = request_step rt sm s"
  unfolding request_step_def
proof (rule om_iteration_views)
  fix off len assume "read_str s off len = None" "(off + len) mod 2 ^ 32 \<le> length s"
  then have "length s < off + len" by (auto simp: read_str_def split: if_splits)
  with \<open>(off + len) mod 2 ^ 32 \<le> length s\<close> have "2 ^ 32 \<le> off + len"
    by (metis leD le_less_linear mod_less)
  with assms(1) show "read_str (s @ t) off len = None" by (simp add: read_str_def)
qed (use assms(2) in \<open>auto simp: request_step_def intro: read_str_append\<close>)

text \<open>The handler's pass over a buffer is the pass over its readable bytes.\<close>

lemma om_iteration_buffer:
  assumes inv: "buf_inv b" and small: "length (storage b) < 2 ^ 32"
  shows "om_iteration rt sm (readableBytes b) (read_mem b) = request_step rt sm (content b)"
  unfolding request_step_def
proof (rule om_iteration_views)
  note bd = buf_inv_bounds [OF inv]
  show "length (content b) \<le> readableBytes b" using inv by (simp add: length_content)
  show "length (content b) = readableBytes b \<or>
      om_iteration rt sm (length (content b)) (read_str (content b)) \<noteq> More"
    using inv by (simp add: length_content)
  have len: "length (content b) = writerIndex b - readerIndex b"
    using inv by (simp add: length_content readableBytes_eq)
  fix off len
  {
    fix x assume "read_str (content b) off len = Some x"
    then have le: "off + len \<le> writerIndex b - readerIndex b"
      and x: "x = take len (drop off (content b))"
      by (auto simp: read_str_def len split: if_splits)
    have "take len (drop off (content b)) = take len (drop (readerIndex b + off) (storage b))"
      using le by (simp add: content_def drop_take add.commute)
    with x le bd show "read_mem b off len = Some x" by (simp add: read_mem_def peek_def)
  next
    assume none: "read_str (content b) off len = None" "(off + len) mod 2 ^ 32 \<le> length (content b)"
    then have "length (content b) < off + len" by (auto simp: read_str_def split: if_splits)
    with none(2) have "2 ^ 32 \<le> off + len" by (metis leD le_less_linear mod_less)
    with small show "read_mem b off len = None" by (simp add: read_mem_def)
  }
qed

text \<open>What a pass that consumed a request has read.\<close>

lemma request_step_Got:
  assumes "request_step rt sm s = Got evs k"
  obtains h g u info i q where
    "h = le32_word (take 4 s)" "4 \<le> length s" "4 + unat h \<le> length s"
    "header_ParseFromString rt (take (unat h) (drop 4 s)) = Some (g, u)"
    "k = unat (4 + h + args_size g)" "k \<le> length s"
    "4 + unat h + unat (args_size g) \<le> length s"
    "sm (service_name g) = Some info" "svc_method_map info (method_name g) = Some i"
    "svc_parse_request (svc_object info) i
       (take (unat (args_size g)) (drop (4 + unat h) s)) = Some q"
    "evs = Ev_dispatch (service_name g) (method_name g) q
       # CallMethod_events (svc_object info) i q"
  using assms
  by (auto simp: request_step_def om_iteration_def read_str_def Let_def
      split: if_splits option.splits)

lemma request_step_Got_bounds:
  assumes "length s < 2 ^ 32" "request_step rt sm s = Got evs k"
  shows "0 < k \<and> k \<le> length s"
proof -
  from assms(2) obtain h and g :: rpc_header where k: "k = unat (4 + h + args_size g)" "k \<le> length s"
    and le: "4 + unat h + unat (args_size g) \<le> length s"
    by (rule request_step_Got) blast
  have "unat (4 + h + args_size g) = (4 + unat h + unat (args_size g)) mod 2 ^ 32"
    by (rule unat_total)
  also have "\<dots> = 4 + unat h + unat (args_size g)" using le assms(1) by (intro mod_less) simp
  finally show ?thesis using k by simp
qed

interpretation rq: frame_stream "request_step rt sm" "2 ^ 32" for rt sm
proof
  fix s t out n
  show "length s < 2 ^ 32 \<Longrightarrow> request_step rt sm s = Got out n \<Longrightarrow> 0 < n \<and> n \<le> length s"
    by (rule request_step_Got_bounds)
  show "request_step rt sm (s @ t) = Got out n"
    if "length (s @ t) < 2 ^ 32" "request_step rt sm s = Got out n"
    using request_step_append [OF that(1), where rt = rt and sm = sm] that(2) by simp
  show "request_step rt sm (s @ t) = Stop out"
    if "length (s @ t) < 2 ^ 32" "request_step rt sm s = Stop out"
    using request_step_append [OF that(1), where rt = rt and sm = sm] that(2) by simp
  show "request_step rt sm (s @ t) = Crash"
    if "length (s @ t) < 2 ^ 32" "request_step rt sm s = Crash"
    using request_step_append [OF that(1), where rt = rt and sm = sm] that(2) by simp
qed

section \<open>The handler refines the drain of the readable bytes\<close>

text \<open>What \<open>OnMessage\<close> returns once no complete request is left in front.\<close>

definition om_final ::
  "'q provider_event outcome \<Rightarrow> 'q provider_event list \<Rightarrow> net_buffer
     \<Rightarrow> provider_fault + ('q provider_event list \<times> net_buffer)" where
  "om_final oc evs b = (case oc of Crash \<Rightarrow> Inl Out_of_bounds | Stop e \<Rightarrow> Inr (evs @ e, b)
     | _ \<Rightarrow> Inr (evs, b))"

definition buffer_after :: "net_buffer \<Rightarrow> bytes \<Rightarrow> net_buffer \<Rightarrow> bool" where
  "buffer_after b s b' \<longleftrightarrow> buf_inv b' \<and> content b' = s \<and> storage b' = storage b
     \<and> writerIndex b' \<le> writerIndex b"

lemma retrieve_after: "buf_inv b \<Longrightarrow> buffer_after b (drop k (content b)) (retrieve k b)"
  by (auto simp: buffer_after_def retrieve_inv retrieve_content)
     (auto simp: retrieve_def retrieveAll_def buf_inv_def)

lemma OnMessage_loop_drain:
  "buf_inv b \<Longrightarrow> length (storage b) < 2 ^ 32 \<Longrightarrow> readableBytes b < n \<Longrightarrow>
   drain (request_step rt sm) (content b) = (evs, r) \<Longrightarrow>
   \<exists>b'. OnMessage_loop rt sm n b = Some (om_final (request_step rt sm r) evs b') \<and>
     buffer_after b r b'"
proof (induction n arbitrary: b evs r)
  case 0
  then show ?case by simp
next
  case (Suc n)
  let ?step = "request_step rt sm"
  have it: "om_iteration rt sm (readableBytes b) (read_mem b) = ?step (content b)"
    using Suc.prems by (intro om_iteration_buffer)
  have small: "length (content b) < 2 ^ 32"
    using Suc.prems(1,2) buf_inv_bounds [OF Suc.prems(1)]
    by (simp add: length_content readableBytes_eq)
  show ?case
  proof (cases "?step (content b)")
    case (Got out k)
    let ?b = "retrieve k b"
    have k: "0 < k" "k \<le> length (content b)" using rq.got_bounds [OF small Got] by auto
    have after: "buffer_after b (drop k (content b)) ?b" using Suc.prems(1) by (rule retrieve_after)
    then have inv: "buf_inv ?b" and st: "length (storage ?b) < 2 ^ 32"
      and cont: "content ?b = drop k (content b)"
      using Suc.prems by (auto simp: buffer_after_def)
    have "readableBytes ?b < n"
      using inv k Suc.prems(1,3) by (simp add: length_content [symmetric] cont)
    moreover obtain evs' where d: "drain ?step (content ?b) = (evs', r)" "evs = out @ evs'"
      using rq.drain_Got [OF small Got] Suc.prems(4) cont by (cases "drain ?step (content ?b)") auto
    ultimately obtain b' where
      b': "OnMessage_loop rt sm n ?b = Some (om_final (?step r) evs' b')" "buffer_after ?b r b'"
      using Suc.IH [OF inv st] by blast
    then have "OnMessage_loop rt sm (Suc n) b = Some (om_final (?step r) evs b')"
      by (simp add: it Got om_final_def d(2) split: outcome.splits)
    with b'(2) after show ?thesis by (auto simp: buffer_after_def)
  qed (use Suc.prems it in \<open>auto simp: rq.drain_idle idle_def om_final_def buffer_after_def\<close>)
qed

lemma OnMessage_drain:
  assumes "buf_inv b" "length (storage b) < 2 ^ 32"
    "drain (request_step rt sm) (content b) = (evs, r)"
  obtains b' where "OnMessage rt sm b = Some (om_final (request_step rt sm r) evs b')"
    "buffer_after b r b'"
  using OnMessage_loop_drain [OF assms(1,2) lessI assms(3)] by (auto simp: OnMessage_def)

section \<open>Packets\<close>

text \<open>
  The connection's input buffer while packets arrive: each one is appended and the handler runs.
\<close>

fun provider_receive ::
  "'u pb_runtime \<Rightarrow> ('q, 'r) service_map \<Rightarrow> net_buffer \<Rightarrow> bytes list
     \<Rightarrow> (provider_fault + ('q provider_event list \<times> net_buffer)) option" where
  "provider_receive rt sm b [] = Some (Inr ([], b))"
| "provider_receive rt sm b (p # ps) =
     (case buf_append b p of
        Inl e \<Rightarrow> Some (Inl (Buffer_failed e))
      | Inr b1 \<Rightarrow>
          (case OnMessage rt sm b1 of
             None \<Rightarrow> None
           | Some (Inl e) \<Rightarrow> Some (Inl e)
           | Some (Inr (evs, b2)) \<Rightarrow>
               map_option (\<lambda>r. bind_res r (\<lambda>(evs', b'). Inr (evs @ evs', b')))
                 (provider_receive rt sm b2 ps)))"

text \<open>What is visible: the calls and responses in order, and whether the peer was shut down.\<close>

definition visible :: "'q provider_event list \<Rightarrow> 'q provider_event list \<times> bool" where
  "visible evs = (filter (\<lambda>e. e \<noteq> Ev_shutdown) evs, Ev_shutdown \<in> set evs)"

lemma visible_append [simp]:
  "visible (xs @ ys) = (fst (visible xs) @ fst (visible ys), snd (visible xs) \<or> snd (visible ys))"
  by (simp add: visible_def)

lemma visible_Nil [simp]: "visible [] = ([], False)"
  by (simp add: visible_def)

lemma visible_shutdown [simp]: "visible [Ev_shutdown] = ([], True)"
  by (simp add: visible_def)

lemma visible_Cons_shutdown [simp]: "visible (Ev_shutdown # xs) = (fst (visible xs), True)"
  by (simp add: visible_def)

lemma request_step_Stop: "request_step rt sm s = Stop evs \<Longrightarrow> evs = [Ev_shutdown]"
  by (auto simp: request_step_def om_iteration_def Let_def split: if_splits option.splits)

text \<open>The buffers a bounded stream can produce.\<close>

definition rx_room :: "net_buffer \<Rightarrow> nat \<Rightarrow> bool" where
  "rx_room b n \<longleftrightarrow> buf_inv b \<and> writerIndex b + n < 2 ^ 32 \<and> length (storage b) < 2 ^ 32"

lemma rx_content: "rx_room b n \<Longrightarrow> length (content b) + n < 2 ^ 32"
  using buf_inv_bounds [of b] by (auto simp: rx_room_def length_content readableBytes_eq)

lemma rx_append:
  assumes "rx_room b (length p + n)"
  obtains b' where "buf_append b p = Inr b'" "rx_room b' n" "content b' = content b @ p"
proof -
  have "writerIndex b + length p \<le> 2 ^ 32 - 1" "length (storage b) \<le> 2 ^ 32 - 1"
    "(2 :: nat) ^ 32 - 1 \<le> vec_max" and inv: "buf_inv b"
    using assms by (auto simp: rx_room_def vec_max_def)
  from buf_append_bound [OF inv this(1-3)] obtain b' where
    "buf_append b p = Inr b'" "buf_inv b'" "content b' = content b @ p"
    "writerIndex b' \<le> writerIndex b + length p" "length (storage b') \<le> 2 ^ 32 - 1" .
  with assms show thesis by (intro that) (auto simp: rx_room_def)
qed

lemma rx_after: "rx_room b n \<Longrightarrow> buffer_after b s b' \<Longrightarrow> rx_room b' n"
  by (auto simp: rx_room_def buffer_after_def)

lemma rx_OnMessage:
  assumes "rx_room b n" "drain (request_step rt sm) (content b) = (evs, r)"
  obtains b' where "OnMessage rt sm b = Some (om_final (request_step rt sm r) evs b')"
    "rx_room b' n" "content b' = r"
proof -
  have "buf_inv b" "length (storage b) < 2 ^ 32" using assms(1) by (auto simp: rx_room_def)
  from OnMessage_drain [OF this assms(2)] obtain b' where
    "OnMessage rt sm b = Some (om_final (request_step rt sm r) evs b')" "buffer_after b r b'" .
  with assms(1) show thesis by (intro that [of b']) (auto intro: rx_after simp: buffer_after_def)
qed

text \<open>The handler over packets refines the abstract stream reader.\<close>

definition rx_result ::
  "'u pb_runtime \<Rightarrow> ('q, 'r) service_map \<Rightarrow> 'q provider_event list \<times> bytes
     \<Rightarrow> (provider_fault + (('q provider_event list \<times> bool) \<times> bytes)) option" where
  "rx_result rt sm p =
     (case request_step rt sm (snd p) of
        Crash \<Rightarrow> Some (Inl Out_of_bounds)
      | Stop evs \<Rightarrow> Some (Inr (visible (fst p @ evs), snd p))
      | _ \<Rightarrow> Some (Inr (visible (fst p), snd p)))"

definition rx_view ::
  "(provider_fault + ('q provider_event list \<times> net_buffer)) option
     \<Rightarrow> (provider_fault + (('q provider_event list \<times> bool) \<times> bytes)) option" where
  "rx_view = map_option (map_sum (\<lambda>e. e) (\<lambda>(evs, b). (visible evs, content b)))"

lemma rx_view_simps [simp]:
  "rx_view None = None" "rx_view (Some (Inl e)) = Some (Inl e)"
  "rx_view (Some (Inr (evs, b))) = Some (Inr (visible evs, content b))"
  by (simp_all add: rx_view_def)

lemma rx_view_prefix:
  assumes "rx_view x = rx_result rt sm (evs', r)"
  shows "rx_view (map_option (\<lambda>r. bind_res r (\<lambda>(evs', b'). Inr (evs @ evs', b'))) x)
    = rx_result rt sm (evs @ evs', r)"
proof (cases x)
  case None
  with assms show ?thesis by (auto simp: rx_result_def split: outcome.splits)
next
  case (Some y)
  with assms show ?thesis
    by (cases y) (auto simp: rx_result_def split: outcome.splits)
qed

lemma provider_receive_refines:
  assumes "rx_room b (length (concat ps))" "idle (request_step rt sm) (content b)" "ps \<noteq> []"
  shows "rx_view (provider_receive rt sm b ps)
    = rx_result rt sm (feed_stream (request_step rt sm) (content b) ps)"
  using assms
proof (induction ps arbitrary: b)
  case Nil
  then show ?case by simp
next
  case (Cons p ps)
  let ?step = "request_step rt sm"
  have "rx_room b (length p + length (concat ps))" using Cons.prems(1) by simp
  then obtain b1 where b1: "buf_append b p = Inr b1" "rx_room b1 (length (concat ps))"
      "content b1 = content b @ p" by (rule rx_append)
  obtain evs r where d: "drain ?step (content b1) = (evs, r)" by (cases "drain ?step (content b1)")
  obtain b2 where b2: "OnMessage rt sm b1 = Some (om_final (?step r) evs b2)"
      "rx_room b2 (length (concat ps))" "content b2 = r"
    using rx_OnMessage [OF b1(2) d] .
  obtain evs' r' where f: "feed_stream ?step r ps = (evs', r')" by (cases "feed_stream ?step r ps")
  have feed: "feed_stream ?step (content b) (p # ps) = (evs @ evs', r')"
    using d f b1(3) by simp
  have lim: "length (r @ concat ps) < 2 ^ 32" using rx_content [OF b2(2)] b2(3) by simp
  have "length (content b1) < 2 ^ 32" using rx_content [OF b1(2)] by simp
  from rq.drain_rest_idle [OF this, where rt = rt and sm = sm]
  have idle: "idle ?step (content b2)" by (simp add: d b2(3))
  show ?case
  proof (cases "?step r = Crash")
    case True
    then have "?step r' = Crash"
      using rq.feed_stream_stuck [OF lim, where rt = rt and sm = sm] f by auto
    with True b1 b2 show ?thesis unfolding feed by (simp add: om_final_def rx_result_def)
  next
    case ok: False
    define evs1 where "evs1 = (case ?step r of Stop e \<Rightarrow> evs @ e | _ \<Rightarrow> evs)"
    have res: "provider_receive rt sm b (p # ps) =
        map_option (\<lambda>r. bind_res r (\<lambda>(evs', b'). Inr (evs1 @ evs', b'))) (provider_receive rt sm b2 ps)"
      using ok b1 b2(1) by (simp add: om_final_def evs1_def split: outcome.splits)
    show ?thesis
    proof (cases "ps = []")
      case True
      with f have "evs' = []" "r' = r" by auto
      with True res b2(3) ok show ?thesis
        unfolding feed by (auto simp: rx_result_def evs1_def split: outcome.splits)
    next
      case False
      have "rx_view (provider_receive rt sm b2 ps) = rx_result rt sm (evs', r')"
        using Cons.IH [OF b2(2) idle False] f b2(3) by simp
      from rx_view_prefix [OF this]
      have "rx_view (provider_receive rt sm b (p # ps)) = rx_result rt sm (evs1 @ evs', r')"
        unfolding res by blast
      also have "\<dots> = rx_result rt sm (evs @ evs', r')"
      proof (cases "?step r")
        case (Stop e)
        then have "?step r' = Stop e"
          using rq.feed_stream_stuck [OF lim, where rt = rt and sm = sm] f by auto
        with Stop request_step_Stop [OF Stop] show ?thesis by (simp add: rx_result_def evs1_def)
      qed (simp_all add: evs1_def)
      finally show ?thesis unfolding feed .
    qed
  qed
qed

lemma rx_whole:
  assumes "rx_room b (length (concat ps))" "idle (request_step rt sm) (content b)" "ps \<noteq> []"
  shows "rx_view (provider_receive rt sm b ps)
    = rx_result rt sm (drain (request_step rt sm) (content b @ concat ps))"
proof -
  have "length (content b @ concat ps) < 2 ^ 32" using rx_content [OF assms(1)] by simp
  from rq.feed_stream_drain [OF this assms(2)] show ?thesis
    by (simp add: provider_receive_refines [OF assms])
qed

text \<open>A pass reads out of bounds exactly when a 32-bit length sum has wrapped.\<close>

definition wrapped :: "'u pb_runtime \<Rightarrow> bytes \<Rightarrow> bool" where
  "wrapped rt s \<longleftrightarrow> 4 \<le> length s \<and>
     (let h = le32_word (take 4 s) in
      2 ^ 32 \<le> 4 + unat h \<or>
      (\<exists>g u. header_ParseFromString rt (take (unat h) (drop 4 s)) = Some (g, u) \<and>
         2 ^ 32 \<le> 4 + unat h + unat (args_size g)))"

lemma wrap_small:
  assumes "m < n" "n < 2 * k" "m = n mod k" shows "k \<le> (n :: nat)"
  using assms by (metis leI mod_less less_irrefl)

lemma request_step_Crash:
  assumes "request_step rt sm s = Crash"
  shows "wrapped rt s"
proof -
  let ?h = "le32_word (take 4 s) :: u32"
  have s4: "4 \<le> length s"
    using assms by (auto simp: request_step_def om_iteration_def split: if_splits)
  then have rd: "read_str s 0 4 = Some (take 4 s)" by (simp add: read_str_def)
  show ?thesis
  proof (cases "2 ^ 32 \<le> 4 + unat ?h")
    case False
    then have h: "unat (4 + ?h) = 4 + unat ?h" by (simp add: unat_add_4)
    with assms s4 rd obtain g u where g: "4 + unat ?h \<le> length s"
      "header_ParseFromString rt (take (unat ?h) (drop 4 s)) = Some (g, u)"
      "unat (4 + ?h + args_size g) \<le> length s"
      "read_str s (4 + unat ?h) (unat (args_size g)) = None"
      by (auto simp: request_step_def om_iteration_def Let_def read_str_def
          split: if_splits option.splits)
    then have "2 ^ 32 \<le> 4 + unat ?h + unat (args_size g)"
      by (intro leI notI) (auto simp: unat_total read_str_def split: if_splits)
    with g s4 show ?thesis by (auto simp: wrapped_def Let_def)
  qed (use s4 in \<open>auto simp: wrapped_def Let_def\<close>)
qed

text \<open>
  What the handler does, without the loop. A whole request is a length prefix, a header of that
  length that parses, and the argument bytes the header announces, which parse as a request of a
  registered method; its events are the call and what the call sends. A stream is refused when
  its front is complete and is not a whole request.
\<close>

definition whole_request ::
  "'u pb_runtime \<Rightarrow> ('q, 'r) service_map \<Rightarrow> bytes \<Rightarrow> 'q provider_event list \<Rightarrow> bool" where
  "whole_request rt sm r evs \<longleftrightarrow> (\<exists>h hdr args g u info i q.
     r = le32_bytes h @ hdr @ args \<and> length hdr = unat h \<and>
     header_ParseFromString rt hdr = Some (g, u) \<and> length args = unat (args_size g) \<and>
     sm (service_name g) = Some info \<and> svc_method_map info (method_name g) = Some i \<and>
     svc_parse_request (svc_object info) i args = Some q \<and>
     evs = Ev_dispatch (service_name g) (method_name g) q
       # CallMethod_events (svc_object info) i q)"

definition refused :: "'u pb_runtime \<Rightarrow> ('q, 'r) service_map \<Rightarrow> bytes \<Rightarrow> bool" where
  "refused rt sm s \<longleftrightarrow> (\<exists>h hdr t. s = le32_bytes h @ hdr @ t \<and> length hdr = unat h \<and>
     (case header_ParseFromString rt hdr of
        None \<Rightarrow> True
      | Some (g, u) \<Rightarrow> \<exists>args t'. t = args @ t' \<and> length args = unat (args_size g) \<and>
          (case sm (service_name g) of
             None \<Rightarrow> True
           | Some info \<Rightarrow> (case svc_method_map info (method_name g) of
               None \<Rightarrow> True
             | Some i \<Rightarrow> svc_parse_request (svc_object info) i args = None))))"

lemma front_split:
  assumes "4 + n \<le> length s"
  shows "s = le32_bytes (le32_word (take 4 s)) @ take n (drop 4 s) @ drop (4 + n) s"
proof -
  have "le32_bytes (le32_word (take 4 s)) = take 4 s" using assms by (intro le32_bytes_word) simp
  moreover have "take n (drop 4 s) @ drop (4 + n) s = drop 4 s"
    by (metis append_take_drop_id add.commute drop_drop)
  ultimately show ?thesis by simp
qed

lemma request_step_front:
  assumes "s = le32_bytes h @ hdr @ t" "length hdr = unat h" "length s < 2 ^ 32"
  shows "request_step rt sm s =
    (case header_ParseFromString rt hdr of
       None \<Rightarrow> Stop [Ev_shutdown]
     | Some (g, u) \<Rightarrow>
       if length s < unat (4 + h + args_size g) then More
       else case read_str s (4 + unat h) (unat (args_size g)) of
         None \<Rightarrow> Crash
       | Some args \<Rightarrow>
       case sm (service_name g) of
         None \<Rightarrow> Stop [Ev_shutdown]
       | Some info \<Rightarrow>
       case svc_method_map info (method_name g) of
         None \<Rightarrow> Stop [Ev_shutdown]
       | Some i \<Rightarrow>
       case svc_parse_request (svc_object info) i args of
         None \<Rightarrow> Stop [Ev_shutdown]
       | Some q \<Rightarrow> Got (Ev_dispatch (service_name g) (method_name g) q
           # CallMethod_events (svc_object info) i q) (unat (4 + h + args_size g)))"
proof -
  have "4 + unat h < 2 ^ 32" using assms by simp
  then have "unat (4 + h) = 4 + unat h" by (simp add: unat_add_4)
  moreover have "read_str s 0 4 = Some (le32_bytes h)" "read_str s 4 (unat h) = Some hdr"
    using assms by (simp_all add: read_str_def)
  ultimately show ?thesis using assms
    by (simp add: request_step_def om_iteration_def Let_def split: option.split prod.split)
qed

lemma request_step_args:
  assumes "s = le32_bytes h @ hdr @ args @ t" "length hdr = unat h" "length s < 2 ^ 32"
    "length args = unat a"
  shows "unat (4 + h + a) = 4 + unat h + unat a \<and> unat (4 + h + a) \<le> length s \<and>
    read_str s (4 + unat h) (unat a) = Some args"
  using assms by (simp add: unat_total read_str_def)

lemma whole_request_step:
  assumes "whole_request rt sm r evs" "length (r @ t) < 2 ^ 32"
  shows "request_step rt sm (r @ t) = Got evs (length r)"
proof -
  obtain h hdr args g u info i q where r: "r = le32_bytes h @ hdr @ args" "length hdr = unat h"
      "header_ParseFromString rt hdr = Some (g, u)" "length args = unat (args_size g)"
      "sm (service_name g) = Some info" "svc_method_map info (method_name g) = Some i"
      "svc_parse_request (svc_object info) i args = Some q"
      "evs = Ev_dispatch (service_name g) (method_name g) q # CallMethod_events (svc_object info) i q"
    using assms(1) by (auto simp: whole_request_def)
  have s: "r @ t = le32_bytes h @ hdr @ args @ t" using r(1) by simp
  from request_step_args [OF s r(2) assms(2) r(4)] request_step_front [OF s r(2) assms(2), of rt sm] r
  show ?thesis by simp
qed

lemma Got_whole_request:
  assumes "request_step rt sm s = Got evs k" "length s < 2 ^ 32"
  shows "whole_request rt sm (take k s) evs \<and> k \<le> length s"
proof -
  obtain h g u info i q where w: "h = le32_word (take 4 s)" "4 \<le> length s" "4 + unat h \<le> length s"
    "header_ParseFromString rt (take (unat h) (drop 4 s)) = Some (g, u)"
    "k = unat (4 + h + args_size g)" "k \<le> length s" "4 + unat h + unat (args_size g) \<le> length s"
    "sm (service_name g) = Some info" "svc_method_map info (method_name g) = Some i"
    "svc_parse_request (svc_object info) i
       (take (unat (args_size g)) (drop (4 + unat h) s)) = Some q"
    "evs = Ev_dispatch (service_name g) (method_name g) q # CallMethod_events (svc_object info) i q"
    using assms(1) by (rule request_step_Got)
  let ?hdr = "take (unat h) (drop 4 s)" and ?args = "take (unat (args_size g)) (drop (4 + unat h) s)"
  have k: "k = 4 + unat h + unat (args_size g)" using w(5,7) assms(2) by (simp add: unat_total)
  have "take 4 s = le32_bytes h" using w(1,2) by (simp add: le32_bytes_word)
  moreover have "take k s = take 4 s @ ?hdr @ ?args" unfolding k
    by (simp add: take_add add.assoc [symmetric])
  ultimately have "take k s = le32_bytes h @ ?hdr @ ?args" by simp
  moreover have "length ?hdr = unat h" "length ?args = unat (args_size g)" using w(3,7) by simp_all
  ultimately show ?thesis unfolding whole_request_def using w by blast
qed

lemma request_step_refused:
  assumes "length s < 2 ^ 32"
  shows "(\<exists>evs. request_step rt sm s = Stop evs) \<longleftrightarrow> refused rt sm s"
proof
  assume "\<exists>evs. request_step rt sm s = Stop evs"
  then obtain evs where st: "request_step rt sm s = Stop evs" ..
  define h where "h = le32_word (take 4 s)"
  from st have fit: "4 + unat h \<le> length s"
    by (auto simp: h_def request_step_def om_iteration_def read_str_def Let_def
        split: if_splits option.splits)
  let ?hdr = "take (unat h) (drop 4 s)" and ?t = "drop (4 + unat h) s"
  have s: "s = le32_bytes h @ ?hdr @ ?t" using front_split [OF fit] by (simp add: h_def)
  have hdr: "length ?hdr = unat h" using fit by simp
  have "case header_ParseFromString rt ?hdr of None \<Rightarrow> True | Some (g, u) \<Rightarrow>
      \<exists>args t'. ?t = args @ t' \<and> length args = unat (args_size g) \<and>
        (case sm (service_name g) of None \<Rightarrow> True
         | Some info \<Rightarrow> (case svc_method_map info (method_name g) of None \<Rightarrow> True
           | Some i \<Rightarrow> svc_parse_request (svc_object info) i args = None))"
  proof (cases "header_ParseFromString rt ?hdr")
    case (Some p)
    obtain g u where p: "p = (g, u)" by (cases p)
    let ?a = "take (unat (args_size g)) ?t"
    have "read_str s (4 + unat h) (unat (args_size g)) = Some ?a \<and>
        (case sm (service_name g) of None \<Rightarrow> True
         | Some info \<Rightarrow> (case svc_method_map info (method_name g) of None \<Rightarrow> True
           | Some i \<Rightarrow> svc_parse_request (svc_object info) i ?a = None))"
      using st request_step_front [OF s hdr assms, of rt sm] Some p
      by (auto simp: read_str_def split: if_splits option.splits)
    then have "?t = ?a @ drop (unat (args_size g)) ?t \<and> length ?a = unat (args_size g) \<and>
        (case sm (service_name g) of None \<Rightarrow> True
         | Some info \<Rightarrow> (case svc_method_map info (method_name g) of None \<Rightarrow> True
           | Some i \<Rightarrow> svc_parse_request (svc_object info) i ?a = None))"
      by (simp add: read_str_def del: drop_drop split: if_splits)
    then show ?thesis unfolding Some p option.case prod.case by blast
  qed simp
  with s hdr show "refused rt sm s" unfolding refused_def by blast
next
  assume "refused rt sm s"
  then obtain h hdr t where s: "s = le32_bytes h @ hdr @ t" "length hdr = unat h"
    and c: "case header_ParseFromString rt hdr of None \<Rightarrow> True | Some (g, u) \<Rightarrow>
      \<exists>args t'. t = args @ t' \<and> length args = unat (args_size g) \<and>
        (case sm (service_name g) of None \<Rightarrow> True
         | Some info \<Rightarrow> (case svc_method_map info (method_name g) of None \<Rightarrow> True
           | Some i \<Rightarrow> svc_parse_request (svc_object info) i args = None))"
    unfolding refused_def by blast
  note front = request_step_front [OF s assms, of rt sm]
  show "\<exists>evs. request_step rt sm s = Stop evs"
  proof (cases "header_ParseFromString rt hdr")
    case None
    with front show ?thesis by simp
  next
    case (Some p)
    obtain g u where p: "p = (g, u)" by (cases p)
    with c Some obtain args t' where a: "t = args @ t'" "length args = unat (args_size g)"
      "case sm (service_name g) of None \<Rightarrow> True
         | Some info \<Rightarrow> (case svc_method_map info (method_name g) of None \<Rightarrow> True
           | Some i \<Rightarrow> svc_parse_request (svc_object info) i args = None)" by auto
    have s': "s = le32_bytes h @ hdr @ args @ t'" using s a by simp
    from request_step_args [OF s' s(2) assms a(2)] front Some p a(3)
    show ?thesis by (auto simp: not_less [symmetric] split: option.splits)
  qed
qed

text \<open>The drained bytes are whole requests, one after the other.\<close>

lemma drain_whole_requests:
  "length s < 2 ^ 32 \<Longrightarrow> \<exists>rs. (\<forall>(r, evs) \<in> set rs. whole_request rt sm r evs) \<and>
     s = concat (map fst rs) @ snd (drain (request_step rt sm) s) \<and>
     fst (drain (request_step rt sm) s) = concat (map snd rs)"
proof (induction s rule: rq.drain_induct [where rt = rt and sm = sm])
  case (Idle s)
  then show ?case by (intro exI [of _ "[]"]) (simp add: rq.drain_idle)
next
  case (Step s out n)
  then obtain rs where rs: "\<forall>(r, evs) \<in> set rs. whole_request rt sm r evs"
    "drop n s = concat (map fst rs) @ snd (drain (request_step rt sm) (drop n s))"
    "fst (drain (request_step rt sm) (drop n s)) = concat (map snd rs)" by blast
  have "whole_request rt sm (take n s) out" using Got_whole_request [OF Step(2,1)] ..
  moreover have "s = take n s @ concat (map fst rs) @ snd (drain (request_step rt sm) (drop n s))"
    by (metis append_take_drop_id rs(2))
  ultimately show ?case using rs Step(1,2)
    by (intro exI [of _ "(take n s, out) # rs"]) (simp add: rq.drain_Got)
qed

lemma fresh_buffer:
  assumes "new_buffer kInitialSize = Inr b"
  shows "buf_inv b" "content b = []" "writerIndex b = 8" "length (storage b) = 1032"
  using assms by (auto simp: new_buffer_def vec_new_def buf_inv_def content_def sz_add_def
      sz_mod_def vec_max_def kCheapPrepend_def kInitialSize_def split: if_splits)

lemma fresh_buffer_exists: "\<exists>b. new_buffer kInitialSize = Inr b"
  by (simp add: new_buffer_def vec_new_def sz_add_def sz_mod_def vec_max_def kCheapPrepend_def
      kInitialSize_def)

section \<open>A service for the witnesses\<close>

definition echo_service :: "(bytes, bytes) rpc_service" where
  "echo_service = \<lparr>svc_name = ''Echo'', svc_methods = [''Say''],
     svc_parse_request = (\<lambda>_ s. Some s), svc_call = (\<lambda>_ q. Some q),
     svc_serialize = (\<lambda>_ r. Some r)\<rparr>"

definition echo_map :: "(bytes, bytes) service_map" where
  "echo_map = NotifyService (\<lambda>_. None) echo_service"

section \<open>Properties\<close>

text \<open>
  Property (C7). The provider does not depend on how TCP cuts the stream into packets: two
  non-empty sequences of packets with the same bytes (at most \<open>2\<^sup>31\<close> of them, on a fresh
  buffer) make the same calls and send the same responses in the same order, agree on whether
  the peer is shut down, and leave the same unread bytes; or both end in the same
  out-of-bounds read.
\<close>

theorem provider_chunking:
  assumes "new_buffer kInitialSize = Inr b" and "concat ps = concat qs"
    and "length (concat ps) \<le> 2 ^ 31" and "ps \<noteq> []" and "qs \<noteq> []"
  shows "rx_view (provider_receive rt sm b ps) = rx_view (provider_receive rt sm b qs) \<and>
    rx_view (provider_receive rt sm b ps) \<noteq> None"
proof -
  note b = fresh_buffer [OF assms(1)]
  have room: "rx_room b (length (concat ps))" using b assms(3) by (simp add: rx_room_def)
  have idle: "idle (request_step rt sm) (content b)"
    by (simp add: b idle_def request_step_def om_iteration_def)
  from rx_whole [OF room idle assms(4)] rx_whole [OF _ idle assms(5)] room assms(2)
  have "rx_view (provider_receive rt sm b ps) = rx_view (provider_receive rt sm b qs)" by simp
  moreover have "rx_view (provider_receive rt sm b ps) \<noteq> None"
    using rx_whole [OF room idle assms(4)] by (simp add: rx_result_def split: outcome.splits)
  ultimately show ?thesis by blast
qed

lemma provider_chunking_witness:
  "\<exists>b. new_buffer kInitialSize = Inr b \<and>
    rx_view (provider_receive wire_runtime echo_map b [''ab'', ''c'']) =
    rx_view (provider_receive wire_runtime echo_map b [''a'', ''bc''])"
proof -
  obtain b where b: "new_buffer kInitialSize = Inr b" using fresh_buffer_exists by blast
  from provider_chunking [OF b, of "[''ab'', ''c'']" "[''a'', ''bc'']" wire_runtime echo_map] b
  show ?thesis by simp
qed

text \<open>
  Property (C9). \<open>OnMessage\<close> returns on every buffer whose vector is shorter than \<open>2\<^sup>32\<close> bytes (the
  fuel never runs out), and what it did is this: the readable bytes are a sequence of whole
  requests to registered methods followed by a rest that no whole request begins; it makes the
  calls of those requests and sends what they answer, in order and nothing else, shuts the
  connection down exactly when the rest is refused, and leaves exactly the rest in the buffer,
  which keeps its invariant. The only other outcome is an out-of-bounds read, and then a 32-bit
  length sum wraps at the front of that rest.
\<close>

theorem OnMessage_returns:
  assumes "buf_inv b" and "length (storage b) < 2 ^ 32"
  shows "\<exists>res rs rest. OnMessage rt sm b = Some res \<and>
    content b = concat (map fst rs) @ rest \<and>
    (\<forall>(r, evs) \<in> set rs. whole_request rt sm r evs) \<and>
    (\<forall>r evs t. rest = r @ t \<longrightarrow> \<not> whole_request rt sm r evs) \<and>
    (case res of
       Inl e \<Rightarrow> e = Out_of_bounds \<and> wrapped rt rest
     | Inr (evs, b') \<Rightarrow> buf_inv b' \<and> content b' = rest \<and>
         evs = concat (map snd rs) @ (if refused rt sm rest then [Ev_shutdown] else []))"
proof -
  let ?step = "request_step rt sm"
  obtain evs r where d: "drain ?step (content b) = (evs, r)" by (cases "drain ?step (content b)")
  obtain b' where b': "OnMessage rt sm b = Some (om_final (?step r) evs b')" "buffer_after b r b'"
    using OnMessage_drain [OF assms d] .
  have lim: "length (content b) < 2 ^ 32"
    using assms buf_inv_bounds [OF assms(1)] by (simp add: length_content readableBytes_eq)
  obtain rs where rs: "\<forall>(r, evs) \<in> set rs. whole_request rt sm r evs"
      "content b = concat (map fst rs) @ r" "evs = concat (map snd rs)"
    using drain_whole_requests [OF lim, of rt sm] d by auto
  have r: "length r < 2 ^ 32" using lim rs(2) by simp
  have idle: "idle ?step r"
    using rq.drain_rest_idle [OF lim, where rt = rt and sm = sm] d by simp
  have front: "\<forall>x evs t. r = x @ t \<longrightarrow> \<not> whole_request rt sm x evs"
    using whole_request_step r idle unfolding idle_def by metis
  have "case om_final (?step r) evs b' of
       Inl e \<Rightarrow> e = Out_of_bounds \<and> wrapped rt r
     | Inr (evs, b') \<Rightarrow> buf_inv b' \<and> content b' = r \<and>
         evs = concat (map snd rs) @ (if refused rt sm r then [Ev_shutdown] else [])"
  proof (cases "?step r")
    case Crash
    with request_step_Crash show ?thesis by (auto simp: om_final_def)
  qed (use b'(2) idle rs(3) request_step_refused [OF r, of rt sm] request_step_Stop [of rt sm r]
      in \<open>auto simp: om_final_def buffer_after_def idle_def\<close>)
  with b'(1) rs front show ?thesis by blast
qed

lemma OnMessage_returns_witness:
  "\<exists>b res. new_buffer kInitialSize = Inr b \<and> OnMessage wire_runtime echo_map b = Some res"
proof -
  obtain b where b: "new_buffer kInitialSize = Inr b" using fresh_buffer_exists by blast
  have "buf_inv b" "length (storage b) < 2 ^ 32" using fresh_buffer [OF b] by simp_all
  from OnMessage_returns [OF this, of wire_runtime echo_map] b show ?thesis by blast
qed

text \<open>
  Property (C36). The length check wraps: a length prefix of at least \<open>2\<^sup>32 - 4\<close> makes
  \<^verbatim>\<open>4 + header_size\<close> a number below four, the check passes, and the handler reads outside the
  vector, whatever services there are. Four bytes \<^verbatim>\<open>ff ff ff ff\<close> from any peer are enough.
\<close>

theorem OnMessage_prefix_overrun:
  assumes "buf_inv b" and "length (storage b) < 2 ^ 32 - 4"
    and "content b = le32_bytes h @ rest" and "2 ^ 32 - 4 \<le> unat h"
  shows "OnMessage rt sm b = Some (Inl Out_of_bounds)"
proof -
  let ?c = "content b"
  have c: "length ?c < 2 ^ 32 - 4"
    using assms(1,2) buf_inv_bounds [OF assms(1)] by (simp add: length_content readableBytes_eq)
  have "unat (4 + h) = (4 + unat h) mod 2 ^ 32" by (rule unat_add_4)
  also have "\<dots> = (4 + unat h - 2 ^ 32) mod 2 ^ 32"
    using assms(4) by (intro le_mod_geq) simp
  also have "\<dots> \<le> 4 + unat h - 2 ^ 32" by (rule mod_less_eq_dividend)
  also have "\<dots> < 4" using unsigned_less [of h, where 'a = nat] assms(4) by simp
  finally have "unat (4 + h) < 4" .
  moreover have "read_str ?c 4 (unat h) = None" using c assms(4) by (simp add: read_str_def)
  moreover have "read_str ?c 0 4 = Some (le32_bytes h)" "4 \<le> length ?c"
    using assms(3) by (simp_all add: read_str_def length_le32_bytes)
  ultimately have step: "request_step rt sm ?c = Crash"
    by (simp add: request_step_def om_iteration_def le32_roundtrip)
  then have "drain (request_step rt sm) ?c = ([], ?c)" by (simp add: rq.drain_idle idle_def)
  from OnMessage_drain [OF assms(1) _ this] assms(2) obtain b' where
    "OnMessage rt sm b = Some (om_final (request_step rt sm ?c) [] b')" by auto
  with step show ?thesis by (simp add: om_final_def)
qed

lemma OnMessage_prefix_overrun_witness:
  "OnMessage wire_runtime echo_map
     \<lparr>storage = replicate 8 NUL @ replicate 4 (CHR 0xFF), readerIndex = 8, writerIndex = 12\<rparr>
   = Some (Inl Out_of_bounds)"
proof -
  let ?b = "\<lparr>storage = replicate 8 NUL @ replicate 4 (CHR 0xFF), readerIndex = 8, writerIndex = 12\<rparr>"
  have inv: "buf_inv ?b" by (simp add: buf_inv_def kCheapPrepend_def vec_max_def)
  have "replicate 4 c = [c, c, c, c]" for c :: char by (simp add: eval_nat_numeral)
  moreover have "le32_bytes 0xFFFFFFFF = [CHR 0xFF, CHR 0xFF, CHR 0xFF, CHR 0xFF]"
    by (simp add: le32_bytes_def char_of_def upt_conv_Cons bit_Suc_0_iff)
  ultimately have c: "content ?b = le32_bytes 0xFFFFFFFF @ []" by (simp add: content_def)
  show ?thesis
    by (rule OnMessage_prefix_overrun [OF inv _ c]) simp_all
qed

text \<open>
  A refused connection stays refused: once an unknown service or method, or a
  header or request that does not parse, stands in front of the buffer, every further packet
  makes the handler call \<open>shutdown\<close> again and nothing else; no byte is ever consumed, so the
  buffer grows with everything the peer still sends.
\<close>

theorem provider_refused:
  assumes "rx_room b (length (concat ps))"
    and "request_step rt sm (content b) = Stop evs"
  shows "\<exists>b'. provider_receive rt sm b ps = Some (Inr (replicate (length ps) Ev_shutdown, b'))
    \<and> content b' = content b @ concat ps"
  using assms
proof (induction ps arbitrary: b)
  case Nil
  then show ?case by simp
next
  case (Cons p ps)
  let ?step = "request_step rt sm"
  have "rx_room b (length p + length (concat ps))" using Cons.prems(1) by simp
  then obtain b1 where b1: "buf_append b p = Inr b1" "rx_room b1 (length (concat ps))"
      "content b1 = content b @ p" by (rule rx_append)
  have "length (content b @ p) < 2 ^ 32" using rx_content [OF b1(2)] b1(3) by simp
  then have st: "?step (content b1) = Stop evs"
    using rq.stop_stable Cons.prems(2) b1(3) by metis
  then have "drain ?step (content b1) = ([], content b1)" by (simp add: rq.drain_idle idle_def)
  then obtain b2 where b2: "OnMessage rt sm b1 = Some (om_final (?step (content b1)) [] b2)"
      "rx_room b2 (length (concat ps))" "content b2 = content b1"
    using rx_OnMessage [OF b1(2)] by metis
  with st request_step_Stop [OF st] have om: "OnMessage rt sm b1 = Some (Inr ([Ev_shutdown], b2))"
    by (simp add: om_final_def)
  obtain b' where "provider_receive rt sm b2 ps = Some (Inr (replicate (length ps) Ev_shutdown, b'))"
      "content b' = content b2 @ concat ps"
    using Cons.IH [OF b2(2)] st b2(3) by auto
  with b1 om b2(3) show ?case by simp
qed

lemma provider_refused_witness:
  "\<exists>b b'. provider_receive wire_runtime (\<lambda>_. None :: (bytes, bytes) service_info option) b
      [''a'', ''b''] = Some (Inr ([Ev_shutdown, Ev_shutdown], b')) \<and>
    content b' = replicate 4 NUL @ ''ab''"
proof -
  let ?b = "\<lparr>storage = replicate 12 NUL, readerIndex = 8, writerIndex = 12\<rparr>"
  let ?sm = "\<lambda>_. None :: (bytes, bytes) service_info option"
  have inv: "rx_room ?b (length (concat [''a'', ''b'']))"
    by (simp add: rx_room_def buf_inv_def kCheapPrepend_def vec_max_def)
  have c: "content ?b = replicate 4 NUL" by (simp add: content_def)
  have "le32_bytes 0 = [NUL, NUL, NUL, NUL]"
    by (simp add: le32_bytes_def char_of_def upt_conv_Cons)
  moreover have "replicate 4 NUL = [NUL, NUL, NUL, NUL]" by (simp add: eval_nat_numeral)
  ultimately have w: "le32_word (replicate 4 NUL) = 0" using le32_roundtrip [of 0] by simp
  have h: "header_ParseFromString wire_runtime [] = Some (default_header, ())"
    using header_roundtrip [OF wire_runtime_ok, of default_header]
    by (simp add: header_writable_def header_InternalSerialize_def default_header_def
        wire_runtime_def)
  have "request_step wire_runtime ?sm (content ?b) = Stop [Ev_shutdown]"
    unfolding c request_step_def om_iteration_def read_str_def
    by (simp add: w h default_header_def)
  from provider_refused [OF inv this] show ?thesis unfolding c by (auto simp: numeral_2_eq_2)
qed

lemma method_map_nth:
  "fold (\<lambda>i m. map_insert (ms ! i) i m) is f k =
     (case f k of Some w \<Rightarrow> Some w
      | None \<Rightarrow> List.find (\<lambda>i. ms ! i = k) is)"
  by (induction "is" arbitrary: f) (auto split: option.splits)

text \<open>
  Registering services: a service name keeps the first service registered under
  it, a method name of that service is bound to the first descriptor of that name, other
  names are unbound, and registering leaves every other service's entry alone.
\<close>

theorem NotifyService_first_wins:
  "NotifyService sm svc name =
     (if sm name = None \<and> name = svc_name svc
      then Some \<lparr>svc_object = svc, svc_method_map = (\<lambda>m.
             List.find (\<lambda>i. svc_methods svc ! i = m) [0..<length (svc_methods svc)])\<rparr>
      else sm name)"
proof -
  let ?k = "svc_methods svc"
  have "fold (\<lambda>i m. map_insert (?k ! i) i m) [0..<length ?k] (\<lambda>_. None) =
      (\<lambda>m. List.find (\<lambda>i. ?k ! i = m) [0..<length ?k])"
    by (rule ext) (simp add: method_map_nth)
  then show ?thesis by (auto simp: NotifyService_def split: option.splits)
qed

end
