(* ===== verification/ZkClient.thy ===== *)
theory ZkClient
  imports RpcConfig
begin

text \<open>
  The ZooKeeper client wrapper, \<^verbatim>\<open>mprpc-main/src/zkclient.cc\<close>: connecting and waiting for
  the session, creating nodes, reading a node; and the registration loop of
  \<^verbatim>\<open>RpcProvider::Run\<close> that uses it. The ZooKeeper C library is not part of the repository:
  its calls are the fields of the record \<open>zk_ops\<close> over an abstract server state, and what the
  registration relies on is the predicate \<open>zk_ok\<close>.
\<close>

section \<open>The library's calls\<close>

text \<open>Only \<open>ZOK\<close> and \<open>ZNONODE\<close> are distinguished by the code.\<close>

datatype zk_code = ZOK | ZNONODE | ZOther int

text \<open>The node's mode: \<open>0\<close> is a persistent node, \<^verbatim>\<open>ZOO_EPHEMERAL\<close> an ephemeral one.\<close>

datatype zk_mode = Persistent | Ephemeral

text \<open>
  \<open>zoo_get\<close> takes the size of the caller's buffer and returns the bytes it stored there, or
  \<^term>\<open>None\<close> when it set the length to \<open>-1\<close> because the node has no data.
\<close>

record 'z zk_ops =
  zk_init :: "string \<Rightarrow> 'z option"
  zk_exists :: "'z \<Rightarrow> string \<Rightarrow> zk_code"
  zk_create :: "'z \<Rightarrow> string \<Rightarrow> bytes option \<Rightarrow> zk_mode \<Rightarrow> zk_code \<times> 'z"
  zk_get :: "'z \<Rightarrow> string \<Rightarrow> nat \<Rightarrow> zk_code \<times> bytes option"

section \<open>Connecting\<close>

datatype watch_event = Session_connected | Session_other | Node_event

text \<open>The watcher posts the semaphore on the event of an established session.\<close>

definition global_watcher :: "watch_event \<Rightarrow> nat \<Rightarrow> nat" where
  "global_watcher ev sem = (if ev = Session_connected then sem + 1 else sem)"

text \<open>
  \<^verbatim>\<open>sem_wait\<close>: events of the library's thread are handled until the semaphore can be
  decremented. \<^term>\<open>None\<close> is waiting for ever.
\<close>

fun sem_wait :: "nat \<Rightarrow> watch_event list \<Rightarrow> watch_event list option" where
  "sem_wait (Suc n) evs = Some evs"
| "sem_wait 0 [] = None"
| "sem_wait 0 (ev # evs) = sem_wait (global_watcher ev 0) evs"

datatype zk_start = Zk_exit | Zk_blocked | Zk_connected

text \<open>
  The constructor leaves a null handle, \<open>Start\<close> sets it; the destructor closes a handle that is
  not null.
\<close>

definition zk_Start ::
  "'z zk_ops \<Rightarrow> mprpc_config \<Rightarrow> watch_event list \<Rightarrow> zk_start \<times> 'z option" where
  "zk_Start ops cfg evs =
     (let ip = Load cfg ''zookeeperip'';
          port = Load cfg ''zookeeperport'';
          connstr = ip @ '':'' @ port
      in case zk_init ops (c_str connstr) of
           None \<Rightarrow> (Zk_exit, None)
         | Some z \<Rightarrow> (case sem_wait 0 evs of None \<Rightarrow> (Zk_blocked, Some z) | Some _ \<Rightarrow> (Zk_connected, Some z)))"

section \<open>Nodes\<close>

text \<open>\<^term>\<open>None\<close> is \<^verbatim>\<open>exit(EXIT_FAILURE)\<close>.\<close>

definition zk_Create ::
  "'z zk_ops \<Rightarrow> 'z \<Rightarrow> string \<Rightarrow> bytes option \<Rightarrow> zk_mode \<Rightarrow> 'z option" where
  "zk_Create ops z path data mode =
     (if zk_exists ops z (c_str path) = ZNONODE then
        (case zk_create ops z (c_str path) data mode of
           (flag, z') \<Rightarrow> if flag \<noteq> ZOK then None else Some z')
      else Some z)"

definition get_buffer_size :: nat where "get_buffer_size = 64"

text \<open>
  \<^verbatim>\<open>std::string(buffer, bufferlen)\<close> with length \<open>-1\<close> throws \<^verbatim>\<open>std::length_error\<close>:
  \<^term>\<open>None\<close>.
\<close>

definition zk_GetData :: "'z zk_ops \<Rightarrow> 'z \<Rightarrow> string \<Rightarrow> bytes option" where
  "zk_GetData ops z path =
     (case zk_get ops z (c_str path) get_buffer_size of
        (flag, data) \<Rightarrow> if flag \<noteq> ZOK then Some [] else data)"

section \<open>Registration of the provider's services\<close>

text \<open>
  The part of \<^verbatim>\<open>RpcProvider::Run\<close> before the server starts. The service map and the method
  maps are given as lists, in the order in which the loops enumerate them.
\<close>

fun register_methods ::
  "'z zk_ops \<Rightarrow> string \<Rightarrow> bytes \<Rightarrow> 'z \<Rightarrow> string list \<Rightarrow> 'z option" where
  "register_methods ops service_path mdata z [] = Some z"
| "register_methods ops service_path mdata z (m # ms) =
     (case zk_Create ops z (service_path @ ''/'' @ m) (Some mdata) Ephemeral of
        None \<Rightarrow> None
      | Some z' \<Rightarrow> register_methods ops service_path mdata z' ms)"

fun register_services ::
  "'z zk_ops \<Rightarrow> bytes \<Rightarrow> 'z \<Rightarrow> (string \<times> string list) list \<Rightarrow> 'z option" where
  "register_services ops mdata z [] = Some z"
| "register_services ops mdata z ((s, ms) # ss) =
     (let service_path = ''/'' @ s in
      case zk_Create ops z service_path None Persistent of
        None \<Rightarrow> None
      | Some z1 \<Rightarrow>
          (case register_methods ops service_path mdata z1 ms of
             None \<Rightarrow> None
           | Some z2 \<Rightarrow> register_services ops mdata z2 ss))"

text \<open>The data of every method node: \<^verbatim>\<open>ip + ":" + port\<close> of the configuration.\<close>

definition method_data :: "mprpc_config \<Rightarrow> bytes" where
  "method_data cfg =
     (let ip = Load cfg ''rpcserverip''; port = Load cfg ''rpcserverport'' in ip @ '':'' @ port)"

definition Run_register ::
  "'z zk_ops \<Rightarrow> mprpc_config \<Rightarrow> 'z \<Rightarrow> (string \<times> string list) list \<Rightarrow> 'z option" where
  "Run_register ops cfg z services =
     register_services ops (method_data cfg) z services"

section \<open>Documented behaviour of ZooKeeper\<close>

text \<open>
  The nodes of a server state, as a client sees them: \<open>nodes z path\<close> is the node's data and mode. The
  server is reachable, lets the client create nodes, and nobody else changes them meanwhile. Then
  existence tests and reads report the nodes; creating an absent node at a valid path whose parent
  is there and not ephemeral adds exactly that node; under an ephemeral parent (an ephemeral node
  has no children) or at a path that is taken it fails; reads fit the caller's buffer.
\<close>

definition parent :: "string \<Rightarrow> string" where
  "parent path = rev (drop 1 (dropWhile (\<lambda>c. c \<noteq> CHR ''/'') (rev path)))"

text \<open>A name in a path: visible ASCII without a slash, not empty, not one of the two special names.\<close>

definition name_ok :: "string \<Rightarrow> bool" where
  "name_ok s \<longleftrightarrow> s \<notin> {[], ''.'', ''..''} \<and>
     (\<forall>c \<in> set s. CHR ''/'' \<noteq> c \<and> 0x20 < (of_char c :: nat) \<and> (of_char c :: nat) < 0x7F)"

definition zk_path :: "string list \<Rightarrow> string" where
  "zk_path names = concat (map (\<lambda>s. ''/'' @ s) names)"

definition zk_ok :: "'z zk_ops \<Rightarrow> ('z \<Rightarrow> string \<rightharpoonup> bytes option \<times> zk_mode) \<Rightarrow> bool" where
  "zk_ok ops nodes \<longleftrightarrow>
     (\<forall>z p. zk_exists ops z p = (if nodes z p = None then ZNONODE else ZOK)) \<and>
     (\<forall>z ns d m. let p = zk_path ns in
        ns \<noteq> [] \<longrightarrow> (\<forall>s \<in> set ns. name_ok s) \<longrightarrow> nodes z p = None \<longrightarrow>
        (parent p = [] \<or> (\<exists>e. nodes z (parent p) = Some (e, Persistent))) \<longrightarrow>
        (\<exists>z'. zk_create ops z p d m = (ZOK, z') \<and> nodes z' = (nodes z)(p \<mapsto> (d, m)))) \<and>
     (\<forall>z p d m. nodes z p \<noteq> None \<or> parent p \<noteq> [] \<and> (\<exists>e. nodes z (parent p) = Some (e, Ephemeral)) \<longrightarrow>
        fst (zk_create ops z p d m) \<noteq> ZOK) \<and>
     (\<forall>z p d m n. nodes z p = Some (Some d, m) \<longrightarrow> length d \<le> n \<longrightarrow>
        zk_get ops z p n = (ZOK, Some d)) \<and>
     (\<forall>z p n. nodes z p = None \<longrightarrow> fst (zk_get ops z p n) = ZNONODE)"

section \<open>Lemmas\<close>

lemma c_str_id [simp]: "NUL \<notin> set s \<Longrightarrow> c_str s = s"
  by (auto simp: c_str_def takeWhile_eq_all_conv)

lemma zk_okD:
  assumes "zk_ok ops nodes"
  shows "zk_exists ops z p = (if nodes z p = None then ZNONODE else ZOK)"
    and "ns \<noteq> [] \<Longrightarrow> \<forall>s \<in> set ns. name_ok s \<Longrightarrow> nodes z (zk_path ns) = None \<Longrightarrow>
      parent (zk_path ns) = [] \<or> (\<exists>e. nodes z (parent (zk_path ns)) = Some (e, Persistent)) \<Longrightarrow>
      \<exists>z'. zk_create ops z (zk_path ns) d m = (ZOK, z') \<and> nodes z' = (nodes z)(zk_path ns \<mapsto> (d, m))"
    and "nodes z p = Some (Some b, m) \<Longrightarrow> length b \<le> n \<Longrightarrow> zk_get ops z p n = (ZOK, Some b)"
    and "nodes z p = None \<Longrightarrow> fst (zk_get ops z p n) = ZNONODE"
  using assms unfolding zk_ok_def Let_def by simp_all blast

lemma name_okD:
  assumes "name_ok s" shows "NUL \<notin> set s" "CHR ''/'' \<notin> set s"
proof -
  have c: "CHR ''/'' \<noteq> c \<and> 0x20 < (of_char c :: nat)" if "c \<in> set s" for c
    using assms that unfolding name_ok_def by blast
  show "NUL \<notin> set s" using c [of NUL] by auto
  show "CHR ''/'' \<notin> set s" using c [of "CHR ''/''"] by blast
qed

lemma zk_path_NUL: "\<forall>s \<in> set ns. name_ok s \<Longrightarrow> NUL \<notin> set (zk_path ns)"
  using name_okD(1) by (auto simp: zk_path_def)

text \<open>Creating a node adds it when it is absent and changes nothing when it is there.\<close>

lemma zk_Create_ok:
  assumes ok: "zk_ok ops nodes" and ns: "ns \<noteq> []" "\<forall>s \<in> set ns. name_ok s" and p: "p = zk_path ns"
    and par: "parent p = [] \<or> (\<exists>e. nodes z (parent p) = Some (e, Persistent))"
  shows "\<exists>z'. zk_Create ops z p d m = Some z' \<and> nodes z' = map_insert p (d, m) (nodes z)"
proof -
  have c: "c_str p = p" using zk_path_NUL [OF ns(2)] p by simp
  show ?thesis
  proof (cases "nodes z p")
    case None
    with zk_okD(2) [OF ok ns] par p obtain z' where
      "zk_create ops z p d m = (ZOK, z')" "nodes z' = (nodes z)(p \<mapsto> (d, m))" by blast
    with None c show ?thesis by (simp add: zk_Create_def zk_okD(1) [OF ok] map_insert_def)
  next
    case (Some x)
    with c show ?thesis by (simp add: zk_Create_def zk_okD(1) [OF ok] map_insert_def)
  qed
qed

lemma parent_slash: "CHR ''/'' \<notin> set m \<Longrightarrow> parent (p @ CHR ''/'' # m) = p"
  by (simp add: parent_def dropWhile_append)

definition service_path :: "string \<Rightarrow> string" where
  "service_path s = ''/'' @ s"

definition method_path :: "string \<Rightarrow> string \<Rightarrow> string" where
  "method_path s m = service_path s @ ''/'' @ m"

lemma zk_paths: "service_path s = zk_path [s]" "method_path s m = zk_path [s, m]"
  by (simp_all add: service_path_def method_path_def zk_path_def)

lemma parents:
  "name_ok s \<Longrightarrow> parent (service_path s) = []" "name_ok m \<Longrightarrow> parent (method_path s m) = service_path s"
  using parent_slash [of s "[]"] parent_slash [of m "service_path s"] name_okD(2)
  by (simp_all add: service_path_def method_path_def)

lemma register_methods_ok:
  assumes ok: "zk_ok ops nodes" and s: "name_ok s" and svc: "nodes z (service_path s) = Some (e, Persistent)"
    and ms: "\<forall>m\<in>set ms. name_ok m"
  shows "\<exists>z'. register_methods ops (service_path s) d z ms = Some z' \<and>
    nodes z' = fold (\<lambda>m. map_insert (method_path s m) (Some d, Ephemeral)) ms (nodes z)"
  using svc ms
proof (induction ms arbitrary: z)
  case Nil
  then show ?case by simp
next
  case (Cons m ms)
  have "\<exists>z'. zk_Create ops z (method_path s m) (Some d) Ephemeral = Some z' \<and>
      nodes z' = map_insert (method_path s m) (Some d, Ephemeral) (nodes z)"
    using s Cons.prems by (intro zk_Create_ok [OF ok, of "[s, m]"]) (auto simp: zk_paths(2) parents [unfolded zk_paths] zk_paths(1))
  then obtain z1 where z1: "zk_Create ops z (method_path s m) (Some d) Ephemeral = Some z1"
      "nodes z1 = map_insert (method_path s m) (Some d, Ephemeral) (nodes z)" by blast
  then have "nodes z1 (service_path s) = Some (e, Persistent)" using Cons.prems by auto
  then obtain z2 where "register_methods ops (service_path s) d z1 ms = Some z2"
      "nodes z2 = fold (\<lambda>m. map_insert (method_path s m) (Some d, Ephemeral)) ms (nodes z1)"
    using Cons.IH [of z1] Cons.prems(2) by (auto simp del: map_insert_apply)
  with z1 show ?case by (simp add: method_path_def del: map_insert_apply)
qed

lemma fold_insert_apply:
  "fold (\<lambda>m. map_insert (g m) d) ms f p =
     (case f p of Some w \<Rightarrow> Some w | None \<Rightarrow> if p \<in> g ` set ms then Some d else None)"
  by (induction ms arbitrary: f) (auto split: option.splits)

definition registered :: "(string \<times> string list) list \<Rightarrow> string \<Rightarrow> string \<Rightarrow> bool" where
  "registered ss s m \<longleftrightarrow> (\<exists>ms. (s, ms) \<in> set ss \<and> m \<in> set ms)"

text \<open>\<^verbatim>\<open>/zookeeper\<close> is the server's own.\<close>

definition names_ok :: "(string \<times> string list) list \<Rightarrow> bool" where
  "names_ok ss \<longleftrightarrow> (\<forall>(s, ms) \<in> set ss. name_ok s \<and> s \<noteq> ''zookeeper'' \<and> (\<forall>m \<in> set ms. name_ok m))"

text \<open>No service's node is an ephemeral one that somebody left there.\<close>

definition services_free :: "(string \<rightharpoonup> bytes option \<times> zk_mode) \<Rightarrow> (string \<times> string list) list \<Rightarrow> bool" where
  "services_free f ss \<longleftrightarrow> (\<forall>(s, ms) \<in> set ss. \<forall>e. f (service_path s) \<noteq> Some (e, Ephemeral))"

lemma method_path_inj:
  "name_ok s \<Longrightarrow> name_ok s' \<Longrightarrow> method_path s m = method_path s' m' \<longleftrightarrow> s = s' \<and> m = m'"
  by (auto simp: method_path_def service_path_def append_eq_append_conv2
      append_eq_Cons_conv Cons_eq_append_conv dest: name_okD(2))

lemma method_service: "name_ok s' \<Longrightarrow> method_path s m \<noteq> service_path s'"
  using name_okD(2) [of s'] by (auto simp: method_path_def service_path_def)

lemma service_path_inj [simp]: "service_path s = service_path s' \<longleftrightarrow> s = s'"
  by (simp add: service_path_def)

text \<open>The nodes after the registration of a list of services.\<close>

definition registered_nodes ::
  "bytes \<Rightarrow> (string \<times> string list) list \<Rightarrow> (string \<rightharpoonup> bytes option \<times> zk_mode)
     \<Rightarrow> (string \<rightharpoonup> bytes option \<times> zk_mode)" where
  "registered_nodes d ss f = fold (\<lambda>(s, ms) f.
     fold (\<lambda>m. map_insert (method_path s m) (Some d, Ephemeral)) ms
       (map_insert (service_path s) (None, Persistent) f)) ss f"

lemma registered_nodes_simps:
  "registered_nodes d [] f = f"
  "registered_nodes d ((s, ms) # ss) f = registered_nodes d ss
     (fold (\<lambda>m. map_insert (method_path s m) (Some d, Ephemeral)) ms (map_insert (service_path s) (None, Persistent) f))"
  by (simp_all add: registered_nodes_def)

lemma register_services_ok:
  assumes "zk_ok ops nodes" "names_ok ss" "services_free (nodes z) ss"
  shows "\<exists>z'. register_services ops d z ss = Some z' \<and>
    nodes z' = registered_nodes d ss (nodes z)"
  using assms(2,3)
proof (induction ss arbitrary: z)
  case Nil
  then show ?case by (simp add: registered_nodes_simps)
next
  case (Cons p ss)
  obtain s ms where p: "p = (s, ms)" by (cases p)
  have names: "name_ok s" "\<forall>m\<in>set ms. name_ok m" "names_ok ss"
    using Cons.prems(1) p by (auto simp: names_ok_def)
  have "\<exists>z'. zk_Create ops z (service_path s) None Persistent = Some z' \<and>
      nodes z' = map_insert (service_path s) (None, Persistent) (nodes z)"
    using names(1) parents(1) by (intro zk_Create_ok [OF assms(1), of "[s]"]) (auto simp: zk_paths(1))
  then obtain z1 where z1: "zk_Create ops z (service_path s) None Persistent = Some z1"
      "nodes z1 = map_insert (service_path s) (None, Persistent) (nodes z)" by blast
  have "\<exists>e. nodes z1 (service_path s) = Some (e, Persistent)"
  proof (cases "nodes z (service_path s)")
    case (Some dm)
    then have "snd dm = Persistent" using Cons.prems(2) p
      by (cases "snd dm"; cases dm) (auto simp: services_free_def)
    with Some z1(2) show ?thesis by (cases dm) simp
  qed (simp add: z1(2))
  then obtain e where "nodes z1 (service_path s) = Some (e, Persistent)" ..
  from register_methods_ok [OF assms(1) names(1) this names(2)] obtain z2 where
    z2: "register_methods ops (service_path s) d z1 ms = Some z2"
      "nodes z2 = fold (\<lambda>m. map_insert (method_path s m) (Some d, Ephemeral)) ms (nodes z1)" by blast
  have "nodes z2 (service_path s') \<noteq> Some (e, Ephemeral)" if "(s', ms') \<in> set ss" for s' ms' e
  proof -
    have s': "name_ok s'" using names(3) that by (auto simp: names_ok_def)
    have "nodes z (service_path s') \<noteq> Some (e, Ephemeral)"
      using Cons.prems(2) that by (auto simp: services_free_def)
    then show ?thesis
      using method_service [OF s'] by (auto simp: z2(2) z1(2) fold_insert_apply image_iff split: option.splits dest: sym)
  qed
  then have "services_free (nodes z2) ss" by (auto simp: services_free_def)
  then obtain z3 where "register_services ops d z2 ss = Some z3"
      "nodes z3 = registered_nodes d ss (nodes z2)"
    using Cons.IH names(3) by blast
  with z1 z2 show ?case
    by (simp add: p registered_nodes_simps service_path_def del: map_insert_apply)
qed

lemma registered_nodes_keep: "f q = Some w \<Longrightarrow> registered_nodes d ss f q = Some w"
proof (induction ss arbitrary: f)
  case Nil
  then show ?case by (simp add: registered_nodes_simps)
next
  case (Cons p ss)
  obtain s ms where p: "p = (s, ms)" by (cases p)
  show ?case unfolding p registered_nodes_simps
    by (rule Cons.IH) (use Cons.prems in \<open>auto simp: fold_insert_apply\<close>)
qed

lemma registered_nodes_method:
  "names_ok ss \<Longrightarrow> name_ok s \<Longrightarrow> registered ss s m \<Longrightarrow> f (method_path s m) = None \<Longrightarrow>
   registered_nodes d ss f (method_path s m) = Some (Some d, Ephemeral)"
proof (induction ss arbitrary: f)
  case Nil
  then show ?case by (simp add: registered_def)
next
  case (Cons p ss)
  obtain s' ms where p: "p = (s', ms)" by (cases p)
  let ?f = "fold (\<lambda>m. map_insert (method_path s' m) (Some d, Ephemeral)) ms (map_insert (service_path s') (None, Persistent) f)"
  have s': "name_ok s'" using Cons.prems(1) p by (auto simp: names_ok_def)
  then have ne: "method_path s m \<noteq> service_path s'" by (rule method_service)
  have unfold: "registered_nodes d (p # ss) f = registered_nodes d ss ?f"
    by (simp add: registered_nodes_simps p)
  show ?case
  proof (cases "s = s' \<and> m \<in> set ms")
    case True
    with ne Cons.prems(4) have "?f (method_path s m) = Some (Some d, Ephemeral)"
      by (simp add: fold_insert_apply)
    then show ?thesis unfolding unfold by (rule registered_nodes_keep)
  next
    case False
    with ne Cons.prems s' have "?f (method_path s m) = None"
      by (auto simp: fold_insert_apply method_path_inj)
    moreover have "registered ss s m" "names_ok ss"
      using False Cons.prems p by (auto simp: registered_def names_ok_def)
    ultimately show ?thesis unfolding unfold using Cons.IH Cons.prems(2) by blast
  qed
qed

lemma registered_nodes_service:
  assumes "names_ok ss" "(s, ms) \<in> set ss" "f (service_path s) = None"
  shows "registered_nodes d ss f (service_path s) = Some (None, Persistent)"
  using assms
proof (induction ss arbitrary: f)
  case (Cons p ss)
  obtain s' ms' where p: "p = (s', ms')" by (cases p)
  let ?f = "fold (\<lambda>m. map_insert (method_path s' m) (Some d, Ephemeral)) ms' (map_insert (service_path s') (None, Persistent) f)"
  have s: "name_ok s" using Cons.prems(1,2) by (auto simp: names_ok_def)
  have f: "?f (service_path s) = (if s = s' then Some (None, Persistent) else None)"
    using Cons.prems(3) method_service [OF s]
    by (auto simp: fold_insert_apply image_iff map_insert_def split: option.splits dest: sym)
  show ?case
  proof (cases "s = s'")
    case True
    with f show ?thesis by (simp add: registered_nodes_keep p registered_nodes_simps)
  next
    case False
    with Cons.prems p have "names_ok ss" "(s, ms) \<in> set ss" by (auto simp: names_ok_def)
    with Cons.IH f False show ?thesis by (simp add: p registered_nodes_simps)
  qed
qed simp

lemma zk_GetData_ok:
  assumes "zk_ok ops nodes" "NUL \<notin> set p" "nodes z p = Some (Some d, m)" "length d \<le> 64"
  shows "zk_GetData ops z p = Some d"
  using zk_okD(3) [OF assms(1,3)] assms(2,4) by (simp add: zk_GetData_def get_buffer_size_def)

lemma registration_ok:
  assumes "zk_ok ops nodes" and "names_ok services" and "services_free (nodes z) services"
    and "length (method_data cfg) \<le> 64"
  shows "\<exists>z'. Run_register ops cfg z services = Some z' \<and>
    (\<forall>s m. name_ok s \<and> registered services s m \<and> nodes z (method_path s m) = None \<longrightarrow>
       zk_GetData ops z' (method_path s m) = Some (method_data cfg) \<and>
       nodes z' (method_path s m) = Some (Some (method_data cfg), Ephemeral)) \<and>
    (\<forall>(s, ms) \<in> set services. nodes z (service_path s) = None \<longrightarrow> nodes z' (service_path s) = Some (None, Persistent)) \<and>
    (\<forall>p w. nodes z p = Some w \<longrightarrow> nodes z' p = Some w)"
proof -
  let ?addr = "method_data cfg"
  obtain z' where z': "Run_register ops cfg z services = Some z'"
      "nodes z' = registered_nodes ?addr services (nodes z)"
    using register_services_ok [OF assms(1,2,3), of ?addr] by (auto simp: Run_register_def)
  have m: "zk_GetData ops z' (method_path s m) = Some ?addr \<and> nodes z' (method_path s m) = Some (Some ?addr, Ephemeral)"
    if sm: "name_ok s" "registered services s m" "nodes z (method_path s m) = None" for s m
  proof -
    have n: "nodes z' (method_path s m) = Some (Some ?addr, Ephemeral)"
      using sm assms(2) by (simp add: z'(2) registered_nodes_method)
    have "name_ok m" using sm(2) assms(2) by (auto simp: registered_def names_ok_def)
    then have "NUL \<notin> set (method_path s m)" using sm(1) zk_path_NUL [of "[s, m]"] by (simp add: zk_paths)
    with zk_GetData_ok [OF assms(1) _ n assms(4)] n show ?thesis by blast
  qed
  have "\<forall>(s, ms) \<in> set services. nodes z (service_path s) = None \<longrightarrow> nodes z' (service_path s) = Some (None, Persistent)"
    using registered_nodes_service [OF assms(2)] by (auto simp: z'(2))
  with z' m show ?thesis by (auto simp: registered_nodes_keep)
qed

section \<open>Properties\<close>

text \<open>
  Property (C25). Registration makes every method resolvable: on a ZooKeeper that behaves as
  documented and is not changed by others meanwhile, \<open>Run\<close> registers its services, provided no
  service's node is an ephemeral one (it could have no method below it). Then looking up
  \<open>/service/method\<close> of a registered method whose node did not exist before returns the configured
  \<open>ip:port\<close>; that node is ephemeral, so it goes with the provider's session, while the service's is
  persistent; and every node that existed before, in particular a stale address left by an earlier
  provider, is unchanged. The address has at most 64 characters and the names are visible ASCII.
\<close>

theorem registration_resolves:
  assumes "zk_ok ops nodes" and "names_ok services" and "services_free (nodes z) services"
    and "length (method_data cfg) \<le> 64"
  shows "\<exists>z'. Run_register ops cfg z services = Some z' \<and>
    (\<forall>s m. name_ok s \<and> registered services s m \<and> nodes z (method_path s m) = None \<longrightarrow>
       zk_GetData ops z' (method_path s m) = Some (method_data cfg) \<and>
       nodes z' (method_path s m) = Some (Some (method_data cfg), Ephemeral)) \<and>
    (\<forall>(s, ms) \<in> set services. nodes z (service_path s) = None \<longrightarrow> nodes z' (service_path s) = Some (None, Persistent)) \<and>
    (\<forall>p w. nodes z p = Some w \<longrightarrow> nodes z' p = Some w)"
  using registration_ok [OF assms] .

text \<open>A server that keeps its nodes in a map, for the witness.\<close>

definition map_zk :: "(string \<rightharpoonup> bytes option \<times> zk_mode) zk_ops" where
  "map_zk = \<lparr>
     zk_init = (\<lambda>_. Some Map.empty),
     zk_exists = (\<lambda>z p. if z p = None then ZNONODE else ZOK),
     zk_create = (\<lambda>z p d m.
       if z p \<noteq> None then (ZOther (-110), z)
       else if parent p = [] then (ZOK, z(p \<mapsto> (d, m)))
       else case z (parent p) of
         None \<Rightarrow> (ZNONODE, z)
       | Some (_, Ephemeral) \<Rightarrow> (ZOther (-108), z)
       | Some (_, Persistent) \<Rightarrow> (ZOK, z(p \<mapsto> (d, m)))),
     zk_get = (\<lambda>z p n. case z p of None \<Rightarrow> (ZNONODE, None)
       | Some (d, _) \<Rightarrow> (ZOK, map_option (take n) d))\<rparr>"

lemma map_zk_ok: "zk_ok map_zk (\<lambda>z. z)"
  by (auto simp: zk_ok_def map_zk_def Let_def split: option.splits zk_mode.splits)

lemma registration_resolves_witness:
  "\<exists>z'. Run_register map_zk
      (LoadConfigFile empty_config (Some (''rpcserverip=1.2.3.4'' @ [CHR 0x0A] @ ''rpcserverport=80'')))
      (\<lambda>_. None) [(''User'', [''Login'', ''Register''])] = Some z' \<and>
    zk_GetData map_zk z' ''/User/Register'' = Some ''1.2.3.4:80''"
proof -
  let ?cfg = "LoadConfigFile empty_config
    (Some (''rpcserverip=1.2.3.4'' @ [CHR 0x0A] @ ''rpcserverport=80''))"
  have l: "method_data ?cfg = ''1.2.3.4:80''"
    by (simp add: method_data_def Load_def LoadConfigFile_def config_line_def Trim_def substr_def
        empty_config_def)
  have n: "names_ok [(''User'', [''Login'', ''Register''])]" "name_ok ''User''"
    "registered [(''User'', [''Login'', ''Register''])] ''User'' ''Register''"
    "method_path ''User'' ''Register'' = ''/User/Register''"
    by (simp_all add: names_ok_def name_ok_def registered_def method_path_def service_path_def)
  have "services_free (\<lambda>_. None) [(''User'', [''Login'', ''Register''])]" by (simp add: services_free_def)
  from registration_resolves [of map_zk "\<lambda>z. z" _ "\<lambda>_. None" ?cfg, OF map_zk_ok n(1) this] n(2-4)
  show ?thesis unfolding l by fastforce
qed

end
