(* ===== verification/RpcChannel.thy ===== *)
theory RpcChannel
  imports RpcHeader ZkClient
begin

text \<open>
  The client side of the RPC framework, \<^verbatim>\<open>mprpc-main/src/mprpcchannel.cc\<close>: a call is turned
  into a frame, the provider's address is looked up in ZooKeeper, and the frame is exchanged
  for one response over a fresh TCP socket. The message types, the system calls and the
  ZooKeeper library are parameters; the effect of a call is the trace of its system calls, the
  state of the controller, the parsed response if there is one, and how the function was left.
  Log output is left out.
\<close>

section \<open>The frame of a request\<close>

text \<open>
  \<^verbatim>\<open>header_size[4] + header + args\<close>, the size in the byte order of the host (little endian);
  both size fields are truncated to 32 bits. \<^term>\<open>Inl\<close> is the text passed to \<open>SetFailed\<close>.
\<close>

definition request_header :: "'u pb_runtime \<Rightarrow> string \<Rightarrow> string \<Rightarrow> bytes \<Rightarrow> rpc_header \<times> 'u" where
  "request_header rt service method args_str =
     header_set_args_size (of_nat (length args_str))
       (header_set_method_name method
         (header_set_service_name service (default_header, rt_NoUnknown rt)))"

definition rpc_frame ::
  "'u pb_runtime \<Rightarrow> string \<Rightarrow> string \<Rightarrow> bytes option \<Rightarrow> string + bytes" where
  "rpc_frame rt service method args =
     (case args of
        None \<Rightarrow> Inl ''serialize request error''
      | Some args_str \<Rightarrow>
          (case header_SerializeToString rt (request_header rt service method args_str) of
             None \<Rightarrow> Inl ''serialize rpc header error''
           | Some header_str \<Rightarrow>
               (let header_size = of_nat (length header_str) :: u32
                in Inr (le32_bytes header_size @ header_str @ args_str))))"

section \<open>The provider's address\<close>

text \<open>How \<open>CallMethod\<close> can be left other than by \<^verbatim>\<open>return\<close>.\<close>

datatype call_end = Returned | Threw_number num_error | Threw_length | Blocked | Exited

definition channel_address :: "string \<Rightarrow> string + (call_end + (string \<times> u16))" where
  "channel_address host_data =
     (if host_data = [] then Inl ''rpc service is not exist!''
      else case find_char CHR '':'' host_data of
          None \<Rightarrow> Inl ''rpc service address is invalid!''
        | Some idx \<Rightarrow>
            (let ip = substr host_data 0 idx;
                 port = substr host_data (idx + 1) (length host_data)
             in case stoi port of
                  Inl e \<Rightarrow> Inr (Inl (Threw_number e))
                | Inr p \<Rightarrow> Inr (Inr (ip, to_u16 p))))"

section \<open>The exchange\<close>

text \<open>
  The system calls: \<open>send\<close> returns the number of bytes taken and \<open>recv\<close> the bytes received, at
  most as many as asked for and none when the peer has closed; \<^term>\<open>None\<close> is the result \<open>-1\<close>.
\<close>

record net_calls =
  net_inet_addr :: "string \<Rightarrow> u32"
  net_socket :: "fd option"
  net_connect :: "fd \<Rightarrow> u32 \<Rightarrow> u16 \<Rightarrow> bool"
  net_send :: "fd \<Rightarrow> bytes \<Rightarrow> nat option"
  net_recv :: "fd \<Rightarrow> nat \<Rightarrow> bytes option"

datatype net_op = Op_socket fd | Op_connect fd u32 u16 | Op_send fd bytes | Op_recv fd nat | Op_close fd

definition recv_size :: nat where "recv_size = 1024"

text \<open>The controller, the response, and the trace after the exchange.\<close>

definition channel_exchange ::
  "net_calls \<Rightarrow> (bytes \<Rightarrow> 'r option) \<Rightarrow> string \<Rightarrow> u16 \<Rightarrow> bytes \<Rightarrow> mprpc_controller
     \<Rightarrow> mprpc_controller \<times> 'r option \<times> net_op list" where
  "channel_exchange net parse ip port frame ctl =
     (case net_socket net of
        None \<Rightarrow> (controller_SetFailed ctl ''create socket error'', None, [])
      | Some s \<Rightarrow>
          (let addr = net_inet_addr net (c_str ip); t1 = [Op_socket s, Op_connect s addr port] in
           if \<not> net_connect net s addr port
           then (controller_SetFailed ctl ''connect server error'', None, t1 @ [Op_close s])
           else let t2 = t1 @ [Op_send s frame] in
           case net_send net s frame of
             None \<Rightarrow> (controller_SetFailed ctl ''send rpc request error'', None, t2 @ [Op_close s])
           | Some _ \<Rightarrow>
               (let t3 = t2 @ [Op_recv s recv_size] in
                case net_recv net s recv_size of
                  None \<Rightarrow> (controller_SetFailed ctl ''recv rpc response error'', None, t3 @ [Op_close s])
                | Some buf \<Rightarrow>
                    (case parse buf of
                       None \<Rightarrow> (controller_SetFailed ctl ''parse rpc response error'', None,
                                 t3 @ [Op_close s])
                     | Some response \<Rightarrow> (ctl, Some response, t3 @ [Op_close s])))))"

section \<open>The call\<close>

text \<open>
  \<open>args\<close> is the result of \<^verbatim>\<open>request->SerializeToString\<close>, \<open>parse\<close> is
  \<^verbatim>\<open>response->ParseFromArray\<close>, and \<open>evs\<close> are the events that reach the ZooKeeper watcher. The
  address is looked up with a client of its own for every call.
\<close>

definition channel_CallMethod ::
  "'u pb_runtime \<Rightarrow> 'z zk_ops \<Rightarrow> mprpc_config \<Rightarrow> watch_event list \<Rightarrow> net_calls
     \<Rightarrow> string \<Rightarrow> string \<Rightarrow> bytes option \<Rightarrow> (bytes \<Rightarrow> 'r option) \<Rightarrow> mprpc_controller
     \<Rightarrow> call_end \<times> mprpc_controller \<times> 'r option \<times> net_op list" where
  "channel_CallMethod rt ops cfg evs net service method args parse ctl =
     (case rpc_frame rt service method args of
        Inl reason \<Rightarrow> (Returned, controller_SetFailed ctl reason, None, [])
      | Inr frame \<Rightarrow>
          (case zk_Start ops cfg evs of
             (Zk_exit, _) \<Rightarrow> (Exited, ctl, None, [])
           | (Zk_blocked, _) \<Rightarrow> (Blocked, ctl, None, [])
           | (Zk_connected, None) \<Rightarrow> (Exited, ctl, None, [])
           | (Zk_connected, Some z) \<Rightarrow>
               (case zk_GetData ops z (''/'' @ service @ ''/'' @ method) of
                  None \<Rightarrow> (Threw_length, ctl, None, [])
                | Some host_data \<Rightarrow>
                    (case channel_address host_data of
                       Inl reason \<Rightarrow> (Returned, controller_SetFailed ctl reason, None, [])
                     | Inr (Inl e) \<Rightarrow> (e, ctl, None, [])
                     | Inr (Inr (ip, port)) \<Rightarrow>
                         (Returned, channel_exchange net parse ip port frame ctl)))))"

section \<open>Lemmas\<close>

lemma rpc_frame_Inr:
  assumes "rpc_frame rt s m args = Inr frame"
  obtains a where "args = Some a"
    "frame = le32_bytes (of_nat (length (header_InternalSerialize rt (request_header rt s m a))))
       @ header_InternalSerialize rt (request_header rt s m a) @ a"
  using assms
  by (auto simp: rpc_frame_def header_SerializeToString_def SerializeToString_def Let_def
      split: option.splits if_splits)

lemma request_header_fields [simp]:
  "request_header rt s m a =
     (\<lparr>service_name = s, method_name = m, args_size = of_nat (length a)\<rparr>, rt_NoUnknown rt)"
  by (simp add: request_header_def header_set_args_size_def header_set_method_name_def
      header_set_service_name_def default_header_def)

lemma channel_address_ok:
  assumes "CHR '':'' \<notin> set ip" "int_min \<le> p" "p \<le> int_max"
  shows "channel_address (ip @ '':'' @ to_string p) = Inr (Inr (ip, to_u16 p))"
  using assms by (simp add: channel_address_def find_char_append substr_def stoi_to_string)

text \<open>The bracket: nothing, or one socket that is opened first and closed last.\<close>

definition bracketed :: "net_op list \<Rightarrow> bool" where
  "bracketed t \<longleftrightarrow> t = [] \<or>
     (\<exists>s body. t = Op_socket s # body @ [Op_close s] \<and>
        (\<forall>x \<in> set body. (\<exists>a p. x = Op_connect s a p) \<or> (\<exists>d. x = Op_send s d) \<or> (\<exists>n. x = Op_recv s n)))"

lemma bracketedI:
  "t = Op_socket s # body @ [Op_close s] \<Longrightarrow>
   \<forall>x \<in> set body. (\<exists>a p. x = Op_connect s a p) \<or> (\<exists>d. x = Op_send s d) \<or> (\<exists>n. x = Op_recv s n) \<Longrightarrow>
   bracketed t"
  by (auto simp: bracketed_def)

lemma channel_exchange_bracketed:
  "bracketed (snd (snd (channel_exchange net parse ip port frame ctl)))"
proof (cases "net_socket net")
  case None
  then show ?thesis by (simp add: channel_exchange_def bracketed_def)
next
  case (Some s)
  let ?a = "net_inet_addr net (c_str ip)"
  let ?t = "snd (snd (channel_exchange net parse ip port frame ctl))"
  have "?t = Op_socket s # [Op_connect s ?a port] @ [Op_close s] \<or>
    ?t = Op_socket s # [Op_connect s ?a port, Op_send s frame] @ [Op_close s] \<or>
    ?t = Op_socket s # [Op_connect s ?a port, Op_send s frame, Op_recv s recv_size] @ [Op_close s]"
    using Some by (auto simp: channel_exchange_def Let_def split: option.splits)
  then show ?thesis by (elim disjE) (erule bracketedI; force)+
qed

section \<open>Properties\<close>

text \<open>
  Sockets are not leaked: whatever the environment answers, the system calls of a
  call are none at all, or start with \<open>socket\<close> and end with \<open>close\<close> on that descriptor, with one
  \<open>close\<close> only and nothing after it.
\<close>

theorem CallMethod_closes_socket:
  "bracketed (snd (snd (snd (channel_CallMethod rt ops cfg evs net service method args parse ctl))))"
  by (simp add: channel_CallMethod_def channel_exchange_bracketed bracketed_def [of "[]"]
      split: sum.splits option.splits prod.splits zk_start.splits)

text \<open>
  Property (C23). What a caller can conclude: with a controller that has not failed, a call that
  returns has either failed with an error text and no response, or left the controller as it
  was and parsed a response; a call that does not return (the port is no number, the node has
  no data, ZooKeeper does not connect) has touched neither the controller nor the network.
\<close>

theorem CallMethod_outcome:
  assumes "channel_CallMethod rt ops cfg evs net service method args parse ctl = (how, ctl', resp, ops')"
    and "\<not> controller_Failed ctl"
  shows "if how = Returned
    then (if controller_Failed ctl' then resp = None \<and> controller_ErrorText ctl' \<noteq> []
          else ctl' = ctl \<and> resp \<noteq> None)
    else ctl' = ctl \<and> resp = None \<and> ops' = []"
  using assms
  by (auto simp: channel_CallMethod_def channel_exchange_def channel_address_def rpc_frame_def Let_def
      controller_SetFailed_def controller_Failed_def controller_ErrorText_def
      split: sum.splits option.splits prod.splits zk_start.splits if_splits dest!: sym [of "Some _"])

text \<open>An environment for the witnesses: every call succeeds, the peer answers with \<open>d\<close>.\<close>

definition sample_net :: "bytes \<Rightarrow> net_calls" where
  "sample_net d = \<lparr>net_inet_addr = (\<lambda>_. 0x0100007F), net_socket = Some 7,
     net_connect = (\<lambda>_ _ _. True), net_send = (\<lambda>_ b. Some (length b)),
     net_recv = (\<lambda>_ n. Some (take n d))\<rparr>"

definition sample_zk :: "(string \<rightharpoonup> bytes option \<times> zk_mode) zk_ops" where
  "sample_zk = map_zk\<lparr>zk_init := (\<lambda>_. Some [''/S/m'' \<mapsto> (Some ''h:80'', Ephemeral)])\<rparr>"

lemma CallMethod_outcome_witness:
  "\<exists>ctl' resp t. channel_CallMethod wire_runtime sample_zk empty_config [] (sample_net []) ''S'' ''m''
      (Some []) (\<lambda>s. Some s) new_controller = (Blocked, ctl', resp, t) \<and>
    ctl' = new_controller \<and> resp = None \<and> t = []"
proof -
  have nf: "\<not> controller_Failed new_controller"
    by (simp add: controller_Failed_def new_controller_def controller_Reset_def)
  have "length (header_InternalSerialize wire_runtime (request_header wire_runtime ''S'' ''m'' [])) < 2 ^ 31"
    by (simp add: header_InternalSerialize_def wire_runtime_def put_delimited_def put_varint.simps)
  then have "fst (channel_CallMethod wire_runtime sample_zk empty_config [] (sample_net []) ''S'' ''m''
      (Some []) (\<lambda>s. Some s) new_controller) = Blocked"
    by (simp add: channel_CallMethod_def rpc_frame_def header_SerializeToString_def
        SerializeToString_def zk_Start_def sample_zk_def map_zk_def wire_runtime_def Let_def)
  then obtain ctl' resp t where c: "channel_CallMethod wire_runtime sample_zk empty_config []
      (sample_net []) ''S'' ''m'' (Some []) (\<lambda>s. Some s) new_controller = (Blocked, ctl', resp, t)"
    by (cases "channel_CallMethod wire_runtime sample_zk empty_config [] (sample_net []) ''S'' ''m''
      (Some []) (\<lambda>s. Some s) new_controller") auto
  from CallMethod_outcome [OF c nf] c show ?thesis by simp
qed

text \<open>
  A peer that closes without an answer looks like success: when \<open>recv\<close> returns
  no bytes and the empty string parses as the response type (it does for every proto3 message),
  the exchange reports no failure and hands the caller that default response.
\<close>

theorem exchange_accepts_no_answer:
  assumes "net_socket net = Some s" and "net_connect net s (net_inet_addr net (c_str ip)) port"
    and "net_send net s frame = Some n" and "net_recv net s recv_size = Some []"
    and "parse [] = Some default_response"
  shows "fst (channel_exchange net parse ip port frame ctl) = ctl \<and>
    fst (snd (channel_exchange net parse ip port frame ctl)) = Some default_response"
  using assms by (simp add: channel_exchange_def Let_def)

lemma exchange_accepts_no_answer_witness:
  "fst (snd (channel_exchange (sample_net []) (header_ParseFromString wire_runtime) ''h'' 80 ''x''
     new_controller)) = Some (default_header, ())"
proof -
  have "header_ParseFromString wire_runtime [] = Some (default_header, ())"
    using header_roundtrip [OF wire_runtime_ok, of default_header]
    by (simp add: header_writable_def header_InternalSerialize_def default_header_def
        wire_runtime_def)
  then show ?thesis
    using exchange_accepts_no_answer [of "sample_net []" 7 "''h''" 80 "''x''" 1
      "header_ParseFromString wire_runtime" "(default_header, ())" new_controller]
    by (simp add: sample_net_def)
qed

text \<open>
  One \<open>recv\<close> of 1024 bytes is the whole answer: two peers whose answers agree on
  the first 1024 bytes cannot be told apart, so a longer response is parsed from its prefix.
\<close>

theorem exchange_reads_1024:
  assumes "net_recv net = (\<lambda>s n. Some (take n answer))" and "1024 \<le> length answer"
  shows "channel_exchange net parse ip port frame ctl =
    channel_exchange (net\<lparr>net_recv := (\<lambda>s n. Some (take n (take 1024 answer)))\<rparr>) parse ip port frame ctl"
  using assms by (simp add: channel_exchange_def Let_def recv_size_def split: option.splits)

lemma exchange_reads_1024_witness:
  "channel_exchange (sample_net (replicate 2000 CHR ''x'')) (\<lambda>s. Some s) ''h'' 80 ''q'' new_controller =
   channel_exchange ((sample_net (replicate 2000 CHR ''x''))\<lparr>net_recv :=
     (\<lambda>s n. Some (take n (take 1024 (replicate 2000 CHR ''x''))))\<rparr>) (\<lambda>s. Some s) ''h'' 80 ''q'' new_controller"
  by (rule exchange_reads_1024) (simp_all add: sample_net_def)

end
