(* ===== verification/RpcEndToEnd.thy ===== *)
theory RpcEndToEnd
  imports RpcProvider RpcChannel
begin

text \<open>
  Client and provider together: the frames \<open>MprpcChannel::CallMethod\<close> builds are the requests
  \<open>RpcProvider::OnMessage\<close> dispatches, and the address the provider registers is the one the
  client connects to.
\<close>

section \<open>Calls\<close>

type_synonym rpc_call = "string \<times> string \<times> bytes"

fun call_frame :: "'u pb_runtime \<Rightarrow> rpc_call \<Rightarrow> bytes" where
  "call_frame rt (s, m, a) = (case rpc_frame rt s m (Some a) of Inl _ \<Rightarrow> [] | Inr frame \<Rightarrow> frame)"

text \<open>A call the provider accepts, and what it does with it.\<close>

fun call_request :: "('q, 'r) service_map \<Rightarrow> rpc_call \<Rightarrow> (('q, 'r) rpc_service \<times> nat \<times> 'q) option" where
  "call_request sm (s, m, a) =
     (case sm s of
        None \<Rightarrow> None
      | Some info \<Rightarrow>
          (case svc_method_map info m of
             None \<Rightarrow> None
           | Some i \<Rightarrow> map_option (\<lambda>q. (svc_object info, i, q)) (svc_parse_request (svc_object info) i a)))"

fun call_events :: "('q, 'r) service_map \<Rightarrow> rpc_call \<Rightarrow> 'q provider_event list" where
  "call_events sm (s, m, a) =
     (case call_request sm (s, m, a) of
        None \<Rightarrow> []
      | Some (svc, i, q) \<Rightarrow> Ev_dispatch s m q # CallMethod_events svc i q)"

fun call_ok :: "'u pb_runtime \<Rightarrow> ('q, 'r) service_map \<Rightarrow> rpc_call \<Rightarrow> bool" where
  "call_ok rt sm (s, m, a) \<longleftrightarrow>
     call_request sm (s, m, a) \<noteq> None \<and> length a < 2 ^ 31 \<and>
     header_writable rt \<lparr>service_name = s, method_name = m, args_size = of_nat (length a)\<rparr> \<and>
     (\<exists>frame. rpc_frame rt s m (Some a) = Inr frame \<and> length frame < 2 ^ 31)"

lemma unat_of_nat_small: "n < 2 ^ 31 \<Longrightarrow> unat (of_nat n :: u32) = n"
  by (simp add: unat_of_nat take_bit_nat_eq_self)

text \<open>The provider's step on a frame with anything behind it.\<close>

lemma request_step_frame:
  assumes "wire_ok rt" "call_ok rt sm c" "length (call_frame rt c @ t) < 2 ^ 32"
  shows "request_step rt sm (call_frame rt c @ t) = Got (call_events sm c) (length (call_frame rt c))"
proof -
  obtain s m a where c: "c = (s, m, a)" by (cases c)
  let ?g = "\<lparr>service_name = s, method_name = m, args_size = of_nat (length a)\<rparr>"
  let ?hdr = "header_InternalSerialize rt (?g, rt_NoUnknown rt)"
  let ?h = "of_nat (length ?hdr) :: u32"
  obtain info i q where req: "sm s = Some info" "svc_method_map info m = Some i"
      "svc_parse_request (svc_object info) i a = Some q"
    using assms(2) c by (auto split: option.splits)
  obtain frame where f: "rpc_frame rt s m (Some a) = Inr frame" "length frame < 2 ^ 31"
    using assms(2) c by auto
  from f(1) have frame: "frame = le32_bytes ?h @ ?hdr @ a"
    by (rule rpc_frame_Inr) simp
  with f have cf: "call_frame rt c = le32_bytes ?h @ ?hdr @ a" by (simp add: c)
  have len: "length ?hdr < 2 ^ 31" "length a < 2 ^ 31" "4 + length ?hdr + length a < 2 ^ 31"
    using f(2) frame by auto
  then have h: "unat ?h = length ?hdr" "unat (of_nat (length a) :: u32) = length a"
    by (simp_all only: unat_of_nat_small)
  have sums: "unat (4 + ?h) = 4 + length ?hdr"
    "unat (4 + ?h + of_nat (length a)) = 4 + length ?hdr + length a"
    using len by (simp_all only: unat_add_4 unat_total h) simp_all
  have parse: "header_ParseFromString rt ?hdr = Some (?g, rt_NoUnknown rt)"
    using header_roundtrip [OF assms(1)] assms(2) c by simp
  show ?thesis
    unfolding cf request_step_def om_iteration_def
    using req c by (simp add: read_str_def h sums parse Let_def)
qed

lemma to_string_u16_length: "0 \<le> p \<Longrightarrow> p < 2 ^ 16 \<Longrightarrow> length (to_string p) \<le> 5"
  using dec_digits_length [of "nat p" 5] by (simp add: to_string_def)

text \<open>All calls of a connection, from the drained frames of the whole byte stream.\<close>

lemma calls_arrive:
  assumes "wire_ok rt" and "\<forall>c \<in> set calls. call_ok rt sm c"
    and "new_buffer kInitialSize = Inr b" and "concat packets = concat (map (call_frame rt) calls)"
    and "length (concat packets) \<le> 2 ^ 31" and "packets \<noteq> []"
  shows "rx_view (provider_receive rt sm b packets) =
    Some (Inr (visible (concat (map (call_events sm) calls)), []))"
proof -
  note b = fresh_buffer [OF assms(3)]
  have room: "rx_room b (length (concat packets))" using b assms(5) by (simp add: rx_room_def)
  have nil: "request_step rt sm [] = More"
    by (simp add: request_step_def om_iteration_def)
  have idle: "idle (request_step rt sm) []"
    by (simp add: idle_def nil)
  have "drain (request_step rt sm) (concat (map (call_frame rt) calls) @ []) =
      (concat (map (call_events sm) calls) @ fst (drain (request_step rt sm) []),
       snd (drain (request_step rt sm) []))"
  proof (rule rq.drain_messages)
    show "length (concat (map (call_frame rt) calls) @ []) < 2 ^ 32"
      using assms(4,5) by simp
  qed (use assms(1,2) request_step_frame in blast)
  then have "drain (request_step rt sm) (concat packets) = (concat (map (call_events sm) calls), [])"
    by (simp add: assms(4) rq.drain_idle [OF idle])
  then show ?thesis
    using rx_whole [OF room _ assms(6), of rt sm] idle nil
    by (simp add: b(2) rx_result_def)
qed

section \<open>Properties\<close>

text \<open>
  Property (C1). Calls arrive: send the frames of any list of acceptable calls over one
  connection, however TCP cuts the bytes into packets; the provider dispatches every call
  exactly once, in order, with the arguments that were sent, sends the responses in that order,
  and ends with an empty buffer.
\<close>

theorem calls_dispatched_in_order:
  assumes "wire_ok rt" and "\<forall>c \<in> set calls. call_ok rt sm c"
    and "new_buffer kInitialSize = Inr b" and "concat packets = concat (map (call_frame rt) calls)"
    and "length (concat packets) \<le> 2 ^ 31" and "packets \<noteq> []"
  shows "rx_view (provider_receive rt sm b packets) =
    Some (Inr (visible (concat (map (call_events sm) calls)), []))"
  by (rule calls_arrive [OF assms])

lemma echo_call_ok:
  "call_ok wire_runtime echo_map (''Echo'', ''Say'', ''hi'')"
  "call_events echo_map (''Echo'', ''Say'', ''hi'') = [Ev_dispatch ''Echo'' ''Say'' ''hi'', Ev_send ''hi'']"
  "length (call_frame wire_runtime (''Echo'', ''Say'', ''hi'')) \<le> 100"
proof -
  have pv: "put_varint n = [char_of n]" if "n < 128" for n
    using that by (subst put_varint.simps) simp
  let ?f = "rpc_frame wire_runtime ''Echo'' ''Say'' (Some ''hi'')"
  have f: "\<exists>frame. ?f = Inr frame \<and> length frame \<le> 100"
    by (simp add: rpc_frame_def header_SerializeToString_def SerializeToString_def
        header_InternalSerialize_def wire_runtime_def put_delimited_def pv)
  have r: "call_request echo_map (''Echo'', ''Say'', ''hi'') = Some (echo_service, 0, ''hi'')"
    by (simp add: echo_map_def NotifyService_def echo_service_def)
  show "length (call_frame wire_runtime (''Echo'', ''Say'', ''hi'')) \<le> 100" using f by auto
  show "call_ok wire_runtime echo_map (''Echo'', ''Say'', ''hi'')"
    using f r by (auto simp: header_writable_def wire_runtime_def simp del: call_request.simps)
  show "call_events echo_map (''Echo'', ''Say'', ''hi'') = [Ev_dispatch ''Echo'' ''Say'' ''hi'', Ev_send ''hi'']"
    unfolding call_events.simps r
    by (simp add: CallMethod_events_def Closure_Run_def SendRpcResponse_def echo_service_def)
qed

lemma calls_dispatched_in_order_witness:
  "\<exists>b. new_buffer kInitialSize = Inr b \<and>
    rx_view (provider_receive wire_runtime echo_map b
      [take 5 (call_frame wire_runtime (''Echo'', ''Say'', ''hi'')),
       drop 5 (call_frame wire_runtime (''Echo'', ''Say'', ''hi''))]) =
    Some (Inr (([Ev_dispatch ''Echo'' ''Say'' ''hi'', Ev_send ''hi''], False), []))"
proof -
  let ?c = "(''Echo'', ''Say'', ''hi'')"
  let ?f = "call_frame wire_runtime ?c"
  obtain b where b: "new_buffer kInitialSize = Inr b" using fresh_buffer_exists by blast
  have "concat [take 5 ?f, drop 5 ?f] = concat (map (call_frame wire_runtime) [?c])"
    by (simp del: call_frame.simps)
  moreover have "length (concat [take 5 ?f, drop 5 ?f]) \<le> 2 ^ 31"
    using echo_call_ok(3) by (simp del: call_frame.simps)
  ultimately have "rx_view (provider_receive wire_runtime echo_map b [take 5 ?f, drop 5 ?f]) =
      Some (Inr (visible (concat (map (call_events echo_map) [?c])), []))"
    using b echo_call_ok(1) by (intro calls_dispatched_in_order wire_runtime_ok) auto
  moreover have "visible (concat (map (call_events echo_map) [?c])) =
      ([Ev_dispatch ''Echo'' ''Say'' ''hi'', Ev_send ''hi''], False)"
    by (simp add: echo_call_ok(2) visible_def del: call_events.simps)
  ultimately have "rx_view (provider_receive wire_runtime echo_map b [take 5 ?f, drop 5 ?f]) =
      Some (Inr (([Ev_dispatch ''Echo'' ''Say'' ''hi'', Ev_send ''hi''], False), []))" by argo
  with b show ?thesis by blast
qed

text \<open>
  Property (C24). The provider's address is found: after the provider registered its services on
  a ZooKeeper that behaves as documented and is not changed by others meanwhile, where no service's
  node is an ephemeral one, a client that looks up a method of these services (not registered by
  anyone before) connects to the configured ip and port. The ip has at most 50 characters and no
  colon, the port is below 65536, the names are visible ASCII.
\<close>

theorem registered_address_found:
  assumes "zk_ok ops nodes" and "names_ok services" and "services_free (nodes z) services"
    and "Load cfg ''rpcserverip'' = ip" and "Load cfg ''rpcserverport'' = to_string p"
    and "CHR '':'' \<notin> set ip" and "0 \<le> p" and "p < 2 ^ 16" and "length ip \<le> 50"
    and "name_ok s" and "registered services s m" and "nodes z (method_path s m) = None"
  shows "\<exists>z' host. Run_register ops cfg z services = Some z' \<and>
    zk_GetData ops z' (''/'' @ s @ ''/'' @ m) = Some host \<and>
    channel_address host = Inr (Inr (ip, to_u16 p)) \<and> uint (to_u16 p) = p"
proof -
  have "length (to_string p) \<le> 5" using assms(7,8) by (intro to_string_u16_length) auto
  then have "length (method_data cfg) \<le> 64" using assms(4,5,9) by (simp add: method_data_def)
  from registration_ok [OF assms(1,2,3) this] obtain z' where
    "Run_register ops cfg z services = Some z'"
    "zk_GetData ops z' (method_path s m) = Some (ip @ '':'' @ to_string p)"
    using assms(4,5,10-12) by (auto simp: method_data_def)
  moreover have "channel_address (ip @ '':'' @ to_string p) = Inr (Inr (ip, to_u16 p))"
    using assms(6-8) by (intro channel_address_ok) (auto simp: int_min_def int_max_def)
  moreover have "uint (to_u16 p) = p"
    using assms(7,8) by (simp add: to_u16_def uint_word_of_int_eq take_bit_int_eq_self)
  ultimately show ?thesis by (auto simp: method_path_def service_path_def)
qed

lemma registered_address_found_witness:
  "\<exists>z' host. Run_register map_zk
      \<lparr>config_map = [''rpcserverip'' \<mapsto> ''h'', ''rpcserverport'' \<mapsto> to_string 80]\<rparr>
      (\<lambda>_. None) [(''S'', [''m''])] = Some z' \<and>
    zk_GetData map_zk z' ''/S/m'' = Some host \<and>
    channel_address host = Inr (Inr (''h'', to_u16 80))"
proof -
  let ?cfg = "\<lparr>config_map = [''rpcserverip'' \<mapsto> ''h'', ''rpcserverport'' \<mapsto> to_string 80]\<rparr>"
  have "names_ok [(''S'', [''m''])]" "name_ok ''S''" "registered [(''S'', [''m''])] ''S'' ''m''"
    "Load ?cfg ''rpcserverip'' = ''h''" "Load ?cfg ''rpcserverport'' = to_string 80"
    "services_free (\<lambda>_. None) [(''S'', [''m''])]"
    by (simp_all add: names_ok_def name_ok_def registered_def Load_def services_free_def)
  then show ?thesis
    using registered_address_found [OF map_zk_ok, of "[(''S'', [''m''])]" "\<lambda>_. None" ?cfg "''h''" 80 "''S''" "''m''"]
    by auto
qed

end
