(* ===== verification/UserService.thy ===== *)
theory UserService
  imports UserMessages RpcEndToEnd
begin

text \<open>
  The example service: the generated dispatch classes \<open>UserServiceRpc\<close> and
  \<open>UserServiceRpc_Stub\<close> of \<^verbatim>\<open>user.pb.cc\<close>, the implementation \<^verbatim>\<open>callee/userservice.cc\<close>, and
  the client \<^verbatim>\<open>caller/main.cc\<close>. Method descriptors are their index in the service. A call is a
  function from the response object to the response object at the time the closure is run, or
  \<^term>\<open>None\<close> when the closure is not run or the process aborts.
\<close>

section \<open>Accessors\<close>

definition set_errcode :: "u32 \<Rightarrow> result_code \<times> 'u \<Rightarrow> result_code \<times> 'u" where
  "set_errcode v m = ((fst m)\<lparr>rc_errcode := v\<rparr>, snd m)"

definition set_errmsg :: "bytes \<Rightarrow> result_code \<times> 'u \<Rightarrow> result_code \<times> 'u" where
  "set_errmsg v m = ((fst m)\<lparr>rc_errmsg := v\<rparr>, snd m)"

text \<open>\<open>mutable_result\<close> followed by a change \<open>f\<close> through the pointer it returns.\<close>

definition login_mutable_result ::
  "'u pb_runtime \<Rightarrow> (result_code \<times> 'u \<Rightarrow> result_code \<times> 'u) \<Rightarrow> 'u login_response \<times> 'u
     \<Rightarrow> 'u login_response \<times> 'u" where
  "login_mutable_result rt f m =
     (let p = (case lgr_result (fst m) of None \<Rightarrow> (ResultCode_default, rt_NoUnknown rt) | Some p \<Rightarrow> p)
      in ((fst m)\<lparr>lgr_result := Some (f p)\<rparr>, snd m))"

definition register_mutable_result ::
  "'u pb_runtime \<Rightarrow> (result_code \<times> 'u \<Rightarrow> result_code \<times> 'u) \<Rightarrow> 'u register_response \<times> 'u
     \<Rightarrow> 'u register_response \<times> 'u" where
  "register_mutable_result rt f m =
     (let p = (case rgr_result (fst m) of None \<Rightarrow> (ResultCode_default, rt_NoUnknown rt) | Some p \<Rightarrow> p)
      in ((fst m)\<lparr>rgr_result := Some (f p)\<rparr>, snd m))"

definition login_set_success :: "bool \<Rightarrow> 'u login_response \<times> 'u \<Rightarrow> 'u login_response \<times> 'u" where
  "login_set_success v m = ((fst m)\<lparr>lgr_success := v\<rparr>, snd m)"

definition register_set_success :: "bool \<Rightarrow> 'u register_response \<times> 'u \<Rightarrow> 'u register_response \<times> 'u" where
  "register_set_success v m = ((fst m)\<lparr>rgr_success := v\<rparr>, snd m)"

text \<open>\<open>result()\<close> of a null pointer is the default instance.\<close>

definition login_result :: "'u login_response \<Rightarrow> result_code" where
  "login_result f = (case lgr_result f of None \<Rightarrow> ResultCode_default | Some r \<Rightarrow> fst r)"

section \<open>The generated service\<close>

datatype 'u user_request = Req_Login "login_request \<times> 'u" | Req_Register "register_request \<times> 'u"

datatype 'u user_response =
    Rsp_Login "'u login_response \<times> 'u" | Rsp_Register "'u register_response \<times> 'u"

text \<open>The methods of the service's descriptor.\<close>

definition UserServiceRpc_methods :: "string list" where
  "UserServiceRpc_methods = [''Login'', ''Register'']"

text \<open>
  The base class's own methods: the controller fails and the closure runs. A null controller
  is the failure.
\<close>

definition UserServiceRpc_Login ::
  "mprpc_controller option \<Rightarrow> 'm \<Rightarrow> (mprpc_controller \<times> 'm) option" where
  "UserServiceRpc_Login controller response =
     map_option (\<lambda>c. (controller_SetFailed c ''Method Login() not implemented.'', response)) controller"

definition UserServiceRpc_Register ::
  "mprpc_controller option \<Rightarrow> 'm \<Rightarrow> (mprpc_controller \<times> 'm) option" where
  "UserServiceRpc_Register controller response =
     map_option (\<lambda>c. (controller_SetFailed c ''Method Register() not implemented.'', response)) controller"

text \<open>\<open>login\<close> and \<open>register\<close> are the two virtual methods.\<close>

definition UserServiceRpc_CallMethod ::
  "(login_request \<times> 'u \<Rightarrow> 'u login_response \<times> 'u \<Rightarrow> ('u login_response \<times> 'u) option)
     \<Rightarrow> (register_request \<times> 'u \<Rightarrow> 'u register_response \<times> 'u \<Rightarrow> ('u register_response \<times> 'u) option)
     \<Rightarrow> nat \<Rightarrow> 'u user_request \<Rightarrow> 'u user_response \<Rightarrow> 'u user_response option" where
  "UserServiceRpc_CallMethod login register index request response =
     (if index = 0 then
        (case (request, response) of
           (Req_Login q, Rsp_Login r) \<Rightarrow> map_option Rsp_Login (login q r) | _ \<Rightarrow> None)
      else if index = 1 then
        (case (request, response) of
           (Req_Register q, Rsp_Register r) \<Rightarrow> map_option Rsp_Register (register q r) | _ \<Rightarrow> None)
      else None)"

definition GetRequestPrototype :: "'u pb_runtime \<Rightarrow> nat \<Rightarrow> 'u user_request option" where
  "GetRequestPrototype rt index =
     (if index = 0 then Some (Req_Login (LoginRequest_default, rt_NoUnknown rt))
      else if index = 1 then Some (Req_Register (RegisterRequest_default, rt_NoUnknown rt))
      else None)"

definition GetResponsePrototype :: "'u pb_runtime \<Rightarrow> nat \<Rightarrow> 'u user_response option" where
  "GetResponsePrototype rt index =
     (if index = 0 then Some (Rsp_Login (LoginResponse_default, rt_NoUnknown rt))
      else if index = 1 then Some (Rsp_Register (RegisterResponse_default, rt_NoUnknown rt))
      else None)"

text \<open>The virtual message functions the framework calls through the base class \<^verbatim>\<open>Message\<close>.\<close>

fun request_parse :: "'u pb_runtime \<Rightarrow> 'u user_request \<Rightarrow> bytes \<Rightarrow> 'u user_request option" where
  "request_parse rt (Req_Login _) s =
     map_option Req_Login (ParseFromString rt (LoginRequest_switch rt) LoginRequest_default s)"
| "request_parse rt (Req_Register _) s =
     map_option Req_Register (ParseFromString rt (RegisterRequest_switch rt) RegisterRequest_default s)"

fun request_serialize :: "'u pb_runtime \<Rightarrow> 'u user_request \<Rightarrow> bytes option" where
  "request_serialize rt (Req_Login m) = SerializeToString rt (LoginRequest_InternalSerialize rt m)"
| "request_serialize rt (Req_Register m) = SerializeToString rt (RegisterRequest_InternalSerialize rt m)"

fun response_parse :: "'u pb_runtime \<Rightarrow> 'u user_response \<Rightarrow> bytes \<Rightarrow> 'u user_response option" where
  "response_parse rt (Rsp_Login _) s =
     map_option Rsp_Login (ParseFromString rt (LoginResponse_switch rt) LoginResponse_default s)"
| "response_parse rt (Rsp_Register _) s =
     map_option Rsp_Register (ParseFromString rt (RegisterResponse_switch rt) RegisterResponse_default s)"

fun response_serialize :: "'u pb_runtime \<Rightarrow> 'u user_response \<Rightarrow> bytes option" where
  "response_serialize rt (Rsp_Login m) = SerializeToString rt (LoginResponse_InternalSerialize rt m)"
| "response_serialize rt (Rsp_Register m) = SerializeToString rt (RegisterResponse_InternalSerialize rt m)"

section \<open>The implementation\<close>

definition local_Login :: "string \<Rightarrow> string \<Rightarrow> bool" where
  "local_Login name pwd \<longleftrightarrow> name = ''zhang san'' \<and> pwd = ''123456''"

definition local_Register :: "u32 \<Rightarrow> string \<Rightarrow> string \<Rightarrow> bool" where
  "local_Register i name pwd \<longleftrightarrow> True"

definition UserService_Login ::
  "'u pb_runtime \<Rightarrow> login_request \<times> 'u \<Rightarrow> 'u login_response \<times> 'u \<Rightarrow> ('u login_response \<times> 'u) option" where
  "UserService_Login rt request response =
     (let name = lgq_name (fst request);
          pwd = lgq_pwd (fst request);
          login_result = local_Login name pwd;
          r1 = login_mutable_result rt (set_errcode 0) response;
          r2 = login_mutable_result rt (set_errmsg []) r1
      in Some (login_set_success login_result r2))"

definition UserService_Register ::
  "'u pb_runtime \<Rightarrow> register_request \<times> 'u \<Rightarrow> 'u register_response \<times> 'u
     \<Rightarrow> ('u register_response \<times> 'u) option" where
  "UserService_Register rt request response =
     (let i = rgq_id (fst request);
          name = rgq_name (fst request);
          pwd = rgq_pwd (fst request);
          register_result = local_Register i name pwd;
          r1 = register_mutable_result rt (set_errcode 0) response;
          r2 = register_mutable_result rt (set_errmsg []) r1
      in Some (register_set_success register_result r2))"

text \<open>
  The object the provider registers. The provider parses into a new message of the request
  prototype and calls with a new message of the response prototype.
\<close>

definition user_service :: "'u pb_runtime \<Rightarrow> ('u user_request, 'u user_response) rpc_service" where
  "user_service rt =
     \<lparr>svc_name = ''UserServiceRpc'',
      svc_methods = UserServiceRpc_methods,
      svc_parse_request = (\<lambda>i s. Option.bind (GetRequestPrototype rt i) (\<lambda>p. request_parse rt p s)),
      svc_call = (\<lambda>i q. Option.bind (GetResponsePrototype rt i)
        (UserServiceRpc_CallMethod (UserService_Login rt) (UserService_Register rt) i q)),
      svc_serialize = (\<lambda>_. response_serialize rt)\<rparr>"

definition user_map :: "'u pb_runtime \<Rightarrow> ('u user_request, 'u user_response) service_map" where
  "user_map rt = NotifyService (\<lambda>_. None) (user_service rt)"

section \<open>The stub and the client\<close>

definition Stub_call ::
  "'u pb_runtime \<Rightarrow> nat \<Rightarrow> 'u user_request \<Rightarrow> 'u user_response
     \<Rightarrow> (string \<Rightarrow> string \<Rightarrow> bytes option \<Rightarrow> (bytes \<Rightarrow> 'u user_response option) \<Rightarrow> 'x) \<Rightarrow> 'x" where
  "Stub_call rt index request response callMethod =
     callMethod ''UserServiceRpc'' (UserServiceRpc_methods ! index) (request_serialize rt request)
       (response_parse rt response)"

definition Stub_Login where
  "Stub_Login rt request response callMethod =
     Stub_call rt 0 (Req_Login request) (Rsp_Login response) callMethod"

definition Stub_Register where
  "Stub_Register rt request response callMethod =
     Stub_call rt 1 (Req_Register request) (Rsp_Register response) callMethod"

text \<open>What \<^verbatim>\<open>main\<close> prints after the call; a \<^verbatim>\<open>bool\<close> prints as 1 or 0.\<close>

definition caller_report :: "mprpc_controller \<Rightarrow> 'u login_response \<Rightarrow> string" where
  "caller_report controller response =
     (if controller_Failed controller
      then ''rpc login failed: '' @ controller_ErrorText controller
      else if rc_errcode (login_result response) = 0
      then ''rpc login response success: '' @ (if lgr_success response then ''1'' else ''0'')
      else ''rpc login response error: '' @ rc_errmsg (login_result response))"

definition caller_request :: "'u pb_runtime \<Rightarrow> login_request \<times> 'u" where
  "caller_request rt = (\<lparr>lgq_name = ''zhang san'', lgq_pwd = ''123456''\<rparr>, rt_NoUnknown rt)"

text \<open>
  \<^verbatim>\<open>main\<close> after \<open>Init\<close>: the stub's call on a fresh controller and response; a response that is
  not filled in stays as it was.
\<close>

definition caller_main ::
  "'u pb_runtime \<Rightarrow> 'z zk_ops \<Rightarrow> mprpc_config \<Rightarrow> watch_event list \<Rightarrow> net_calls
     \<Rightarrow> call_end \<times> string" where
  "caller_main rt ops cfg evs net =
     (let response = (LoginResponse_default, rt_NoUnknown rt) in
      case Stub_Login rt (caller_request rt) response
             (\<lambda>s m a parse. channel_CallMethod rt ops cfg evs net s m a parse new_controller) of
        (e, ctl, r, _) \<Rightarrow>
          (e, if e = Returned
              then caller_report ctl (case r of Some (Rsp_Login m) \<Rightarrow> fst m | _ \<Rightarrow> fst response)
              else []))"

section \<open>Lemmas\<close>

definition login_msg :: "'u pb_runtime \<Rightarrow> string \<times> string \<Rightarrow> login_request \<times> 'u" where
  "login_msg rt c = (\<lparr>lgq_name = fst c, lgq_pwd = snd c\<rparr>, rt_NoUnknown rt)"

definition login_rsp :: "'u pb_runtime \<Rightarrow> bool \<Rightarrow> 'u login_response \<times> 'u" where
  "login_rsp rt v = (\<lparr>lgr_result = Some (ResultCode_default, rt_NoUnknown rt), lgr_success = v\<rparr>, rt_NoUnknown rt)"

definition login_answer :: "'u pb_runtime \<Rightarrow> bool \<Rightarrow> bytes" where
  "login_answer rt v = LoginResponse_InternalSerialize rt (login_rsp rt v)"

definition login_call :: "'u pb_runtime \<Rightarrow> string \<times> string \<Rightarrow> rpc_call" where
  "login_call rt c = (''UserServiceRpc'', ''Login'', LoginRequest_InternalSerialize rt (login_msg rt c))"

text \<open>Requests and answers stay below the limits of the wire format.\<close>

fun frame_fits :: "'u pb_runtime \<Rightarrow> rpc_call \<Rightarrow> bool" where
  "frame_fits rt (s, m, a) \<longleftrightarrow>
     rt_VerifyUTF8 rt s \<and> rt_VerifyUTF8 rt m \<and> length s < 2 ^ 31 \<and> length m < 2 ^ 31 \<and>
     (case rpc_frame rt s m (Some a) of Inl _ \<Rightarrow> False | Inr frame \<Rightarrow> length frame < 2 ^ 31)"

definition login_fits :: "'u pb_runtime \<Rightarrow> string \<times> string \<Rightarrow> bool" where
  "login_fits rt c \<longleftrightarrow> length (fst c) < 2 ^ 31 \<and> length (snd c) < 2 ^ 31 \<and>
     frame_fits rt (login_call rt c)"

lemma Login_response [simp]:
  "UserService_Login rt q (LoginResponse_default, rt_NoUnknown rt) =
     Some (login_rsp rt (local_Login (lgq_name (fst q)) (lgq_pwd (fst q))))"
  by (simp add: UserService_Login_def login_mutable_result_def set_errcode_def set_errmsg_def
      login_set_success_def LoginResponse_default_def ResultCode_default_def login_rsp_def Let_def)

lemma login_request_parsed:
  assumes "wire_ok rt" "length (fst c) < 2 ^ 31" "length (snd c) < 2 ^ 31"
  shows "request_parse rt (Req_Login m) (LoginRequest_InternalSerialize rt (login_msg rt c)) =
    Some (Req_Login (login_msg rt c))"
  using lgq_msg.parse_written [OF assms(1), of "fst (login_msg rt c)"] assms(2,3)
  by (simp add: login_msg_def LoginRequest_writable_def)

lemma login_answer_parsed:
  assumes "wire_ok rt"
  shows "response_parse rt (Rsp_Login m) (login_answer rt v) = Some (Rsp_Login (login_rsp rt v))"
proof -
  have "ResultCode_InternalSerialize rt (ResultCode_default, rt_NoUnknown rt) = []"
    using assms by (simp add: ResultCode_InternalSerialize_def ResultCode_default_def Let_def
        wire_ok_def wire_roundtrips_end(2))
  then have "LoginResponse_writable rt (fst (login_rsp rt v))"
    by (simp add: login_rsp_def LoginResponse_writable_def ResultCode_writable_def ResultCode_default_def)
  from lgr_msg.parse_written [OF assms this] show ?thesis
    by (simp add: login_answer_def login_rsp_def)
qed

lemma user_map_lookup:
  "user_map rt ''UserServiceRpc'' = Some \<lparr>svc_object = user_service rt,
     svc_method_map = map_insert ''Register'' 1 (map_insert ''Login'' 0 (\<lambda>_. None))\<rparr>"
proof -
  have u: "[0..<length (svc_methods (user_service rt))] = [0, 1]"
    by (simp add: user_service_def UserServiceRpc_methods_def upt_rec)
  have n: "svc_name (user_service rt) = ''UserServiceRpc''" "svc_methods (user_service rt) ! 0 = ''Login''"
    "svc_methods (user_service rt) ! 1 = ''Register''"
    by (simp_all add: user_service_def UserServiceRpc_methods_def)
  show ?thesis
    unfolding user_map_def NotifyService_def u n(1) Let_def
    by (simp add: n(2) n(3) [simplified] map_insert_def)
qed

lemma login_call_request:
  assumes "wire_ok rt" "login_fits rt c"
  shows "call_request (user_map rt) (login_call rt c) = Some (user_service rt, 0, Req_Login (login_msg rt c))"
proof -
  have "map_insert ''Register'' 1 (map_insert ''Login'' 0 (\<lambda>_. None)) ''Login'' = Some (0 :: nat)"
    by (simp add: map_insert_def)
  moreover have "svc_parse_request (user_service rt) 0 (LoginRequest_InternalSerialize rt (login_msg rt c)) =
      Some (Req_Login (login_msg rt c))"
    using login_request_parsed [OF assms(1)] assms(2)
    by (simp only: user_service_def GetRequestPrototype_def login_fits_def rpc_service.simps
        simp_thms if_True bind.simps)
  ultimately show ?thesis
    unfolding login_call_def call_request.simps user_map_lookup
    by (simp only: option.case service_info.simps option.map)
qed

lemma frame_fitsD:
  assumes "frame_fits rt (s, m, a)"
  shows "rt_VerifyUTF8 rt s \<and> rt_VerifyUTF8 rt m \<and> length s < 2 ^ 31 \<and> length m < 2 ^ 31"
    "\<exists>frame. rpc_frame rt s m (Some a) = Inr frame \<and> length frame < 2 ^ 31"
proof -
  show "rt_VerifyUTF8 rt s \<and> rt_VerifyUTF8 rt m \<and> length s < 2 ^ 31 \<and> length m < 2 ^ 31"
    using assms by (simp only: frame_fits.simps)
  show "\<exists>frame. rpc_frame rt s m (Some a) = Inr frame \<and> length frame < 2 ^ 31"
    using assms by (cases "rpc_frame rt s m (Some a)") (simp_all only: frame_fits.simps sum.case, simp_all)
qed

lemma login_call_ok:
  assumes "wire_ok rt" "login_fits rt c"
  shows "call_ok rt (user_map rt) (login_call rt c)"
proof -
  obtain s m a where c: "login_call rt c = (s, m, a)" by (cases "login_call rt c")
  have fit: "frame_fits rt (s, m, a)" using assms(2) unfolding login_fits_def c by simp
  obtain frame where f: "rpc_frame rt s m (Some a) = Inr frame" "length frame < 2 ^ 31"
    using frame_fitsD(2) [OF fit] by blast
  have "length a \<le> length frame" using f(1) by (rule rpc_frame_Inr) simp
  then have "length a < 2 ^ 31" using f(2) by (rule le_less_trans)
  moreover have "call_request (user_map rt) (s, m, a) \<noteq> None"
    using login_call_request [OF assms] unfolding c by (simp only: option.distinct simp_thms)
  moreover have "header_writable rt \<lparr>service_name = s, method_name = m, args_size = of_nat (length a)\<rparr>"
    using frame_fitsD(1) [OF fit] by (simp add: header_writable_def)
  ultimately show ?thesis using f(1,2) unfolding c call_ok.simps by blast
qed

lemma login_call_events:
  assumes "wire_ok rt" "login_fits rt c" "\<forall>v. rt_CanSerialize rt (length (login_answer rt v))"
  shows "call_events (user_map rt) (login_call rt c) =
    [Ev_dispatch ''UserServiceRpc'' ''Login'' (Req_Login (login_msg rt c)),
     Ev_send (login_answer rt (local_Login (fst c) (snd c)))]"
proof -
  note r = login_call_request [OF assms(1,2), unfolded login_call_def]
  show ?thesis
    unfolding login_call_def call_events.simps r using assms(3)
    by (simp add: CallMethod_events_def Closure_Run_def SendRpcResponse_def user_service_def
        GetResponsePrototype_def UserServiceRpc_CallMethod_def SerializeToString_def login_answer_def
        login_msg_def)
qed

section \<open>Properties\<close>

text \<open>
  Property (C22). The example service over the wire: for any list of logins sent as frames over
  one connection, however TCP cuts them, the provider calls \<open>Login\<close> once per frame with the name
  and password that were sent, in order, and answers each with bytes from which the client's
  parser reads error code 0 and success exactly for the known user.
\<close>

theorem login_calls_answered:
  assumes "wire_ok rt" and "\<forall>v. rt_CanSerialize rt (length (login_answer rt v))"
    and "\<forall>c \<in> set logins. login_fits rt c"
    and "new_buffer kInitialSize = Inr b"
    and "concat packets = concat (map (\<lambda>c. call_frame rt (login_call rt c)) logins)"
    and "length (concat packets) \<le> 2 ^ 31" and "packets \<noteq> []"
  shows "rx_view (provider_receive rt (user_map rt) b packets) =
      Some (Inr (visible (concat (map (\<lambda>c.
        [Ev_dispatch ''UserServiceRpc'' ''Login'' (Req_Login (login_msg rt c)),
         Ev_send (login_answer rt (local_Login (fst c) (snd c)))]) logins)), [])) \<and>
    (\<forall>v. response_parse rt (Rsp_Login m) (login_answer rt v) = Some (Rsp_Login (login_rsp rt v)))"
proof -
  have "\<forall>c \<in> set (map (login_call rt) logins). call_ok rt (user_map rt) c"
    using login_call_ok [OF assms(1)] assms(3) by auto
  moreover have "concat packets = concat (map (call_frame rt) (map (login_call rt) logins))"
    using assms(5) by (simp add: comp_def)
  moreover have "map (call_events (user_map rt)) (map (login_call rt) logins) = map (\<lambda>c.
      [Ev_dispatch ''UserServiceRpc'' ''Login'' (Req_Login (login_msg rt c)),
       Ev_send (login_answer rt (local_Login (fst c) (snd c)))]) logins"
    using login_call_events [OF assms(1) _ assms(2)] assms(3) by simp
  ultimately show ?thesis
    using calls_arrive [OF assms(1) _ assms(4) _ assms(6,7), of "map (login_call rt) logins" "user_map rt"]
      login_answer_parsed [OF assms(1)] by metis
qed

text \<open>One login on the concrete runtime, for the witnesses.\<close>

definition sample_login :: "string \<times> string" where
  "sample_login = (''zhang san'', ''123456'')"

lemma small_varint: "n < 128 \<Longrightarrow> put_varint n = [char_of n]"
  by (subst put_varint.simps) simp

lemma sample_args:
  "length (LoginRequest_InternalSerialize wire_runtime (login_msg wire_runtime sample_login)) = 19"
  by (simp add: LoginRequest_InternalSerialize_def login_msg_def sample_login_def wire_runtime_def
      put_delimited_def small_varint)

lemma sample_frame:
  "length a = 19 \<Longrightarrow> \<exists>frame. rpc_frame wire_runtime ''UserServiceRpc'' ''Login'' (Some a) = Inr frame \<and>
     length frame \<le> 100"
  by (simp add: rpc_frame_def header_SerializeToString_def SerializeToString_def
      header_InternalSerialize_def wire_runtime_def put_delimited_def small_varint)

lemma sample_login_fits:
  "login_fits wire_runtime sample_login"
  "length (call_frame wire_runtime (login_call wire_runtime sample_login)) \<le> 100"
proof -
  let ?a = "LoginRequest_InternalSerialize wire_runtime (login_msg wire_runtime sample_login)"
  obtain frame where f: "rpc_frame wire_runtime ''UserServiceRpc'' ''Login'' (Some ?a) = Inr frame"
    "length frame \<le> 100" using sample_frame [OF sample_args] by blast
  have u: "rt_VerifyUTF8 wire_runtime ''UserServiceRpc''" "rt_VerifyUTF8 wire_runtime ''Login''"
    by (simp_all add: wire_runtime_def)
  have l: "length (fst sample_login) = 9" "length (snd sample_login) = 6" by (simp_all add: sample_login_def)
  show "login_fits wire_runtime sample_login"
    using f u by (simp add: login_fits_def login_call_def l)
  show "length (call_frame wire_runtime (login_call wire_runtime sample_login)) \<le> 100"
    using f by (simp add: login_call_def)
qed

lemma sample_answer: "length (login_answer wire_runtime v) \<le> 10"
  by (simp add: login_answer_def login_rsp_def LoginResponse_InternalSerialize_def
      ResultCode_InternalSerialize_def ResultCode_default_def wire_runtime_def put_delimited_def
      small_varint)

lemma login_calls_answered_witness:
  "\<exists>b. new_buffer kInitialSize = Inr b \<and>
    rx_view (provider_receive wire_runtime (user_map wire_runtime) b
      [call_frame wire_runtime (login_call wire_runtime sample_login)]) =
    Some (Inr (([Ev_dispatch ''UserServiceRpc'' ''Login'' (Req_Login (login_msg wire_runtime sample_login)),
      Ev_send (login_answer wire_runtime True)], False), []))"
proof -
  let ?f = "call_frame wire_runtime (login_call wire_runtime sample_login)"
  obtain b where b: "new_buffer kInitialSize = Inr b" using fresh_buffer_exists by blast
  have can: "\<forall>v. rt_CanSerialize wire_runtime (length (login_answer wire_runtime v))"
  proof
    fix v show "rt_CanSerialize wire_runtime (length (login_answer wire_runtime v))"
      using sample_answer [of v] by (simp add: wire_runtime_def)
  qed
  have len: "length (concat [?f]) \<le> 2 ^ 31" using sample_login_fits(2) by simp
  have fits: "\<forall>c \<in> set [sample_login]. login_fits wire_runtime c" using sample_login_fits(1) by simp
  have cat: "concat [?f] = concat (map (\<lambda>c. call_frame wire_runtime (login_call wire_runtime c)) [sample_login])"
    by simp
  have "rx_view (provider_receive wire_runtime (user_map wire_runtime) b [?f]) =
      Some (Inr (visible (concat (map (\<lambda>c.
        [Ev_dispatch ''UserServiceRpc'' ''Login'' (Req_Login (login_msg wire_runtime c)),
         Ev_send (login_answer wire_runtime (local_Login (fst c) (snd c)))]) [sample_login])), []))"
    using login_calls_answered [OF wire_runtime_ok can fits b cat len] by blast
  then show ?thesis
    using b by (simp add: visible_def local_Login_def sample_login_def)
qed

text \<open>
  What the example client prints: when the provider is found and reached and the
  answer of the service for its request arrives, the client reports the login as successful;
  but when the provider closes the connection without an answer it reports success as well,
  with the value 0, instead of an error.
\<close>

theorem caller_reports:
  assumes "wire_ok rt" and "LoginRequest_InternalSerialize rt (caller_request rt) = args"
    and "rt_CanSerialize rt (length args)"
    and "rpc_frame rt ''UserServiceRpc'' ''Login'' (Some args) = Inr frame"
    and "zk_Start ops cfg evs = (Zk_connected, Some z)"
    and "zk_GetData ops z ''/UserServiceRpc/Login'' = Some host"
    and "channel_address host = Inr (Inr (ip, port))"
    and "net_socket net = Some s" and "net_connect net s (net_inet_addr net (c_str ip)) port"
    and "net_send net s frame = Some n" and "net_recv net s recv_size = Some answer"
    and "answer = [] \<or> answer = login_answer rt (local_Login ''zhang san'' ''123456'')"
  shows "caller_main rt ops cfg evs net =
    (Returned, ''rpc login response success: '' @ (if answer = [] then ''0'' else ''1''))"
proof -
  have default: "ParseFromString rt (LoginResponse_switch rt) LoginResponse_default [] =
      Some (LoginResponse_default, rt_NoUnknown rt)"
    using assms(1) by (simp add: ParseFromString_def wire_ok_def wire_roundtrips_end(1))
  have ne: "login_answer rt True \<noteq> []"
    using login_answer_parsed [OF assms(1), of "(LoginResponse_default, rt_NoUnknown rt)" True] default
    by (auto simp: login_rsp_def LoginResponse_default_def)
  note ch = channel_CallMethod_def channel_exchange_def Stub_Login_def Stub_call_def
    UserServiceRpc_methods_def SerializeToString_def
  have no_fail: "controller_Failed new_controller = False"
    by (simp add: new_controller_def controller_Failed_def controller_Reset_def)
  note sim = assms(2-11) default no_fail
  from assms(12) show ?thesis
  proof
    assume "answer = []"
    then show ?thesis
      using sim by (simp add: caller_main_def ch caller_report_def login_result_def Let_def
          LoginResponse_default_def ResultCode_default_def)
  next
    assume a: "answer = login_answer rt (local_Login ''zhang san'' ''123456'')"
    then have a': "answer = login_answer rt True" by (simp add: local_Login_def)
    have p: "map_option Rsp_Login (ParseFromString rt (LoginResponse_switch rt) LoginResponse_default
        (login_answer rt True)) = Some (Rsp_Login (login_rsp rt True))"
      using login_answer_parsed [OF assms(1), of undefined True] by simp
    show ?thesis
      using sim a' ne p by (simp add: caller_main_def ch caller_report_def login_result_def Let_def
          login_rsp_def ResultCode_default_def)
  qed
qed

definition caller_zk :: "(string \<rightharpoonup> bytes option \<times> zk_mode) zk_ops" where
  "caller_zk = map_zk\<lparr>zk_init := (\<lambda>_. Some [''/UserServiceRpc/Login'' \<mapsto> (Some (''h'' @ '':'' @ to_string 80), Ephemeral)])\<rparr>"

lemma caller_reports_witness:
  "caller_main wire_runtime caller_zk empty_config [Session_connected] (sample_net (login_answer wire_runtime True)) =
     (Returned, ''rpc login response success: 1'')"
proof -
  let ?a = "LoginRequest_InternalSerialize wire_runtime (caller_request wire_runtime)"
  let ?net = "sample_net (login_answer wire_runtime True)"
  let ?z = "[''/UserServiceRpc/Login'' \<mapsto> (Some (''h'' @ '':'' @ to_string 80), Ephemeral)]"
  have a: "caller_request wire_runtime = login_msg wire_runtime sample_login"
    by (simp add: caller_request_def login_msg_def sample_login_def)
  obtain frame where f: "rpc_frame wire_runtime ''UserServiceRpc'' ''Login'' (Some ?a) = Inr frame"
    using sample_frame [OF sample_args] a by metis
  have can: "rt_CanSerialize wire_runtime (length ?a)"
    using sample_args a by (simp add: wire_runtime_def)
  have z: "zk_Start caller_zk empty_config [Session_connected] = (Zk_connected, Some ?z)"
    by (simp add: zk_Start_def caller_zk_def global_watcher_def Let_def)
  have "length (to_string 80) \<le> 5" by (rule to_string_u16_length) simp_all
  then have g: "zk_GetData caller_zk ?z ''/UserServiceRpc/Login'' = Some (''h'' @ '':'' @ to_string 80)"
    by (simp add: zk_GetData_def caller_zk_def map_zk_def c_str_def get_buffer_size_def)
  have ad: "channel_address (''h'' @ '':'' @ to_string 80) = Inr (Inr (''h'', to_u16 80))"
    by (rule channel_address_ok) (simp_all add: int_min_def int_max_def)
  have net: "net_socket ?net = Some 7" "net_connect ?net 7 x y" "net_send ?net 7 frame = Some (length frame)"
    "net_recv ?net 7 recv_size = Some (login_answer wire_runtime True)" for x y
    using sample_answer [of True] by (simp_all add: sample_net_def recv_size_def)
  have ne: "login_answer wire_runtime True \<noteq> []"
    by (simp add: login_answer_def login_rsp_def LoginResponse_InternalSerialize_def wire_runtime_def
        put_delimited_def small_varint)
  have known: "local_Login ''zhang san'' ''123456''" by (simp add: local_Login_def)
  show ?thesis
    using caller_reports [OF wire_runtime_ok refl can f z g ad net(1) net(2) net(3) net(4)] ne known
    by simp
qed

end
