(* ===== verification/NetThreads.thy ===== *)
theory NetThreads
  imports CxxText
begin

text \<open>
  Threads of the network library: \<^verbatim>\<open>CurrentThread\<close> (the cached thread id), \<^verbatim>\<open>Thread.cpp\<close>
  (starting and joining), \<^verbatim>\<open>EventLoopThread.cpp\<close> (the handshake that publishes a loop, and its
  destruction) and \<^verbatim>\<open>EventLoopThreadPool.cpp\<close> (round robin over the loops).
\<close>

section \<open>The cached thread id\<close>

text \<open>\<open>t_cachedTid\<close> is zero until the system call has been made; \<open>gettid\<close> is its answer.\<close>

definition cacheTid :: "int \<Rightarrow> int \<Rightarrow> int" where
  "cacheTid gettid cached = gettid"

definition current_tid :: "int \<Rightarrow> int \<Rightarrow> int \<times> int" where
  "current_tid gettid cached =
     (let cached' = (if cached = 0 then cacheTid gettid cached else cached) in (cached', cached'))"

section \<open>Thread\<close>

text \<open>\<open>thr_func\<close>: \<open>func_\<close> still holds the function; \<open>thr_thread\<close>: \<open>thread_\<close> is joinable.\<close>

record thread =
  thr_started :: bool
  thr_joined :: bool
  thr_func :: bool
  thr_thread :: bool
  thr_name :: string

text \<open>
  \<open>setDefaultName\<close>: the number of threads created grows for every thread, and an empty name
  becomes \<open>Thread\<close> and that number (at most 31 characters of it).
\<close>

definition setDefaultName :: "int \<Rightarrow> string \<Rightarrow> int \<times> string" where
  "setDefaultName numCreated name =
     (let num = numCreated + 1
      in (num, if name = [] then take 31 (''Thread'' @ to_string num) else name))"

definition new_thread :: "int \<Rightarrow> string \<Rightarrow> int \<times> thread" where
  "new_thread numCreated name =
     (let (num, name') = setDefaultName numCreated name
      in (num, \<lparr>thr_started = False, thr_joined = False, thr_func = True, thr_thread = False,
            thr_name = name'\<rparr>))"

datatype thread_effect = Thr_log | Thr_spawn bool | Thr_throw | Thr_wait_join | Thr_detach

text \<open>
  \<open>sem_ok\<close>: \<^verbatim>\<open>sem_init\<close> succeeded; \<open>spawn_ok\<close>: the constructor of \<^verbatim>\<open>std::thread\<close> did not throw.
  \<open>Thr_spawn f\<close> runs the function, or an empty one when \<open>f\<close> is false.
\<close>

definition thread_start :: "bool \<Rightarrow> bool \<Rightarrow> thread \<Rightarrow> thread \<times> thread_effect list" where
  "thread_start sem_ok spawn_ok t =
     (if thr_started t then (t, [Thr_log])
      else let t1 = t\<lparr>thr_started := True\<rparr> in
        if \<not> sem_ok then (t1\<lparr>thr_started := False\<rparr>, [Thr_log])
        else let t2 = t1\<lparr>thr_func := False\<rparr> in
          if spawn_ok then (t2\<lparr>thr_thread := True\<rparr>, [Thr_spawn (thr_func t1)])
          else (t2\<lparr>thr_started := False\<rparr>, [Thr_throw]))"

definition thread_join :: "thread \<Rightarrow> thread \<times> thread_effect list" where
  "thread_join t =
     (if \<not> thr_started t then (t, [Thr_log])
      else if thr_joined t then (t, [Thr_log])
      else if \<not> thr_thread t then (t, [Thr_log])
      else (t\<lparr>thr_thread := False, thr_joined := True\<rparr>, [Thr_wait_join]))"

definition thread_destroy :: "thread \<Rightarrow> thread_effect list" where
  "thread_destroy t = (if thr_started t \<and> \<not> thr_joined t \<and> thr_thread t then [Thr_detach] else [])"

datatype thread_call = Call_start bool bool | Call_join

fun run_thread_call :: "thread_call \<Rightarrow> thread \<Rightarrow> thread \<times> thread_effect list" where
  "run_thread_call (Call_start sem_ok spawn_ok) t = thread_start sem_ok spawn_ok t"
| "run_thread_call Call_join t = thread_join t"

fun thread_calls :: "thread_call list \<Rightarrow> thread \<Rightarrow> thread \<times> thread_effect list" where
  "thread_calls [] t = (t, [])"
| "thread_calls (c # cs) t =
     (case run_thread_call c t of (t1, es) \<Rightarrow> (case thread_calls cs t1 of (t2, es') \<Rightarrow> (t2, es @ es')))"

section \<open>EventLoopThread\<close>

text \<open>
  The thread that owns the loop and the one that owns the \<open>EventLoopThread\<close> object, step by
  step; \<open>elt_loop\<close> says that \<open>loop_\<close> is not null, \<open>elt_quit\<close> is the loop's quit flag. What the
  loop does between two tests of the flag is \<open>A_iterate\<close>.
\<close>

datatype worker_pc = W_none | W_created | W_published | W_looping | W_left | W_done

datatype owner_pc = O_idle | O_waiting | O_running | O_joining | O_destroyed

record loop_thread =
  elt_loop :: bool
  elt_exiting :: bool
  elt_quit :: bool
  elt_worker :: worker_pc
  elt_owner :: owner_pc

definition new_loop_thread :: loop_thread where
  "new_loop_thread = \<lparr>elt_loop = False, elt_exiting = False, elt_quit = False,
     elt_worker = W_none, elt_owner = O_idle\<rparr>"

datatype elt_label = A_start | A_publish | A_return | A_enter | A_iterate | A_leave | A_unpublish
  | A_destroy | A_joined

fun elt_step :: "elt_label \<Rightarrow> loop_thread \<Rightarrow> loop_thread option" where
  "elt_step A_start s =
     (if elt_owner s = O_idle then Some (s\<lparr>elt_owner := O_waiting, elt_worker := W_created\<rparr>) else None)"
| "elt_step A_publish s =
     (if elt_worker s = W_created then Some (s\<lparr>elt_worker := W_published, elt_loop := True\<rparr>) else None)"
| "elt_step A_return s =
     (if elt_owner s = O_waiting \<and> elt_loop s then Some (s\<lparr>elt_owner := O_running\<rparr>) else None)"
| "elt_step A_enter s =
     (if elt_worker s = W_published then Some (s\<lparr>elt_worker := W_looping, elt_quit := False\<rparr>) else None)"
| "elt_step A_iterate s = (if elt_worker s = W_looping \<and> \<not> elt_quit s then Some s else None)"
| "elt_step A_leave s =
     (if elt_worker s = W_looping \<and> elt_quit s then Some (s\<lparr>elt_worker := W_left\<rparr>) else None)"
| "elt_step A_unpublish s =
     (if elt_worker s = W_left then Some (s\<lparr>elt_worker := W_done, elt_loop := False\<rparr>) else None)"
| "elt_step A_destroy s =
     (if elt_owner s = O_running
      then Some (if elt_loop s then s\<lparr>elt_exiting := True, elt_quit := True, elt_owner := O_joining\<rparr>
                 else s\<lparr>elt_exiting := True, elt_owner := O_destroyed\<rparr>)
      else None)"
| "elt_step A_joined s =
     (if elt_owner s = O_joining \<and> elt_worker s = W_done then Some (s\<lparr>elt_owner := O_destroyed\<rparr>) else None)"

inductive elt_run :: "loop_thread \<Rightarrow> elt_label list \<Rightarrow> loop_thread \<Rightarrow> bool" where
  nil: "elt_run s [] s"
| more: "elt_step l s = Some s1 \<Longrightarrow> elt_run s1 ls s2 \<Longrightarrow> elt_run s (l # ls) s2"

inductive_cases elt_run_NilE: "elt_run s [] s'"
inductive_cases elt_run_ConsE: "elt_run s (l # ls) s'"

section \<open>EventLoopThreadPool\<close>

record 'l loop_pool =
  pool_base :: 'l
  pool_name :: string
  pool_started :: bool
  pool_numThreads :: int
  pool_next :: nat
  pool_threads :: "string list"
  pool_loops :: "'l list"

definition new_pool :: "'l \<Rightarrow> string \<Rightarrow> 'l loop_pool" where
  "new_pool base name = \<lparr>pool_base = base, pool_name = name, pool_started = False, pool_numThreads = 0,
     pool_next = 0, pool_threads = [], pool_loops = []\<rparr>"

definition setThreadNum :: "int \<Rightarrow> 'l loop_pool \<Rightarrow> 'l loop_pool" where
  "setThreadNum n p = p\<lparr>pool_numThreads := n\<rparr>"

text \<open>
  \<open>start_loop\<close> is creating and starting the thread of the given name: its loop. The second
  component says that the callback is run on the base loop.
\<close>

fun start_threads :: "(string \<Rightarrow> 'l) \<Rightarrow> nat \<Rightarrow> nat \<Rightarrow> 'l loop_pool \<Rightarrow> 'l loop_pool" where
  "start_threads start_loop i 0 p = p"
| "start_threads start_loop i (Suc n) p =
     (let threadName = pool_name p @ to_string (int i)
      in start_threads start_loop (Suc i) n
           (p\<lparr>pool_threads := pool_threads p @ [threadName],
              pool_loops := pool_loops p @ [start_loop threadName]\<rparr>))"

definition pool_start :: "(string \<Rightarrow> 'l) \<Rightarrow> bool \<Rightarrow> 'l loop_pool \<Rightarrow> 'l loop_pool \<times> bool" where
  "pool_start start_loop has_cb p =
     (let p1 = start_threads start_loop 0 (nat (pool_numThreads p)) (p\<lparr>pool_started := True\<rparr>)
      in (p1, has_cb \<and> pool_numThreads p = 0))"

definition getNextLoop :: "'l loop_pool \<Rightarrow> 'l \<times> 'l loop_pool" where
  "getNextLoop p =
     (if pool_loops p \<noteq> [] then
        (let next = pool_loops p ! pool_next p;
             n = pool_next p + 1
         in (next, p\<lparr>pool_next := (if n \<ge> length (pool_loops p) then 0 else n)\<rparr>))
      else (pool_base p, p))"

definition getAllLoops :: "'l loop_pool \<Rightarrow> 'l list" where
  "getAllLoops p = (if pool_numThreads p = 0 then [pool_base p] else pool_loops p)"

fun next_loops :: "nat \<Rightarrow> 'l loop_pool \<Rightarrow> 'l list" where
  "next_loops 0 p = []"
| "next_loops (Suc n) p = (case getNextLoop p of (l, p') \<Rightarrow> l # next_loops n p')"

section \<open>Lemmas\<close>

text \<open>At most one function is ever run, and it is joined at most once.\<close>

definition spawns :: "thread_effect list \<Rightarrow> nat" where
  "spawns es = length (filter (\<lambda>e. \<exists>f. e = Thr_spawn f) es)"

definition joins :: "thread_effect list \<Rightarrow> nat" where
  "joins es = length (filter (\<lambda>e. e = Thr_wait_join) es)"

lemma counts_simps [simp]:
  "spawns [] = 0" "joins [] = 0" "spawns (es @ fs) = spawns es + spawns fs"
  "joins (es @ fs) = joins es + joins fs"
  "spawns (e # es) = (case e of Thr_spawn _ \<Rightarrow> 1 | _ \<Rightarrow> 0) + spawns es"
  "joins (e # es) = (case e of Thr_wait_join \<Rightarrow> 1 | _ \<Rightarrow> 0) + joins es"
  by (auto simp: spawns_def joins_def split: thread_effect.splits)


lemma run_thread_call_counts:
  assumes "run_thread_call c t = (t', es)" "thr_joined t \<longrightarrow> thr_started t"
  shows "spawns es + of_bool (thr_started t) = of_bool (thr_started t') \<and>
    joins es + of_bool (thr_joined t) = of_bool (thr_joined t') \<and> (thr_joined t' \<longrightarrow> thr_started t')"
  using assms
  by (cases c) (auto simp: thread_start_def thread_join_def Let_def split: if_splits)

lemma thread_calls_counts:
  "thread_calls cs t = (t', es) \<Longrightarrow> thr_joined t \<longrightarrow> thr_started t \<Longrightarrow>
   spawns es + of_bool (thr_started t) = of_bool (thr_started t') \<and>
   joins es + of_bool (thr_joined t) = of_bool (thr_joined t') \<and> (thr_joined t' \<longrightarrow> thr_started t')"
proof (induction cs arbitrary: t t' es)
  case Nil
  then show ?case by simp
next
  case (Cons c cs)
  obtain t1 e1 where c: "run_thread_call c t = (t1, e1)" by (cases "run_thread_call c t")
  obtain t2 e2 where cs: "thread_calls cs t1 = (t2, e2)" by (cases "thread_calls cs t1")
  note r = run_thread_call_counts [OF c Cons.prems(2)]
  have t2: "t2 = t'" "es = e1 @ e2" using c cs Cons.prems(1) by auto
  note IH = Cons.IH [OF cs, unfolded t2(1)]
  have "spawns es + of_bool (thr_started t) = of_bool (thr_started t')"
    using IH r unfolding t2(2) counts_simps by linarith
  moreover have "joins es + of_bool (thr_joined t) = of_bool (thr_joined t')"
    using IH r unfolding t2(2) counts_simps by linarith
  ultimately show ?case using IH r by blast
qed

lemma elt_run_append: "elt_run s ls t \<Longrightarrow> elt_run t ms u \<Longrightarrow> elt_run s (ls @ ms) u"
  by (induction rule: elt_run.induct) (auto intro: elt_run.more)

lemma elt_run_fold:
  "elt_run s ls s' \<longleftrightarrow> foldl (\<lambda>r l. Option.bind r (elt_step l)) (Some s) ls = Some s'"
proof (induction ls arbitrary: s)
  case Nil
  then show ?case by (auto intro: elt_run.nil elim: elt_run_NilE)
next
  case (Cons l ls)
  have none: "foldl (\<lambda>r l. Option.bind r (elt_step l)) None ls = None" by (induction ls) simp_all
  show ?case
    by (cases "elt_step l s") (auto simp: none Cons.IH intro: elt_run.more elim!: elt_run_ConsE)
qed

text \<open>What is true of the handshake at every moment.\<close>

definition elt_inv :: "loop_thread \<Rightarrow> bool" where
  "elt_inv s \<longleftrightarrow>
     (elt_loop s \<longleftrightarrow> elt_worker s \<in> {W_published, W_looping, W_left}) \<and>
     (elt_worker s = W_none \<longleftrightarrow> elt_owner s = O_idle) \<and>
     (elt_owner s \<in> {O_running, O_joining, O_destroyed} \<longrightarrow> elt_worker s \<notin> {W_none, W_created})"

lemma elt_step_inv: "elt_inv s \<Longrightarrow> elt_step l s = Some s' \<Longrightarrow> elt_inv s'"
  by (cases l) (auto simp: elt_inv_def split: if_splits)

lemma elt_run_inv: "elt_run s ls s' \<Longrightarrow> elt_inv s \<Longrightarrow> elt_inv s'"
  by (induction rule: elt_run.induct) (auto intro: elt_step_inv)

lemma new_loop_thread_inv: "elt_inv new_loop_thread"
  by (simp add: elt_inv_def new_loop_thread_def)

definition elt_stuck :: loop_thread where
  "elt_stuck = \<lparr>elt_loop = True, elt_exiting = True, elt_quit = False,
     elt_worker = W_looping, elt_owner = O_joining\<rparr>"

lemma elt_stuck_run: "elt_run s ls s' \<Longrightarrow> s = elt_stuck \<Longrightarrow> s' = elt_stuck"
proof (induction rule: elt_run.induct)
  case (more l s s1 ls s2)
  have "s1 = elt_stuck" using more.hyps(1) more.prems
    by (cases l) (auto simp: elt_stuck_def split: if_splits)
  then show ?case by (rule more.IH)
qed

lemma start_threads_fields:
  "pool_name (start_threads f i n p) = pool_name p"
  "pool_numThreads (start_threads f i n p) = pool_numThreads p"
  "pool_next (start_threads f i n p) = pool_next p"
  "pool_base (start_threads f i n p) = pool_base p"
  "pool_loops (start_threads f i n p) = pool_loops p @
     map (\<lambda>j. f (pool_name p @ to_string (int j))) [i..<i + n]"
  by (induction f i n p rule: start_threads.induct) (simp_all add: Let_def upt_conv_Cons del: upt_Suc)

lemma next_loops_round:
  "pool_loops p = ls \<Longrightarrow> ls \<noteq> [] \<Longrightarrow> pool_next p < length ls \<Longrightarrow>
   next_loops k p = map (\<lambda>i. ls ! ((pool_next p + i) mod length ls)) [0..<k]"
proof (induction k arbitrary: p)
  case 0
  then show ?case by simp
next
  case (Suc k)
  let ?n = "if pool_next p + 1 \<ge> length ls then 0 else pool_next p + 1"
  let ?p = "p\<lparr>pool_next := ?n\<rparr>"
  have n: "?n = (pool_next p + 1) mod length ls"
  proof (cases "pool_next p + 1 \<ge> length ls")
    case True
    with Suc.prems(3) have "pool_next p + 1 = length ls" by simp
    then show ?thesis by simp
  qed simp
  have "next_loops k ?p = map (\<lambda>i. ls ! ((pool_next ?p + i) mod length ls)) [0..<k]"
    using Suc.prems by (intro Suc.IH) auto
  also have "\<dots> = map (\<lambda>i. ls ! ((pool_next p + Suc i) mod length ls)) [0..<k]"
    unfolding n by (simp add: n mod_simps)
  finally have tl: "next_loops k ?p = map (\<lambda>i. ls ! ((pool_next p + Suc i) mod length ls)) [0..<k]" .
  have "next_loops (Suc k) p = ls ! pool_next p # next_loops k ?p"
    using Suc.prems by (simp add: getNextLoop_def Let_def)
  then show ?case
    using Suc.prems(3) unfolding tl by (simp add: upt_conv_Cons map_Suc_upt [symmetric] del: upt_Suc)
qed

section \<open>Properties\<close>

text \<open>
  A thread is used once: whatever sequence of \<open>start\<close> and \<open>join\<close> calls is made
  on a fresh thread, with \<^verbatim>\<open>sem_init\<close> and the creation of the thread failing in any pattern,
  at most one thread is ever created, it is joined at most once and only if it was created,
  and every other call is only logged.
\<close>

theorem thread_started_and_joined_once:
  assumes "thread_calls cs (snd (new_thread n name)) = (t, es)"
  shows "spawns es \<le> 1 \<and> joins es \<le> spawns es \<and>
    (spawns es = 1 \<longleftrightarrow> thr_started t) \<and> (joins es = 1 \<longleftrightarrow> thr_joined t)"
proof -
  have f: "\<not> thr_started (snd (new_thread n name))" "\<not> thr_joined (snd (new_thread n name))"
    by (simp_all add: new_thread_def split_beta)
  have c: "spawns es = of_bool (thr_started t)" "joins es = of_bool (thr_joined t)"
      "thr_joined t \<longrightarrow> thr_started t"
    using thread_calls_counts [OF assms] f by simp_all
  show ?thesis unfolding c(1,2) using c(3) by (cases "thr_started t") auto
qed

lemma thread_started_and_joined_once_witness:
  "\<exists>t es. thread_calls [Call_join, Call_start True True, Call_start True True, Call_join, Call_join]
     (snd (new_thread 0 [])) = (t, es) \<and> spawns es = 1 \<and> joins es = 1"
proof -
  let ?r = "thread_calls [Call_join, Call_start True True, Call_start True True, Call_join, Call_join]
     (snd (new_thread 0 []))"
  have "?r = (fst ?r, snd ?r)" by simp
  from thread_started_and_joined_once [OF this]
  have "(spawns (snd ?r) = 1 \<longleftrightarrow> thr_started (fst ?r)) \<and> (joins (snd ?r) = 1 \<longleftrightarrow> thr_joined (fst ?r))"
    by blast
  moreover have "thr_started (fst ?r)" "thr_joined (fst ?r)"
    by (simp_all add: new_thread_def thread_start_def thread_join_def split_beta)
  ultimately show ?thesis by (metis prod.collapse)
qed

text \<open>
  A start that failed cannot be repeated: when creating the thread throws, the
  function has already been moved out of the object, so the next \<open>start\<close> creates a thread that
  calls an empty function.
\<close>

theorem failed_start_loses_function:
  "snd (thread_calls [Call_start True False, Call_start True True] (snd (new_thread n name))) =
     [Thr_throw, Thr_spawn False]"
  by (simp add: new_thread_def thread_start_def split_beta)

text \<open>
  \<open>startLoop\<close> returns a loop that exists: in every run, when it has returned, the
  worker has published its loop, and \<open>loop_\<close> is not null exactly while the worker is between
  publishing the loop and leaving it.
\<close>

theorem startLoop_returns_published:
  assumes "elt_run new_loop_thread ls s" and "elt_owner s = O_running"
  shows "elt_worker s \<in> {W_published, W_looping, W_left, W_done} \<and>
    (elt_loop s \<longleftrightarrow> elt_worker s \<noteq> W_done)"
  using elt_run_inv [OF assms(1) new_loop_thread_inv] assms(2)
  by (cases "elt_worker s") (auto simp: elt_inv_def)

lemma startLoop_returns_published_witness:
  "\<exists>s. elt_run new_loop_thread [A_start, A_publish, A_return] s \<and> elt_worker s = W_published \<and> elt_loop s"
proof -
  let ?s = "\<lparr>elt_loop = True, elt_exiting = False, elt_quit = False, elt_worker = W_published,
     elt_owner = O_running\<rparr>"
  have r: "elt_run new_loop_thread [A_start, A_publish, A_return] ?s"
    by (simp add: elt_run_fold new_loop_thread_def)
  from startLoop_returns_published [OF r] r show ?thesis by auto
qed

text \<open>
  Destroying the thread object too early waits for ever: if the destructor runs
  after \<open>startLoop\<close> returned but before the worker entered \<open>loop()\<close>, its quit is overwritten by
  \<open>loop()\<close>, and from then on no step of either thread changes the state: the loop goes on
  polling and the destructor never gets past \<open>join\<close>.
\<close>

theorem early_destroy_never_joins:
  "\<exists>s. elt_run new_loop_thread [A_start, A_publish, A_return, A_destroy, A_enter] s \<and>
     elt_owner s = O_joining \<and> {s'. \<exists>ls. elt_run s ls s'} = {s}"
proof -
  have "elt_run new_loop_thread [A_start, A_publish, A_return, A_destroy, A_enter] elt_stuck"
    by (simp add: elt_run_fold new_loop_thread_def elt_stuck_def)
  moreover have "elt_owner elt_stuck = O_joining" by (simp add: elt_stuck_def)
  moreover have "{s'. \<exists>ls. elt_run elt_stuck ls s'} = {elt_stuck}"
    using elt_stuck_run elt_run.nil by blast
  ultimately show ?thesis by blast
qed

text \<open>
  Otherwise it terminates: when the destructor runs while the worker is inside
  \<open>loop()\<close>, the worker sees the quit flag, leaves, and the destructor's \<open>join\<close> returns.
\<close>

theorem destroy_while_looping_joins:
  assumes "elt_run new_loop_thread ls s" and "elt_owner s = O_running" and "elt_worker s = W_looping"
  shows "\<exists>s'. elt_run new_loop_thread (ls @ [A_destroy, A_leave, A_unpublish, A_joined]) s' \<and>
    elt_owner s' = O_destroyed \<and> elt_worker s' = W_done"
proof -
  have "elt_loop s" using elt_run_inv [OF assms(1) new_loop_thread_inv] assms(3) by (simp add: elt_inv_def)
  with assms(2,3) have "elt_run s [A_destroy, A_leave, A_unpublish, A_joined]
      (s\<lparr>elt_exiting := True, elt_quit := True, elt_loop := False, elt_worker := W_done,
         elt_owner := O_destroyed\<rparr>)"
    by (simp add: elt_run_fold)
  with elt_run_append [OF assms(1)] show ?thesis by fastforce
qed

lemma destroy_while_looping_joins_witness:
  "\<exists>s'. elt_run new_loop_thread ([A_start, A_publish, A_return, A_enter, A_iterate] @
      [A_destroy, A_leave, A_unpublish, A_joined]) s' \<and> elt_owner s' = O_destroyed"
proof -
  let ?s = "\<lparr>elt_loop = True, elt_exiting = False, elt_quit = False, elt_worker = W_looping,
     elt_owner = O_running\<rparr>"
  have r: "elt_run new_loop_thread [A_start, A_publish, A_return, A_enter, A_iterate] ?s"
    by (simp add: elt_run_fold new_loop_thread_def)
  from destroy_while_looping_joins [OF r] show ?thesis by auto
qed

text \<open>
  Round robin: a pool of \<open>n > 0\<close> threads, once started, has one loop per thread,
  named after the pool and the thread's number, and hands them out in turn; without threads it
  hands out the base loop.
\<close>

theorem pool_round_robin:
  assumes "0 \<le> n"
  shows "let p = fst (pool_start start_loop cb (setThreadNum n (new_pool base name)));
      loop = (\<lambda>i. start_loop (name @ to_string (int i)))
    in getAllLoops p = (if n = 0 then [base] else map loop [0..<nat n]) \<and>
       next_loops k p = (if n = 0 then replicate k base
         else map (\<lambda>i. loop (i mod nat n)) [0..<k])"
proof -
  let ?p = "fst (pool_start start_loop cb (setThreadNum n (new_pool base name)))"
  let ?ls = "map (\<lambda>i. start_loop (name @ to_string (int i))) [0..<nat n]"
  have p: "pool_loops ?p = ?ls" "pool_next ?p = 0" "pool_numThreads ?p = n" "pool_base ?p = base"
    by (simp_all add: pool_start_def start_threads_fields setThreadNum_def new_pool_def Let_def)
  have none: "next_loops k q = replicate k (pool_base q)" if "pool_loops q = []" for k and q :: "'a loop_pool"
    using that by (induction k) (simp_all add: getNextLoop_def)
  show ?thesis
  proof (cases "n = 0")
    case True
    with p show ?thesis using none [of ?p k] by (simp add: Let_def getAllLoops_def)
  next
    case False
    with assms have pos: "0 < nat n" by simp
    have "next_loops k ?p = map (\<lambda>i. ?ls ! ((pool_next ?p + i) mod length ?ls)) [0..<k]"
      using pos p by (intro next_loops_round) auto
    also have "\<dots> = map (\<lambda>i. start_loop (name @ to_string (int (i mod nat n)))) [0..<k]"
      using pos by (simp add: p(2))
    finally show ?thesis using False p by (simp add: Let_def getAllLoops_def)
  qed
qed

lemma pool_round_robin_witness:
  "next_loops 3 (fst (pool_start (\<lambda>s. s) False (setThreadNum 2 (new_pool ''base'' ''io'')))) =
     [''io0'', ''io1'', ''io0'']"
  using pool_round_robin [of 2 "\<lambda>s. s" False "''base''" "''io''" 3]
  by (simp add: Let_def to_string_def dec_digits.simps digit_char_def upt_rec char_of_def bit_Suc_0_iff)

end
