(* ===== verification/NetServer.thy ===== *)
theory NetServer
  imports NetThreads EventPoll "HOL-Library.Char_ord" "HOL-Library.List_Lexorder"
begin

text \<open>
  The server side of the network library: \<^verbatim>\<open>Acceptor.cpp\<close> (listening and accepting) and
  \<^verbatim>\<open>TcpServer.cpp\<close> (naming new connections, assigning them to loops, the connection map, and
  the two-step removal), with the address class \<^verbatim>\<open>InetAddress.cpp\<close>. Connections are referred to
  by their number; what the server asks the loops to run is recorded as a list of calls.
\<close>

section \<open>Addresses\<close>

record sockaddr_in =
  sin_port :: u16
  sin_addr :: u32

text \<open>\<open>htons\<close> and \<open>inet_addr\<close> are the C library's.\<close>

definition new_InetAddress :: "(u16 \<Rightarrow> u16) \<Rightarrow> (string \<Rightarrow> u32) \<Rightarrow> u16 \<Rightarrow> string \<Rightarrow> sockaddr_in" where
  "new_InetAddress htons inet_addr port ip = \<lparr>sin_port = htons port, sin_addr = inet_addr ip\<rparr>"

definition SetAddr :: "sockaddr_in \<Rightarrow> sockaddr_in \<Rightarrow> sockaddr_in" where
  "SetAddr addr a = addr"

section \<open>Acceptor\<close>

record acceptor =
  acc_channel :: channel
  acc_listening :: bool
  acc_callback :: bool

datatype accept_effect = Acc_listen | Acc_request interest | Acc_new_connection fd sockaddr_in
  | Acc_close fd | Acc_log

definition new_acceptor :: "fd \<Rightarrow> acceptor" where
  "new_acceptor f = \<lparr>acc_channel = new_channel f, acc_listening = False, acc_callback = False\<rparr>"

definition setNewConnectionCallback :: "acceptor \<Rightarrow> acceptor" where
  "setNewConnectionCallback a = a\<lparr>acc_callback := True\<rparr>"

definition acceptor_listen :: "acceptor \<Rightarrow> acceptor \<times> accept_effect list" where
  "acceptor_listen a =
     (a\<lparr>acc_listening := True, acc_channel := set_interest Able_read (acc_channel a)\<rparr>,
      [Acc_listen, Acc_request Able_read])"

text \<open>
  \<^verbatim>\<open>Socket::accept\<close>: the descriptor \<open>accept4\<close> returned (negative on failure) and the peer's
  address, which is written back only on success.
\<close>

definition socket_accept :: "int \<times> sockaddr_in \<Rightarrow> sockaddr_in \<Rightarrow> int \<times> sockaddr_in" where
  "socket_accept r peeraddr =
     (let (connfd, addr) = r in (connfd, if connfd \<ge> 0 then SetAddr addr peeraddr else peeraddr))"

definition acceptor_handleRead :: "int \<times> sockaddr_in \<Rightarrow> sockaddr_in \<Rightarrow> acceptor \<Rightarrow> accept_effect list" where
  "acceptor_handleRead r default_addr a =
     (let (connfd, peeraddr) = socket_accept r default_addr in
      if connfd \<ge> 0
      then (if acc_callback a then [Acc_new_connection connfd peeraddr] else [Acc_close connfd])
      else [Acc_log])"

section \<open>TcpServer\<close>

type_synonym conn_id = nat

datatype conn_task = T_listen | T_established conn_id | T_destroyed conn_id | T_remove conn_id

text \<open>A call of \<open>runInLoop\<close> or \<open>queueInLoop\<close> on a loop.\<close>

datatype 'l loop_call = Run_in 'l conn_task | Queue_in 'l conn_task

record 'l server_conn =
  sc_name :: string
  sc_fd :: fd
  sc_loop :: 'l
  sc_peer :: sockaddr_in

record 'l tcp_server =
  srv_loop :: 'l
  srv_name :: string
  srv_pool :: "'l loop_pool"
  srv_started :: int
  srv_nextConnId :: int
  srv_connections :: "string \<rightharpoonup> conn_id"
  srv_objects :: "'l server_conn list"
  srv_calls :: "'l loop_call list"

definition new_server :: "'l \<Rightarrow> string \<Rightarrow> 'l tcp_server" where
  "new_server loop nameArg = \<lparr>srv_loop = loop, srv_name = nameArg, srv_pool = new_pool loop nameArg,
     srv_started = 0, srv_nextConnId = 1, srv_connections = (\<lambda>_. None), srv_objects = [],
     srv_calls = []\<rparr>"

definition server_call :: "'l loop_call \<Rightarrow> 'l tcp_server \<Rightarrow> 'l tcp_server" where
  "server_call c s = s\<lparr>srv_calls := srv_calls s @ [c]\<rparr>"

definition server_setThreadNum :: "int \<Rightarrow> 'l tcp_server \<Rightarrow> 'l tcp_server" where
  "server_setThreadNum n s = s\<lparr>srv_pool := setThreadNum n (srv_pool s)\<rparr>"

definition server_start :: "(string \<Rightarrow> 'l) \<Rightarrow> bool \<Rightarrow> 'l tcp_server \<Rightarrow> 'l tcp_server" where
  "server_start start_loop has_cb s =
     (let s1 = s\<lparr>srv_started := srv_started s + 1\<rparr> in
      if srv_started s = 0
      then server_call (Run_in (srv_loop s1) T_listen)
             (s1\<lparr>srv_pool := fst (pool_start start_loop has_cb (srv_pool s1))\<rparr>)
      else s1)"

definition newConnection :: "int \<Rightarrow> sockaddr_in \<Rightarrow> 'l tcp_server \<Rightarrow> 'l tcp_server" where
  "newConnection sockfd peerAddr s =
     (let (ioLoop, pool') = getNextLoop (srv_pool s);
          connName = srv_name s @ ''#'' @ to_string (srv_nextConnId s);
          conn = length (srv_objects s);
          s1 = s\<lparr>srv_pool := pool', srv_nextConnId := srv_nextConnId s + 1,
                 srv_objects := srv_objects s @ [\<lparr>sc_name = connName, sc_fd = sockfd, sc_loop = ioLoop,
                    sc_peer = peerAddr\<rparr>],
                 srv_connections := (srv_connections s)(connName \<mapsto> conn)\<rparr>
      in server_call (Run_in ioLoop (T_established conn)) s1)"

definition removeConnection :: "conn_id \<Rightarrow> 'l tcp_server \<Rightarrow> 'l tcp_server" where
  "removeConnection conn s = server_call (Run_in (srv_loop s) (T_remove conn)) s"

definition removeConnectionInLoop :: "conn_id \<Rightarrow> 'l tcp_server \<Rightarrow> 'l tcp_server" where
  "removeConnectionInLoop conn s =
     (let s1 = s\<lparr>srv_connections := map_erase (sc_name (srv_objects s ! conn)) (srv_connections s)\<rparr>
      in server_call (Queue_in (sc_loop (srv_objects s ! conn)) (T_destroyed conn)) s1)"

text \<open>The destructor goes through the map in the order of the names.\<close>

definition server_destroy :: "'l tcp_server \<Rightarrow> 'l tcp_server" where
  "server_destroy s =
     (let live = filter (\<lambda>i. srv_connections s (sc_name (srv_objects s ! i)) = Some i)
                   [0..<length (srv_objects s)];
          ordered = sort_key (\<lambda>i. sc_name (srv_objects s ! i)) live
      in fold (\<lambda>i. server_call (Run_in (sc_loop (srv_objects s ! i)) (T_destroyed i))) ordered s)"

section \<open>Invariant\<close>

datatype server_op = Accept int sockaddr_in | Remove conn_id | Ask_remove conn_id

fun run_server_op :: "server_op \<Rightarrow> 'l tcp_server \<Rightarrow> 'l tcp_server" where
  "run_server_op (Accept f a) s = newConnection f a s"
| "run_server_op (Remove c) s = removeConnectionInLoop c s"
| "run_server_op (Ask_remove c) s = removeConnection c s"

text \<open>Removals name connections that exist.\<close>

fun ops_valid :: "nat \<Rightarrow> server_op list \<Rightarrow> bool" where
  "ops_valid n [] \<longleftrightarrow> True"
| "ops_valid n (Accept _ _ # ops) \<longleftrightarrow> ops_valid (Suc n) ops"
| "ops_valid n (Remove c # ops) \<longleftrightarrow> c < n \<and> ops_valid n ops"
| "ops_valid n (Ask_remove c # ops) \<longleftrightarrow> c < n \<and> ops_valid n ops"

fun removed :: "server_op list \<Rightarrow> conn_id set" where
  "removed [] = {}"
| "removed (Remove c # ops) = insert c (removed ops)"
| "removed (_ # ops) = removed ops"

definition conn_name :: "string \<Rightarrow> conn_id \<Rightarrow> string" where
  "conn_name name i = name @ ''#'' @ to_string (int i + 1)"

definition server_inv :: "string \<Rightarrow> conn_id set \<Rightarrow> 'l tcp_server \<Rightarrow> bool" where
  "server_inv name gone s \<longleftrightarrow> srv_name s = name \<and>
     srv_nextConnId s = int (length (srv_objects s)) + 1 \<and>
     (\<forall>i < length (srv_objects s). sc_name (srv_objects s ! i) = conn_name name i) \<and>
     (\<forall>n i. srv_connections s n = Some i \<longleftrightarrow> i < length (srv_objects s) \<and> i \<notin> gone \<and> n = conn_name name i) \<and>
     gone \<subseteq> {..<length (srv_objects s)}"

lemma conn_name_inj: "conn_name name i = conn_name name j \<Longrightarrow> i = j"
  using to_string_inj [of "int i + 1" "int j + 1"] by (simp add: conn_name_def)

lemma server_call_simps [simp]:
  "srv_name (server_call c s) = srv_name s" "srv_nextConnId (server_call c s) = srv_nextConnId s"
  "srv_objects (server_call c s) = srv_objects s" "srv_connections (server_call c s) = srv_connections s"
  "srv_calls (server_call c s) = srv_calls s @ [c]" "srv_pool (server_call c s) = srv_pool s"
  "srv_started (server_call c s) = srv_started s" "srv_loop (server_call c s) = srv_loop s"
  by (simp_all add: server_call_def)

lemma newConnection_fields:
  assumes "server_inv name gone s"
  shows "\<exists>x. srv_objects (newConnection f a s) = srv_objects s @ [x] \<and>
      sc_name x = conn_name name (length (srv_objects s)) \<and> sc_fd x = f \<and>
      sc_loop x = fst (getNextLoop (srv_pool s)) \<and> sc_peer x = a"
    and "srv_connections (newConnection f a s) =
      (srv_connections s)(conn_name name (length (srv_objects s)) \<mapsto> length (srv_objects s))"
    and "srv_nextConnId (newConnection f a s) = srv_nextConnId s + 1"
    and "srv_name (newConnection f a s) = srv_name s"
    and "srv_calls (newConnection f a s) = srv_calls s @
      [Run_in (fst (getNextLoop (srv_pool s))) (T_established (length (srv_objects s)))]"
  using assms by (simp_all add: newConnection_def split_beta Let_def server_inv_def conn_name_def add.commute)

lemma newConnection_inv:
  assumes "server_inv name gone s" shows "server_inv name gone (newConnection f a s)"
proof -
  let ?n = "length (srv_objects s)"
  have fresh: "conn_name name i = conn_name name ?n \<longleftrightarrow> i = ?n" for i using conn_name_inj by blast
  note fl = newConnection_fields [OF assms, of f a]
  obtain x where x: "srv_objects (newConnection f a s) = srv_objects s @ [x]"
    "sc_name x = conn_name name ?n" using fl(1) by blast
  have gone: "?n \<notin> gone" "gone \<subseteq> {..<Suc ?n}" using assms by (auto simp: server_inv_def)
  have conns: "srv_connections s n = Some i \<longleftrightarrow> i < ?n \<and> i \<notin> gone \<and> n = conn_name name i" for n i
    using assms by (simp add: server_inv_def)
  show ?thesis
    unfolding server_inv_def
  proof (intro conjI allI impI)
    show "srv_connections (newConnection f a s) n = Some i \<longleftrightarrow>
        i < length (srv_objects (newConnection f a s)) \<and> i \<notin> gone \<and> n = conn_name name i" for n i
      using gone(1) by (auto simp: fl(2) x(1) conns fresh less_Suc_eq dest: conn_name_inj)
    show "sc_name (srv_objects (newConnection f a s) ! i) = conn_name name i"
      if "i < length (srv_objects (newConnection f a s))" for i
      using that assms x(2) by (auto simp: x(1) nth_append less_Suc_eq server_inv_def)
  qed (use assms gone in \<open>auto simp: fl x(1) server_inv_def\<close>)
qed

lemma removeConnectionInLoop_inv:
  assumes "server_inv name gone s" "c < length (srv_objects s)"
  shows "server_inv name (insert c gone) (removeConnectionInLoop c s)"
  using assms conn_name_inj [of name c]
  by (auto simp: server_inv_def removeConnectionInLoop_def Let_def split: if_splits)

lemma objects_grow:
  "length (srv_objects (newConnection f a s)) = Suc (length (srv_objects s))"
  "length (srv_objects (removeConnectionInLoop c s)) = length (srv_objects s)"
  "length (srv_objects (removeConnection c s)) = length (srv_objects s)"
  by (simp_all add: newConnection_def removeConnectionInLoop_def removeConnection_def split_beta Let_def)

lemma run_server_ops_inv:
  "server_inv name gone s \<Longrightarrow> ops_valid (length (srv_objects s)) ops \<Longrightarrow>
   server_inv name (gone \<union> removed ops) (fold run_server_op ops s)"
proof (induction ops arbitrary: gone s)
  case Nil
  then show ?case by simp
next
  case (Cons op ops)
  show ?case
  proof (cases op)
    case (Accept f a)
    then show ?thesis
      using Cons.IH [OF newConnection_inv [OF Cons.prems(1)], of f a] Cons.prems(2) objects_grow(1) [of f a s]
      by simp
  next
    case (Remove c)
    then show ?thesis
      using Cons.IH [OF removeConnectionInLoop_inv [OF Cons.prems(1)], of c] Cons.prems(2)
        objects_grow(2) [of c s] by simp
  next
    case (Ask_remove c)
    have "server_inv name gone (removeConnection c s)"
      using Cons.prems(1) by (simp add: server_inv_def removeConnection_def)
    from Cons.IH [OF this] show ?thesis using Ask_remove Cons.prems(2) objects_grow(3) [of c s] by simp
  qed
qed

lemma new_server_inv: "server_inv name {} (new_server loop name)"
  by (auto simp: server_inv_def new_server_def)

text \<open>The calls a run makes for one connection.\<close>

definition task_count :: "conn_task \<Rightarrow> 'l loop_call list \<Rightarrow> nat" where
  "task_count t cs = length (filter (\<lambda>c. case c of Run_in _ u \<Rightarrow> u = t | Queue_in _ u \<Rightarrow> u = t) cs)"

fun removals :: "conn_id \<Rightarrow> server_op list \<Rightarrow> nat" where
  "removals c [] = 0"
| "removals c (Remove d # ops) = (if d = c then 1 else 0) + removals c ops"
| "removals c (_ # ops) = removals c ops"

lemma task_count_append [simp]: "task_count t (xs @ ys) = task_count t xs + task_count t ys"
  by (simp add: task_count_def)

lemma server_inv_start: "server_inv name gone s \<Longrightarrow> server_inv name gone (server_start sl cb s)"
  by (simp add: server_inv_def server_start_def Let_def)

lemma run_server_ops_calls:
  "server_inv name gone s \<Longrightarrow> ops_valid (length (srv_objects s)) ops \<Longrightarrow>
   (let s' = fold run_server_op ops s in
    (\<forall>c. task_count (T_destroyed c) (srv_calls s') = task_count (T_destroyed c) (srv_calls s) + removals c ops) \<and>
    length (srv_objects s) \<le> length (srv_objects s') \<and>
    (\<forall>c. task_count (T_established c) (srv_calls s') = task_count (T_established c) (srv_calls s) +
       (if length (srv_objects s) \<le> c \<and> c < length (srv_objects s') then 1 else 0)))"
proof (induction ops arbitrary: gone s)
  case Nil
  then show ?case by simp
next
  case (Cons op ops)
  show ?case
  proof (cases op)
    case (Accept f a)
    note fl = newConnection_fields(5) [OF Cons.prems(1), of f a] objects_grow(1) [of f a s]
    from Cons.IH [OF newConnection_inv [OF Cons.prems(1)], of f a] Cons.prems(2) Accept fl
    show ?thesis by (auto simp: Let_def task_count_def)
  next
    case (Remove c)
    have "srv_calls (removeConnectionInLoop c s) =
        srv_calls s @ [Queue_in (sc_loop (srv_objects s ! c)) (T_destroyed c)]"
      by (simp add: removeConnectionInLoop_def)
    with Cons.IH [OF removeConnectionInLoop_inv [OF Cons.prems(1)], of c] Cons.prems(2) Remove
      objects_grow(2) [of c s]
    show ?thesis by (auto simp: Let_def task_count_def)
  next
    case (Ask_remove c)
    have inv: "server_inv name gone (removeConnection c s)"
      using Cons.prems(1) by (simp add: server_inv_def removeConnection_def)
    have "srv_calls (removeConnection c s) = srv_calls s @ [Run_in (srv_loop s) (T_remove c)]"
      by (simp add: removeConnection_def)
    with Cons.IH [OF inv] Cons.prems(2) Ask_remove objects_grow(3) [of c s]
    show ?thesis by (auto simp: Let_def task_count_def)
  qed
qed

section \<open>Properties\<close>

text \<open>
  The connection map: after any sequence of new connections and removals (fewer
  than \<open>2\<^sup>31 - 1\<close> of them, so that the counter does not overflow) on a fresh server, every
  connection has a name of its own and the map holds, under their names, exactly the
  connections accepted and not removed; accepting never overwrites an entry.
\<close>

theorem server_connection_map:
  assumes "ops_valid 0 ops" and "length ops < 2 ^ 31 - 1"
  shows "let s = fold run_server_op ops (server_start sl cb (new_server loop name)) in
    (\<forall>n i. srv_connections s n = Some i \<longleftrightarrow>
       i < length (srv_objects s) \<and> i \<notin> removed ops \<and> n = sc_name (srv_objects s ! i)) \<and>
    distinct (map sc_name (srv_objects s)) \<and> srv_nextConnId s < 2 ^ 31"
proof -
  let ?s0 = "server_start sl cb (new_server loop name)"
  define s where "s = fold run_server_op ops ?s0"
  have o0: "srv_objects ?s0 = []" by (simp add: server_start_def new_server_def Let_def)
  have inv0: "server_inv name {} ?s0" by (rule server_inv_start [OF new_server_inv])
  have inv: "server_inv name (removed ops) s"
    using run_server_ops_inv [OF inv0, of ops] assms(1) o0 by (simp add: s_def)
  have len: "length (srv_objects (fold run_server_op ops t)) \<le> length (srv_objects t) + length ops" for t :: "'a tcp_server"
  proof (induction ops arbitrary: t)
    case Nil
    then show ?case by simp
  next
    case (Cons op ops)
    have "length (srv_objects (run_server_op op t)) \<le> Suc (length (srv_objects t))"
      by (cases op) (simp_all add: objects_grow)
    with Cons [of "run_server_op op t"] show ?case by simp
  qed
  have names: "\<And>i. i < length (srv_objects s) \<Longrightarrow> sc_name (srv_objects s ! i) = conn_name name i"
    using inv by (simp add: server_inv_def)
  have "distinct (map sc_name (srv_objects s))"
    unfolding distinct_conv_nth using names conn_name_inj by auto
  moreover have "srv_nextConnId s < 2 ^ 31"
    using inv len [of ?s0] assms(2) o0 by (simp add: server_inv_def s_def)
  moreover have "\<forall>n i. srv_connections s n = Some i \<longleftrightarrow>
       i < length (srv_objects s) \<and> i \<notin> removed ops \<and> n = sc_name (srv_objects s ! i)"
    using inv names by (auto simp: server_inv_def)
  ultimately show ?thesis by (simp add: s_def Let_def)
qed

text \<open>
  Every connection is established once and destroyed as often as it is removed:
  over any such sequence the server asks the loops to run \<open>connectEstablished\<close> exactly once for
  each accepted connection and \<open>connectDestroyed\<close> once for every removal; since a close may be
  reported twice and removal does not look whether the name was still in the map, a connection
  that is removed twice is destroyed twice.
\<close>

theorem server_calls_per_connection:
  assumes "ops_valid 0 ops"
  shows "let s = fold run_server_op ops (server_start sl cb (new_server loop name)) in
    (\<forall>c < length (srv_objects s). task_count (T_established c) (srv_calls s) = 1) \<and>
    (\<forall>c. task_count (T_destroyed c) (srv_calls s) = removals c ops)"
proof -
  let ?s0 = "server_start sl cb (new_server loop name)"
  have o0: "srv_objects ?s0 = []" "task_count (T_destroyed c) (srv_calls ?s0) = 0"
      "task_count (T_established c) (srv_calls ?s0) = 0" for c
    by (simp_all add: server_start_def new_server_def Let_def task_count_def)
  have inv0: "server_inv name {} ?s0" by (rule server_inv_start [OF new_server_inv])
  from run_server_ops_calls [OF inv0, of ops] assms o0 show ?thesis by (simp add: Let_def)
qed

text \<open>
  Starting is idempotent: of any number of \<open>start\<close> calls only the first starts
  the threads and asks the base loop to listen.
\<close>

theorem server_start_once:
  "srv_calls ((server_start sl cb ^^ Suc n) (new_server loop name)) = [Run_in loop T_listen] \<and>
   srv_pool ((server_start sl cb ^^ Suc n) (new_server loop name)) =
     srv_pool (server_start sl cb (new_server loop name)) \<and>
   srv_started ((server_start sl cb ^^ Suc n) (new_server loop name)) = int n + 1"
proof (induction n)
  case 0
  then show ?case by (simp add: server_start_def new_server_def server_call_def Let_def)
next
  case (Suc n)
  let ?s = "(server_start sl cb ^^ Suc n) (new_server loop name)"
  have "srv_started ?s \<noteq> 0" using Suc by simp
  then have "server_start sl cb ?s = ?s\<lparr>srv_started := srv_started ?s + 1\<rparr>"
    by (simp add: server_start_def)
  with Suc show ?case by simp
qed

section \<open>Witnesses\<close>

lemma server_connection_map_witness:
  "srv_connections (fold run_server_op [Accept 4 \<lparr>sin_port = 1, sin_addr = 2\<rparr>, Remove 0,
      Accept 4 \<lparr>sin_port = 1, sin_addr = 3\<rparr>] (server_start id False (new_server ''base'' ''s''))) ''s#2'' = Some 1"
proof -
  let ?ops = "[Accept 4 \<lparr>sin_port = 1, sin_addr = 2\<rparr>, Remove 0, Accept 4 \<lparr>sin_port = 1, sin_addr = 3\<rparr>]"
  let ?s = "fold run_server_op ?ops (server_start id False (new_server ''base'' ''s''))"
  have "length (srv_objects ?s) = 2 \<and> sc_name (srv_objects ?s ! 1) = ''s#2''"
    by (simp add: newConnection_def removeConnectionInLoop_def server_start_def new_server_def
        pool_start_def new_pool_def getNextLoop_def server_call_def Let_def to_string_def
        dec_digits.simps digit_char_def char_of_def bit_Suc_0_iff)
  then show ?thesis
    using server_connection_map [of ?ops id False "''base''" "''s''"] by (simp add: Let_def del: fold_simps)
qed

lemma server_calls_per_connection_witness:
  "task_count (T_destroyed 0) (srv_calls (fold run_server_op [Accept 4 \<lparr>sin_port = 1, sin_addr = 2\<rparr>,
     Remove 0, Remove 0] (server_start id False (new_server ''base'' ''s'')))) = 2"
  using server_calls_per_connection [of "[Accept 4 \<lparr>sin_port = 1, sin_addr = 2\<rparr>, Remove 0, Remove 0]"
      id False "''base''" "''s''"] by (simp add: Let_def del: fold_simps)

end
