(* ===== verification/EchoServer.thy ===== *)
theory EchoServer
  imports NetApp CxxText
begin

text \<open>
  The example server, \<^verbatim>\<open>mymuduo-main/examples/echo_server.cpp\<close>: the port from the command line,
  the connection callback, which only logs, and the message callback, which takes all there is to
  read and sends it back.
\<close>

section \<open>The example\<close>

definition echo_port :: "string list \<Rightarrow> u16" where
  "echo_port args =
     (case args of
        [] \<Rightarrow> 8888
      | a # _ \<Rightarrow> (let parsed = atoi a in if parsed > 0 \<and> parsed \<le> 65535 then to_u16 parsed else 8888))"

definition echo_onConnection :: conn_op where
  "echo_onConnection c = Inr (emit E_log c)"

text \<open>\<open>wr\<close> is the kernel's answer to the write that \<open>send\<close> may make; no write-complete callback is set.\<close>

definition echo_onMessage :: "write_result \<Rightarrow> conn_op" where
  "echo_onMessage wr c =
     (case retrieveAllAsString (tc_input c) of
        (msg, input) \<Rightarrow> conn_send no_callbacks True wr msg (c\<lparr>tc_input := input\<rparr>))"

definition echo_callbacks :: "write_result \<Rightarrow> conn_callbacks" where
  "echo_callbacks wr = \<lparr>cb_connection = Some echo_onConnection, cb_message = Some (echo_onMessage wr),
     cb_write_complete = None, cb_close = None\<rparr>"

section \<open>The example as a stream application\<close>

lemma buf_room_read:
  assumes b: "buf_inv b" "buf_room b (length d + n)" "readv (iov_total b) = Inr d"
  shows "\<exists>b'. readFd readv b = Inr (b', Inr (length d)) \<and> buf_inv b' \<and> content b' = content b @ d \<and> buf_room b' n"
proof -
  have "buf_room b (length d)" using b(2) by (rule buf_room_mono) simp
  from readFd_data [of b readv d, OF b(1,3) this] obtain b' where
    "readFd readv b = Inr (b', Inr (length d))" "buf_inv b'" "content b' = content b @ d"
    "writerIndex b' \<le> writerIndex b + length d" .
  with b(2) show ?thesis by (auto simp: buf_room_def)
qed

lemma retrieveAll_room: "buf_room b n \<Longrightarrow> buf_inv b \<Longrightarrow> buf_room (retrieveAll b) n"
  by (auto simp: buf_room_def buf_inv_def retrieveAll_def)

lemma echo_onMessage_ok:
  assumes c: "conn_inv c" "tc_state c = kConnected" "buf_room (tc_input c) n"
    and out: "buf_room (tc_output c) (length (content (tc_input c)) + m)"
  shows "\<exists>c'. echo_onMessage wr c = Inr c' \<and> conn_inv c' \<and> tc_state c' = kConnected \<and>
    accepted (tc_trace c') = accepted (tc_trace c) @ content (tc_input c) \<and> content (tc_input c') = [] \<and>
    buf_room (tc_input c') n \<and> buf_room (tc_output c') m"
proof -
  let ?c = "c\<lparr>tc_input := retrieveAll (tc_input c)\<rparr>"
  have b: "buf_inv (tc_input c)" using c(1) by (simp add: conn_inv_def unsent_def)
  have "conn_inv ?c" using c(1) retrieveAll_inv [OF b] by (rule conn_inv_input)
  then obtain c' where "conn_send no_callbacks True wr (content (tc_input c)) ?c = Inr c'" "conn_inv c'"
      "tc_state c' = kConnected" "tc_input c' = retrieveAll (tc_input c)"
      "accepted (tc_trace c') = accepted (tc_trace c) @ content (tc_input c)" "buf_room (tc_output c') m"
    using c(2) out by (elim conn_send_ok [of ?c "content (tc_input c)" m wr]) auto
  then show ?thesis
    using c(3) b by (simp add: echo_onMessage_def retrieveAllAsString_ok [OF b] retrieveAll_room)
qed

interpretation echo: stream_app echo_callbacks buf_room "\<lambda>_. True" "\<lambda>s. (s, [])"
proof unfold_locales
  fix c w assume "conn_inv c" "tc_state c = kConnected"
  moreover from this have "conn_inv (emit E_log (emit (E_connection_cb True) c))" by (intro conn_inv_emit) simp_all
  ultimately show "\<exists>c'. call_back (E_connection_cb True) (cb_connection (echo_callbacks w)) c = Inr c' \<and> conn_inv c' \<and>
      tc_state c' = kConnected \<and> tc_input c' = tc_input c \<and> tc_output c' = tc_output c \<and>
      accepted (tc_trace c') = accepted (tc_trace c)"
    by (simp add: call_back_def echo_callbacks_def echo_onConnection_def)
next
  fix c n out m w and r :: bytes
  assume c: "conn_inv c" "tc_state c = kConnected" "buf_room (tc_input c) n"
    and f: "(content (tc_input c), []) = (out, r)" and o: "buf_room (tc_output c) (length out + m)"
  have "conn_inv (emit E_message_cb c)" using c(1) by (intro conn_inv_emit) simp_all
  with c f o echo_onMessage_ok [of "emit E_message_cb c" n m w] show
    "\<exists>c'. call_back E_message_cb (cb_message (echo_callbacks w)) c = Inr c' \<and> conn_inv c' \<and> tc_state c' = kConnected \<and>
        accepted (tc_trace c') = accepted (tc_trace c) @ out \<and> content (tc_input c') = r \<and>
        buf_room (tc_input c') n \<and> buf_room (tc_output c') m"
    by (simp add: call_back_def echo_callbacks_def)
qed (simp_all add: echo_callbacks_def buf_room_read)

lemma app_fine_True: "app_fine (\<lambda>_. True) react r ps"
  by (induction ps arbitrary: r) simp_all

lemma echo_feed: "app_feed (\<lambda>s. (s, [])) r ps = (if ps = [] then ([], r) else (r @ concat ps, []))"
  by (induction ps arbitrary: r) auto

section \<open>Property\<close>

text \<open>
  The echo server echoes: on an established connection, whatever segments arrive
  and whatever the kernel takes of each write, no handler fails, everything received is taken,
  and the bytes written back followed by those waiting in the output buffer are exactly the bytes
  received, in order, unless a write failed for good. The buffers must have room for the bytes.
\<close>

theorem echo_returns_received:
  assumes "buf_inv i" and "content i = []" and "buf_inv out" and "content out = []"
    and "segments evs = Some ds" and "buf_room i (length (concat ds))" and "buf_room out (length (concat ds))"
  shows "\<exists>c0 c. connectEstablished (echo_callbacks wr) (new_connection fd i out) = Inr c0 \<and>
    app_run echo_callbacks evs c0 = Inr c \<and> content (tc_input c) = [] \<and>
    (intact (tc_trace c) \<longrightarrow> written (tc_trace c) @ content (tc_output c) = concat ds)"
proof -
  have feed: "app_feed (\<lambda>s. (s, [])) [] ds = (concat ds, [])" by (simp add: echo_feed)
  from echo.established_app_run [OF assms(1-4,6,7,5) app_fine_True feed] show ?thesis by blast
qed

theorem echo_returns_received_witness:
  "\<exists>c0 c. connectEstablished (echo_callbacks (Inr 0)) (new_connection 5 sample_buffer sample_buffer) = Inr c0 \<and>
    app_run echo_callbacks [(I_readable (Inr ''ab''), Inr 1), (I_writable (Inr 9), Inr 0), (I_readable (Inr ''c''), Inl 11)] c0 =
      Inr c \<and> (intact (tc_trace c) \<longrightarrow> written (tc_trace c) @ content (tc_output c) = ''abc'')"
proof -
  have room: "buf_room sample_buffer (length (concat [''ab'', ''c'']))"
    by (simp add: buf_room_def sample_buffer_def vec_max_def)
  have "segments [(I_readable (Inr ''ab''), Inr 1), (I_writable (Inr 9), Inr 0), (I_readable (Inr ''c''), Inl 11 :: write_result)] =
      Some [''ab'', ''c'']"
    by (simp add: extrabuf_size_def)
  from echo_returns_received [OF sample_buffer sample_buffer this room room, of "Inr 0" 5] show ?thesis
    by (simp only: concat.simps append.simps append_Nil2) blast
qed

end
