(* ===== verification/ServerMains.thy ===== *)
theory ServerMains
  imports UserService NetServer ChatClient EchoServer
begin

text \<open>
  How the servers are put together: the constructor and \<open>Run\<close> of \<open>RpcProvider\<close>, the constructor of
  \<open>ChatServer\<close>, and the \<^verbatim>\<open>main\<close> functions of the chat server and of the echo server up to the
  point where they enter their event loop.
\<close>

section \<open>The RPC provider\<close>

text \<open>\<open>htons\<close> and \<open>inet_addr\<close> are the C library's, \<open>loop\<close> is the provider's event loop.\<close>

definition provider_address :: "(u16 \<Rightarrow> u16) \<Rightarrow> (string \<Rightarrow> u32) \<Rightarrow> mprpc_config \<Rightarrow> sockaddr_in" where
  "provider_address htons inet_addr cfg =
     (let ip = Load cfg ''rpcserverip''; port = Load cfg ''rpcserverport'';
          port_num = to_u16 (atoi (c_str port))
      in new_InetAddress htons inet_addr port_num ip)"

definition new_provider ::
  "(u16 \<Rightarrow> u16) \<Rightarrow> (string \<Rightarrow> u32) \<Rightarrow> mprpc_config \<Rightarrow> 'l \<Rightarrow> sockaddr_in \<times> 'l tcp_server" where
  "new_provider htons inet_addr cfg loop =
     (provider_address htons inet_addr cfg, new_server loop ''RpcProvider'')"

text \<open>
  \<^term>\<open>None\<close> when \<open>Run\<close> ends the process or waits for ZooKeeper for ever; otherwise the server
  with which it enters the event loop.
\<close>

definition provider_Run ::
  "'z zk_ops \<Rightarrow> mprpc_config \<Rightarrow> watch_event list \<Rightarrow> (string \<times> string list) list \<Rightarrow>
    (string \<Rightarrow> 'l) \<Rightarrow> 'l tcp_server \<Rightarrow> ('z \<times> 'l tcp_server) option" where
  "provider_Run ops cfg evs services start_loop server =
     (case zk_Start ops cfg evs of
        (Zk_connected, Some z) \<Rightarrow>
          (case Run_register ops cfg z services of
             None \<Rightarrow> None
           | Some z1 \<Rightarrow> Some (z1, server_start start_loop False (server_setThreadNum 4 server)))
      | _ \<Rightarrow> None)"

text \<open>
  The example program that serves \<open>UserServiceRpc\<close>; \<^term>\<open>None\<close> when it ends before it serves.
  \<open>walk\<close> is the order in which the method map is gone through.
\<close>

definition callee_main ::
  "(u16 \<Rightarrow> u16) \<Rightarrow> (string \<Rightarrow> u32) \<Rightarrow> (string \<Rightarrow> string option) \<Rightarrow> 'z zk_ops \<Rightarrow> 'u pb_runtime \<Rightarrow>
    (string list \<Rightarrow> string list) \<Rightarrow> watch_event list \<Rightarrow> (string \<Rightarrow> 'l) \<Rightarrow> 'l \<Rightarrow> nat \<Rightarrow> getopt_result list \<Rightarrow>
    (('u user_request, 'u user_response) service_map \<times> sockaddr_in \<times> 'z \<times> 'l tcp_server) option" where
  "callee_main htons inet_addr fs ops rt walk evs start_loop loop argc opts =
     (case MprpcApplication_Init fs empty_config argc opts of
        None \<Rightarrow> None
      | Some cfg \<Rightarrow>
          (let (address, server) = new_provider htons inet_addr cfg loop;
               sm = NotifyService (\<lambda>_. None) (user_service rt)
           in case provider_Run ops cfg evs [(svc_name (user_service rt), walk (svc_methods (user_service rt)))]
                start_loop server of
                None \<Rightarrow> None
              | Some (z, server') \<Rightarrow> Some (sm, address, z, server')))"

section \<open>The chat server\<close>

definition new_ChatServer :: "'l \<Rightarrow> string \<Rightarrow> 'l tcp_server" where
  "new_ChatServer loop nameArg = server_setThreadNum 4 (new_server loop nameArg)"

definition ChatServer_start :: "(string \<Rightarrow> 'l) \<Rightarrow> 'l tcp_server \<Rightarrow> 'l tcp_server" where
  "ChatServer_start start_loop server = server_start start_loop False server"

text \<open>The port from the arguments after the program's name; \<^term>\<open>None\<close> for too many.\<close>

definition chat_port :: "string list \<Rightarrow> num_error + u16 option" where
  "chat_port args =
     (case args of
        [] \<Rightarrow> Inr (Some 8000)
      | [port] \<Rightarrow> bind_res (stoi port) (\<lambda>p. Inr (Some (to_u16 p)))
      | _ \<Rightarrow> Inr None)"

definition chat_main ::
  "(u16 \<Rightarrow> u16) \<Rightarrow> (string \<Rightarrow> u32) \<Rightarrow> (string \<Rightarrow> 'l) \<Rightarrow> 'l \<Rightarrow> string list \<Rightarrow>
    num_error + (sockaddr_in \<times> 'l tcp_server) option" where
  "chat_main htons inet_addr start_loop loop args =
     bind_res (chat_port args) (\<lambda>port. case port of
       None \<Rightarrow> Inr None
     | Some p \<Rightarrow> Inr (Some (new_InetAddress htons inet_addr p ''127.0.0.1'',
         ChatServer_start start_loop (new_ChatServer loop ''ChatServer''))))"

section \<open>The echo server\<close>

definition echo_main ::
  "(u16 \<Rightarrow> u16) \<Rightarrow> (string \<Rightarrow> u32) \<Rightarrow> (string \<Rightarrow> 'l) \<Rightarrow> 'l \<Rightarrow> string list \<Rightarrow> sockaddr_in \<times> 'l tcp_server" where
  "echo_main htons inet_addr start_loop loop args =
     (new_InetAddress htons inet_addr (echo_port args) ''0.0.0.0'',
      server_start start_loop False (server_setThreadNum 2 (new_server loop ''EchoServer'')))"

section \<open>Lemmas\<close>

text \<open>A started server has asked its loop to listen, once, and has its worker loops.\<close>

lemma started_server:
  "srv_calls (server_start start_loop False (server_setThreadNum n (new_server loop name))) = [Run_in loop T_listen]"
  by (simp add: server_start_def server_setThreadNum_def new_server_def server_call_def Let_def)

text \<open>An example program that serves has its service, its loops, and asked to listen.\<close>

lemma callee_serves:
  assumes "callee_main htons inet_addr fs ops rt walk evs start_loop loop argc opts = Some (sm, address, z, server)"
  shows "sm = user_map rt \<and> srv_calls server = [Run_in loop T_listen]"
  using assms started_server [of start_loop 4 loop "''RpcProvider''"]
  by (auto simp: callee_main_def new_provider_def provider_Run_def user_map_def Let_def
      split: option.splits prod.splits zk_start.splits)

text \<open>
  A chat client and a chat server that are given the same port, or none, meet.
\<close>

lemma same_port_argument:
  "length args \<le> 1 \<Longrightarrow> chat_port args = bind_res (client_args args) (\<lambda>r. Inr (map_option snd r))"
  by (cases args rule: list.exhaust; cases "tl args")
    (auto simp: chat_port_def client_args_def bind_res_def split: sum.splits)

end
