(* ===== verification/RpcOverTcp.thy ===== *)
theory RpcOverTcp
  imports UserService NetApp
begin

text \<open>
  The RPC provider on a connection of the network library: its callbacks as operations on a
  modelled connection, so that requests come in through \<open>handleRead\<close> and the input buffer and
  responses leave through \<open>send\<close>, the output buffer and \<open>handleWrite\<close>.
\<close>

section \<open>The provider's callbacks\<close>

fun play :: "write_result list \<Rightarrow> 'q provider_event list \<Rightarrow> conn_op" where
  "play wrs [] c = Inr c"
| "play wrs (Ev_dispatch s m q # es) c = play wrs es c"
| "play wrs (Ev_send d # es) c = bind_res (conn_send no_callbacks True (next_answer wrs) d c) (play (tl wrs) es)"
| "play wrs (Ev_shutdown # es) c = play wrs es (conn_shutdown True c)"

definition rpc_onConnection :: conn_op where
  "rpc_onConnection c = play [] (provider_OnConnection (connected c) :: unit provider_event list) c"

definition rpc_onMessage :: "'u pb_runtime \<Rightarrow> ('q, 'r) service_map \<Rightarrow> write_result list \<Rightarrow> conn_op" where
  "rpc_onMessage rt sm wrs c =
     (case OnMessage rt sm (tc_input c) of
        Some (Inr (evs, input)) \<Rightarrow> play wrs evs (c\<lparr>tc_input := input\<rparr>)
      | _ \<Rightarrow> Inl BadAccess)"

text \<open>The close callback is the server's; it does nothing to the connection itself.\<close>

definition rpc_callbacks :: "'u pb_runtime \<Rightarrow> ('q, 'r) service_map \<Rightarrow> write_result list \<Rightarrow> conn_callbacks" where
  "rpc_callbacks rt sm wrs = \<lparr>cb_connection = Some rpc_onConnection, cb_message = Some (rpc_onMessage rt sm wrs),
     cb_write_complete = None, cb_close = Some Inr\<rparr>"

section \<open>What is sent\<close>

fun sent :: "'q provider_event list \<Rightarrow> bytes" where
  "sent [] = []"
| "sent (Ev_send d # es) = d @ sent es"
| "sent (_ # es) = sent es"

lemma sent_append [simp]: "sent (xs @ ys) = sent xs @ sent ys"
  by (induction xs rule: sent.induct) simp_all

lemma sent_concat: "sent (concat xss) = concat (map sent xss)"
  by (induction xss) simp_all

lemma play_ok:
  "conn_inv c \<Longrightarrow> tc_state c = kConnected \<Longrightarrow> Ev_shutdown \<notin> set es \<Longrightarrow>
   buf_room (tc_output c) (length (sent es) + m) \<Longrightarrow>
   \<exists>c'. play wrs es c = Inr c' \<and> conn_inv c' \<and> tc_state c' = kConnected \<and> tc_input c' = tc_input c \<and>
     accepted (tc_trace c') = accepted (tc_trace c) @ sent es \<and> buf_room (tc_output c') m"
proof (induction wrs es c rule: play.induct)
  case (3 wrs d es c)
  have "buf_room (tc_output c) (length d + (length (sent es) + m))" using 3(5) by (simp add: add.assoc)
  from conn_send_ok [OF 3(2,3) this, of "next_answer wrs"] obtain c1 where
    c1: "conn_send no_callbacks True (next_answer wrs) d c = Inr c1" "conn_inv c1" "tc_state c1 = kConnected"
      "tc_input c1 = tc_input c" "accepted (tc_trace c1) = accepted (tc_trace c) @ d"
      "buf_room (tc_output c1) (length (sent es) + m)" .
  from 3(1) [OF c1(2,3) _ c1(6)] 3(4) c1 show ?case by auto
qed simp_all

section \<open>The provider as a stream application\<close>

definition rpc_react :: "'u pb_runtime \<Rightarrow> ('q, 'r) service_map \<Rightarrow> bytes \<Rightarrow> bytes \<times> bytes" where
  "rpc_react rt sm s = (case drain (request_step rt sm) s of (evs, r) \<Rightarrow> (sent evs, r))"

text \<open>No request in front is refused and every response could be written down.\<close>

definition rpc_fine :: "'u pb_runtime \<Rightarrow> ('q, 'r) service_map \<Rightarrow> bytes \<Rightarrow> bool" where
  "rpc_fine rt sm s = (case drain (request_step rt sm) s of (evs, r) \<Rightarrow>
     request_step rt sm r = More \<and> Ev_shutdown \<notin> set evs)"

lemma rx_read:
  assumes b: "buf_inv b" "rx_room b (length d + n)" "readv (iov_total b) = Inr d"
  shows "\<exists>b'. readFd readv b = Inr (b', Inr (length d)) \<and> buf_inv b' \<and> content b' = content b @ d \<and> rx_room b' n"
proof -
  have m: "writerIndex b + length d \<le> 2 ^ 32 - 1" "length (storage b) \<le> 2 ^ 32 - 1" "(2 :: nat) ^ 32 - 1 \<le> vec_max"
    using b(2) by (auto simp: rx_room_def vec_max_def)
  from readFd_bound [of b readv d, OF b(1,3) m] obtain b' where
    "readFd readv b = Inr (b', Inr (length d))" "buf_inv b'" "content b' = content b @ d"
    "writerIndex b' \<le> writerIndex b + length d" "length (storage b') \<le> 2 ^ 32 - 1" .
  with b(2) show ?thesis by (auto simp: rx_room_def)
qed

lemma rpc_onMessage_ok:
  assumes c: "conn_inv c" "tc_state c = kConnected" "rx_room (tc_input c) n"
    and f: "rpc_fine rt sm (content (tc_input c))" "rpc_react rt sm (content (tc_input c)) = (out, r)"
    and room: "buf_room (tc_output c) (length out + m)"
  shows "\<exists>c'. rpc_onMessage rt sm wrs c = Inr c' \<and> conn_inv c' \<and> tc_state c' = kConnected \<and>
    accepted (tc_trace c') = accepted (tc_trace c) @ out \<and> content (tc_input c') = r \<and>
    rx_room (tc_input c') n \<and> buf_room (tc_output c') m"
proof -
  obtain evs where d: "drain (request_step rt sm) (content (tc_input c)) = (evs, r)" "out = sent evs"
    using f(2) by (auto simp: rpc_react_def split: prod.splits)
  have ok: "request_step rt sm r = More" "Ev_shutdown \<notin> set evs" using f(1) d(1) by (simp_all add: rpc_fine_def)
  obtain b' where b': "OnMessage rt sm (tc_input c) = Some (Inr (evs, b'))" "rx_room b' n" "content b' = r"
    using rx_OnMessage [OF c(3) d(1)] ok(1) by (auto simp: om_final_def)
  let ?c = "c\<lparr>tc_input := b'\<rparr>"
  have "conn_inv ?c" using c(1) b'(2) by (intro conn_inv_input) (simp_all add: rx_room_def)
  from play_ok [OF this _ ok(2), of m wrs] c(2) room d(2) b' show ?thesis
    by (auto simp: rpc_onMessage_def)
qed

interpretation rpc: stream_app "rpc_callbacks rt sm" rx_room "rpc_fine rt sm" "rpc_react rt sm" for rt sm
proof unfold_locales
  fix c w assume "conn_inv c" "tc_state c = kConnected"
  moreover from this have "conn_inv (emit (E_connection_cb True) c)" by (intro conn_inv_emit) simp_all
  ultimately show "\<exists>c'. call_back (E_connection_cb True) (cb_connection (rpc_callbacks rt sm w)) c = Inr c' \<and>
      conn_inv c' \<and> tc_state c' = kConnected \<and> tc_input c' = tc_input c \<and> tc_output c' = tc_output c \<and>
      accepted (tc_trace c') = accepted (tc_trace c)"
    by (simp add: call_back_def rpc_callbacks_def rpc_onConnection_def provider_OnConnection_def connected_def)
next
  fix c n out m w and r :: bytes
  assume c: "conn_inv c" "tc_state c = kConnected" "rx_room (tc_input c) n"
    and f: "rpc_fine rt sm (content (tc_input c))" "rpc_react rt sm (content (tc_input c)) = (out, r)"
    and o: "buf_room (tc_output c) (length out + m)"
  have "conn_inv (emit E_message_cb c)" using c(1) by (intro conn_inv_emit) simp_all
  with c f o rpc_onMessage_ok [of "emit E_message_cb c" n rt sm out r m w] show
    "\<exists>c'. call_back E_message_cb (cb_message (rpc_callbacks rt sm w)) c = Inr c' \<and> conn_inv c' \<and>
        tc_state c' = kConnected \<and> accepted (tc_trace c') = accepted (tc_trace c) @ out \<and> content (tc_input c') = r \<and>
        rx_room (tc_input c') n \<and> buf_room (tc_output c') m"
    by (simp add: call_back_def rpc_callbacks_def)
qed (simp_all add: rpc_callbacks_def rx_read)

section \<open>Segments of a stream that is answered as a whole\<close>

lemma fine_segments:
  assumes "length (r @ concat ps) < 2 ^ 32" and "idle (request_step rt sm) r"
    and "drain (request_step rt sm) (r @ concat ps) = (evs, r')" and "request_step rt sm r' = More"
    and "Ev_shutdown \<notin> set evs"
  shows "app_fine (rpc_fine rt sm) (rpc_react rt sm) r ps \<and> app_feed (rpc_react rt sm) r ps = (sent evs, r')"
  using assms
proof (induction ps arbitrary: r evs)
  case Nil
  then show ?case by (simp add: rq.drain_idle)
next
  case (Cons p ps)
  let ?step = "request_step rt sm"
  obtain e1 r1 where d1: "drain ?step (r @ p) = (e1, r1)" by (cases "drain ?step (r @ p)")
  obtain e2 where d2: "drain ?step (r1 @ concat ps) = (e2, r')" "evs = e1 @ e2"
    using Cons.prems(1,3) rq.drain_append [of "r @ p" "concat ps" rt sm] d1
    by (cases "drain ?step (r1 @ concat ps)") auto
  have len: "length (r @ p) < 2 ^ 32" using Cons.prems(1) by simp
  have r1: "idle ?step r1" "length r1 \<le> length (r @ p)"
    using rq.drain_rest_idle [OF len, of rt sm] rq.drain_rest_length [OF len, of rt sm] d1 by simp_all
  then have lim: "length (r1 @ concat ps) < 2 ^ 32" using Cons.prems(1) by simp
  have "?step r1 = More"
  proof (rule ccontr)
    assume no: "?step r1 \<noteq> More"
    obtain o1 where stuck: "?step r1 = Stop o1 \<or> ?step r1 = Crash"
      using no r1(1) by (cases "?step r1") (auto simp: idle_def)
    from rq.feed_stream_stuck [OF lim this] have "r' = r1 @ concat ps" "?step r' = ?step r1"
      using rq.feed_stream_drain [OF lim r1(1)] d2(1) by auto
    with no Cons.prems(4) show False by simp
  qed
  with Cons.IH [OF lim r1(1) d2(1) Cons.prems(4)] Cons.prems(5) d1 d2(2) show ?case
    by (simp add: rpc_fine_def rpc_react_def)
qed

definition call_answer :: "('q, 'r) service_map \<Rightarrow> rpc_call \<Rightarrow> bytes" where
  "call_answer sm c = sent (call_events sm c)"

lemma calls_drained:
  assumes "wire_ok rt" and "\<forall>c \<in> set calls. call_ok rt sm c"
    and "concat ds = concat (map (call_frame rt) calls)" and "length (concat ds) \<le> 2 ^ 31"
  shows "drain (request_step rt sm) ([] @ concat ds) = (concat (map (call_events sm) calls), [])"
proof -
  have nil: "request_step rt sm [] = More" by (simp add: request_step_def om_iteration_def)
  have idle: "idle (request_step rt sm) []" by (simp add: idle_def nil)
  have lim: "length (concat (map (call_frame rt) calls) @ []) < 2 ^ 32" using assms(3,4) by simp
  have "drain (request_step rt sm) (concat (map (call_frame rt) calls) @ []) =
      (concat (map (call_events sm) calls) @ fst (drain (request_step rt sm) []),
       snd (drain (request_step rt sm) []))"
    using assms(1,2) request_step_frame lim by (intro rq.drain_messages) blast+
  then show ?thesis by (simp add: assms(3) rq.drain_idle [OF idle])
qed

lemma calls_answered:
  assumes calls: "wire_ok rt" "\<forall>c \<in> set calls. call_ok rt sm c \<and> Ev_shutdown \<notin> set (call_events sm c)"
    and b: "rx_room i (length (concat ds))" "content i = []" "buf_inv o'" "content o' = []"
    and ds: "segments evs = Some ds" "concat ds = concat (map (call_frame rt) calls)" "length (concat ds) \<le> 2 ^ 31"
    and room: "buf_room o' (length (concat (map (call_answer sm) calls)))"
  shows "\<exists>c0 c. connectEstablished (rpc_callbacks rt sm wrs) (new_connection fd i o') = Inr c0 \<and>
    app_run (rpc_callbacks rt sm) evs c0 = Inr c \<and> content (tc_input c) = [] \<and>
    (intact (tc_trace c) \<longrightarrow>
      written (tc_trace c) @ content (tc_output c) = concat (map (call_answer sm) calls))"
proof -
  have nil: "request_step rt sm [] = More" by (simp add: request_step_def om_iteration_def)
  have idle: "idle (request_step rt sm) []" by (simp add: idle_def nil)
  have no: "Ev_shutdown \<notin> set (concat (map (call_events sm) calls))" using calls(2) by auto
  have lim: "length ([] @ concat ds) < 2 ^ 32" using ds(3) by simp
  have drained: "drain (request_step rt sm) ([] @ concat ds) = (concat (map (call_events sm) calls), [])"
    using calls ds(2,3) by (intro calls_drained) auto
  have answers: "sent (concat (map (call_events sm) calls)) = concat (map (call_answer sm) calls)"
    by (simp add: sent_concat comp_def call_answer_def [abs_def])
  note fine = fine_segments [OF lim idle drained nil no, unfolded answers]
  have "buf_inv i" using b(1) by (simp add: rx_room_def)
  from rpc.established_app_run [OF this b(2-4,1) room ds(1) conjunct1 [OF fine] conjunct2 [OF fine]]
  show ?thesis by blast
qed

section \<open>Properties\<close>

text \<open>
  Property (C2). Requests in, responses out: on an accepted connection of the provider, whatever
  segments the frames of acceptable calls arrive in and however much the kernel takes of each
  write, no handler fails, every request is taken from the input buffer, and the bytes written
  followed by those waiting in the output buffer are the serialised responses of the calls, in
  order, unless a write failed for good.
\<close>

theorem responses_written:
  assumes "wire_ok rt" and "\<forall>c \<in> set calls. call_ok rt sm c \<and> Ev_shutdown \<notin> set (call_events sm c)"
    and "new_buffer kInitialSize = Inr b" and "segments evs = Some ds"
    and "concat ds = concat (map (call_frame rt) calls)" and "length (concat ds) \<le> 2 ^ 31"
    and "length (concat (map (call_answer sm) calls)) \<le> 2 ^ 62"
  shows "\<exists>c0 c. connectEstablished (rpc_callbacks rt sm wrs) (new_connection fd b b) = Inr c0 \<and>
    app_run (rpc_callbacks rt sm) evs c0 = Inr c \<and> content (tc_input c) = [] \<and>
    (intact (tc_trace c) \<longrightarrow>
      written (tc_trace c) @ content (tc_output c) = concat (map (call_answer sm) calls))"
proof -
  note b = fresh_buffer [OF assms(3)]
  have "rx_room b (length (concat ds))" "buf_room b (length (concat (map (call_answer sm) calls)))"
    using b assms(6,7) by (simp_all add: rx_room_def buf_room_def vec_max_def)
  from calls_answered [OF assms(1,2) this(1) b(2,1,2) assms(4-6) this(2)] show ?thesis .
qed

theorem responses_written_witness:
  "\<exists>b c0 c. new_buffer kInitialSize = Inr b \<and>
    connectEstablished (rpc_callbacks wire_runtime echo_map []) (new_connection 5 b b) = Inr c0 \<and>
    app_run (rpc_callbacks wire_runtime echo_map)
      [(I_readable (Inr (take 5 (call_frame wire_runtime (''Echo'', ''Say'', ''hi'')))), []),
       (I_readable (Inr (drop 5 (call_frame wire_runtime (''Echo'', ''Say'', ''hi'')))), [Inr 1])] c0 = Inr c \<and>
    (intact (tc_trace c) \<longrightarrow> written (tc_trace c) @ content (tc_output c) = ''hi'')"
proof -
  let ?c = "(''Echo'', ''Say'', ''hi'')"
  let ?f = "call_frame wire_runtime ?c"
  let ?evs = "[(I_readable (Inr (take 5 ?f)), []), (I_readable (Inr (drop 5 ?f)), [Inr 1 :: write_result])]"
  obtain b where b: "new_buffer kInitialSize = Inr b" using fresh_buffer_exists by blast
  have "\<exists>frame. rpc_frame wire_runtime ''Echo'' ''Say'' (Some ''hi'') = Inr frame \<and> 5 < length frame"
    by (simp add: rpc_frame_def header_SerializeToString_def SerializeToString_def
        header_InternalSerialize_def wire_runtime_def put_delimited_def small_varint)
  then have len: "5 < length ?f" "length ?f \<le> 100" using echo_call_ok(3) by auto
  have "?f \<noteq> []" using len by (auto simp del: call_frame.simps)
  then have seg: "segments ?evs = Some [take 5 ?f, drop 5 ?f]"
    using len by (simp add: extrabuf_size_def del: call_frame.simps)
  have ans: "call_answer echo_map ?c = ''hi''" "Ev_shutdown \<notin> set (call_events echo_map ?c)"
    unfolding call_answer_def echo_call_ok(2) by simp_all
  have ok: "\<forall>c \<in> set [?c]. call_ok wire_runtime echo_map c \<and> Ev_shutdown \<notin> set (call_events echo_map c)"
    using echo_call_ok(1) ans(2) by simp
  have cat: "concat [take 5 ?f, drop 5 ?f] = concat (map (call_frame wire_runtime) [?c])"
    by (simp del: call_frame.simps)
  have short: "length (concat [take 5 ?f, drop 5 ?f]) \<le> 2 ^ 31"
    "length (concat (map (call_answer echo_map) [?c])) \<le> 2 ^ 62"
    using len by (simp_all add: ans(1) del: call_frame.simps)
  have out: "concat (map (call_answer echo_map) [?c]) = ''hi''" by (simp add: ans(1))
  from responses_written [OF wire_runtime_ok ok b seg cat short, of "[]" 5] b show ?thesis
    unfolding out by blast
qed

text \<open>
  Property (C4). A remote call is a local one: when the client finds and reaches the provider, its
  frame arrives on the provider's connection in any segments, everything the provider has to send
  gets written, and the client's one \<open>recv\<close> returns it, then \<open>CallMethod\<close> leaves the controller
  alone and its response is what the client's parser makes of the response the service serialised.
\<close>

theorem remote_call:
  assumes "wire_ok rt" and "call_ok rt sm (s, m, a)" and "Ev_shutdown \<notin> set (call_events sm (s, m, a))"
    and "rx_room i (length (concat ds))" and "content i = []" and "buf_inv out" and "content out = []"
    and "buf_room out (length (call_answer sm (s, m, a)))"
    and "segments evs = Some ds" and "concat ds = call_frame rt (s, m, a)"
    and "zk_Start ops cfg wevs = (Zk_connected, Some z)"
    and "zk_GetData ops z (''/'' @ s @ ''/'' @ m) = Some host" and "channel_address host = Inr (Inr (ip, port))"
    and "net_socket net = Some k" and "net_connect net k (net_inet_addr net (c_str ip)) port"
    and "net_send net k (call_frame rt (s, m, a)) = Some n" and "parse (call_answer sm (s, m, a)) = Some response"
  shows "\<exists>c0 c. connectEstablished (rpc_callbacks rt sm wrs) (new_connection fd i out) = Inr c0 \<and>
    app_run (rpc_callbacks rt sm) evs c0 = Inr c \<and>
    (intact (tc_trace c) \<and> content (tc_output c) = [] \<and> net_recv net k recv_size = Some (written (tc_trace c)) \<longrightarrow>
      (\<exists>t. channel_CallMethod rt ops cfg wevs net s m (Some a) parse ctl = (Returned, ctl, Some response, t)))"
proof -
  have len: "length (concat ds) \<le> 2 ^ 31" using assms(2,10) by auto
  have cat: "concat ds = concat (map (call_frame rt) [(s, m, a)])" using assms(10) by (simp del: call_frame.simps)
  have calls: "\<forall>c \<in> set [(s, m, a)]. call_ok rt sm c \<and> Ev_shutdown \<notin> set (call_events sm c)"
    using assms(2,3) by (simp del: call_ok.simps call_events.simps)
  have ans: "concat (map (call_answer sm) [(s, m, a)]) = call_answer sm (s, m, a)" by simp
  obtain frame where f: "rpc_frame rt s m (Some a) = Inr frame" using assms(2) by auto
  then have frame: "call_frame rt (s, m, a) = frame" by simp
  obtain c0 c where c: "connectEstablished (rpc_callbacks rt sm wrs) (new_connection fd i out) = Inr c0"
      "app_run (rpc_callbacks rt sm) evs c0 = Inr c"
      "intact (tc_trace c) \<longrightarrow> written (tc_trace c) @ content (tc_output c) = call_answer sm (s, m, a)"
    using calls_answered [OF assms(1) calls assms(4-7,9) cat len, unfolded ans, OF assms(8)] by metis
  have "\<exists>t. channel_CallMethod rt ops cfg wevs net s m (Some a) parse ctl = (Returned, ctl, Some response, t)"
    if "intact (tc_trace c)" "content (tc_output c) = []" "net_recv net k recv_size = Some (written (tc_trace c))"
    using that c(3) f assms(11-17)
    by (simp add: channel_CallMethod_def channel_exchange_def frame Let_def)
  with c(1,2) show ?thesis by blast
qed

text \<open>A kernel that takes all of a single answer, for the witness.\<close>

lemma conn_send_whole:
  assumes "tc_state c = kConnected" "\<not> iswrite (tc_channel c)" "readableBytes (tc_output c) = 0" "length d \<le> k"
  shows "conn_send no_callbacks True (Inr k) d c = Inr (emit (E_written d) (emit (E_accepted d) c))"
  using assms by (simp add: conn_send_def sendInLoop_def send_direct_def send_rest_def write_count_def Let_def)

lemma echo_answered:
  fixes f defines "f \<equiv> call_frame wire_runtime (''Echo'', ''Say'', ''hi'')"
  assumes c: "tc_state c = kConnected" "\<not> iswrite (tc_channel c)" "readableBytes (tc_output c) = 0"
    "rx_room (tc_input c) (length f)" "content (tc_input c) = []" "intact (tc_trace c)"
  shows "\<exists>c'. conn_step (rpc_callbacks wire_runtime echo_map [Inr 9]) (I_readable (Inr f)) c = Inr c' \<and>
    tc_output c' = tc_output c \<and> intact (tc_trace c') \<and> written (tc_trace c') = written (tc_trace c) @ ''hi''"
proof -
  let ?evs = "[Ev_dispatch ''Echo'' ''Say'' ''hi'', Ev_send ''hi'']"
  have len: "length f \<le> 100" unfolding f_def by (rule echo_call_ok(3))
  have "call_events echo_map (''Echo'', ''Say'', ''hi'') = ?evs" by (rule echo_call_ok(2))
  then have d: "drain (request_step wire_runtime echo_map) f = (?evs, [])"
    using calls_drained [OF wire_runtime_ok, of "[(''Echo'', ''Say'', ''hi'')]" echo_map "[f]"] echo_call_ok(1) len
    by (simp add: f_def del: call_frame.simps call_events.simps)
  have nil: "request_step wire_runtime echo_map [] = More" by (simp add: request_step_def om_iteration_def)
  have "f \<noteq> []" using d nil by (auto simp: rq.drain_idle idle_def)
  have rd: "map_sum id (take (iov_total (tc_input c))) (Inr f) = Inr f"
    using len iov_total_room [of "tc_input c"] by (simp add: extrabuf_size_def)
  have "buf_inv (tc_input c)" "rx_room (tc_input c) (length f + 0)" using c(4) by (simp_all add: rx_room_def)
  from rx_read [of "tc_input c" f 0 "\<lambda>m. map_sum id (take m) (Inr f)", OF this rd] obtain b where
    b: "readFd (\<lambda>m. map_sum id (take m) (Inr f)) (tc_input c) = Inr (b, Inr (length f))" "content b = f" "rx_room b 0"
    using c(5) by auto
  obtain b' where "OnMessage wire_runtime echo_map b = Some (Inr (?evs, b'))"
    using rx_OnMessage [OF b(3), of wire_runtime echo_map ?evs "[]"] d b(2) nil by (auto simp: om_final_def)
  then show ?thesis
    using b(1) \<open>f \<noteq> []\<close> c(1-3,6)
    by (simp add: conn_handleRead_def call_back_def rpc_callbacks_def rpc_onMessage_def conn_send_whole)
qed

theorem remote_call_witness:
  "\<exists>t. channel_CallMethod wire_runtime (map_zk\<lparr>zk_init := (\<lambda>_. Some [''/Echo/Say'' \<mapsto> (Some (''h'' @ '':'' @ to_string 80), Ephemeral)])\<rparr>)
     empty_config [Session_connected] (sample_net ''hi'') ''Echo'' ''Say'' (Some ''hi'') Some new_controller =
     (Returned, new_controller, Some ''hi'', t)"
proof -
  let ?c = "(''Echo'', ''Say'', ''hi'')"
  let ?f = "call_frame wire_runtime ?c"
  let ?ops = "map_zk\<lparr>zk_init := (\<lambda>_. Some [''/Echo/Say'' \<mapsto> (Some (''h'' @ '':'' @ to_string 80), Ephemeral)])\<rparr>"
  let ?z = "[''/Echo/Say'' \<mapsto> (Some (''h'' @ '':'' @ to_string 80), Ephemeral)]"
  have len: "length ?f \<le> 100" by (rule echo_call_ok(3))
  have ans: "call_answer echo_map ?c = ''hi''" "Ev_shutdown \<notin> set (call_events echo_map ?c)"
    unfolding call_answer_def echo_call_ok(2) by simp_all
  have room: "rx_room sample_buffer (length (concat [?f]))" "buf_room sample_buffer (length (call_answer echo_map ?c))"
    using len by (simp_all add: rx_room_def buf_room_def sample_buffer_def buf_inv_def kCheapPrepend_def vec_max_def
        ans(1) del: call_frame.simps)
  have ne: "?f \<noteq> []"
    using echo_call_ok(1) by (auto simp: rpc_frame_def Let_def le32_bytes_def split: option.splits if_splits)
  have seg: "segments [(I_readable (Inr ?f), [Inr 9 :: write_result])] = Some [?f]"
    using len ne by (simp add: extrabuf_size_def del: call_frame.simps)
  have z: "zk_Start ?ops empty_config [Session_connected] = (Zk_connected, Some ?z)"
    by (simp add: zk_Start_def global_watcher_def Let_def)
  have "length (to_string 80) \<le> 5" by (rule to_string_u16_length) simp_all
  then have g: "zk_GetData ?ops ?z (''/'' @ ''Echo'' @ ''/'' @ ''Say'') = Some (''h'' @ '':'' @ to_string 80)"
    by (simp add: zk_GetData_def map_zk_def c_str_def get_buffer_size_def)
  have ad: "channel_address (''h'' @ '':'' @ to_string 80) = Inr (Inr (''h'', to_u16 80))"
    by (rule channel_address_ok) (simp_all add: int_min_def int_max_def)
  let ?net = "sample_net ''hi''"
  have net: "net_socket ?net = Some 7" "net_connect ?net 7 (net_inet_addr ?net (c_str ''h'')) (to_u16 80)"
      "net_send ?net 7 ?f = Some (length ?f)" "net_recv ?net 7 recv_size = Some ''hi''"
    by (simp_all add: sample_net_def recv_size_def)
  obtain c0 c where run: "connectEstablished (rpc_callbacks wire_runtime echo_map []) (new_connection 5 sample_buffer sample_buffer) = Inr c0"
      "app_run (rpc_callbacks wire_runtime echo_map) [(I_readable (Inr ?f), [Inr 9])] c0 = Inr c"
      "intact (tc_trace c) \<and> content (tc_output c) = [] \<and> net_recv ?net 7 recv_size = Some (written (tc_trace c)) \<longrightarrow>
        (\<exists>t. channel_CallMethod wire_runtime ?ops empty_config [Session_connected] ?net ''Echo'' ''Say'' (Some ''hi'') Some new_controller =
          (Returned, new_controller, Some ''hi'', t))"
    using remote_call [OF wire_runtime_ok echo_call_ok(1) ans(2) room(1) sample_buffer(2) sample_buffer room(2) seg _ z g ad net(1-3),
        of Some "''hi''" "[]" 5 new_controller] ans(1) by auto
  have c0: "c0 = emit (E_connection_cb True) (request Able_read ((setState kConnected (new_connection 5 sample_buffer sample_buffer))
      \<lparr>tc_channel := tie (new_channel 5)\<rparr>))"
    using run(1) by (simp add: connectEstablished_def call_back_def rpc_callbacks_def rpc_onConnection_def
        provider_OnConnection_def connected_def Let_def setState_def new_connection_def)
  have "\<not> iswrite (set_interest Able_read (tie (new_channel 5)))"
    by (simp add: iswrite_def tie_def new_channel_def set_interest_def interest.simps knoEvent_def kreadEvent_def
        kwriteEvent_def EPOLLIN_def EPOLLPRI_def EPOLLOUT_def)
  moreover have "readableBytes sample_buffer = 0" using sample_buffer length_content [of sample_buffer] by simp
  ultimately obtain c' where c': "conn_step (rpc_callbacks wire_runtime echo_map [Inr 9]) (I_readable (Inr ?f)) c0 = Inr c'"
      "tc_output c' = sample_buffer" "intact (tc_trace c')" "written (tc_trace c') = ''hi''"
    using echo_answered [of c0] room(1) sample_buffer(2)
    by (auto simp: c0 new_connection_def setState_def simp del: call_frame.simps)
  with run(2,3) net(4) sample_buffer(2) show ?thesis by (simp del: call_frame.simps)
qed

end
