(* ===== verification/RpcClosures.thy ===== *)
theory RpcClosures
  imports RpcEndToEnd
begin

text \<open>
  The objects behind a call, \<^verbatim>\<open>mprpc-main/src/rpcprovider.cc\<close>: \<open>OnMessage\<close> creates the request, the
  response and the \<^verbatim>\<open>RpcProviderClosure\<close> with \<^verbatim>\<open>new\<close> and hands the closure to the service, which runs
  it during the call or at any time after it; \<open>Run\<close> sends the response and deletes the three. The
  model is the handler of \<open>RpcProvider\<close> with a store of objects. Deleting or using an object that
  is not there sets the fault flag.
\<close>

section \<open>Objects\<close>

text \<open>
  A message as \<open>New\<close> returns it, a parsed request, a response, a closure. The closure's service and
  method stand for the type of its messages.
\<close>

datatype ('q, 'r) call_object =
    O_unparsed
  | O_request 'q
  | O_response "'r option"
  | O_closure "('q, 'r) rpc_service" nat nat nat

record ('q, 'r) call_store =
  cs_live :: "nat \<rightharpoonup> ('q, 'r) call_object"
  cs_next :: nat
  cs_fault :: bool
  cs_given :: "nat list"

definition new_object :: "('q, 'r) call_object \<Rightarrow> ('q, 'r) call_store \<Rightarrow> nat \<times> ('q, 'r) call_store" where
  "new_object ob m = (cs_next m, m\<lparr>cs_live := (cs_live m)(cs_next m \<mapsto> ob), cs_next := cs_next m + 1\<rparr>)"

definition delete_object :: "nat \<Rightarrow> ('q, 'r) call_store \<Rightarrow> ('q, 'r) call_store" where
  "delete_object i m =
     (if cs_live m i = None then m\<lparr>cs_fault := True\<rparr> else m\<lparr>cs_live := map_erase i (cs_live m)\<rparr>)"

definition set_object :: "nat \<Rightarrow> ('q, 'r) call_object \<Rightarrow> ('q, 'r) call_store \<Rightarrow> ('q, 'r) call_store" where
  "set_object i ob m =
     (if cs_live m i = None then m\<lparr>cs_fault := True\<rparr> else m\<lparr>cs_live := (cs_live m)(i \<mapsto> ob)\<rparr>)"

text \<open>\<^verbatim>\<open>RpcProviderClosure::Run\<close>.\<close>

definition RpcProviderClosure_Run ::
  "nat \<Rightarrow> ('q, 'r) call_store \<Rightarrow> 'q provider_event list \<times> ('q, 'r) call_store" where
  "RpcProviderClosure_Run this m =
     (case cs_live m this of
        Some (O_closure service method request response) \<Rightarrow>
          (case cs_live m response of
             Some (O_response (Some r)) \<Rightarrow>
               (SendRpcResponse service method r,
                delete_object this (delete_object response (delete_object request m)))
           | _ \<Rightarrow> ([], m\<lparr>cs_fault := True\<rparr>))
      | _ \<Rightarrow> ([], m\<lparr>cs_fault := True\<rparr>))"

text \<open>What a service does to answer: it fills the response in and runs the closure.\<close>

definition service_answers ::
  "nat \<Rightarrow> 'r \<Rightarrow> ('q, 'r) call_store \<Rightarrow> 'q provider_event list \<times> ('q, 'r) call_store" where
  "service_answers closure r m =
     (case cs_live m closure of
        Some (O_closure service method request response) \<Rightarrow>
          RpcProviderClosure_Run closure (set_object response (O_response (Some r)) m)
      | _ \<Rightarrow> ([], m\<lparr>cs_fault := True\<rparr>))"

section \<open>The message handler\<close>

text \<open>
  The end of a pass of \<open>OnMessage\<close>, from the request prototype on. A service that does not answer
  within the call has the closure (\<open>cs_given\<close>).
\<close>

definition call_method ::
  "('q, 'r) rpc_service \<Rightarrow> nat \<Rightarrow> 'q \<Rightarrow> nat \<Rightarrow> ('q, 'r) call_store
     \<Rightarrow> 'q provider_event list \<times> ('q, 'r) call_store" where
  "call_method service method q request m =
     (let m1 = set_object request (O_request q) m;
          (response, m2) = new_object (O_response None) m1;
          (closure, m3) = new_object (O_closure service method request response) m2
      in case svc_call service method q of
           None \<Rightarrow> ([], m3\<lparr>cs_given := cs_given m3 @ [closure]\<rparr>)
         | Some r \<Rightarrow> service_answers closure r m3)"

definition om_pass ::
  "'u pb_runtime \<Rightarrow> ('q, 'r) service_map \<Rightarrow> nat \<Rightarrow> (nat \<Rightarrow> nat \<Rightarrow> bytes option) \<Rightarrow> ('q, 'r) call_store
     \<Rightarrow> 'q provider_event outcome \<times> ('q, 'r) call_store" where
  "om_pass rt service_map readable rd m =
     (if readable < 4 then (More, m)
      else case rd 0 4 of
        None \<Rightarrow> (Crash, m)
      | Some size_bytes \<Rightarrow>
      let header_size = le32_word size_bytes in
      if readable < unat (4 + header_size) then (More, m)
      else case rd 4 (unat header_size) of
        None \<Rightarrow> (Crash, m)
      | Some rpc_header_str \<Rightarrow>
      case header_ParseFromString rt rpc_header_str of
        None \<Rightarrow> (Stop [Ev_shutdown], m)
      | Some (rpcHeader, _) \<Rightarrow>
      let args = args_size rpcHeader;
          total_size = 4 + header_size + args in
      if readable < unat total_size then (More, m)
      else case rd (4 + unat header_size) (unat args) of
        None \<Rightarrow> (Crash, m)
      | Some args_str \<Rightarrow>
      case service_map (service_name rpcHeader) of
        None \<Rightarrow> (Stop [Ev_shutdown], m)
      | Some info \<Rightarrow>
      case svc_method_map info (method_name rpcHeader) of
        None \<Rightarrow> (Stop [Ev_shutdown], m)
      | Some method \<Rightarrow>
      case new_object O_unparsed m of (request, m1) \<Rightarrow>
      case svc_parse_request (svc_object info) method args_str of
        None \<Rightarrow> (Stop [Ev_shutdown], delete_object request m1)
      | Some q \<Rightarrow>
          (case call_method (svc_object info) method q request m1 of (evs, m2) \<Rightarrow>
             (Got (Ev_dispatch (service_name rpcHeader) (method_name rpcHeader) q # evs) (unat total_size), m2)))"

fun OnMessage_objects ::
  "'u pb_runtime \<Rightarrow> ('q, 'r) service_map \<Rightarrow> nat \<Rightarrow> net_buffer \<Rightarrow> ('q, 'r) call_store
     \<Rightarrow> (provider_fault + ('q provider_event list \<times> net_buffer \<times> ('q, 'r) call_store)) option" where
  "OnMessage_objects rt sm 0 b m = None"
| "OnMessage_objects rt sm (Suc n) b m =
     (case om_pass rt sm (readableBytes b) (read_mem b) m of
        (More, m') \<Rightarrow> Some (Inr ([], b, m'))
      | (Stop evs, m') \<Rightarrow> Some (Inr (evs, b, m'))
      | (Crash, m') \<Rightarrow> Some (Inl Out_of_bounds)
      | (Got evs k, m') \<Rightarrow>
          map_option (\<lambda>r. bind_res r (\<lambda>(evs', b', m''). Inr (evs @ evs', b', m'')))
            (OnMessage_objects rt sm n (retrieve k b) m'))"

section \<open>Runs\<close>

text \<open>Bytes arrive on the connection, or a service answers a call it was given.\<close>

datatype 'r closure_input = C_receive bytes | C_answer nat 'r

record ('q, 'r) closure_world =
  cl_buffer :: net_buffer
  cl_store :: "('q, 'r) call_store"
  cl_events :: "'q provider_event list"

fun closure_step ::
  "'u pb_runtime \<Rightarrow> ('q, 'r) service_map \<Rightarrow> 'r closure_input \<Rightarrow> ('q, 'r) closure_world
     \<Rightarrow> (provider_fault + ('q, 'r) closure_world) option" where
  "closure_step rt sm (C_receive d) w =
     (case buf_append (cl_buffer w) d of
        Inl e \<Rightarrow> Some (Inl (Buffer_failed e))
      | Inr b \<Rightarrow>
          map_option (\<lambda>r. bind_res r (\<lambda>(evs, b', m). Inr \<lparr>cl_buffer = b', cl_store = m, cl_events = cl_events w @ evs\<rparr>))
            (OnMessage_objects rt sm (Suc (readableBytes b)) b (cl_store w)))"
| "closure_step rt sm (C_answer i r) w =
     (case service_answers i r (cl_store w) of
        (evs, m) \<Rightarrow> Some (Inr (w\<lparr>cl_store := m, cl_events := cl_events w @ evs\<rparr>)))"

fun closure_steps ::
  "'u pb_runtime \<Rightarrow> ('q, 'r) service_map \<Rightarrow> 'r closure_input list \<Rightarrow> ('q, 'r) closure_world
     \<Rightarrow> (provider_fault + ('q, 'r) closure_world) option" where
  "closure_steps rt sm [] w = Some (Inr w)"
| "closure_steps rt sm (x # xs) w =
     (case closure_step rt sm x w of
        Some (Inr w') \<Rightarrow> closure_steps rt sm xs w'
      | r \<Rightarrow> r)"

definition new_closure_world :: "net_buffer \<Rightarrow> ('q, 'r) closure_world" where
  "new_closure_world b = \<lparr>cl_buffer = b,
     cl_store = \<lparr>cs_live = (\<lambda>_. None), cs_next = 0, cs_fault = False, cs_given = []\<rparr>, cl_events = []\<rparr>"

text \<open>The contract of a service: it answers the calls it was given, each at most once.\<close>

fun answers_once :: "'u pb_runtime \<Rightarrow> ('q, 'r) service_map \<Rightarrow> 'r closure_input list \<Rightarrow> nat set
     \<Rightarrow> ('q, 'r) closure_world \<Rightarrow> bool" where
  "answers_once rt sm [] D w \<longleftrightarrow> True"
| "answers_once rt sm (x # xs) D w \<longleftrightarrow>
     (case x of C_answer i _ \<Rightarrow> i \<in> set (cs_given (cl_store w)) \<and> i \<notin> D | _ \<Rightarrow> True) \<and>
     (case closure_step rt sm x w of
        Some (Inr w') \<Rightarrow> answers_once rt sm xs (case x of C_answer i _ \<Rightarrow> insert i D | _ \<Rightarrow> D) w'
      | _ \<Rightarrow> True)"

fun answered :: "'r closure_input list \<Rightarrow> nat set" where
  "answered [] = {}"
| "answered (C_answer i _ # xs) = insert i (answered xs)"
| "answered (_ # xs) = answered xs"

section \<open>The store\<close>

text \<open>The objects of the call with closure \<open>c\<close>.\<close>

definition trio :: "nat \<Rightarrow> nat set" where "trio c = {c - 2, c - 1, c}"

definition store_ok :: "('q, 'r) service_map \<Rightarrow> nat set \<Rightarrow> ('q, 'r) call_store \<Rightarrow> bool" where
  "store_ok sm G m \<longleftrightarrow> \<not> cs_fault m \<and> (\<forall>i. cs_live m i \<noteq> None \<longrightarrow> i < cs_next m) \<and>
     dom (cs_live m) = (\<Union>c\<in>G. trio c) \<and>
     (\<forall>c\<in>G. 2 \<le> c \<and> (\<exists>q. cs_live m (c - 2) = Some (O_request q)) \<and> cs_live m (c - 1) = Some (O_response None) \<and>
        (\<exists>s i. cs_live m c = Some (O_closure s i (c - 2) (c - 1)) \<and> s \<in> svc_object ` ran sm))"

lemma store_okD:
  assumes "store_ok sm G m"
  shows "\<not> cs_fault m" "cs_next m \<le> i \<Longrightarrow> cs_live m i = None" "dom (cs_live m) = (\<Union>c\<in>G. trio c)"
    "c \<in> G \<Longrightarrow> 2 \<le> c" "c \<in> G \<Longrightarrow> c < cs_next m"
    "c \<in> G \<Longrightarrow> \<exists>q. cs_live m (c - 2) = Some (O_request q)"
    "c \<in> G \<Longrightarrow> cs_live m (c - 1) = Some (O_response None)"
    "c \<in> G \<Longrightarrow> \<exists>s i. cs_live m c = Some (O_closure s i (c - 2) (c - 1)) \<and> s \<in> svc_object ` ran sm"
  using assms unfolding store_ok_def by (force simp: not_less)+

text \<open>The objects of two calls are apart.\<close>

lemma trios_apart:
  assumes "store_ok sm G m" "c \<in> G" "d \<in> G" "c \<noteq> d" shows "trio c \<inter> trio d = {}"
proof -
  note c = store_okD(4,6-8) [OF assms(1,2)] and d = store_okD(4,6-8) [OF assms(1,3)]
  have "\<not> (x \<in> trio c \<and> x \<in> trio d)" for x
  proof
    assume "x \<in> trio c \<and> x \<in> trio d"
    then consider "c - 2 = d - 2" | "c - 2 = d - 1" | "c - 2 = d" | "c - 1 = d - 2" | "c - 1 = d - 1" | "c - 1 = d"
      | "c = d - 2" | "c = d - 1" | "c = d"
      unfolding trio_def by auto
    then show False using c d assms(4) by cases auto
  qed
  then show ?thesis by blast
qed

lemma answer_ok:
  assumes ok: "store_ok sm G m" and c: "c \<in> G" and ret: "service_answers c r m = (evs, m')"
  shows "store_ok sm (G - {c}) m'" "cs_given m' = cs_given m" "cs_next m' = cs_next m"
    "\<exists>s i. evs = SendRpcResponse s i r \<and> s \<in> svc_object ` ran sm"
proof -
  note k = store_okD(4-8) [OF ok c]
  obtain q s i where o: "cs_live m (c - 2) = Some (O_request q)" "cs_live m c = Some (O_closure s i (c - 2) (c - 1))"
      "s \<in> svc_object ` ran sm"
    using k(3,5) by blast
  have ne: "c - 2 \<noteq> c - 1" "c - 1 \<noteq> c" "c - 2 \<noteq> c" using k(1) by auto
  have m': "evs = SendRpcResponse s i r" "cs_live m' = (\<lambda>j. if j \<in> trio c then None else cs_live m j)"
      "cs_given m' = cs_given m" "cs_next m' = cs_next m" "cs_fault m' = cs_fault m"
    using ret o k(4) ne
    by (auto simp: service_answers_def set_object_def RpcProviderClosure_Run_def delete_object_def trio_def)
  then show "cs_given m' = cs_given m" "cs_next m' = cs_next m" "\<exists>s i. evs = SendRpcResponse s i r \<and> s \<in> svc_object ` ran sm"
    using o(3) by auto
  have keep: "cs_live m' j = cs_live m j" if "d \<in> G - {c}" "j \<in> trio d" for d j
    using trios_apart [OF ok c, of d] that by (auto simp: m'(2))
  have dom: "dom (cs_live m') = (\<Union>d\<in>G - {c}. trio d)"
  proof -
    have "dom (cs_live m') = dom (cs_live m) - trio c" by (auto simp: m'(2) split: if_splits)
    also have "\<dots> = (\<Union>d\<in>G - {c}. trio d)" using store_okD(3) [OF ok] trios_apart [OF ok c] by blast
    finally show ?thesis .
  qed
  have "d - 2 \<in> trio d" "d - 1 \<in> trio d" "d \<in> trio d" for d by (simp_all add: trio_def)
  with keep have "\<forall>d \<in> G - {c}. cs_live m' (d - 2) = cs_live m (d - 2) \<and> cs_live m' (d - 1) = cs_live m (d - 1) \<and>
      cs_live m' d = cs_live m d" by blast
  with ok dom show "store_ok sm (G - {c}) m'" unfolding store_ok_def by (auto simp: m'(2,4,5))
qed


lemma call_method_ok:
  assumes ok: "store_ok sm G m" and s: "s \<in> svc_object ` ran sm"
    and ret: "call_method s i q (cs_next m) (snd (new_object O_unparsed m)) = (evs, m')"
  shows "evs = CallMethod_events s i q"
    "if svc_call s i q = None then store_ok sm (insert (cs_next m + 2) G) m' \<and> cs_given m' = cs_given m @ [cs_next m + 2]
     else store_ok sm G m' \<and> cs_given m' = cs_given m" "cs_next m' = cs_next m + 3"
proof -
  let ?n = "cs_next m"
  let ?m = "m\<lparr>cs_live := (cs_live m)(?n \<mapsto> O_request q, ?n + 1 \<mapsto> O_response None, ?n + 2 \<mapsto> O_closure s i ?n (?n + 1)),
    cs_next := ?n + 3\<rparr>"
  note g = store_okD [OF ok]
  have old: "cs_live ?m j = cs_live m j" if "c \<in> G" "j \<in> trio c" for c j
    using g(5) [OF that(1)] that(2) by (auto simp: trio_def)
  have mem: "d - 2 \<in> trio d" "d - 1 \<in> trio d" "d \<in> trio d" for d by (simp_all add: trio_def)
  have "dom (cs_live ?m) = (\<Union>c\<in>insert (?n + 2) G. trio c)"
    using g(3) by (auto simp: trio_def)
  moreover have "\<forall>d \<in> G. cs_live ?m (d - 2) = cs_live m (d - 2) \<and> cs_live ?m (d - 1) = cs_live m (d - 1) \<and>
      cs_live ?m d = cs_live m d" using old mem by blast
  moreover have "cs_live ?m j \<noteq> None \<longrightarrow> j < ?n + 3" for j using g(2) [of j] by (cases "j < ?n") auto
  ultimately have handed: "store_ok sm (insert (?n + 2) G) ?m"
    using g(1,4,6-8) s unfolding store_ok_def by simp
  have new: "?n + 2 \<notin> G" using g(5) [of "?n + 2"] by auto
  have cm: "call_method s i q ?n (snd (new_object O_unparsed m)) =
      (case svc_call s i q of None \<Rightarrow> ([], ?m\<lparr>cs_given := cs_given m @ [?n + 2]\<rparr>) | Some r \<Rightarrow> service_answers (?n + 2) r ?m)"
    by (simp add: call_method_def new_object_def set_object_def Let_def fun_upd_twist eval_nat_numeral cong: option.case_cong)
  show "evs = CallMethod_events s i q"
    using ret unfolding cm
    by (auto simp: CallMethod_events_def Closure_Run_def service_answers_def RpcProviderClosure_Run_def set_object_def
        split: option.splits)
  show "if svc_call s i q = None then store_ok sm (insert (?n + 2) G) m' \<and> cs_given m' = cs_given m @ [?n + 2]
     else store_ok sm G m' \<and> cs_given m' = cs_given m" "cs_next m' = ?n + 3"
  proof (atomize (full), cases "svc_call s i q")
    case None
    with ret handed show "(if svc_call s i q = None then store_ok sm (insert (?n + 2) G) m' \<and> cs_given m' = cs_given m @ [?n + 2]
        else store_ok sm G m' \<and> cs_given m' = cs_given m) \<and> cs_next m' = ?n + 3"
      unfolding cm by (auto simp: store_ok_def)
  next
    case (Some r)
    then have "service_answers (?n + 2) r ?m = (evs, m')" using ret unfolding cm by simp
    note a = answer_ok [OF handed insertI1 this]
    have "insert (?n + 2) G - {?n + 2} = G" using new by blast
    with a Some show "(if svc_call s i q = None then store_ok sm (insert (?n + 2) G) m' \<and> cs_given m' = cs_given m @ [?n + 2]
        else store_ok sm G m' \<and> cs_given m' = cs_given m) \<and> cs_next m' = ?n + 3" by simp
  qed
qed

section \<open>Runs keep it\<close>

definition calls_of :: "'q provider_event list \<Rightarrow> nat" where
  "calls_of evs = length (filter (\<lambda>e. case e of Ev_dispatch _ _ _ \<Rightarrow> True | _ \<Rightarrow> False) evs)"

definition responses_of :: "'q provider_event list \<Rightarrow> nat" where
  "responses_of evs = length (filter (\<lambda>e. case e of Ev_send _ \<Rightarrow> True | _ \<Rightarrow> False) evs)"

lemma count_append [simp]:
  "calls_of (xs @ ys) = calls_of xs + calls_of ys" "responses_of (xs @ ys) = responses_of xs + responses_of ys"
  by (simp_all add: calls_of_def responses_of_def)

lemma shutdown_count [simp]: "calls_of [Ev_shutdown] = 0" "responses_of [Ev_shutdown] = 0"
  by (simp_all add: calls_of_def responses_of_def)

definition serialises :: "('q, 'r) service_map \<Rightarrow> bool" where
  "serialises sm \<longleftrightarrow> (\<forall>s \<in> svc_object ` ran sm. \<forall>i r. svc_serialize s i r \<noteq> None)"

lemma response_count:
  "serialises sm \<Longrightarrow> s \<in> svc_object ` ran sm \<Longrightarrow>
   calls_of (SendRpcResponse s i r) = 0 \<and> responses_of (SendRpcResponse s i r) = 1"
  by (auto simp: serialises_def SendRpcResponse_def calls_of_def responses_of_def split: option.split)

text \<open>\<open>D\<close> are the calls that were given to a service and have been answered.\<close>

definition given_ok :: "('q, 'r) service_map \<Rightarrow> nat set \<Rightarrow> ('q, 'r) call_store \<Rightarrow> bool" where
  "given_ok sm D m \<longleftrightarrow> store_ok sm (set (cs_given m) - D) m \<and> (\<forall>c \<in> set (cs_given m). c < cs_next m) \<and>
     D \<subseteq> set (cs_given m)"

abbreviation open_calls :: "nat set \<Rightarrow> ('q, 'r) call_store \<Rightarrow> nat" where
  "open_calls D m \<equiv> card (set (cs_given m) - D)"

definition counted :: "('q, 'r) service_map \<Rightarrow> nat set \<Rightarrow> ('q, 'r) call_store \<Rightarrow> 'q provider_event list
    \<Rightarrow> ('q, 'r) call_store \<Rightarrow> bool" where
  "counted sm D m evs m' \<longleftrightarrow> (serialises sm \<longrightarrow> responses_of evs + open_calls D m' = calls_of evs + open_calls D m)"

lemma counted_trans:
  "counted sm D m evs m1 \<Longrightarrow> counted sm D m1 evs' m' \<Longrightarrow> counted sm D m (evs @ evs') m'"
  by (auto simp: counted_def)

lemma om_pass_cases:
  "om_pass rt sm n rd m = (om_iteration rt sm n rd, m) \<and> (\<forall>evs k. om_iteration rt sm n rd \<noteq> Got evs k) \<and>
     (\<forall>evs. om_iteration rt sm n rd = Stop evs \<longrightarrow> evs = [Ev_shutdown]) \<or>
   om_pass rt sm n rd m = (Stop [Ev_shutdown], delete_object (cs_next m) (snd (new_object O_unparsed m))) \<and>
     om_iteration rt sm n rd = Stop [Ev_shutdown] \<or>
   (\<exists>info i q a b k. info \<in> ran sm \<and>
     om_iteration rt sm n rd = Got (Ev_dispatch a b q # CallMethod_events (svc_object info) i q) k \<and>
     om_pass rt sm n rd m =
       (case call_method (svc_object info) i q (cs_next m) (snd (new_object O_unparsed m)) of
          (evs, m') \<Rightarrow> (Got (Ev_dispatch a b q # evs) k, m')))"
proof -
  obtain m1 where new: "new_object O_unparsed m = (cs_next m, m1)" by (simp add: new_object_def)
  show ?thesis
    unfolding om_pass_def om_iteration_def Let_def new
    by (auto split: option.split prod.split) (metis Pair_inject ranI)
qed

lemma pass_ok:
  assumes g: "given_ok sm D m" and ret: "om_pass rt sm n rd m = (oc, m')"
  shows "oc = om_iteration rt sm n rd" "given_ok sm D m'"
    "case oc of Got evs k \<Rightarrow> counted sm D m evs m' | Stop evs \<Rightarrow> counted sm D m evs m' | _ \<Rightarrow> m' = m"
proof -
  have ok: "store_ok sm (set (cs_given m) - D) m" "\<forall>c \<in> set (cs_given m). c < cs_next m" "D \<subseteq> set (cs_given m)"
    using g by (simp_all add: given_ok_def)
  consider (same) "om_pass rt sm n rd m = (om_iteration rt sm n rd, m)" "\<forall>evs k. om_iteration rt sm n rd \<noteq> Got evs k"
      "\<forall>evs. om_iteration rt sm n rd = Stop evs \<longrightarrow> evs = [Ev_shutdown]"
    | (unparsed) "om_pass rt sm n rd m = (Stop [Ev_shutdown], delete_object (cs_next m) (snd (new_object O_unparsed m)))"
        "om_iteration rt sm n rd = Stop [Ev_shutdown]"
    | (called) info i q a b k where "info \<in> ran sm"
        "om_iteration rt sm n rd = Got (Ev_dispatch a b q # CallMethod_events (svc_object info) i q) k"
        "om_pass rt sm n rd m = (case call_method (svc_object info) i q (cs_next m) (snd (new_object O_unparsed m)) of
          (evs, m') \<Rightarrow> (Got (Ev_dispatch a b q # evs) k, m'))"
    using om_pass_cases [of rt sm n rd m] by blast
  then have "oc = om_iteration rt sm n rd \<and> given_ok sm D m' \<and>
    (case oc of Got evs k \<Rightarrow> counted sm D m evs m' | Stop evs \<Rightarrow> counted sm D m evs m' | _ \<Rightarrow> m' = m)"
  proof cases
    case same
    then have "oc = om_iteration rt sm n rd" "m' = m" using ret by simp_all
    with same(2,3) g show ?thesis by (auto simp: counted_def split: outcome.split)
  next
    case unparsed
    have "cs_live m (cs_next m) = None" using store_okD(2) [OF ok(1)] by simp
    then have m': "oc = Stop [Ev_shutdown]" "m' = m\<lparr>cs_next := cs_next m + 1\<rparr>"
      using ret unparsed(1) by (auto simp: new_object_def delete_object_def map_erase_def fun_upd_idem)
    have "given_ok sm D m'" using g by (auto simp: m'(2) given_ok_def store_ok_def less_Suc_eq)
    with unparsed(2) m' show ?thesis by (simp add: counted_def)
  next
    case called
    let ?s = "svc_object info" and ?c = "cs_next m + 2"
    obtain evs where evs: "call_method ?s i q (cs_next m) (snd (new_object O_unparsed m)) = (evs, m')"
        "oc = Got (Ev_dispatch a b q # evs) k"
      using ret called(3) by (auto split: prod.splits)
    have s: "?s \<in> svc_object ` ran sm" using called(1) by blast
    note c = call_method_ok [OF ok(1) s evs(1)]
    have given: "?c \<notin> set (cs_given m)" using ok(2) by auto
    then have new: "?c \<notin> set (cs_given m)" "?c \<notin> D" using ok(3) by blast+
    have d: "calls_of (Ev_dispatch a b q # evs) = 1 + calls_of evs" "responses_of (Ev_dispatch a b q # evs) = responses_of evs"
      by (simp_all add: calls_of_def responses_of_def)
    show ?thesis
    proof (cases "svc_call ?s i q")
      case None
      then have m': "store_ok sm (insert ?c (set (cs_given m) - D)) m'" "cs_given m' = cs_given m @ [?c]" using c(2) by simp_all
      have set': "set (cs_given m') - D = insert ?c (set (cs_given m) - D)" using new by (auto simp: m'(2))
      have "given_ok sm D m'" using m' ok(2,3) set' c(3) by (auto simp: given_ok_def)
      moreover have "evs = []" using c(1) None by (simp add: CallMethod_events_def)
      moreover have "open_calls D m' = Suc (open_calls D m)" using new unfolding set' by simp
      ultimately show ?thesis using called(2) evs(2) c(1) d by (simp add: counted_def calls_of_def responses_of_def)
    next
      case (Some r)
      then have m': "store_ok sm (set (cs_given m) - D) m'" "cs_given m' = cs_given m" using c(2) by simp_all
      have "given_ok sm D m'" using m' ok(2,3) c(3) by (auto simp: given_ok_def)
      moreover have "evs = SendRpcResponse ?s i r" using c(1) Some by (simp add: CallMethod_events_def Closure_Run_def)
      ultimately show ?thesis using called(2) evs(2) c(1) d response_count [OF _ s, of i r] by (simp add: counted_def m'(2))
    qed
  qed
  then show "oc = om_iteration rt sm n rd" "given_ok sm D m'"
    "case oc of Got evs k \<Rightarrow> counted sm D m evs m' | Stop evs \<Rightarrow> counted sm D m evs m' | _ \<Rightarrow> m' = m" by blast+
qed

text \<open>Without its objects the handler is \<open>OnMessage\<close>.\<close>

lemma forget_bind:
  "map_sum id (\<lambda>(evs, b', m'). (evs, b')) (bind_res r (\<lambda>(evs', b', m''). Inr (evs @ evs', b', m''))) =
   bind_res (map_sum id (\<lambda>(evs, b', m'). (evs, b')) r) (\<lambda>(evs', b'). Inr (evs @ evs', b'))"
  by (cases r) (auto split: prod.split)

lemma objects_forget:
  "given_ok sm D m \<Longrightarrow>
   map_option (map_sum id (\<lambda>(evs, b', m'). (evs, b'))) (OnMessage_objects rt sm n b m) = OnMessage_loop rt sm n b"
proof (induction n arbitrary: b m)
  case (Suc n)
  obtain oc m' where p: "om_pass rt sm (readableBytes b) (read_mem b) m = (oc, m')" by (cases "om_pass rt sm (readableBytes b) (read_mem b) m")
  note ok = pass_ok [OF Suc.prems p]
  show ?case
  proof (cases oc)
    case (Got evs k)
    have "om_iteration rt sm (readableBytes b) (read_mem b) = Got evs k" using ok(1) Got by simp
    then have "OnMessage_loop rt sm (Suc n) b = map_option (\<lambda>r. bind_res r (\<lambda>(evs', b'). Inr (evs @ evs', b')))
        (map_option (map_sum id (\<lambda>(evs, b', m'). (evs, b'))) (OnMessage_objects rt sm n (retrieve k b) m'))"
      by (simp only: OnMessage_loop.simps outcome.case Suc.IH [OF ok(2)])
    then show ?thesis using p Got
      by (simp only: OnMessage_objects.simps prod.case outcome.case option.map_comp comp_def forget_bind)
  qed (use p ok(1) in auto)
qed simp

lemma objects_ok:
  "given_ok sm D m \<Longrightarrow> OnMessage_objects rt sm n b m = Some (Inr (evs, b', m')) \<Longrightarrow>
   given_ok sm D m' \<and> counted sm D m evs m'"
proof (induction n arbitrary: b m evs)
  case (Suc n)
  obtain oc m1 where p: "om_pass rt sm (readableBytes b) (read_mem b) m = (oc, m1)" by (cases "om_pass rt sm (readableBytes b) (read_mem b) m")
  note ok = pass_ok [OF Suc.prems(1) p]
  have none: "counted sm D m [] m" by (simp add: counted_def calls_of_def responses_of_def)
  show ?case
  proof (cases oc)
    case (Got es k)
    then obtain evs' where r: "OnMessage_objects rt sm n (retrieve k b) m1 = Some (Inr (evs', b', m'))" "evs = es @ evs'"
      using Suc.prems(2) p by (auto simp: bind_res_eq_Inr split: prod.splits)
    from Suc.IH [OF ok(2) r(1)] ok(3) Got show ?thesis unfolding r(2) by (auto intro: counted_trans)
  qed (use Suc.prems p ok none in auto)
qed simp

lemma answer_given:
  assumes g: "given_ok sm D m" and i: "i \<in> set (cs_given m)" "i \<notin> D" and ret: "service_answers i r m = (evs, m')"
  shows "given_ok sm (insert i D) m'" "serialises sm \<Longrightarrow> calls_of evs = 0 \<and> responses_of evs = 1"
    "Suc (open_calls (insert i D) m') = open_calls D m"
proof -
  have ok: "store_ok sm (set (cs_given m) - D) m" "\<forall>c \<in> set (cs_given m). c < cs_next m" "D \<subseteq> set (cs_given m)"
    using g by (simp_all add: given_ok_def)
  have mem: "i \<in> set (cs_given m) - D" using i by simp
  note a = answer_ok [OF ok(1) mem ret]
  have minus: "set (cs_given m) - D - {i} = set (cs_given m) - insert i D" by blast
  have "store_ok sm (set (cs_given m) - insert i D) m'" using a(1) unfolding minus .
  moreover have "insert i D \<subseteq> set (cs_given m)" using ok(3) i(1) by simp
  ultimately show "given_ok sm (insert i D) m'" unfolding given_ok_def a(2,3) using ok(2) by (intro conjI)
  show "calls_of evs = 0 \<and> responses_of evs = 1" if ser: "serialises sm"
  proof -
    obtain s j where s: "evs = SendRpcResponse s j r" "s \<in> svc_object ` ran sm" using a(4) by metis
    show ?thesis unfolding s(1) by (rule response_count [OF ser s(2)])
  qed
  show "Suc (open_calls (insert i D) m') = open_calls D m"
    unfolding a(2) minus [symmetric] by (rule card_Suc_Diff1 [OF _ mem]) simp
qed

lemma closure_steps_ok:
  "closure_steps rt sm xs w = Some (Inr w') \<Longrightarrow> given_ok sm D (cl_store w) \<Longrightarrow> answers_once rt sm xs D w \<Longrightarrow>
   given_ok sm (D \<union> answered xs) (cl_store w') \<and>
   (serialises sm \<longrightarrow> responses_of (cl_events w) + open_calls D (cl_store w) = calls_of (cl_events w) \<longrightarrow>
      responses_of (cl_events w') + open_calls (D \<union> answered xs) (cl_store w') = calls_of (cl_events w'))"
proof (induction xs arbitrary: w D)
  case (Cons x xs)
  then obtain w1 where w1: "closure_step rt sm x w = Some (Inr w1)" "closure_steps rt sm xs w1 = Some (Inr w')"
    by (auto split: option.splits sum.splits)
  show ?case
  proof (cases x)
    case (C_receive d)
    then obtain b evs b' m where r: "buf_append (cl_buffer w) d = Inr b"
        "OnMessage_objects rt sm (Suc (readableBytes b)) b (cl_store w) = Some (Inr (evs, b', m))"
        "w1 = \<lparr>cl_buffer = b', cl_store = m, cl_events = cl_events w @ evs\<rparr>"
      using w1(1) by (auto simp: bind_res_eq_Inr simp del: OnMessage_objects.simps split: sum.splits)
    have "answers_once rt sm xs D w1" using Cons.prems(3) w1(1) C_receive by (simp del: closure_step.simps)
    from Cons.IH [OF w1(2) _ this] objects_ok [OF Cons.prems(2) r(2)] show ?thesis
      by (auto simp: r(3) C_receive counted_def)
  next
    case (C_answer i v)
    obtain evs m where r: "service_answers i v (cl_store w) = (evs, m)" by (cases "service_answers i v (cl_store w)")
    then have w1': "w1 = w\<lparr>cl_store := m, cl_events := cl_events w @ evs\<rparr>" using w1(1) C_answer by simp
    have i: "i \<in> set (cs_given (cl_store w))" "i \<notin> D" "answers_once rt sm xs (insert i D) w1"
      using Cons.prems(3) w1(1) C_answer by (simp_all del: closure_step.simps)
    note a = answer_given [OF Cons.prems(2) i(1,2) r]
    from Cons.IH [OF w1(2) _ i(3)] a show ?thesis by (simp add: w1' C_answer)
  qed
qed simp

section \<open>Property\<close>

text \<open>
  Property (C37). Each call is answered once and leaves nothing behind: on a connection that
  receives any bytes, with services that answer the calls they are given during the call or later,
  in any order and each at most once, no object is used or deleted after it was deleted; the
  objects that exist are the request, the response and the closure of each call that is still
  open; and when every response can be serialised, the responses sent and the open calls add up to the
  calls made.
\<close>

theorem closures_released:
  assumes "closure_steps rt sm xs (new_closure_world b) = Some (Inr w)"
    and "answers_once rt sm xs {} (new_closure_world b)"
  shows "\<not> cs_fault (cl_store w) \<and>
    dom (cs_live (cl_store w)) = (\<Union>c \<in> set (cs_given (cl_store w)) - answered xs. {c - 2, c - 1, c}) \<and>
    (serialises sm \<longrightarrow> responses_of (cl_events w) + card (set (cs_given (cl_store w)) - answered xs) = calls_of (cl_events w))"
proof -
  have "given_ok sm {} (cl_store (new_closure_world b))"
    by (simp add: given_ok_def store_ok_def new_closure_world_def)
  from closure_steps_ok [OF assms(1) this assms(2)]
  have r: "given_ok sm (answered xs) (cl_store w)"
      "serialises sm \<longrightarrow> responses_of (cl_events w) + open_calls (answered xs) (cl_store w) = calls_of (cl_events w)"
    by (simp_all add: new_closure_world_def calls_of_def responses_of_def)
  then show ?thesis by (simp add: given_ok_def store_ok_def trio_def)
qed

section \<open>Witness\<close>

text \<open>An echo service that keeps the closure and answers later.\<close>

definition late_service :: "(bytes, bytes) rpc_service" where
  "late_service = echo_service\<lparr>svc_call := (\<lambda>_ _. None)\<rparr>"

definition late_map :: "(bytes, bytes) service_map" where
  "late_map = NotifyService (\<lambda>_. None) late_service"

abbreviation late_call :: rpc_call where "late_call \<equiv> (''Echo'', ''Say'', ''hi'')"

lemma late_call_ok:
  "call_ok wire_runtime late_map late_call"
  "call_events late_map late_call = [Ev_dispatch ''Echo'' ''Say'' ''hi'']"
  "svc_object ` ran late_map = {late_service}"
proof -
  have r: "call_request late_map late_call = Some (late_service, 0, ''hi'')"
    by (simp add: late_map_def NotifyService_def late_service_def echo_service_def)
  have e: "call_request echo_map late_call \<noteq> None" by (simp add: echo_map_def NotifyService_def echo_service_def)
  show "call_ok wire_runtime late_map late_call"
    using echo_call_ok(1) r e by (simp del: call_request.simps)
  show "call_events late_map late_call = [Ev_dispatch ''Echo'' ''Say'' ''hi'']"
    unfolding call_events.simps r by (simp add: CallMethod_events_def late_service_def)
  show "svc_object ` ran late_map = {late_service}"
    by (auto simp: late_map_def NotifyService_def ran_def image_def)
qed

lemma late_run:
  "\<exists>b b'. closure_steps wire_runtime late_map [C_receive (call_frame wire_runtime late_call), C_answer 2 ''ho'']
      (new_closure_world b) = Some (Inr \<lparr>cl_buffer = b', cl_store = \<lparr>cs_live = (\<lambda>_. None), cs_next = 3,
        cs_fault = False, cs_given = [2]\<rparr>, cl_events = [Ev_dispatch ''Echo'' ''Say'' ''hi'', Ev_send ''ho'']\<rparr>) \<and>
    answers_once wire_runtime late_map [C_receive (call_frame wire_runtime late_call), C_answer 2 ''ho''] {}
      (new_closure_world b)"
proof -
  let ?f = "call_frame wire_runtime late_call"
  let ?m = "\<lparr>cs_live = (\<lambda>_. None), cs_next = 0, cs_fault = False, cs_given = []\<rparr> :: (bytes, bytes) call_store"
  obtain b where b0: "new_buffer kInitialSize = Inr b" using fresh_buffer_exists by blast
  note b = fresh_buffer [OF b0]
  have small: "length ?f \<le> 100" by (rule echo_call_ok(3))
  have room: "rx_room b (length ?f + 0)" using b small by (simp add: rx_room_def del: call_frame.simps)
  obtain b1 where b1: "buf_append b ?f = Inr b1" "rx_room b1 0" "content b1 = ?f"
    using rx_append [OF room] b(2) by (metis append_Nil)
  have inv: "buf_inv b1" "length (storage b1) < 2 ^ 32" using b1(2) by (simp_all add: rx_room_def)
  have step: "request_step wire_runtime late_map (?f @ []) = Got (call_events late_map late_call) (length ?f)"
    using small by (intro request_step_frame wire_runtime_ok late_call_ok(1)) (simp del: call_frame.simps)
  have it: "om_iteration wire_runtime late_map (readableBytes b1) (read_mem b1) =
      Got [Ev_dispatch ''Echo'' ''Say'' ''hi''] (length ?f)"
    using om_iteration_buffer [OF inv, of wire_runtime late_map] b1(3) late_call_ok(2) step
    by (simp del: call_frame.simps call_events.simps)
  have cm: "call_method late_service i q 0 (snd (new_object O_unparsed ?m)) =
      ([], \<lparr>cs_live = [0 \<mapsto> O_request q, 1 \<mapsto> O_response None, 2 \<mapsto> O_closure late_service i 0 1], cs_next = 3,
        cs_fault = False, cs_given = [2]\<rparr>)" for i q
    by (simp add: call_method_def new_object_def set_object_def late_service_def eval_nat_numeral)
  let ?it = "om_iteration wire_runtime late_map (readableBytes b1) (read_mem b1)"
    and ?pass = "om_pass wire_runtime late_map (readableBytes b1) (read_mem b1) ?m"
  consider "\<forall>evs k. ?it \<noteq> Got evs k" | "?it = Stop [Ev_shutdown]"
    | info i q a e k where "info \<in> ran late_map" "?it = Got (Ev_dispatch a e q # CallMethod_events (svc_object info) i q) k"
      "?pass = (case call_method (svc_object info) i q (cs_next ?m) (snd (new_object O_unparsed ?m)) of
          (evs, m') \<Rightarrow> (Got (Ev_dispatch a e q # evs) k, m'))"
    using om_pass_cases [of wire_runtime late_map "readableBytes b1" "read_mem b1" ?m] by blast
  then obtain info i q a e k where o: "info \<in> ran late_map" "?it = Got (Ev_dispatch a e q # CallMethod_events (svc_object info) i q) k"
      "?pass = (case call_method (svc_object info) i q (cs_next ?m) (snd (new_object O_unparsed ?m)) of
          (evs, m') \<Rightarrow> (Got (Ev_dispatch a e q # evs) k, m'))"
    using it by cases (blast, simp del: call_frame.simps, blast)
  have svc: "svc_object info = late_service" using late_call_ok(3) o(1) by blast
  have "Got (Ev_dispatch a e q # CallMethod_events (svc_object info) i q) k = Got [Ev_dispatch ''Echo'' ''Say'' ''hi''] (length ?f)"
    using o(2) it by (rule trans [OF sym])
  then have eqs: "a = ''Echo''" "e = ''Say''" "q = ''hi''" "k = length ?f" by blast+
  let ?m' = "\<lparr>cs_live = [0 \<mapsto> O_request ''hi'', 1 \<mapsto> O_response None, 2 \<mapsto> O_closure late_service i 0 1],
    cs_next = 3, cs_fault = False, cs_given = [2]\<rparr> :: (bytes, bytes) call_store"
  have p: "?pass = (Got [Ev_dispatch ''Echo'' ''Say'' ''hi''] (length ?f), ?m')"
    unfolding o(3) svc eqs call_store.simps(2) cm by simp
  let ?b2 = "retrieve (length ?f) b1"
  have "content ?b2 = []" using retrieve_content [OF inv(1), of "length ?f"] b1(3) by simp
  then have "readableBytes ?b2 = 0" using length_content [OF retrieve_inv [OF inv(1)], of "length ?f"] by simp
  then have more: "om_pass wire_runtime late_map (readableBytes ?b2) (read_mem ?b2) m = (More, m)" for m
    by (simp add: om_pass_def)
  have "readableBytes b1 = length ?f" using length_content [OF inv(1)] b1(3) by simp
  moreover have "0 < length ?f" using step by (auto simp: request_step_def om_iteration_def simp del: call_frame.simps split: if_splits)
  ultimately obtain n where n: "Suc (readableBytes b1) = Suc (Suc n)" by (cases "length ?f") auto
  have run: "OnMessage_objects wire_runtime late_map (Suc (readableBytes b1)) b1 ?m =
      Some (Inr ([Ev_dispatch ''Echo'' ''Say'' ''hi''], ?b2, ?m'))"
    unfolding n by (simp add: p more del: call_frame.simps)
  let ?w = "\<lparr>cl_buffer = ?b2, cl_store = ?m', cl_events = [Ev_dispatch ''Echo'' ''Say'' ''hi'']\<rparr>"
  have one: "closure_step wire_runtime late_map (C_receive ?f) (new_closure_world b) = Some (Inr ?w)"
    using run b1(1) by (simp add: new_closure_world_def del: call_frame.simps OnMessage_objects.simps)
  have two: "closure_step wire_runtime late_map (C_answer 2 ''ho'') ?w =
      Some (Inr \<lparr>cl_buffer = ?b2, cl_store = \<lparr>cs_live = (\<lambda>_. None), cs_next = 3, cs_fault = False, cs_given = [2]\<rparr>,
        cl_events = [Ev_dispatch ''Echo'' ''Say'' ''hi'', Ev_send ''ho'']\<rparr>)"
    by (simp add: service_answers_def set_object_def RpcProviderClosure_Run_def delete_object_def SendRpcResponse_def
        late_service_def echo_service_def map_erase_def fun_eq_iff)
  show ?thesis
    by (rule exI [of _ b]) (simp add: one [unfolded One_nat_def] two [unfolded One_nat_def] del: closure_step.simps call_frame.simps)
qed

lemma closures_released_witness:
  "\<exists>b w. closure_steps wire_runtime late_map [C_receive (call_frame wire_runtime late_call), C_answer 2 ''ho'']
      (new_closure_world b) = Some (Inr w) \<and> calls_of (cl_events w) = 1 \<and> responses_of (cl_events w) = 1 \<and>
      cs_live (cl_store w) = (\<lambda>_. None)"
proof -
  obtain b b' where r: "closure_steps wire_runtime late_map [C_receive (call_frame wire_runtime late_call), C_answer 2 ''ho'']
      (new_closure_world b) = Some (Inr \<lparr>cl_buffer = b', cl_store = \<lparr>cs_live = (\<lambda>_. None), cs_next = 3,
        cs_fault = False, cs_given = [2]\<rparr>, cl_events = [Ev_dispatch ''Echo'' ''Say'' ''hi'', Ev_send ''ho'']\<rparr>)"
    "answers_once wire_runtime late_map [C_receive (call_frame wire_runtime late_call), C_answer 2 ''ho''] {}
      (new_closure_world b)" using late_run by blast
  have s: "serialises late_map" unfolding serialises_def late_call_ok(3) by (simp add: late_service_def echo_service_def)
  from closures_released [OF r] s
  have "responses_of [Ev_dispatch ''Echo'' ''Say'' ''hi'', Ev_send ''ho''] = calls_of [Ev_dispatch ''Echo'' ''Say'' ''hi'', Ev_send ''ho'']"
    by simp
  moreover have "calls_of [Ev_dispatch ''Echo'' ''Say'' ''hi'', Ev_send ''ho''] = 1" by (simp add: calls_of_def)
  ultimately show ?thesis using r(1) by (intro exI conjI) (rule r(1), simp_all)
qed

end
