(* ===== verification/ZkSession.thy ===== *)
theory ZkSession
  imports ZkClient
begin

text \<open>
  The life of a ZooKeeper client object, \<^verbatim>\<open>mprpc-main/src/zkclient.cc\<close>: constructor, \<open>Start\<close> with
  its semaphore, the watcher the library calls for as long as the handle is open, destructor. The
  semaphore is a local variable of \<open>Start\<close> and the handle keeps a pointer to it.
\<close>

section \<open>The object\<close>

text \<open>
  The handle; the sessions open at the library; the semaphore as long as the call of \<open>Start\<close> that
  declares it runs; and how often a semaphore was posted that did not exist any more.
\<close>

record zk_client =
  zc_handle :: bool
  zc_open :: nat
  zc_sem :: "nat option"
  zc_dead_posts :: nat

definition ZkClient_construct :: zk_client where
  "ZkClient_construct = \<lparr>zc_handle = False, zc_open = 0, zc_sem = None, zc_dead_posts = 0\<rparr>"

definition ZkClient_destruct :: "zk_client \<Rightarrow> zk_client" where
  "ZkClient_destruct c = (if zc_handle c then c\<lparr>zc_open := zc_open c - 1\<rparr> else c)"

text \<open>An event of the library's thread: \<open>global_watcher\<close> posts the semaphore of the context.\<close>

definition watcher_called :: "watch_event \<Rightarrow> zk_client \<Rightarrow> zk_client" where
  "watcher_called ev c =
     (if ev = Session_connected then
        (case zc_sem c of
           Some n \<Rightarrow> c\<lparr>zc_sem := Some (global_watcher ev n)\<rparr>
         | None \<Rightarrow> c\<lparr>zc_dead_posts := zc_dead_posts c + 1\<rparr>)
      else c)"

text \<open>
  \<^verbatim>\<open>sem_wait\<close> on the object's semaphore, with the events that arrive meanwhile; \<^term>\<open>Inl\<close> is waiting
  for ever. The events that are left arrive later.
\<close>

fun client_sem_wait :: "watch_event list \<Rightarrow> zk_client \<Rightarrow> zk_client + (watch_event list \<times> zk_client)" where
  "client_sem_wait evs c =
     (case zc_sem c of
        Some (Suc n) \<Rightarrow> Inr (evs, c\<lparr>zc_sem := Some n\<rparr>)
      | _ \<Rightarrow> (case evs of [] \<Rightarrow> Inl c | ev # evs' \<Rightarrow> client_sem_wait evs' (watcher_called ev c)))"

datatype start_result = Start_exit | Start_blocked zk_client | Started "watch_event list" zk_client

definition ZkClient_Start ::
  "'z zk_ops \<Rightarrow> mprpc_config \<Rightarrow> watch_event list \<Rightarrow> zk_client \<Rightarrow> start_result" where
  "ZkClient_Start ops cfg evs c =
     (let ip = Load cfg ''zookeeperip'';
          port = Load cfg ''zookeeperport'';
          connstr = ip @ '':'' @ port;
          c1 = c\<lparr>zc_sem := Some 0\<rparr>
      in case zk_init ops (c_str connstr) of
           None \<Rightarrow> Start_exit
         | Some z \<Rightarrow>
             (case client_sem_wait evs (c1\<lparr>zc_handle := True, zc_open := zc_open c1 + 1\<rparr>) of
                Inl c2 \<Rightarrow> Start_blocked c2
              | Inr (rest, c2) \<Rightarrow> Started rest (c2\<lparr>zc_sem := None\<rparr>)))"

text \<open>A client object in a scope: started, used while events arrive, destroyed at the end.\<close>

definition client_scope ::
  "'z zk_ops \<Rightarrow> mprpc_config \<Rightarrow> watch_event list \<Rightarrow> zk_client option" where
  "client_scope ops cfg evs =
     (case ZkClient_Start ops cfg evs ZkClient_construct of
        Started rest c \<Rightarrow> Some (ZkClient_destruct (fold watcher_called rest c))
      | _ \<Rightarrow> None)"

section \<open>Lemmas\<close>

declare client_sem_wait.simps [simp del]

lemma client_sem_wait_sim:
  "zc_sem c = Some n \<Longrightarrow>
   client_sem_wait evs c =
     (case sem_wait n evs of
        None \<Rightarrow> Inl c
      | Some rest \<Rightarrow> Inr (rest, c\<lparr>zc_sem := Some (n - 1)\<rparr>))"
proof (induction n evs arbitrary: c rule: sem_wait.induct)
  case (1 n evs)
  then show ?case by (simp add: client_sem_wait.simps [of evs])
next
  case 2
  then show ?case by (simp add: client_sem_wait.simps [of "[]"])
next
  case (3 ev evs)
  show ?case
  proof (cases "ev = Session_connected")
    case True
    then have "client_sem_wait (ev # evs) c = client_sem_wait evs (c\<lparr>zc_sem := Some 1\<rparr>)"
      using "3.prems" by (subst client_sem_wait.simps) (simp add: watcher_called_def global_watcher_def)
    then show ?thesis using True by (simp add: client_sem_wait.simps [of evs] global_watcher_def)
  next
    case False
    then have "client_sem_wait (ev # evs) c = client_sem_wait evs c"
      using "3.prems" by (simp add: client_sem_wait.simps [of "ev # evs"] watcher_called_def)
    moreover have g: "global_watcher ev 0 = 0" using False by (simp add: global_watcher_def)
    ultimately show ?thesis using "3.IH" [of c] "3.prems" by (simp only: g sem_wait.simps)
  qed
qed

text \<open>With the object, \<open>Start\<close> ends as it does without.\<close>

lemma ZkClient_Start_refines:
  "ZkClient_Start ops cfg evs c =
     (case zk_Start ops cfg evs of
        (Zk_exit, _) \<Rightarrow> Start_exit
      | (Zk_blocked, _) \<Rightarrow> Start_blocked (c\<lparr>zc_handle := True, zc_open := zc_open c + 1, zc_sem := Some 0\<rparr>)
      | (Zk_connected, _) \<Rightarrow>
          Started (the (sem_wait 0 evs)) (c\<lparr>zc_handle := True, zc_open := zc_open c + 1, zc_sem := None\<rparr>))"
  by (simp add: ZkClient_Start_def zk_Start_def Let_def client_sem_wait_sim [of _ 0] split: option.split)

lemma late_events:
  "zc_sem c = None \<Longrightarrow>
   fold watcher_called evs c = c\<lparr>zc_dead_posts := zc_dead_posts c + count_list evs Session_connected\<rparr>"
  by (induction evs arbitrary: c) (simp_all add: watcher_called_def)

section \<open>Property\<close>

text \<open>
  Property (C40). A session that connects again corrupts memory: a client whose \<open>Start\<close> returns
  gives its session back when it is destroyed, and until then every further connected event (the
  session of a provider that runs for long reconnects) posts the semaphore of \<open>Start\<close>, which has
  been destroyed and whose stack frame is gone; with no such event nothing dead is touched.
\<close>

theorem reconnect_posts_dead_semaphore:
  assumes "zk_Start ops cfg evs = (Zk_connected, z)"
  shows "\<exists>rest c. ZkClient_Start ops cfg evs ZkClient_construct = Started rest c \<and> zc_open c = 1 \<and>
    (\<exists>before. evs = before @ Session_connected # rest \<and> Session_connected \<notin> set before) \<and>
    (\<exists>c'. client_scope ops cfg evs = Some c' \<and> zc_open c' = 0 \<and>
      zc_dead_posts c' = count_list rest Session_connected)"
proof -
  obtain rest where w: "sem_wait 0 evs = Some rest"
    using assms by (auto simp: zk_Start_def Let_def split: option.splits)
  have pre: "\<exists>before. evs = before @ Session_connected # rest \<and> Session_connected \<notin> set before" using w
  proof (induction evs)
    case (Cons ev evs)
    show ?case
    proof (cases "ev = Session_connected")
      case True
      with Cons.prems have "rest = evs" by (simp add: global_watcher_def)
      with True show ?thesis by (intro exI [of _ "[]"]) simp
    next
      case False
      with Cons.prems have "sem_wait 0 evs = Some rest" by (simp add: global_watcher_def)
      then obtain before where "evs = before @ Session_connected # rest" "Session_connected \<notin> set before"
        using Cons.IH by blast
      with False show ?thesis by (intro exI [of _ "ev # before"]) auto
    qed
  qed simp
  let ?c = "ZkClient_construct\<lparr>zc_handle := True, zc_open := 1, zc_sem := None\<rparr>"
  have s: "ZkClient_Start ops cfg evs ZkClient_construct = Started rest ?c"
    using assms w by (simp add: ZkClient_Start_refines ZkClient_construct_def)
  then have "client_scope ops cfg evs = Some (ZkClient_destruct (fold watcher_called rest ?c))"
    by (simp add: client_scope_def)
  with s pre show ?thesis by (simp add: late_events ZkClient_destruct_def ZkClient_construct_def)
qed

lemma reconnect_posts_dead_semaphore_witness:
  "\<exists>c'. client_scope map_zk \<lparr>config_map = (\<lambda>_. None)\<rparr>
      [Session_other, Session_connected, Node_event, Session_other, Session_connected] = Some c' \<and>
    zc_dead_posts c' = 1"
proof -
  let ?evs = "[Session_other, Session_connected, Node_event, Session_other, Session_connected]"
  have s: "zk_Start map_zk \<lparr>config_map = (\<lambda>_. None)\<rparr> ?evs = (Zk_connected, Some (\<lambda>_. None))"
    by (simp add: zk_Start_def map_zk_def global_watcher_def Let_def)
  obtain rest c' before where r: "?evs = before @ Session_connected # rest" "Session_connected \<notin> set before"
      "client_scope map_zk \<lparr>config_map = (\<lambda>_. None)\<rparr> ?evs = Some c'" "zc_dead_posts c' = count_list rest Session_connected"
    using reconnect_posts_dead_semaphore [OF s] by blast
  have "rest = [Node_event, Session_other, Session_connected]"
    using r(1,2) by (auto simp: Cons_eq_append_conv)
  with r(3,4) show ?thesis by auto
qed

end
