(* ===== verification/NetReactor.thy ===== *)
theory NetReactor
  imports NetConnection
begin

text \<open>
  One loop thread with its poller and the connections it owns: the body of \<^verbatim>\<open>EventLoop::loop\<close> that
  polls and lets each active channel call its connection (\<^verbatim>\<open>EventLoop.cpp\<close>, \<^verbatim>\<open>Channel.cpp\<close>, the
  callbacks set in the constructor of \<^verbatim>\<open>TcpConnection.cpp\<close>). A connection's channel lives in the
  poller's store; what a connection asks of it goes through \<^verbatim>\<open>Channel::update\<close> to the poller and
  the kernel.
\<close>

section \<open>The loop thread\<close>

record 'k reactor =
  re_poll :: "'k poll_world"
  re_conns :: "chan_ptr \<rightharpoonup> tcp_conn"

text \<open>The requests among the events of a connection, carried out by the poller.\<close>

fun carry_out ::
  "('k \<Rightarrow> epoll_ctl \<Rightarrow> bool \<times> 'k) \<Rightarrow> chan_ptr \<Rightarrow> conn_event list \<Rightarrow> 'k poll_world \<Rightarrow> 'k poll_world" where
  "carry_out ctl p [] w = w"
| "carry_out ctl p (E_request i # es) w = carry_out ctl p es (channel_request ctl i p w)"
| "carry_out ctl p (E_remove # es) w = carry_out ctl p es (removeChannel ctl p w)"
| "carry_out ctl p (_ # es) w = carry_out ctl p es w"

text \<open>An operation of the connection at \<open>p\<close>, with its effect on the poller.\<close>

definition on_conn ::
  "('k \<Rightarrow> epoll_ctl \<Rightarrow> bool \<times> 'k) \<Rightarrow> chan_ptr \<Rightarrow> conn_op \<Rightarrow> 'k reactor \<Rightarrow> buf_error + 'k reactor" where
  "on_conn ctl p f r =
     (case re_conns r p of
        None \<Rightarrow> Inr r
      | Some c \<Rightarrow> bind_res (f c) (\<lambda>c'. Inr (r\<lparr>re_conns := (re_conns r)(p \<mapsto> c'),
          re_poll := carry_out ctl p (drop (length (tc_trace c)) (tc_trace c')) (re_poll r)\<rparr>)))"

text \<open>The kernel's answers to the calls a connection's handlers may make in one event.\<close>

type_synonym io_answers = "(errno + bytes) \<times> write_result"

text \<open>The constructor of \<open>TcpConnection\<close> sets all four callbacks of its channel.\<close>

fun conn_callback :: "conn_callbacks \<Rightarrow> io_answers \<Rightarrow> chan_callback \<Rightarrow> conn_op" where
  "conn_callback cbs io Cb_close c = handleClose cbs c"
| "conn_callback cbs io Cb_error c = Inr (handleError c)"
| "conn_callback cbs io Cb_read c = conn_handleRead cbs (\<lambda>m. map_sum id (take m) (fst io)) c"
| "conn_callback cbs io Cb_write c = handleWrite cbs (snd io) c"

fun run_callbacks ::
  "('k \<Rightarrow> epoll_ctl \<Rightarrow> bool \<times> 'k) \<Rightarrow> conn_callbacks \<Rightarrow> io_answers \<Rightarrow> chan_ptr \<Rightarrow> chan_callback list
     \<Rightarrow> 'k reactor \<Rightarrow> buf_error + 'k reactor" where
  "run_callbacks ctl cbs io p [] r = Inr r"
| "run_callbacks ctl cbs io p (k # ks) r =
     bind_res (on_conn ctl p (conn_callback cbs io k) r) (run_callbacks ctl cbs io p ks)"

definition dispatch ::
  "('k \<Rightarrow> epoll_ctl \<Rightarrow> bool \<times> 'k) \<Rightarrow> conn_callbacks \<Rightarrow> io_answers \<Rightarrow> chan_ptr
     \<Rightarrow> 'k reactor \<Rightarrow> buf_error + 'k reactor" where
  "dispatch ctl cbs io p r =
     run_callbacks ctl cbs io p (handleEvent (\<lambda>_. True) (re_conns r p \<noteq> None) (pw_heap (re_poll r) p)) r"

fun dispatch_all ::
  "('k \<Rightarrow> epoll_ctl \<Rightarrow> bool \<times> 'k) \<Rightarrow> conn_callbacks \<Rightarrow> (chan_ptr \<Rightarrow> io_answers) \<Rightarrow> chan_ptr list
     \<Rightarrow> 'k reactor \<Rightarrow> buf_error + 'k reactor" where
  "dispatch_all ctl cbs io [] r = Inr r"
| "dispatch_all ctl cbs io (p # ps) r = bind_res (dispatch ctl cbs (io p) p r) (dispatch_all ctl cbs io ps)"

text \<open>One round of the loop, without the queued functions.\<close>

definition loop_round ::
  "('k \<Rightarrow> epoll_ctl \<Rightarrow> bool \<times> 'k) \<Rightarrow> ('k \<Rightarrow> nat \<Rightarrow> errno + (chan_ptr \<times> u32) list) \<Rightarrow> conn_callbacks
     \<Rightarrow> (chan_ptr \<Rightarrow> io_answers) \<Rightarrow> 'k reactor \<Rightarrow> buf_error + 'k reactor" where
  "loop_round ctl wait cbs io r =
     (case poller_poll wait (re_poll r) of (w, active) \<Rightarrow> dispatch_all ctl cbs io active (r\<lparr>re_poll := w\<rparr>))"

text \<open>
  A new connection on this loop: its channel is a new object, its descriptor one that no other
  connection has, and \<open>connectEstablished\<close> runs (the tie it makes is there from the start). A
  connection is released once its channel is out of the poller. Everything else that happens is a
  call of a function of a connection, or a round of the loop.
\<close>

datatype reactor_input =
    R_accept chan_ptr fd
  | R_call chan_ptr conn_input
  | R_round "chan_ptr \<Rightarrow> io_answers"
  | R_release chan_ptr

definition fresh :: "chan_ptr \<Rightarrow> fd \<Rightarrow> 'k reactor \<Rightarrow> bool" where
  "fresh p fd r \<longleftrightarrow> re_conns r p = None \<and> (\<forall>q c. re_conns r q = Some c \<longrightarrow> ch_fd (tc_channel c) \<noteq> fd)"

fun reactor_step ::
  "('k \<Rightarrow> epoll_ctl \<Rightarrow> bool \<times> 'k) \<Rightarrow> ('k \<Rightarrow> nat \<Rightarrow> errno + (chan_ptr \<times> u32) list) \<Rightarrow> conn_callbacks
     \<Rightarrow> reactor_input \<Rightarrow> 'k reactor \<Rightarrow> buf_error + 'k reactor" where
  "reactor_step ctl wait cbs (R_accept p fd) r =
     (if fresh p fd r then
        bind_res (new_buffer kInitialSize) (\<lambda>b.
          on_conn ctl p (connectEstablished cbs)
            (r\<lparr>re_conns := (re_conns r)(p \<mapsto> new_connection fd b b),
               re_poll := modify_channel p (\<lambda>_. tie (new_channel fd)) (re_poll r)\<rparr>))
      else Inr r)"
| "reactor_step ctl wait cbs (R_call p inp) r = on_conn ctl p (conn_step cbs inp) r"
| "reactor_step ctl wait cbs (R_round io) r = loop_round ctl wait cbs io r"
| "reactor_step ctl wait cbs (R_release p) r =
     Inr (if ch_index (pw_heap (re_poll r) p) = kNew then r\<lparr>re_conns := (re_conns r)(p := None)\<rparr> else r)"

fun reactor_run ::
  "('k \<Rightarrow> epoll_ctl \<Rightarrow> bool \<times> 'k) \<Rightarrow> ('k \<Rightarrow> nat \<Rightarrow> errno + (chan_ptr \<times> u32) list) \<Rightarrow> conn_callbacks
     \<Rightarrow> reactor_input list \<Rightarrow> 'k reactor \<Rightarrow> buf_error + 'k reactor" where
  "reactor_run ctl wait cbs [] r = Inr r"
| "reactor_run ctl wait cbs (x # xs) r = bind_res (reactor_step ctl wait cbs x r) (reactor_run ctl wait cbs xs)"

definition new_reactor :: "(chan_ptr \<Rightarrow> channel) \<Rightarrow> 'k \<Rightarrow> 'k reactor" where
  "new_reactor heap k = \<lparr>re_poll = new_poller heap k, re_conns = (\<lambda>_. None)\<rparr>"

section \<open>What a connection asks for\<close>

definition interest_bits :: "interest \<Rightarrow> u32 \<Rightarrow> u32" where
  "interest_bits i e = ch_events (set_interest i ((new_channel 0)\<lparr>ch_events := e\<rparr>))"

lemma events_set_interest: "ch_events (set_interest i c) = interest_bits i (ch_events c)"
  by (simp add: interest_bits_def set_interest_def split: interest.splits)

lemma interest_bits_none [simp]: "interest_bits Disable_all e = 0"
  by (simp add: interest_bits_def set_interest_def knoEvent_def)

fun asked :: "conn_event list \<Rightarrow> u32 \<Rightarrow> u32" where
  "asked [] e = e"
| "asked (E_request i # es) e = asked es (interest_bits i e)"
| "asked (_ # es) e = asked es e"

text \<open>A channel is removed only when it asks for nothing.\<close>

fun quiet_removes :: "conn_event list \<Rightarrow> u32 \<Rightarrow> bool" where
  "quiet_removes [] e = True"
| "quiet_removes (E_request i # es) e = quiet_removes es (interest_bits i e)"
| "quiet_removes (E_remove # es) e \<longleftrightarrow> e = 0 \<and> quiet_removes es e"
| "quiet_removes (_ # es) e = quiet_removes es e"

lemma asked_append [simp]: "asked (es @ fs) e = asked fs (asked es e)"
  by (induction es e rule: asked.induct) simp_all

lemma quiet_removes_append [simp]:
  "quiet_removes (es @ fs) e \<longleftrightarrow> quiet_removes es e \<and> quiet_removes fs (asked es e)"
  by (induction es e rule: quiet_removes.induct) simp_all

lemma carry_out_append [simp]: "carry_out ctl p (es @ fs) w = carry_out ctl p fs (carry_out ctl p es w)"
  by (induction ctl p es w rule: carry_out.induct) simp_all

text \<open>\<open>c'\<close> comes from \<open>c\<close> by steps whose requests are all in its trace.\<close>

definition follows :: "tcp_conn \<Rightarrow> tcp_conn \<Rightarrow> bool" where
  "follows c c' \<longleftrightarrow> (\<exists>es. tc_trace c' = tc_trace c @ es \<and>
     ch_events (tc_channel c') = asked es (ch_events (tc_channel c)) \<and>
     quiet_removes es (ch_events (tc_channel c)) \<and> ch_fd (tc_channel c') = ch_fd (tc_channel c))"

definition op_follows :: "conn_op \<Rightarrow> bool" where
  "op_follows f \<longleftrightarrow> (\<forall>c c'. f c = Inr c' \<longrightarrow> follows c c')"

definition cbs_follow :: "conn_callbacks \<Rightarrow> bool" where
  "cbs_follow cbs \<longleftrightarrow> (\<forall>f \<in> {cb_connection cbs, cb_message cbs, cb_write_complete cbs, cb_close cbs}.
     \<forall>g. f = Some g \<longrightarrow> op_follows g)"

lemma follows_refl [simp]: "follows c c"
  by (simp add: follows_def)

lemma follows_trans [trans]: "follows a b \<Longrightarrow> follows b c \<Longrightarrow> follows a c"
  by (force simp: follows_def)

lemma follows_frame [simp]:
  "follows c (c'\<lparr>tc_input := b\<rparr>) = follows c c'" "follows c (c'\<lparr>tc_output := b\<rparr>) = follows c c'"
  "follows c (c'\<lparr>tc_queue := q\<rparr>) = follows c c'" "follows c (setState s c') = follows c c'"
  "follows (c\<lparr>tc_input := b\<rparr>) c' = follows c c'" "follows (c\<lparr>tc_output := b\<rparr>) c' = follows c c'"
  "follows (c\<lparr>tc_queue := q\<rparr>) c' = follows c c'" "follows (setState s c) c' = follows c c'"
  by (simp_all add: follows_def setState_def)

fun plain_event :: "conn_event \<Rightarrow> bool" where
  "plain_event (E_request i) = False"
| "plain_event E_remove = False"
| "plain_event _ = True"

lemma follows_emit: "plain_event e \<Longrightarrow> follows c c' \<Longrightarrow> follows c (emit e c')"
  by (cases e) (auto simp: follows_def)

lemma follows_request: "follows c c' \<Longrightarrow> follows c (request i c')"
  by (auto simp: follows_def events_set_interest)

lemma follows_call_back:
  assumes "call_back e f c1 = Inr c'" "follows c c1" "plain_event e" "\<And>g. f = Some g \<Longrightarrow> op_follows g"
  shows "follows c c'"
proof (cases f)
  case None
  with assms show ?thesis by (simp add: call_back_def)
next
  case (Some g)
  then have "follows (emit e c1) c'" using assms(1,4) by (simp add: call_back_def op_follows_def)
  with follows_emit [OF assms(3,2)] show ?thesis by (rule follows_trans)
qed

lemma cbs_followD:
  assumes "cbs_follow cbs"
  shows "cb_connection cbs = Some g \<Longrightarrow> op_follows g" "cb_message cbs = Some g \<Longrightarrow> op_follows g"
    "cb_write_complete cbs = Some g \<Longrightarrow> op_follows g" "cb_close cbs = Some g \<Longrightarrow> op_follows g"
  using assms by (simp_all add: cbs_follow_def)

lemmas follows_intros = follows_emit follows_request

section \<open>The connection's operations follow\<close>

lemma send_direct_follows:
  assumes "send_direct cbs wr d c = Inr (n, f, c')" "cbs_follow cbs"
  shows "follows c c'"
  using assms(1) follows_call_back [OF _ follows_emit [OF _ follows_refl]] cbs_followD(3) [OF assms(2)]
  by (auto simp: send_direct_def Let_def bind_res_eq_Inr split: if_splits sum.splits intro!: follows_emit)

lemma sendInLoop_follows:
  assumes "sendInLoop cbs wr d c = Inr c'" "cbs_follow cbs" shows "follows c c'"
proof (cases "tc_state c = kDisconnected")
  case True
  with assms(1) show ?thesis by (simp add: sendInLoop_def)
next
  case False
  then obtain n f c1 where s: "send_direct cbs wr d (emit (E_accepted d) c) = Inr (n, f, c1)"
      "send_rest n f d c1 = Inr c'"
    using assms(1) by (auto simp: sendInLoop_def bind_res_eq_Inr)
  have "follows c (emit (E_accepted d) c)" by (intro follows_emit) simp_all
  also have "follows \<dots> c1" using s(1) assms(2) by (rule send_direct_follows)
  also have "follows c1 c'"
    using s(2) by (auto simp: send_rest_def bind_res_eq_Inr Let_def intro: follows_request split: if_splits)
  finally show ?thesis .
qed

lemma shutdownInLoop_follows: "follows c c' \<Longrightarrow> follows c (shutdownInLoop c')"
  by (simp add: shutdownInLoop_def follows_emit)

lemma handleClose_follows:
  assumes "handleClose cbs c = Inr c'" "cbs_follow cbs" shows "follows c c'"
proof -
  obtain c1 where c1: "call_back (E_connection_cb False) (cb_connection cbs) (setState kDisconnected c) = Inr c1"
      "call_back E_close_cb (cb_close cbs) c1 = Inr c'"
    using assms(1) by (auto simp: handleClose_def bind_res_eq_Inr connected_def setState_def)
  have "follows c c1" using c1(1) by (rule follows_call_back) (simp_all add: cbs_followD(1) [OF assms(2)])
  with c1(2) show ?thesis by (rule follows_call_back) (simp_all add: cbs_followD(4) [OF assms(2)])
qed

lemma conn_handleRead_follows:
  assumes "conn_handleRead cbs readv c = Inr c'" "cbs_follow cbs" shows "follows c c'"
proof -
  obtain b q where b: "readFd readv (tc_input c) = Inr (b, q)"
      "(case q of Inl e \<Rightarrow> Inr (handleError (c\<lparr>tc_input := b\<rparr>))
        | Inr n \<Rightarrow> if n > 0 then call_back E_message_cb (cb_message cbs) (c\<lparr>tc_input := b\<rparr>)
            else handleClose cbs (c\<lparr>tc_input := b\<rparr>)) = Inr c'"
    using assms(1) by (auto simp: conn_handleRead_def bind_res_eq_Inr Let_def)
  have m: "follows c c'" if "call_back E_message_cb (cb_message cbs) (c\<lparr>tc_input := b\<rparr>) = Inr c'"
    using that by (rule follows_call_back) (simp_all add: cbs_followD(2) [OF assms(2)])
  have cl: "follows c c'" if "handleClose cbs (c\<lparr>tc_input := b\<rparr>) = Inr c'"
    using handleClose_follows [OF that assms(2)] by simp
  show ?thesis using b(2) m cl
    by (auto simp: handleError_def intro!: follows_emit split: sum.splits if_splits)
qed

lemma handleWrite_follows:
  assumes "handleWrite cbs wr c = Inr c'" "cbs_follow cbs" shows "follows c c'"
proof -
  let ?data = "readable_data (tc_output c)"
  have drained: "follows c c'"
    if res: "bind_res (call_back E_write_complete_cb (cb_write_complete cbs) (request Disable_write c1))
        (\<lambda>c2. Inr (if tc_state c2 = kDisconnecting then shutdownInLoop c2 else c2)) = Inr c'"
      and fol: "follows c c1" for c1
  proof -
    obtain c2 where c2: "call_back E_write_complete_cb (cb_write_complete cbs) (request Disable_write c1) = Inr c2"
        "c' = (if tc_state c2 = kDisconnecting then shutdownInLoop c2 else c2)"
      using res by (auto simp: bind_res_eq_Inr)
    have "follows c c2" using c2(1)
      by (rule follows_call_back) (simp_all add: follows_request fol cbs_followD(3) [OF assms(2)])
    then show ?thesis by (simp add: c2(2) shutdownInLoop_follows)
  qed
  have took: "follows c (emit (E_written d) c)" for d by (intro follows_emit) simp_all
  show ?thesis using assms(1)
    by (auto simp: handleWrite_def Let_def took intro!: follows_emit dest!: drained split: if_splits sum.splits)
qed

lemma connectDestroyed_follows: "follows c (connectDestroyed c)"
proof -
  have r: "follows c (emit E_remove (request Disable_all c'))" if "follows c c'" for c'
    using that by (auto simp: follows_def events_set_interest)
  show ?thesis by (simp add: connectDestroyed_def Let_def r)
qed

lemma connectEstablished_follows:
  assumes "connectEstablished cbs c = Inr c'" "cbs_follow cbs" shows "follows c c'"
proof -
  let ?c = "request Able_read ((setState kConnected c)\<lparr>tc_channel := tie (tc_channel c)\<rparr>)"
  have t: "follows c ((setState kConnected c)\<lparr>tc_channel := tie (tc_channel c)\<rparr>)"
    by (simp add: follows_def tie_def setState_def)
  have "call_back (E_connection_cb True) (cb_connection cbs) ?c = Inr c'"
    using assms(1) by (simp add: connectEstablished_def Let_def connected_def setState_def)
  then show ?thesis
    by (rule follows_call_back) (simp_all add: follows_request t cbs_followD(1) [OF assms(2)])
qed

lemma conn_step_follows: "cbs_follow cbs \<Longrightarrow> op_follows (conn_step cbs i)"
  unfolding op_follows_def
proof (intro allI impI)
  fix c c' assume cbs: "cbs_follow cbs" and ret: "conn_step cbs i c = Inr c'"
  show "follows c c'"
  proof (cases i)
    case (I_send t d wr)
    with ret cbs show ?thesis by (auto simp: conn_send_def intro: sendInLoop_follows split: if_splits)
  next
    case (I_shutdown t)
    with ret show ?thesis by (auto simp: conn_shutdown_def Let_def shutdownInLoop_follows)
  next
    case (I_deferred wr)
    show ?thesis
    proof (cases "tc_queue c")
      case (Cons d ds)
      then have "run_deferred cbs wr d (c\<lparr>tc_queue := ds\<rparr>) = Inr c'" using ret I_deferred by simp
      then have "follows (c\<lparr>tc_queue := ds\<rparr>) c'"
        using cbs by (cases d) (auto dest: sendInLoop_follows intro: shutdownInLoop_follows)
      then show ?thesis by simp
    qed (use ret I_deferred in simp)
  qed (use ret cbs in \<open>auto simp: handleError_def intro: conn_handleRead_follows handleWrite_follows handleClose_follows
      connectDestroyed_follows follows_emit\<close>)
qed

lemma conn_callback_follows: "cbs_follow cbs \<Longrightarrow> op_follows (conn_callback cbs io k)"
  by (cases k) (auto simp: op_follows_def handleError_def
      intro: handleClose_follows conn_handleRead_follows handleWrite_follows follows_emit)

lemma conn_callback_keeps:
  assumes "cbs_keep cbs" shows "op_keeps (conn_callback cbs io k)"
  unfolding op_keeps_def
proof (intro allI impI)
  fix c c' assume c: "conn_inv c" and ret: "conn_callback cbs io k c = Inr c'"
  have b: "length d \<le> m" if "map_sum id (take m) (fst io) = Inr d" for m d using that by (cases "fst io") auto
  show "conn_inv c'"
    using ret c assms conn_handleRead_inv [OF c assms, of "\<lambda>m. map_sum id (take m) (fst io)"] b
    by (cases k) (auto simp: handleError_def intro: handleClose_inv handleWrite_inv conn_inv_emit)
qed

section \<open>The invariant of the loop thread\<close>

definition watched ::
  "('k \<Rightarrow> (fd \<rightharpoonup> u32 \<times> chan_ptr)) \<Rightarrow> 'k reactor \<Rightarrow> bool" where
  "watched interest r \<longleftrightarrow> poll_inv interest (dom (re_conns r)) (re_poll r) \<and>
     (\<forall>p c. re_conns r p = Some c \<longrightarrow> conn_inv c \<and>
        ch_fd (pw_heap (re_poll r) p) = ch_fd (tc_channel c) \<and>
        ch_events (pw_heap (re_poll r) p) = ch_events (tc_channel c) \<and>
        (ch_events (tc_channel c) \<noteq> 0 \<longrightarrow> ch_index (pw_heap (re_poll r) p) = kAdded))"

lemma poller_update_frame [simp]:
  "pw_heap (poller_update ctl op p w) = pw_heap w" "pw_channels (poller_update ctl op p w) = pw_channels w"
  by (simp_all add: poller_update_def Let_def split: prod.splits)

lemma channel_request_heap:
  "pw_heap (channel_request ctl i p w) q =
     (if q = p then Setindex (if ch_index (pw_heap w p) = kNew \<or> ch_index (pw_heap w p) = kDeleted then kAdded
        else if interest_bits i (ch_events (pw_heap w p)) = 0 then kDeleted else ch_index (pw_heap w p))
        (set_interest i (pw_heap w p)) else pw_heap w q)"
  by (simp add: channel_request_def updateChannel_def Let_def isnoall_def knoEvent_def events_set_interest [symmetric])
     (simp add: Setindex_def)

lemma removeChannel_heap:
  "pw_heap (removeChannel ctl p w) q = (if q = p then Setindex kNew (pw_heap w p) else pw_heap w q)"
  by (simp add: removeChannel_def Let_def)

lemma carry_out_ok:
  assumes ok: "epoll_ok ctl interest" and p: "p \<in> P"
  shows "poll_inv interest P w \<Longrightarrow> quiet_removes es (ch_events (pw_heap w p)) \<Longrightarrow>
    (ch_events (pw_heap w p) \<noteq> 0 \<longrightarrow> ch_index (pw_heap w p) = kAdded) \<Longrightarrow>
    (let w' = carry_out ctl p es w in poll_inv interest P w' \<and> pw_errors w' = pw_errors w \<and>
      ch_fd (pw_heap w' p) = ch_fd (pw_heap w p) \<and> ch_events (pw_heap w' p) = asked es (ch_events (pw_heap w p)) \<and>
      (ch_events (pw_heap w' p) \<noteq> 0 \<longrightarrow> ch_index (pw_heap w' p) = kAdded) \<and>
      (\<forall>q. q \<noteq> p \<longrightarrow> pw_heap w' q = pw_heap w q))"
proof (induction es arbitrary: w)
  case (Cons e es)
  show ?case
  proof (cases e)
    case (E_request i)
    let ?w = "channel_request ctl i p w"
    have "ch_index (pw_heap w p) = kNew \<or> ch_index (pw_heap w p) = kAdded \<or> ch_index (pw_heap w p) = kDeleted"
      using poll_invD(2) [OF Cons.prems(1) p] .
    then have "ch_events (pw_heap ?w p) = interest_bits i (ch_events (pw_heap w p))"
      "ch_events (pw_heap ?w p) \<noteq> 0 \<longrightarrow> ch_index (pw_heap ?w p) = kAdded"
      by (auto simp: channel_request_heap events_set_interest)
    with Cons.IH [OF channel_request_inv(1) [OF ok Cons.prems(1) p]] Cons.prems(2) E_request
      channel_request_inv(2) [OF ok Cons.prems(1) p]
    show ?thesis by (simp add: Let_def channel_request_heap)
  next
    case E_remove
    let ?w = "removeChannel ctl p w"
    from Cons.IH [OF removeChannel_inv(1) [OF ok Cons.prems(1) p]] Cons.prems(2) E_remove
      removeChannel_inv(2) [OF ok Cons.prems(1) p]
    show ?thesis by (auto simp: Let_def removeChannel_heap)
  qed (use Cons in simp_all)
qed simp

lemma on_conn_watched:
  assumes ok: "epoll_ok ctl interest" and r: "watched interest r"
    and f: "op_follows f" "\<And>c c'. conn_inv c \<Longrightarrow> f c = Inr c' \<Longrightarrow> conn_inv c'"
    and ret: "on_conn ctl p f r = Inr r'"
  shows "watched interest r' \<and> pw_errors (re_poll r') = pw_errors (re_poll r)"
proof (cases "re_conns r p")
  case None
  with r ret show ?thesis by (simp add: on_conn_def)
next
  case (Some c)
  then obtain c' where c': "f c = Inr c'" "r' = r\<lparr>re_conns := (re_conns r)(p \<mapsto> c'),
      re_poll := carry_out ctl p (drop (length (tc_trace c)) (tc_trace c')) (re_poll r)\<rparr>"
    using ret by (auto simp: on_conn_def bind_res_eq_Inr)
  obtain es where es: "tc_trace c' = tc_trace c @ es" "ch_events (tc_channel c') = asked es (ch_events (tc_channel c))"
      "quiet_removes es (ch_events (tc_channel c))" "ch_fd (tc_channel c') = ch_fd (tc_channel c)"
    using f(1) c'(1) by (auto simp: op_follows_def follows_def)
  let ?w = "re_poll r"
  have w: "poll_inv interest (dom (re_conns r)) ?w" "conn_inv c" "ch_fd (pw_heap ?w p) = ch_fd (tc_channel c)"
      "ch_events (pw_heap ?w p) = ch_events (tc_channel c)"
      "ch_events (pw_heap ?w p) \<noteq> 0 \<longrightarrow> ch_index (pw_heap ?w p) = kAdded"
    using r Some by (auto simp: watched_def)
  have p: "p \<in> dom (re_conns r)" using Some by blast
  have q: "quiet_removes es (ch_events (pw_heap ?w p))" using es(3) w(4) by simp
  note out = carry_out_ok [OF ok p w(1) q w(5), unfolded Let_def]
  have "conn_inv c'" using f(2) [OF w(2) c'(1)] .
  with out r show ?thesis
    unfolding c'(2) watched_def by (auto simp: insert_absorb [OF p] es w(3,4))
qed

lemma callbacks_watched:
  assumes ok: "epoll_ok ctl interest" and cbs: "cbs_keep cbs" "cbs_follow cbs"
  shows "watched interest r \<Longrightarrow> run_callbacks ctl cbs io p ks r = Inr r' \<Longrightarrow>
    watched interest r' \<and> pw_errors (re_poll r') = pw_errors (re_poll r)"
proof (induction ks arbitrary: r)
  case (Cons k ks)
  then obtain r1 where r1: "on_conn ctl p (conn_callback cbs io k) r = Inr r1" "run_callbacks ctl cbs io p ks r1 = Inr r'"
    by (auto simp: bind_res_eq_Inr)
  have keeps: "conn_inv c \<Longrightarrow> conn_callback cbs io k c = Inr c' \<Longrightarrow> conn_inv c'" for c c'
    using conn_callback_keeps [OF cbs(1)] by (simp add: op_keeps_def)
  from on_conn_watched [OF ok Cons.prems(1) conn_callback_follows [OF cbs(2)] keeps r1(1)] Cons.IH [OF _ r1(2)]
  show ?case by simp
qed simp

lemma dispatch_all_watched:
  assumes ok: "epoll_ok ctl interest" and cbs: "cbs_keep cbs" "cbs_follow cbs"
  shows "watched interest r \<Longrightarrow> dispatch_all ctl cbs io ps r = Inr r' \<Longrightarrow>
    watched interest r' \<and> pw_errors (re_poll r') = pw_errors (re_poll r)"
proof (induction ps arbitrary: r)
  case (Cons p ps)
  then obtain r1 where r1: "dispatch ctl cbs (io p) p r = Inr r1" "dispatch_all ctl cbs io ps r1 = Inr r'"
    by (auto simp: bind_res_eq_Inr)
  from callbacks_watched [OF assms Cons.prems(1) r1(1) [unfolded dispatch_def]] Cons.IH [OF _ r1(2)]
  show ?case by simp
qed simp

lemma fillActiveChannels_fields:
  "ch_fd (pw_heap (fst (fillActiveChannels evs w)) p) = ch_fd (pw_heap w p)"
  "ch_events (pw_heap (fst (fillActiveChannels evs w)) p) = ch_events (pw_heap w p)"
  "ch_index (pw_heap (fst (fillActiveChannels evs w)) p) = ch_index (pw_heap w p)"
  by (induction evs w rule: fillActiveChannels.induct) (simp_all add: split_beta)

lemma poller_poll_fields:
  "ch_fd (pw_heap (fst (poller_poll wait w)) p) = ch_fd (pw_heap w p)"
  "ch_events (pw_heap (fst (poller_poll wait w)) p) = ch_events (pw_heap w p)"
  "ch_index (pw_heap (fst (poller_poll wait w)) p) = ch_index (pw_heap w p)"
  by (simp_all add: poller_poll_def Let_def split_beta fillActiveChannels_fields split: sum.splits)

lemma poll_watched:
  assumes "watched interest r"
  shows "watched interest (r\<lparr>re_poll := fst (poller_poll wait (re_poll r))\<rparr>)"
    and "pw_errors (fst (poller_poll wait (re_poll r))) = pw_errors (re_poll r)"
  using assms poller_poll_ok [of interest "dom (re_conns r)" "re_poll r" wait]
  by (simp_all add: watched_def poller_poll_fields)

lemma accept_watched:
  assumes r: "watched interest r" and new: "fresh p fd r" and b: "buf_inv b" "content b = []"
  shows "watched interest (r\<lparr>re_conns := (re_conns r)(p \<mapsto> new_connection fd b b),
    re_poll := modify_channel p (\<lambda>_. tie (new_channel fd)) (re_poll r)\<rparr>)"
proof -
  let ?w = "re_poll r" and ?P = "dom (re_conns r)"
  have inv: "poll_inv interest ?P ?w" using r by (simp add: watched_def)
  have p: "p \<notin> ?P" using new by (auto simp: fresh_def)
  have other: "ch_fd (pw_heap ?w q) \<noteq> fd" if q: "q \<in> ?P" for q
  proof -
    from q obtain c where c: "re_conns r q = Some c" by blast
    then have "ch_fd (pw_heap ?w q) = ch_fd (tc_channel c)" using r by (simp add: watched_def)
    then show ?thesis using new c by (simp add: fresh_def)
  qed
  have ch: "ch_fd (tie (new_channel fd)) = fd" "ch_index (tie (new_channel fd)) = kNew" "ch_events (tie (new_channel fd)) = 0"
    by (simp_all add: tie_def new_channel_def kNew_def)
  have conn: "ch_fd (tc_channel (new_connection fd b b)) = fd" "ch_events (tc_channel (new_connection fd b b)) = 0"
    by (simp_all add: new_connection_def new_channel_def)
  have inj: "inj_on (\<lambda>q. ch_fd (pw_heap (modify_channel p (\<lambda>_. tie (new_channel fd)) ?w) q)) (insert p ?P)"
    using inv other p unfolding poll_inv_def inj_on_def by (simp add: ch) metis
  have idx: "\<forall>q\<in>insert p ?P. ch_index (pw_heap (modify_channel p (\<lambda>_. tie (new_channel fd)) ?w) q) \<in> {kNew, kAdded, kDeleted}"
    using inv by (simp add: poll_inv_def ch)
  have "poll_inv interest (insert p ?P) (modify_channel p (\<lambda>_. tie (new_channel fd)) ?w)"
    unfolding poll_inv_def
    using inj idx p poll_invD(3,4) [OF inv] by (auto simp: ch index_defs)
  then show ?thesis
    using r new_connection_inv [OF b(1,1,2), of fd] by (auto simp: watched_def ch conn)
qed

lemma release_watched:
  assumes r: "watched interest r" and idx: "ch_index (pw_heap (re_poll r) p) = kNew"
  shows "watched interest (r\<lparr>re_conns := (re_conns r)(p := None)\<rparr>)"
proof -
  have inv: "poll_inv interest (dom (re_conns r)) (re_poll r)" using r by (simp add: watched_def)
  have "poll_inv interest (dom (re_conns r) - {p}) (re_poll r)"
    using inv idx unfolding poll_inv_def by (auto simp: index_defs inj_on_diff)
  with r show ?thesis by (auto simp: watched_def)
qed

fun reactor_input_ok :: "reactor_input \<Rightarrow> bool" where
  "reactor_input_ok (R_call p i) \<longleftrightarrow> input_ok i"
| "reactor_input_ok _ \<longleftrightarrow> True"

lemma new_buffer_default: "new_buffer kInitialSize = Inr b \<Longrightarrow> buf_inv b \<and> content b = []"
  by (auto simp: new_buffer_def vec_new_def buf_inv_def content_def sz_add_def
      sz_mod_def vec_max_def kCheapPrepend_def kInitialSize_def split: if_splits)

lemma reactor_step_watched:
  assumes ok: "epoll_ok ctl interest" and cbs: "cbs_keep cbs" "cbs_follow cbs"
    and r: "watched interest r" and x: "reactor_input_ok x" and ret: "reactor_step ctl wait cbs x r = Inr r'"
  shows "watched interest r' \<and> pw_errors (re_poll r') = pw_errors (re_poll r)"
proof (cases x)
  case (R_accept p fd)
  show ?thesis
  proof (cases "fresh p fd r")
    case True
    then obtain b where b: "new_buffer kInitialSize = Inr b" "on_conn ctl p (connectEstablished cbs)
          (r\<lparr>re_conns := (re_conns r)(p \<mapsto> new_connection fd b b),
             re_poll := modify_channel p (\<lambda>_. tie (new_channel fd)) (re_poll r)\<rparr>) = Inr r'"
      using ret R_accept by (auto simp: bind_res_eq_Inr)
    have f: "op_follows (connectEstablished cbs)"
      using connectEstablished_follows [OF _ cbs(2)] by (simp add: op_follows_def)
    have bi: "buf_inv b" "content b = []" using new_buffer_default [OF b(1)] by simp_all
    from on_conn_watched [OF ok accept_watched [OF r True bi] f connectEstablished_inv [OF _ cbs(1)] b(2)]
    show ?thesis by simp
  qed (use ret R_accept r in simp)
next
  case (R_call p i)
  then have i: "input_ok i" "on_conn ctl p (conn_step cbs i) r = Inr r'" using x ret by simp_all
  from on_conn_watched [OF ok r conn_step_follows [OF cbs(2)] conn_step_inv [OF _ cbs(1) i(1)] i(2)] show ?thesis .
next
  case (R_round io)
  let ?r = "r\<lparr>re_poll := fst (poller_poll wait (re_poll r))\<rparr>"
  have "dispatch_all ctl cbs io (snd (poller_poll wait (re_poll r))) ?r = Inr r'"
    using ret R_round by (simp add: loop_round_def split_beta)
  from dispatch_all_watched [OF ok cbs poll_watched(1) [OF r] this] poll_watched(2) [OF r] show ?thesis by simp
next
  case (R_release p)
  with ret r release_watched [OF r] show ?thesis by (auto split: if_splits)
qed

lemma reactor_run_watched:
  assumes "epoll_ok ctl interest" and "cbs_keep cbs" and "cbs_follow cbs"
  shows "watched interest r \<Longrightarrow> list_all reactor_input_ok xs \<Longrightarrow> reactor_run ctl wait cbs xs r = Inr r' \<Longrightarrow>
    watched interest r' \<and> pw_errors (re_poll r') = pw_errors (re_poll r)"
proof (induction xs arbitrary: r)
  case (Cons x xs)
  then obtain r1 where r1: "reactor_step ctl wait cbs x r = Inr r1" "reactor_run ctl wait cbs xs r1 = Inr r'"
    by (auto simp: bind_res_eq_Inr)
  from reactor_step_watched [OF assms Cons.prems(1) _ r1(1)] Cons.IH [OF _ _ r1(2)] Cons.prems(2) show ?case by simp
qed simp

section \<open>Draining\<close>

lemma handleWrite_drains:
  assumes "conn_inv c" and "iswrite (tc_channel c)" and "content (tc_output c) \<noteq> []"
    and "length (content (tc_output c)) \<le> n" and "cb_write_complete cbs = None"
  shows "\<exists>c'. handleWrite cbs (Inr n) c = Inr c' \<and> content (tc_output c') = [] \<and> \<not> iswrite (tc_channel c') \<and>
    tc_trace c' = tc_trace c @ [E_written (content (tc_output c)), E_request Disable_write] @
      (if tc_state c = kDisconnecting then [E_shutdown_write] else [])"
proof -
  have out: "buf_inv (tc_output c)" using assms(1) by (simp add: conn_inv_def unsent_def)
  let ?d = "content (tc_output c)"
  have k: "write_count n ?d = length ?d" using assms(4) by (simp add: write_count_def)
  have r: "content (retrieve (length ?d) (tc_output c)) = []" by (simp add: retrieve_content [OF out])
  then have "readableBytes (retrieve (length ?d) (tc_output c)) = 0"
    using length_content [OF retrieve_inv [OF out], of "length ?d"] by simp
  then show ?thesis
    using assms(2,3,5) k r
    by (simp add: handleWrite_def readable_data_content [OF out] Let_def call_back_def shutdownInLoop_def)
qed

lemma writable_only:
  "handleEvent (\<lambda>_. True) True (Setrevents EPOLLOUT c) = [Cb_write]"
  by (simp add: handleEvent_def handleEventGuard_def Setrevents_def epoll_flags)

lemma loop_round_writable:
  assumes w: "wait (pw_kernel (re_poll r)) (pw_nevents (re_poll r)) = Inr [(p, EPOLLOUT)]"
    and c: "re_conns r p = Some c" "handleWrite cbs (snd (io p)) c = Inr c'"
  shows "\<exists>r'. loop_round ctl wait cbs io r = Inr r' \<and> re_conns r' = (re_conns r)(p \<mapsto> c')"
proof -
  let ?w = "fst (poller_poll wait (re_poll r))"
  have a: "snd (poller_poll wait (re_poll r)) = [p]" "pw_heap ?w p = Setrevents EPOLLOUT (pw_heap (re_poll r) p)"
    using w by (simp_all add: poller_poll_def)
  show ?thesis
    using c by (simp add: loop_round_def split_beta a dispatch_def writable_only on_conn_def)
qed

text \<open>
  What a write event hands to the kernel: everything accepted so far, when the kernel takes as much
  as was waiting then.
\<close>

lemma append_take_prefix:
  assumes "x @ y = a @ b" "length a \<le> length x + n"
  shows "\<exists>z. x @ take n y = a @ z"
proof -
  have "x @ take n y = take (length x + n) (a @ b)" by (simp add: assms(1) [symmetric])
  also have "\<dots> = a @ take (length x + n - length a) b" using assms(2) by simp
  finally show ?thesis ..
qed

lemma handleWrite_written:
  assumes inv: "conn_inv c" and cbs: "cbs_follow cbs" and ret: "handleWrite cbs (Inr n) c = Inr c'"
    and ok: "intact (tc_trace c)"
  shows "\<exists>w. written (tc_trace c') = written (tc_trace c) @ take n (content (tc_output c)) @ w"
proof (cases "iswrite (tc_channel c) \<and> 0 < write_count n (content (tc_output c))")
  case False
  have out: "buf_inv (tc_output c)" using inv by (simp add: conn_inv_def unsent_def)
  have "take n (content (tc_output c)) = []"
    using False inv ok by (auto simp: conn_inv_def unsent_def write_count_def)
  moreover obtain es where "tc_trace c' = tc_trace c @ es"
    using handleWrite_follows [OF ret cbs] by (auto simp: follows_def)
  ultimately show ?thesis by (auto intro: exI [of _ "written es"])
next
  case True
  have out: "buf_inv (tc_output c)" using inv by (simp add: conn_inv_def unsent_def)
  let ?d = "content (tc_output c)"
  let ?k = "write_count n ?d"
  let ?c1 = "(emit (E_written (take ?k ?d)) c)\<lparr>tc_output := retrieve ?k (tc_output c)\<rparr>"
  have k: "take ?k ?d = take n ?d" by (simp add: write_count_def min_def)
  have "follows ?c1 c'"
  proof (cases "readableBytes (tc_output ?c1) = 0")
    case False
    with ret True show ?thesis by (simp add: handleWrite_def Let_def readable_data_content [OF out])
  next
    case empty: True
    obtain c2 where c2: "call_back E_write_complete_cb (cb_write_complete cbs) (request Disable_write ?c1) = Inr c2"
        "c' = (if tc_state c2 = kDisconnecting then shutdownInLoop c2 else c2)"
      using ret True empty by (auto simp: handleWrite_def Let_def bind_res_eq_Inr readable_data_content [OF out])
    have "follows ?c1 (request Disable_write ?c1)" by (rule follows_request) (rule follows_refl)
    from follows_call_back [OF c2(1) this _ cbs_followD(3) [OF cbs]] have "follows ?c1 c2" by simp
    then show ?thesis by (simp add: c2(2) shutdownInLoop_follows)
  qed
  then obtain es where "tc_trace c' = tc_trace c @ E_written (take n ?d) # es"
    by (auto simp: follows_def k)
  then show ?thesis by simp
qed

lemma handleWrite_prefix:
  assumes "conn_inv c" "cbs_follow cbs" "handleWrite cbs (Inr n) c = Inr c'" "intact (tc_trace c)"
    and "accepted (tc_trace c) = a @ b" "length a \<le> length (written (tc_trace c)) + n"
  shows "\<exists>z. written (tc_trace c') = a @ z"
proof -
  have "written (tc_trace c) @ content (tc_output c) = a @ b"
    using assms(1,4,5) by (simp add: conn_inv_def unsent_def)
  from append_take_prefix [OF this assms(6)] obtain z where
    z: "written (tc_trace c) @ take n (content (tc_output c)) = a @ z" ..
  from handleWrite_written [OF assms(1-4)] obtain w where
    "written (tc_trace c') = (written (tc_trace c) @ take n (content (tc_output c))) @ w" by auto
  then show ?thesis unfolding z by simp
qed

text \<open>Events of one connection leave the others, and their channels, alone.\<close>

lemma carry_out_other: "q \<noteq> p \<Longrightarrow> pw_heap (carry_out ctl q es w) p = pw_heap w p"
  by (induction ctl q es w rule: carry_out.induct) (simp_all add: channel_request_heap removeChannel_heap)

lemma on_conn_other:
  assumes "on_conn ctl q f r = Inr r'" "q \<noteq> p"
  shows "re_conns r' p = re_conns r p \<and> pw_heap (re_poll r') p = pw_heap (re_poll r) p"
  using assms by (auto simp: on_conn_def bind_res_eq_Inr carry_out_other split: option.splits)

lemma run_callbacks_other:
  "run_callbacks ctl cbs io q ks r = Inr r' \<Longrightarrow> q \<noteq> p \<Longrightarrow>
   re_conns r' p = re_conns r p \<and> pw_heap (re_poll r') p = pw_heap (re_poll r) p"
proof (induction ks arbitrary: r)
  case (Cons k ks)
  then obtain r1 where "on_conn ctl q (conn_callback cbs io k) r = Inr r1"
      "run_callbacks ctl cbs io q ks r1 = Inr r'"
    by (auto simp: bind_res_eq_Inr)
  with Cons.IH [of r1] Cons.prems(2) on_conn_other show ?case by metis
qed simp

lemma dispatch_all_other:
  "dispatch_all ctl cbs io ps r = Inr r' \<Longrightarrow> p \<notin> set ps \<Longrightarrow>
   re_conns r' p = re_conns r p \<and> pw_heap (re_poll r') p = pw_heap (re_poll r) p"
proof (induction ps arbitrary: r)
  case (Cons q ps)
  then obtain r1 where "dispatch ctl cbs (io q) q r = Inr r1" "dispatch_all ctl cbs io ps r1 = Inr r'"
    by (auto simp: bind_res_eq_Inr)
  with Cons.IH [of r1] Cons.prems(2) run_callbacks_other show ?case unfolding dispatch_def by fastforce
qed simp

lemma dispatch_all_append:
  "dispatch_all ctl cbs io (ps @ qs) r = bind_res (dispatch_all ctl cbs io ps r) (dispatch_all ctl cbs io qs)"
proof (induction ps arbitrary: r)
  case (Cons p ps)
  then show ?case by (cases "dispatch ctl cbs (io p) p r") simp_all
qed simp

lemma run_callbacks_append:
  "run_callbacks ctl cbs io p (ks @ ls) r =
     bind_res (run_callbacks ctl cbs io p ks r) (run_callbacks ctl cbs io p ls)"
proof (induction ks arbitrary: r)
  case (Cons k ks)
  then show ?case by (cases "on_conn ctl p (conn_callback cbs io k) r") simp_all
qed simp

lemma run_callbacks_conn:
  assumes "cbs_keep cbs" "cbs_follow cbs"
  shows "run_callbacks ctl cbs io p ks r = Inr r' \<Longrightarrow> re_conns r p = Some c \<Longrightarrow> conn_inv c \<Longrightarrow>
    \<exists>c'. re_conns r' p = Some c' \<and> follows c c' \<and> conn_inv c'"
proof (induction ks arbitrary: r c)
  case Nil
  then show ?case by simp
next
  case (Cons k ks)
  then obtain r1 where r1: "on_conn ctl p (conn_callback cbs io k) r = Inr r1"
      "run_callbacks ctl cbs io p ks r1 = Inr r'"
    by (auto simp: bind_res_eq_Inr)
  then obtain c1 where c1: "conn_callback cbs io k c = Inr c1" "re_conns r1 p = Some c1"
    using Cons.prems(2) by (auto simp: on_conn_def bind_res_eq_Inr)
  have "follows c c1" "conn_inv c1"
    using conn_callback_follows [OF assms(2), of io k] conn_callback_keeps [OF assms(1), of io k] c1(1)
      Cons.prems(3) by (auto simp: op_follows_def op_keeps_def)
  with Cons.IH [OF r1(2) c1(2)] show ?case by (blast intro: follows_trans)
qed

text \<open>The write callback is the last one an event runs.\<close>

lemma handleEvent_writes:
  assumes "ch_revents c AND EPOLLOUT \<noteq> 0"
  obtains ks where "handleEvent (\<lambda>_. True) True c = ks @ [Cb_write]"
  using assms by (simp add: handleEvent_def handleEventGuard_def Let_def)

lemma dispatch_writes:
  assumes cbs: "cbs_keep cbs" "cbs_follow cbs" and c: "re_conns r p = Some c" "conn_inv c"
    and ev: "ch_revents (pw_heap (re_poll r) p) AND EPOLLOUT \<noteq> 0"
    and io: "snd io = Inr n" "length (content (tc_output c)) \<le> n"
    and ret: "dispatch ctl cbs io p r = Inr r'"
  shows "\<exists>c'. re_conns r' p = Some c' \<and>
    (intact (tc_trace c') \<longrightarrow> (\<exists>z. written (tc_trace c') = accepted (tc_trace c) @ z))"
proof -
  obtain ks where ks: "handleEvent (\<lambda>_. True) True (pw_heap (re_poll r) p) = ks @ [Cb_write]"
    using ev by (rule handleEvent_writes)
  obtain r1 where r1: "run_callbacks ctl cbs io p ks r = Inr r1"
      "on_conn ctl p (conn_callback cbs io Cb_write) r1 = Inr r'"
    using ret c(1) by (auto simp: dispatch_def ks run_callbacks_append bind_res_eq_Inr)
  obtain c1 where c1: "re_conns r1 p = Some c1" "follows c c1" "conn_inv c1"
    using run_callbacks_conn [OF cbs r1(1) c] by blast
  obtain c' where c': "handleWrite cbs (Inr n) c1 = Inr c'" "re_conns r' p = Some c'"
    using r1(2) c1(1) io(1) by (auto simp: on_conn_def bind_res_eq_Inr)
  have "\<exists>z. written (tc_trace c') = accepted (tc_trace c) @ z" if ok: "intact (tc_trace c')"
  proof -
    obtain es fs where tr: "tc_trace c1 = tc_trace c @ es" "tc_trace c' = tc_trace c1 @ fs"
      using c1(2) handleWrite_follows [OF c'(1) cbs(2)] by (auto simp: follows_def)
    have i: "intact (tc_trace c1)" "intact (tc_trace c)" using ok tr by simp_all
    have "length (accepted (tc_trace c)) \<le> length (written (tc_trace c1)) + n"
      using i(2) c(2) io(2) tr(1) by (auto simp: conn_inv_def unsent_def)
    from handleWrite_prefix [OF c1(3) cbs(2) c'(1) i(1) _ this] tr(1) show ?thesis by simp
  qed
  with c'(2) show ?thesis by blast
qed

lemma watchedD:
  assumes "watched interest r" "re_conns r p = Some c"
  shows "conn_inv c" "ch_events (tc_channel c) \<noteq> 0 \<Longrightarrow>
      interest (pw_kernel (re_poll r)) (ch_fd (tc_channel c)) = Some (ch_events (tc_channel c), p)"
    "interest (pw_kernel (re_poll r)) (ch_fd (tc_channel c)) = Some (e, q) \<Longrightarrow> q = p \<and> e = ch_events (tc_channel c)"
proof -
  have r: "poll_inv interest (dom (re_conns r)) (re_poll r)" "p \<in> dom (re_conns r)"
      "ch_fd (pw_heap (re_poll r) p) = ch_fd (tc_channel c)"
      "ch_events (pw_heap (re_poll r) p) = ch_events (tc_channel c)"
      "ch_events (tc_channel c) \<noteq> 0 \<longrightarrow> ch_index (pw_heap (re_poll r) p) = kAdded" "conn_inv c"
    using assms by (auto simp: watched_def)
  show "conn_inv c" by (rule r(6))
  show "interest (pw_kernel (re_poll r)) (ch_fd (tc_channel c)) = Some (ch_events (tc_channel c), p)"
    if "ch_events (tc_channel c) \<noteq> 0"
    using r that unfolding poll_inv_def by simp
  show "q = p \<and> e = ch_events (tc_channel c)"
    if "interest (pw_kernel (re_poll r)) (ch_fd (tc_channel c)) = Some (e, q)"
  proof -
    have q: "q \<in> dom (re_conns r)" "ch_fd (pw_heap (re_poll r) q) = ch_fd (tc_channel c)" "e = ch_events (pw_heap (re_poll r) q)"
      using r(1) that unfolding poll_inv_def by blast+
    have "inj_on (\<lambda>p. ch_fd (pw_heap (re_poll r) p)) (dom (re_conns r))" using r(1) by (simp add: poll_inv_def)
    then have "q = p" by (rule inj_onD) (simp_all add: q r(2,3))
    with q(3) r(4) show ?thesis by simp
  qed
qed

text \<open>A round in which \<open>p\<close> is reported once: the round up to it, its events, and the rest.\<close>

lemma round_split:
  assumes w: "wait (pw_kernel (re_poll r)) (pw_nevents (re_poll r)) = Inr evs" "distinct (map fst evs)" "(p, ev) \<in> set evs"
    and ret: "loop_round ctl wait cbs io r = Inr r'"
  obtains r1 r2 where "re_conns r1 p = re_conns r p" "ch_revents (pw_heap (re_poll r1) p) = ev"
    "dispatch ctl cbs (io p) p r1 = Inr r2" "re_conns r' p = re_conns r2 p"
proof -
  let ?r = "r\<lparr>re_poll := fst (poller_poll wait (re_poll r))\<rparr>"
  obtain ps qs where split: "map fst evs = ps @ p # qs" using w(3) by (force dest: split_list)
  have out: "p \<notin> set ps" "p \<notin> set qs" using w(2) unfolding split by auto
  have rev: "ch_revents (pw_heap (re_poll ?r) p) = ev" "snd (poller_poll wait (re_poll r)) = map fst evs"
    using w fillActiveChannels_revents [OF w(2), of "re_poll r" p]
    by (auto simp: poller_poll_def Let_def split_beta fillActiveChannels_active)
  obtain r1 r2 where d: "dispatch_all ctl cbs io ps ?r = Inr r1" "dispatch ctl cbs (io p) p r1 = Inr r2"
      "dispatch_all ctl cbs io qs r2 = Inr r'"
    using ret by (auto simp: loop_round_def split_beta rev(2) split dispatch_all_append bind_res_eq_Inr)
  from dispatch_all_other [OF d(1) out(1)] dispatch_all_other [OF d(3) out(2)] rev(1)
  show thesis by (intro that [OF _ _ d(2)]) simp_all
qed

lemma dispatch_drains:
  assumes c: "re_conns r p = Some c" "conn_inv c" "intact (tc_trace c)" "content (tc_output c) \<noteq> []"
    and ev: "ch_revents (pw_heap (re_poll r) p) = EPOLLOUT" and cb: "cb_write_complete cbs = None"
    and io: "snd io = Inr n" "length (content (tc_output c)) \<le> n"
    and ret: "dispatch ctl cbs io p r = Inr r'"
  shows "\<exists>c'. re_conns r' p = Some c' \<and> written (tc_trace c') = accepted (tc_trace c) \<and>
    content (tc_output c') = [] \<and> \<not> iswrite (tc_channel c') \<and>
    (tc_state c = kDisconnecting \<longrightarrow> last (tc_trace c') = E_shutdown_write)"
proof -
  have acc: "accepted (tc_trace c) = written (tc_trace c) @ content (tc_output c)" and wr: "iswrite (tc_channel c)"
    using c(2,3,4) by (auto simp: conn_inv_def unsent_def)
  obtain c' where c': "handleWrite cbs (Inr n) c = Inr c'" "content (tc_output c') = []" "\<not> iswrite (tc_channel c')"
      "tc_trace c' = tc_trace c @ [E_written (content (tc_output c)), E_request Disable_write] @
        (if tc_state c = kDisconnecting then [E_shutdown_write] else [])"
    using handleWrite_drains [OF c(2) wr c(4) io(2) cb] by blast
  have "handleEvent (\<lambda>_. True) True (pw_heap (re_poll r) p) = [Cb_write]"
    using ev by (simp add: handleEvent_def handleEventGuard_def epoll_flags)
  then have "re_conns r' p = Some c'"
    using ret c(1) io(1) c'(1) by (auto simp: dispatch_def on_conn_def)
  with c'(2,3,4) acc show ?thesis by simp
qed

lemma new_reactor_watched:
  assumes "interest k = (\<lambda>_. None)" shows "watched interest (new_reactor heap k)"
  using new_poller_inv [of heap "{}" interest k] assms by (simp add: watched_def new_reactor_def)

lemma iswrite_events: "iswrite c \<Longrightarrow> ch_events c AND EPOLLOUT \<noteq> 0"
  by (simp add: iswrite_def kwriteEvent_def and.commute)

section \<open>Properties\<close>

text \<open>
  Property (C3). Whatever connections are accepted, whatever their functions are called with,
  whatever the kernel reports and in whatever order, the loop thread's poller and its connections
  agree: no \<^verbatim>\<open>epoll_ctl\<close> fails, the kernel watches each connection for exactly the events its
  channel asks for and under its own channel, and a connection with unsent output is watched for
  writability, so its data is not forgotten.
\<close>

theorem reactor_watches:
  assumes "epoll_ok ctl interest" and "interest k = (\<lambda>_. None)" and "cbs_keep cbs" and "cbs_follow cbs"
    and "list_all reactor_input_ok xs" and "reactor_run ctl wait cbs xs (new_reactor heap k) = Inr r"
  shows "pw_errors (re_poll r) = [] \<and> (\<forall>p c. re_conns r p = Some c \<longrightarrow>
    (ch_events (tc_channel c) \<noteq> 0 \<longrightarrow>
       interest (pw_kernel (re_poll r)) (ch_fd (tc_channel c)) = Some (ch_events (tc_channel c), p)) \<and>
    (\<forall>e q. interest (pw_kernel (re_poll r)) (ch_fd (tc_channel c)) = Some (e, q) \<longrightarrow>
       q = p \<and> e = ch_events (tc_channel c)) \<and>
    (intact (tc_trace c) \<and> content (tc_output c) \<noteq> [] \<longrightarrow> ch_events (tc_channel c) AND EPOLLOUT \<noteq> 0))"
proof -
  have r: "watched interest r" "pw_errors (re_poll r) = []"
    using reactor_run_watched [OF assms(1,3,4) new_reactor_watched [of interest k heap, OF assms(2)] assms(5,6)]
    by (simp_all add: new_reactor_def new_poller_def)
  have "ch_events (tc_channel c) AND EPOLLOUT \<noteq> 0"
    if "conn_inv c" "intact (tc_trace c)" "content (tc_output c) \<noteq> []" for c
    using that iswrite_events by (auto simp: conn_inv_def unsent_def)
  with r watchedD [OF r(1)] show ?thesis by blast
qed

text \<open>
  Property (C15). Output is drained. In any state of the loop thread, take a round whose poll
  reports each channel at most once and, among whatever else and with whatever other events, one with
  unsent output as writable, and let its socket take at least as much as was waiting. Then after
  the round everything accepted before it has been written, in order, whatever callbacks there are
  and whatever they did, unless one of them dropped output or removed the channel. When
  writability is all that was reported of the connection and there is no write-complete callback,
  nothing more has been written, the output buffer is empty, the descriptor is no longer watched for
  writability, and the connection is half-closed if a shutdown was waiting. The round can only fail
  in a callback of the user or in another connection.
\<close>

theorem output_drained:
  assumes "epoll_ok ctl interest" and "interest k = (\<lambda>_. None)" and "cbs_keep cbs" and "cbs_follow cbs"
    and "list_all reactor_input_ok xs" and "reactor_run ctl wait cbs xs (new_reactor heap k) = Inr r"
    and "re_conns r p = Some c" and "intact (tc_trace c)" and "content (tc_output c) \<noteq> []"
    and "wait (pw_kernel (re_poll r)) (pw_nevents (re_poll r)) = Inr evs" and "distinct (map fst evs)"
    and "(p, ev) \<in> set evs" and "ev AND EPOLLOUT \<noteq> 0"
    and "snd (io p) = Inr n" and "length (content (tc_output c)) \<le> n"
  shows "case loop_round ctl wait cbs io r of
      Inl e \<Rightarrow> evs \<noteq> [(p, EPOLLOUT)] \<or> cb_write_complete cbs \<noteq> None
    | Inr r' \<Rightarrow> \<exists>c'. re_conns r' p = Some c' \<and>
        (intact (tc_trace c') \<longrightarrow> (\<exists>z. written (tc_trace c') = accepted (tc_trace c) @ z)) \<and>
        (ev = EPOLLOUT \<and> cb_write_complete cbs = None \<longrightarrow>
           written (tc_trace c') = accepted (tc_trace c) \<and> content (tc_output c') = [] \<and>
           (\<forall>e q. interest (pw_kernel (re_poll r')) (ch_fd (tc_channel c')) = Some (e, q) \<longrightarrow> \<not> bit e 2) \<and>
           (tc_state c = kDisconnecting \<longrightarrow> last (tc_trace c') = E_shutdown_write))"
proof -
  have r: "watched interest r"
    using reactor_run_watched [OF assms(1,3,4) new_reactor_watched [of interest k heap, OF assms(2)] assms(5,6)] by simp
  have inv: "conn_inv c" using watchedD(1) [OF r assms(7)] .
  then have wr: "iswrite (tc_channel c)" using assms(8,9) by (auto simp: conn_inv_def unsent_def)
  show ?thesis
  proof (cases "loop_round ctl wait cbs io r")
    case (Inl e)
    have "\<exists>r'. loop_round ctl wait cbs io r = Inr r'" if only: "evs = [(p, EPOLLOUT)]" "cb_write_complete cbs = None"
      using handleWrite_drains [OF inv wr assms(9,15) only(2)] loop_round_writable [of wait r p c cbs io _ ctl]
        assms(7,10,14) only(1) by fastforce
    with Inl show ?thesis by auto
  next
    case (Inr r')
    obtain r1 r2 where d: "re_conns r1 p = Some c" "ch_revents (pw_heap (re_poll r1) p) = ev"
        "dispatch ctl cbs (io p) p r1 = Inr r2" "re_conns r' p = re_conns r2 p"
      using round_split [OF assms(10-12) Inr] assms(7) by metis
    obtain c' where c': "re_conns r' p = Some c'"
        "intact (tc_trace c') \<longrightarrow> (\<exists>z. written (tc_trace c') = accepted (tc_trace c) @ z)"
      using dispatch_writes [OF assms(3,4) d(1) inv _ assms(14,15) d(3)] d(2,4) assms(13) by auto
    have "watched interest r'" using reactor_step_watched [OF assms(1,3,4) r, of "R_round io"] Inr by simp
    from watchedD(3) [OF this c'(1)] have quiet: "\<not> iswrite (tc_channel c') \<Longrightarrow>
        interest (pw_kernel (re_poll r')) (ch_fd (tc_channel c')) = Some (e, q) \<Longrightarrow> \<not> bit e 2" for e q
      by (auto simp: iswrite_bit)
    from dispatch_drains [OF d(1) inv assms(8,9) _ _ assms(14,15) d(3)] d(2,4) c'(1) quiet
    have "ev = EPOLLOUT \<and> cb_write_complete cbs = None \<longrightarrow>
        written (tc_trace c') = accepted (tc_trace c) \<and> content (tc_output c') = [] \<and>
        (\<forall>e q. interest (pw_kernel (re_poll r')) (ch_fd (tc_channel c')) = Some (e, q) \<longrightarrow> \<not> bit e 2) \<and>
        (tc_state c = kDisconnecting \<longrightarrow> last (tc_trace c') = E_shutdown_write)" by auto
    with Inr c' show ?thesis by auto
  qed
qed

section \<open>Witnesses\<close>

lemma no_callbacks_follow: "cbs_follow no_callbacks"
  by (simp add: cbs_follow_def no_callbacks_def)

lemma fresh_new_reactor [simp]: "fresh p fd (new_reactor heap k)"
  by (simp add: fresh_def new_reactor_def)

text \<open>A connection is accepted and told to send when its socket takes nothing.\<close>

definition sample_reactor_inputs :: "reactor_input list" where
  "sample_reactor_inputs = [R_accept 0 5, R_call 0 (I_send True ''hi'' (Inl EWOULDBLOCK))]"

definition sample_wait :: "(fd \<rightharpoonup> u32 \<times> chan_ptr) \<Rightarrow> nat \<Rightarrow> errno + (chan_ptr \<times> u32) list" where
  "sample_wait m n = Inr [(0, EPOLLOUT)]"

lemma on_conn_Some:
  assumes "re_conns r p = Some c" "f c = Inr c'"
  shows "\<exists>r'. on_conn ctl p f r = Inr r' \<and> re_conns r' = (re_conns r)(p \<mapsto> c')"
  using assms by (simp add: on_conn_def)

lemma sample_reactor:
  "\<exists>r c. reactor_run list_kernel sample_wait no_callbacks sample_reactor_inputs
      (new_reactor (\<lambda>_. new_channel 0) (\<lambda>_. None)) = Inr r \<and> re_conns r 0 = Some c \<and>
     intact (tc_trace c) \<and> content (tc_output c) = ''hi'' \<and> accepted (tc_trace c) = ''hi''"
proof -
  obtain b where b: "new_buffer kInitialSize = Inr b" "buf_inv b" "content b = []" "writerIndex b = kCheapPrepend"
    using new_buffer_ok [of kInitialSize] by (auto simp: vec_max_def kCheapPrepend_def kInitialSize_def)
  have "buf_room b (length ''hi'' + 0)" using b(4) by (simp add: buf_room_def kCheapPrepend_def vec_max_def)
  then obtain b' where b': "buf_append b ''hi'' = Inr b'" "content b' = ''hi''"
    using nb.app_step [OF b(2), of "''hi''" 0] b(3) by auto
  have e: "readableBytes b = 0" using b(3) length_content [OF b(2)] by simp
  have w: "\<not> iswrite (tie (new_channel 5))" by (simp add: iswrite_bit tie_def new_channel_def)
  let ?c = "request Able_read ((setState kConnected (new_connection 5 b b))\<lparr>tc_channel := tie (new_channel 5)\<rparr>)"
  let ?c' = "request Able_write ((emit (E_accepted ''hi'') ?c)\<lparr>tc_output := b'\<rparr>)"
  let ?r = "new_reactor (\<lambda>_. new_channel 0) (\<lambda>_ :: fd. None :: (u32 \<times> chan_ptr) option)"
  let ?acc = "?r\<lparr>re_conns := (re_conns ?r)(0 \<mapsto> new_connection 5 b b),
    re_poll := modify_channel 0 (\<lambda>_. tie (new_channel 5)) (re_poll ?r)\<rparr>"
  have est: "connectEstablished no_callbacks (new_connection 5 b b) = Inr ?c"
    by (simp add: connectEstablished_def call_back_def no_callbacks_def Let_def new_connection_def setState_def)
  have snd: "conn_step no_callbacks (I_send True ''hi'' (Inl EWOULDBLOCK)) ?c = Inr ?c'"
    by (simp add: conn_send_def setState_def, simp add: sendInLoop_def send_direct_def EWOULDBLOCK_def e,
        simp add: new_connection_def e w send_rest_def b'(1))
  obtain r1 where r1: "on_conn list_kernel 0 (connectEstablished no_callbacks) ?acc = Inr r1" "re_conns r1 0 = Some ?c"
    using on_conn_Some [of ?acc 0 "new_connection 5 b b" "connectEstablished no_callbacks" ?c list_kernel] est by auto
  obtain r2 where r2: "on_conn list_kernel 0 (conn_step no_callbacks (I_send True ''hi'' (Inl EWOULDBLOCK))) r1 = Inr r2"
      "re_conns r2 0 = Some ?c'"
    using on_conn_Some [of r1 0 ?c "conn_step no_callbacks (I_send True ''hi'' (Inl EWOULDBLOCK))" ?c' list_kernel]
      r1(2) snd by auto
  have "reactor_run list_kernel sample_wait no_callbacks sample_reactor_inputs ?r = Inr r2"
    using r1(1) r2(1) b(1) fresh_new_reactor [of 0 5] by (simp add: sample_reactor_inputs_def)
  moreover have "intact (tc_trace ?c') \<and> content (tc_output ?c') = ''hi'' \<and> accepted (tc_trace ?c') = ''hi''"
    by (simp add: b' new_connection_def setState_def)
  ultimately show ?thesis using r2(2) by blast
qed

lemma sample_inputs_ok: "list_all reactor_input_ok sample_reactor_inputs"
  by (simp add: sample_reactor_inputs_def vec_max_def)

lemma reactor_watches_witness:
  "\<exists>r c. reactor_run list_kernel sample_wait no_callbacks sample_reactor_inputs
      (new_reactor (\<lambda>_. new_channel 0) (\<lambda>_. None)) = Inr r \<and> re_conns r 0 = Some c \<and>
     ch_events (tc_channel c) AND EPOLLOUT \<noteq> 0 \<and>
     pw_kernel (re_poll r) (ch_fd (tc_channel c)) = Some (ch_events (tc_channel c), 0)"
proof -
  obtain r c where r: "reactor_run list_kernel sample_wait no_callbacks sample_reactor_inputs
      (new_reactor (\<lambda>_. new_channel 0) (\<lambda>_. None)) = Inr r" "re_conns r 0 = Some c"
      "intact (tc_trace c)" "content (tc_output c) = ''hi''"
    using sample_reactor by blast
  note w = reactor_watches [OF list_kernel_ok refl no_callbacks_keep no_callbacks_follow sample_inputs_ok r(1),
      THEN conjunct2, THEN spec, THEN spec, THEN mp, OF r(2)]
  have bits: "ch_events (tc_channel c) AND EPOLLOUT \<noteq> 0"
    using w [THEN conjunct2, THEN conjunct2, THEN mp] r(3,4) by simp
  then have "ch_events (tc_channel c) \<noteq> 0" by (metis and_zero_eq and.commute)
  from w [THEN conjunct1, THEN mp, OF this] bits r(1,2) show ?thesis by blast
qed

lemma output_drained_witness:
  "\<exists>r r' c'. reactor_run list_kernel sample_wait no_callbacks sample_reactor_inputs
      (new_reactor (\<lambda>_. new_channel 0) (\<lambda>_. None)) = Inr r \<and>
     loop_round list_kernel sample_wait no_callbacks (\<lambda>_. (Inr [], Inr 2)) r = Inr r' \<and>
     re_conns r' 0 = Some c' \<and> written (tc_trace c') = ''hi'' \<and> content (tc_output c') = []"
proof -
  obtain r c where r: "reactor_run list_kernel sample_wait no_callbacks sample_reactor_inputs
      (new_reactor (\<lambda>_. new_channel 0) (\<lambda>_. None)) = Inr r" "re_conns r 0 = Some c"
      "intact (tc_trace c)" "content (tc_output c) = ''hi''" "accepted (tc_trace c) = ''hi''"
    using sample_reactor by blast
  have w: "sample_wait (pw_kernel (re_poll r)) (pw_nevents (re_poll r)) = Inr [(0, EPOLLOUT)]"
    by (simp add: sample_wait_def)
  have q: "content (tc_output c) \<noteq> []" "length (content (tc_output c)) \<le> 2"
      "cb_write_complete no_callbacks = None" "EPOLLOUT AND EPOLLOUT \<noteq> 0"
      "snd ((\<lambda>_. (Inr [], Inr 2) :: io_answers) (0 :: chan_ptr)) = Inr 2"
    using r(4) by (simp_all add: no_callbacks_def epoll_flags)
  from output_drained [OF list_kernel_ok refl no_callbacks_keep no_callbacks_follow sample_inputs_ok r(1,2,3)
      q(1) w _ _ q(4,5,2)] r(1,5) q(3)
  show ?thesis by (auto split: sum.splits)
qed

end
