(* ===== verification/NetLog.thy ===== *)
theory NetLog
  imports CxxText "HOL-Library.Char_ord" "HOL-Library.List_Lexorder"
begin

text \<open>
  The network library's log (\<^verbatim>\<open>Logger.cpp\<close>, the macros of \<^verbatim>\<open>Logger.h\<close>) and its time stamps
  (\<^verbatim>\<open>Timestamp.cpp\<close>). The logger is one object of the process; a log statement sets its level and
  then prints in two further steps, and other threads may come in between.
\<close>

section \<open>Logger\<close>

datatype LogLevel = INFO | ERORR | FATAL | DBUG

text \<open>The level is an \<^verbatim>\<open>int\<close>, which the constructor does not set; \<open>net_out\<close> is standard output.\<close>

record net_logger =
  loglevel :: int
  net_out :: string

definition level_code :: "LogLevel \<Rightarrow> int" where
  "level_code l = (case l of INFO \<Rightarrow> 0 | ERORR \<Rightarrow> 1 | FATAL \<Rightarrow> 2 | DBUG \<Rightarrow> 3)"

definition setlevel :: "int \<Rightarrow> net_logger \<Rightarrow> net_logger" where
  "setlevel level l = l\<lparr>loglevel := level\<rparr>"

definition level_prefix :: "int \<Rightarrow> string" where
  "level_prefix level =
     (if level = level_code INFO then ''[INFO]'' else if level = level_code ERORR then ''[ERORR]''
      else if level = level_code FATAL then ''[FATAL]'' else if level = level_code DBUG then ''[DBUG]'' else [])"

definition log_prefix :: "net_logger \<Rightarrow> net_logger" where
  "log_prefix l = l\<lparr>net_out := net_out l @ level_prefix (loglevel l)\<rparr>"

definition log_msg :: "string \<Rightarrow> net_logger \<Rightarrow> net_logger" where
  "log_msg msg l = l\<lparr>net_out := net_out l @ msg @ [CHR 0x0A]\<rparr>"

definition Logger_log :: "string \<Rightarrow> net_logger \<Rightarrow> net_logger" where
  "Logger_log msg l = log_msg msg (log_prefix l)"

text \<open>
  The macros: \<open>text\<close> is the formatted message; \<open>snprintf\<close> keeps \<open>1023\<close> characters of it, and the
  argument of \<open>log\<close> is a string made of the buffer up to its first zero byte.
\<close>

definition log_buf :: "string \<Rightarrow> string" where
  "log_buf txt = c_str (take 1023 txt)"

definition LOG :: "LogLevel \<Rightarrow> string \<Rightarrow> net_logger \<Rightarrow> net_logger" where
  "LOG level txt l = Logger_log (log_buf txt) (setlevel (level_code level) l)"

text \<open>The steps of a statement that other threads can come between.\<close>

datatype net_log_step = Step_level LogLevel | Step_prefix | Step_msg string

fun do_log_step :: "net_log_step \<Rightarrow> net_logger \<Rightarrow> net_logger" where
  "do_log_step (Step_level level) l = setlevel (level_code level) l"
| "do_log_step Step_prefix l = log_prefix l"
| "do_log_step (Step_msg msg) l = log_msg msg l"

definition LOG_steps :: "LogLevel \<Rightarrow> string \<Rightarrow> net_log_step list" where
  "LOG_steps level txt = [Step_level level, Step_prefix, Step_msg (log_buf txt)]"

definition net_log_line :: "LogLevel \<Rightarrow> string \<Rightarrow> string" where
  "net_log_line level txt = level_prefix (level_code level) @ log_buf txt @ [CHR 0x0A]"

lemma LOG_as_steps: "fold do_log_step (LOG_steps level txt) l = LOG level txt l"
  by (simp add: LOG_steps_def LOG_def Logger_log_def)

lemma LOG_line: "net_out (LOG level txt l) = net_out l @ net_log_line level txt"
  by (simp add: LOG_def Logger_log_def log_msg_def log_prefix_def setlevel_def net_log_line_def)

text \<open>Statements that do not overlap print one line each, under their own level.\<close>

lemma log_lines_labelled:
  "net_out (fold do_log_step (concat (map (\<lambda>(level, txt). LOG_steps level txt) stmts)) l) =
     net_out l @ concat (map (\<lambda>(level, txt). net_log_line level txt) stmts)"
proof (induction stmts arbitrary: l)
  case (Cons s stmts)
  obtain level msg where s: "s = (level, msg)" by (cases s)
  show ?case using Cons [of "LOG level msg l"] by (simp add: s LOG_as_steps LOG_line)
qed simp

text \<open>A statement whose level is overwritten before it prints appears under the other level.\<close>

lemma overlapped_label:
  "net_out (fold do_log_step [Step_level ERORR, Step_level INFO, Step_prefix, Step_msg e, Step_prefix, Step_msg i] l) =
     net_out l @ ''[INFO]'' @ e @ [CHR 0x0A] @ ''[INFO]'' @ i @ [CHR 0x0A]"
  by (simp add: log_prefix_def log_msg_def setlevel_def level_prefix_def level_code_def)

lemma takeWhile_length_le: "length (takeWhile P xs) \<le> length xs"
  by (induction xs) auto

lemma log_line_length: "length (net_log_line level txt) \<le> 1031"
proof -
  have "length (log_buf txt) \<le> 1023"
    using takeWhile_length_le [of "\<lambda>c. c \<noteq> NUL" "take 1023 txt"] by (simp add: log_buf_def c_str_def)
  then show ?thesis by (cases level) (simp_all add: net_log_line_def level_prefix_def level_code_def)
qed

section \<open>Timestamp\<close>

text \<open>The fields of \<^verbatim>\<open>struct tm\<close> that are printed; \<^verbatim>\<open>localtime\<close> is the C library's.\<close>

record broken_time =
  tm_year :: int
  tm_mon :: int
  tm_mday :: int
  tm_hour :: int
  tm_min :: int
  tm_sec :: int

definition Timestamp_default :: int where
  "Timestamp_default = 0"

definition Timestamp_make :: "int \<Rightarrow> int" where
  "Timestamp_make t = t"

definition Timestamp_now :: "int \<Rightarrow> int" where
  "Timestamp_now time = Timestamp_make time"

text \<open>\<^verbatim>\<open>%0wd\<close>: at least \<open>w\<close> characters, filled with zeros after the sign.\<close>

definition print_padded :: "nat \<Rightarrow> int \<Rightarrow> string" where
  "print_padded w i =
     (let ds = dec_digits (nat \<bar>i\<bar>) in
      if i < 0 then CHR ''-'' # replicate (w - 1 - length ds) CHR ''0'' @ ds
      else replicate (w - length ds) CHR ''0'' @ ds)"

datatype time_fault = Null_time | Int_overflow | Buffer_overrun

definition tm_sum :: "int \<Rightarrow> time_fault + int" where
  "tm_sum i = (if int_range i then Inr i else Inl Int_overflow)"

definition Timestamp_tostring :: "(int \<Rightarrow> broken_time option) \<Rightarrow> int \<Rightarrow> time_fault + string" where
  "Timestamp_tostring localtime t =
     (case localtime t of
        None \<Rightarrow> Inl Null_time
      | Some tm \<Rightarrow>
          bind_res (tm_sum (tm_year tm + 1900)) (\<lambda>year.
          bind_res (tm_sum (tm_mon tm + 1)) (\<lambda>mon.
            let txt = print_padded 4 year @ ''-'' @ print_padded 2 mon @ ''-'' @ print_padded 2 (tm_mday tm) @
                  '' '' @ print_padded 2 (tm_hour tm) @ '':'' @ print_padded 2 (tm_min tm) @
                  '':'' @ print_padded 2 (tm_sec tm)
            in if length txt < 128 then Inr txt else Inl Buffer_overrun)))"

text \<open>The documented ranges of the fields, for a year of four digits.\<close>

definition time_ok :: "broken_time \<Rightarrow> bool" where
  "time_ok tm \<longleftrightarrow> 0 \<le> tm_year tm + 1900 \<and> tm_year tm + 1900 \<le> 9999 \<and> 0 \<le> tm_mon tm \<and> tm_mon tm \<le> 11 \<and>
     1 \<le> tm_mday tm \<and> tm_mday tm \<le> 31 \<and> 0 \<le> tm_hour tm \<and> tm_hour tm \<le> 23 \<and>
     0 \<le> tm_min tm \<and> tm_min tm \<le> 59 \<and> 0 \<le> tm_sec tm \<and> tm_sec tm \<le> 60"

text \<open>The fields in the order of their weight.\<close>

definition time_key :: "broken_time \<Rightarrow> int list" where
  "time_key tm = [tm_year tm, tm_mon tm, tm_mday tm, tm_hour tm, tm_min tm, tm_sec tm]"

section \<open>Printing with a fixed width\<close>

lemma length_dec_digits_int: "int_range i \<Longrightarrow> length (dec_digits (nat \<bar>i\<bar>)) \<le> 10"
  using dec_digits_length [of "nat \<bar>i\<bar>" 10] by (auto simp: int_range_def int_min_def int_max_def)

lemma print_padded_length: "int_range i \<Longrightarrow> w \<le> 4 \<Longrightarrow> length (print_padded w i) \<le> 11"
  using length_dec_digits_int [of i] by (auto simp: print_padded_def Let_def)

fun fixed :: "nat \<Rightarrow> nat \<Rightarrow> string" where
  "fixed 0 n = []"
| "fixed (Suc w) n = fixed w (n div 10) @ [digit_char (n mod 10)]"

lemma length_fixed [simp]: "length (fixed w n) = w"
  by (induction w n rule: fixed.induct) simp_all

lemma fixed_zero: "fixed w 0 = replicate w CHR ''0''"
  by (induction w) (simp_all add: digit_char_def replicate_append_same char_of_def bit_Suc_0_iff)

lemma fixed_padded:
  "0 < w \<Longrightarrow> n < 10 ^ w \<Longrightarrow> replicate (w - length (dec_digits n)) CHR ''0'' @ dec_digits n = fixed w n"
proof (induction w arbitrary: n)
  case (Suc w)
  show ?case
  proof (cases "n < 10")
    case True
    then have "fixed w (n div 10) = replicate w CHR ''0''" by (simp add: fixed_zero)
    with True show ?thesis by (simp add: dec_digits.simps [of n])
  next
    case False
    then have w: "0 < w" using Suc.prems(2) by (cases w) simp_all
    have "n div 10 < 10 ^ w" using Suc.prems(2) by simp
    note w this
    from Suc.IH [OF this] False show ?thesis
      by (simp add: dec_digits.simps [of n])
  qed
qed simp

lemma print_padded_fixed: "0 < w \<Longrightarrow> 0 \<le> i \<Longrightarrow> nat i < 10 ^ w \<Longrightarrow> print_padded w i = fixed w (nat i)"
  using fixed_padded [of w "nat i"] by (simp add: print_padded_def Let_def)


section \<open>Order\<close>

lemma append_less_append:
  fixes a b :: "'a :: linorder list"
  assumes "length a = length b"
  shows "a @ c < b @ d \<longleftrightarrow> a < b \<or> a = b \<and> c < d"
  using assms by (induction a b rule: list_induct2) auto

lemma digit_char_less: "m < 10 \<Longrightarrow> n < 10 \<Longrightarrow> digit_char m < digit_char n \<longleftrightarrow> m < n"
  by (simp add: less_char_def)

lemma decimal_order:
  fixes r s a b :: nat
  assumes "r < 10" "s < 10"
  shows "10 * a + r < 10 * b + s \<longleftrightarrow> a < b \<or> a = b \<and> r < s" "10 * a + r = 10 * b + s \<longleftrightarrow> a = b \<and> r = s"
  using assms by arith+

lemma fixed_order: "m < 10 ^ w \<Longrightarrow> n < 10 ^ w \<Longrightarrow> (fixed w m < fixed w n \<longleftrightarrow> m < n) \<and> (fixed w m = fixed w n \<longleftrightarrow> m = n)"
proof (induction w arbitrary: m n)
  case (Suc w)
  have q: "m div 10 < 10 ^ w" "n div 10 < 10 ^ w" using Suc.prems by simp_all
  have d: "digit_char (m mod 10) = digit_char (n mod 10) \<longleftrightarrow> m mod 10 = n mod 10"
    using digit_char_less [of "m mod 10" "n mod 10"] digit_char_less [of "n mod 10" "m mod 10"]
    by (metis mod_less_divisor neq_iff order_less_irrefl zero_less_numeral)
  have "m < n \<longleftrightarrow> m div 10 < n div 10 \<or> m div 10 = n div 10 \<and> m mod 10 < n mod 10"
    using decimal_order(1) [of "m mod 10" "n mod 10" "m div 10" "n div 10"] by simp
  moreover have "m = n \<longleftrightarrow> m div 10 = n div 10 \<and> m mod 10 = n mod 10"
    using decimal_order(2) [of "m mod 10" "n mod 10" "m div 10" "n div 10"] by simp
  ultimately show ?case
    using Suc.IH [OF q] d digit_char_less [of "m mod 10" "n mod 10"] by (simp add: append_less_append)
qed simp

lemma padded_order:
  assumes "0 < w" "0 \<le> i" "nat i < 10 ^ w" "0 \<le> j" "nat j < 10 ^ w"
  shows "print_padded w i < print_padded w j \<longleftrightarrow> i < j" "print_padded w i = print_padded w j \<longleftrightarrow> i = j"
    "length (print_padded w i) = w"
  using assms fixed_order [of "nat i" w "nat j"] by (auto simp: print_padded_fixed)

definition time_text :: "broken_time \<Rightarrow> string" where
  "time_text tm = print_padded 4 (tm_year tm + 1900) @ ''-'' @ print_padded 2 (tm_mon tm + 1) @ ''-'' @
     print_padded 2 (tm_mday tm) @ '' '' @ print_padded 2 (tm_hour tm) @ '':'' @ print_padded 2 (tm_min tm) @
     '':'' @ print_padded 2 (tm_sec tm)"

lemma tostring_fits:
  assumes "localtime u = Some tm" "\<forall>i \<in> set (time_key tm). int_range i"
  shows "Timestamp_tostring localtime u \<noteq> Inl Buffer_overrun"
proof -
  have "length (time_text tm) < 128" if "int_range (tm_year tm + 1900)" "int_range (tm_mon tm + 1)"
    using assms(2) that print_padded_length [of "tm_year tm + 1900" 4] print_padded_length [of "tm_mon tm + 1" 2]
      print_padded_length [of "tm_mday tm" 2] print_padded_length [of "tm_hour tm" 2]
      print_padded_length [of "tm_min tm" 2] print_padded_length [of "tm_sec tm" 2]
    by (simp add: time_text_def time_key_def)
  then show ?thesis
    by (simp add: Timestamp_tostring_def assms(1) tm_sum_def time_text_def Let_def)
qed

lemma time_ok_padded:
  assumes "time_ok tm" "time_ok tm'"
  shows "print_padded 4 (tm_year tm + 1900) < print_padded 4 (tm_year tm' + 1900) \<longleftrightarrow> tm_year tm < tm_year tm'"
    "print_padded 4 (tm_year tm + 1900) = print_padded 4 (tm_year tm' + 1900) \<longleftrightarrow> tm_year tm = tm_year tm'"
    "length (print_padded 4 (tm_year tm + 1900)) = 4"
    "f \<in> {tm_mday, tm_hour, tm_min, tm_sec, \<lambda>tm. tm_mon tm + 1} \<Longrightarrow>
       (print_padded 2 (f tm) < print_padded 2 (f tm') \<longleftrightarrow> f tm < f tm') \<and>
       (print_padded 2 (f tm) = print_padded 2 (f tm') \<longleftrightarrow> f tm = f tm') \<and> length (print_padded 2 (f tm)) = 2"
proof -
  have y: "nat (tm_year tm + 1900) < 10 ^ 4" "nat (tm_year tm' + 1900) < 10 ^ 4"
      "0 \<le> tm_year tm + 1900" "0 \<le> tm_year tm' + 1900"
    using assms by (auto simp: time_ok_def)
  from padded_order [OF _ y(3,1,4,2)]
  show "print_padded 4 (tm_year tm + 1900) < print_padded 4 (tm_year tm' + 1900) \<longleftrightarrow> tm_year tm < tm_year tm'"
    "print_padded 4 (tm_year tm + 1900) = print_padded 4 (tm_year tm' + 1900) \<longleftrightarrow> tm_year tm = tm_year tm'"
    "length (print_padded 4 (tm_year tm + 1900)) = 4" by simp_all
  assume "f \<in> {tm_mday, tm_hour, tm_min, tm_sec, \<lambda>tm. tm_mon tm + 1}"
  then have f: "nat (f tm) < 10 ^ 2" "nat (f tm') < 10 ^ 2" "0 \<le> f tm" "0 \<le> f tm'"
    using assms by (auto simp: time_ok_def)
  from padded_order [OF _ f(3,1,4,2)]
  show "(print_padded 2 (f tm) < print_padded 2 (f tm') \<longleftrightarrow> f tm < f tm') \<and>
       (print_padded 2 (f tm) = print_padded 2 (f tm') \<longleftrightarrow> f tm = f tm') \<and> length (print_padded 2 (f tm)) = 2"
    by simp
qed

lemma tostring_ok:
  assumes "localtime t = Some tm" "time_ok tm"
  shows "Timestamp_tostring localtime t = Inr (time_text tm) \<and> length (time_text tm) = 19"
proof -
  have r: "int_range (tm_year tm + 1900)" "int_range (tm_mon tm + 1)"
    using assms(2) by (auto simp: time_ok_def int_range_def int_min_def int_max_def)
  note p = time_ok_padded(4) [OF assms(2,2)]
  have "length (time_text tm) = 19"
    using time_ok_padded(3) [OF assms(2,2)] p [of tm_mday] p [of tm_hour] p [of tm_min] p [of tm_sec]
      p [of "\<lambda>tm. tm_mon tm + 1"] by (simp add: time_text_def)
  then show ?thesis
    by (simp add: Timestamp_tostring_def assms(1) tm_sum_def r time_text_def Let_def)
qed

lemma time_text_order:
  assumes "time_ok tm" "time_ok tm'"
  shows "time_text tm < time_text tm' \<longleftrightarrow> time_key tm < time_key tm'"
proof -
  note p = time_ok_padded(4) [OF assms] and p' = time_ok_padded(4) [OF assms(2,2)]
  note y = time_ok_padded(1-3) [OF assms] time_ok_padded(3) [OF assms(2,2)]
  note fs = p [of tm_mday] p [of tm_hour] p [of tm_min] p [of tm_sec] p [of "\<lambda>tm. tm_mon tm + 1"]
    p' [of tm_mday] p' [of tm_hour] p' [of tm_min] p' [of tm_sec] p' [of "\<lambda>tm. tm_mon tm + 1"]
  show ?thesis using fs by (simp add: time_text_def time_key_def append_less_append y add1_zle_eq)
qed

section \<open>Properties\<close>

text \<open>
  Time stamps: whatever \<^verbatim>\<open>localtime\<close> returns that fits its \<^verbatim>\<open>int\<close> fields, the text
  fits the buffer of 128 characters, or the sum of a field and its offset overflows; and the texts
  of two times in the documented ranges with years of four digits have 19 characters each and
  compare as texts the way the times do.
\<close>

theorem timestamps_fit_and_sort:
  assumes "localtime u = Some um" and "\<forall>i \<in> set (time_key um). int_range i"
    and "localtime t = Some tm" and "localtime t' = Some tm'" and "time_ok tm" and "time_ok tm'"
  shows "Timestamp_tostring localtime u \<noteq> Inl Buffer_overrun \<and>
    (\<exists>s s'. Timestamp_tostring localtime t = Inr s \<and> Timestamp_tostring localtime t' = Inr s' \<and>
       length s = 19 \<and> length s' = 19 \<and> (s < s' \<longleftrightarrow> time_key tm < time_key tm'))"
proof (intro conjI exI)
  show "Timestamp_tostring localtime u \<noteq> Inl Buffer_overrun"
    using assms(1,2) by (rule tostring_fits)
  show "Timestamp_tostring localtime t = Inr (time_text tm)" "length (time_text tm) = 19"
    using tostring_ok [of localtime t tm, OF assms(3,5)] by simp_all
  show "Timestamp_tostring localtime t' = Inr (time_text tm')" "length (time_text tm') = 19"
    using tostring_ok [of localtime t' tm', OF assms(4,6)] by simp_all
  show "time_text tm < time_text tm' \<longleftrightarrow> time_key tm < time_key tm'" using assms(5,6) by (rule time_text_order)
qed

definition sample_localtime :: "int \<Rightarrow> broken_time option" where
  "sample_localtime t = Some \<lparr>tm_year = 70, tm_mon = 0, tm_mday = 1, tm_hour = 0, tm_min = 0, tm_sec = t\<rparr>"

lemma timestamps_fit_and_sort_witness:
  "\<exists>s s'. Timestamp_tostring sample_localtime 9 = Inr s \<and> Timestamp_tostring sample_localtime 10 = Inr s' \<and>
     length s = 19 \<and> s < s'"
proof -
  let ?tm = "\<lambda>t. \<lparr>tm_year = 70, tm_mon = 0, tm_mday = 1, tm_hour = 0, tm_min = 0, tm_sec = t\<rparr>"
  have lt: "sample_localtime t = Some (?tm t)" for t by (simp add: sample_localtime_def)
  have ok: "\<forall>i \<in> set (time_key (?tm 9)). int_range i" "time_ok (?tm 9)" "time_ok (?tm 10)"
      "time_key (?tm 9) < time_key (?tm 10)"
    by (simp_all add: time_ok_def time_key_def int_range_def int_min_def int_max_def)
  from timestamps_fit_and_sort [of sample_localtime 9 "?tm 9" 9 "?tm 9" 10 "?tm 10", OF lt ok(1) lt lt ok(2,3)] ok(4)
  show ?thesis by blast
qed

end
