(* ===== verification/NetSocket.thy ===== *)
theory NetSocket
  imports NetServer NetReactor NetLog
begin

text \<open>
  The socket wrapper \<^verbatim>\<open>Socket.cpp\<close> and what is built from it: the constructor of \<open>Acceptor\<close>, the
  options of a new connection, \<open>TcpServer::getLocalAddr\<close>, and the wakeup channel of an
  \<open>EventLoop\<close> from its constructor to its destructor. The kernel is a function from a call to its
  error, if any, and the next kernel state; a failed call is a line in the log and nothing else.
\<close>

section \<open>System calls\<close>

datatype sock_option = TCP_NODELAY | SO_REUSEADDR | SO_REUSEPORT | SO_KEEPALIVE

datatype sock_call =
    Sys_bind fd sockaddr_in | Sys_listen fd | Sys_shutdown fd | Sys_setsockopt fd sock_option int | Sys_close fd

type_synonym 'k sys = "'k \<Rightarrow> sock_call \<Rightarrow> errno option \<times> 'k"

record 'k sock_world =
  sw_kernel :: 'k
  sw_calls :: "sock_call list"
  sw_log :: net_logger

fun sys_call :: "'k sys \<Rightarrow> sock_call \<Rightarrow> 'k sock_world \<Rightarrow> errno option \<times> 'k sock_world" where
  "sys_call sys c w =
     (case sys (sw_kernel w) c of (e, k) \<Rightarrow> (e, w\<lparr>sw_kernel := k, sw_calls := sw_calls w @ [c]\<rparr>))"

definition sock_error :: "string \<Rightarrow> fd \<Rightarrow> errno \<Rightarrow> string" where
  "sock_error what sockfd e = what @ '' error, sockfd:'' @ to_string sockfd @ '' errno:'' @ to_string e"

text \<open>A call whose failure is logged.\<close>

definition logged_call :: "'k sys \<Rightarrow> LogLevel \<Rightarrow> string \<Rightarrow> fd \<Rightarrow> sock_call \<Rightarrow> 'k sock_world \<Rightarrow> 'k sock_world" where
  "logged_call sys level what sockfd c w =
     (case sys_call sys c w of
        (None, w1) \<Rightarrow> w1
      | (Some e, w1) \<Rightarrow> w1\<lparr>sw_log := LOG level (sock_error what sockfd e) (sw_log w1)\<rparr>)"

section \<open>Socket\<close>

definition Socket_destroy :: "'k sys \<Rightarrow> fd \<Rightarrow> 'k sock_world \<Rightarrow> 'k sock_world" where
  "Socket_destroy sys sockfd w = snd (sys_call sys (Sys_close sockfd) w)"

definition bindAddress :: "'k sys \<Rightarrow> fd \<Rightarrow> sockaddr_in \<Rightarrow> 'k sock_world \<Rightarrow> 'k sock_world" where
  "bindAddress sys sockfd localaddr = logged_call sys FATAL ''bind'' sockfd (Sys_bind sockfd localaddr)"

definition Socket_listen :: "'k sys \<Rightarrow> fd \<Rightarrow> 'k sock_world \<Rightarrow> 'k sock_world" where
  "Socket_listen sys sockfd = logged_call sys FATAL ''listen'' sockfd (Sys_listen sockfd)"

definition shutdownWrite :: "'k sys \<Rightarrow> fd \<Rightarrow> 'k sock_world \<Rightarrow> 'k sock_world" where
  "shutdownWrite sys sockfd = logged_call sys ERORR ''shutdownWrite'' sockfd (Sys_shutdown sockfd)"

definition setTcpNoDelay :: "'k sys \<Rightarrow> fd \<Rightarrow> bool \<Rightarrow> 'k sock_world \<Rightarrow> 'k sock_world" where
  "setTcpNoDelay sys sockfd on =
     logged_call sys ERORR ''setTcpNoDelay'' sockfd (Sys_setsockopt sockfd TCP_NODELAY (if on then 1 else 0))"

definition setReuseAddr :: "'k sys \<Rightarrow> fd \<Rightarrow> bool \<Rightarrow> 'k sock_world \<Rightarrow> 'k sock_world" where
  "setReuseAddr sys sockfd on =
     logged_call sys ERORR ''setReuseAddr'' sockfd (Sys_setsockopt sockfd SO_REUSEADDR (if on then 1 else 0))"

definition setReusePort :: "'k sys \<Rightarrow> fd \<Rightarrow> bool \<Rightarrow> 'k sock_world \<Rightarrow> 'k sock_world" where
  "setReusePort sys sockfd on =
     logged_call sys ERORR ''setReusePort'' sockfd (Sys_setsockopt sockfd SO_REUSEPORT (if on then 1 else 0))"

definition setKeepAlive :: "'k sys \<Rightarrow> fd \<Rightarrow> bool \<Rightarrow> 'k sock_world \<Rightarrow> 'k sock_world" where
  "setKeepAlive sys sockfd on =
     logged_call sys ERORR ''setKeepAlive'' sockfd (Sys_setsockopt sockfd SO_KEEPALIVE (if on then 1 else 0))"

section \<open>Acceptor and connection\<close>

text \<open>\<open>createNonblocking\<close> is the system's \<^verbatim>\<open>socket\<close>; its result is not looked at.\<close>

definition createNonblocking :: "('k \<Rightarrow> fd \<times> 'k) \<Rightarrow> 'k sock_world \<Rightarrow> fd \<times> 'k sock_world" where
  "createNonblocking sock w = (case sock (sw_kernel w) of (sockfd, k) \<Rightarrow> (sockfd, w\<lparr>sw_kernel := k\<rparr>))"

definition Acceptor_construct ::
  "'k sys \<Rightarrow> ('k \<Rightarrow> fd \<times> 'k) \<Rightarrow> sockaddr_in \<Rightarrow> bool \<Rightarrow> 'k sock_world \<Rightarrow> (fd \<times> acceptor) \<times> 'k sock_world" where
  "Acceptor_construct sys sock listenAddr reuseport w =
     (let (sockfd, w1) = createNonblocking sock w;
          w2 = setKeepAlive sys sockfd True w1;
          w3 = setReuseAddr sys sockfd True w2;
          w4 = setReusePort sys sockfd reuseport w3;
          w5 = bindAddress sys sockfd listenAddr w4
      in ((sockfd, new_acceptor sockfd), w5))"

text \<open>\<open>Acceptor::listen\<close> with the call it makes.\<close>

definition Acceptor_listen :: "'k sys \<Rightarrow> (fd \<times> acceptor) \<times> 'k sock_world \<Rightarrow> (fd \<times> acceptor) \<times> 'k sock_world" where
  "Acceptor_listen sys x = (case x of ((sockfd, a), w) \<Rightarrow>
     ((sockfd, fst (acceptor_listen a)), Socket_listen sys sockfd w))"

text \<open>The options the constructor of \<open>TcpConnection\<close> sets.\<close>

definition connection_options :: "'k sys \<Rightarrow> fd \<Rightarrow> 'k sock_world \<Rightarrow> 'k sock_world" where
  "connection_options sys sockfd w = setTcpNoDelay sys sockfd True (setKeepAlive sys sockfd True w)"

definition getLocalAddr :: "(fd \<Rightarrow> errno + sockaddr_in) \<Rightarrow> fd \<Rightarrow> 'k sock_world \<Rightarrow> sockaddr_in \<times> 'k sock_world" where
  "getLocalAddr getsockname sockfd w =
     (case getsockname sockfd of
        Inl e \<Rightarrow> (\<lparr>sin_port = 0, sin_addr = 0\<rparr>,
          w\<lparr>sw_log := LOG ERORR ''TcpServer::getLocalAddr getsockname error'' (sw_log w)\<rparr>)
      | Inr addr \<Rightarrow> (addr, w))"

section \<open>The wakeup channel\<close>

text \<open>Built without epoll support there is no poller.\<close>

definition newDefaultPoller ::
  "bool \<Rightarrow> (chan_ptr \<Rightarrow> channel) \<Rightarrow> 'k \<Rightarrow> net_logger \<Rightarrow> 'k poll_world option \<times> net_logger" where
  "newDefaultPoller use_poll heap k l =
     (if use_poll
      then (None, LOG FATAL ''MUDUO_USE_POLL is defined, but PollPoller is not implemented'' l)
      else (Some (new_poller heap k), l))"

definition EventLoop_updateChannel ::
  "('k \<Rightarrow> epoll_ctl \<Rightarrow> bool \<times> 'k) \<Rightarrow> chan_ptr \<Rightarrow> 'k poll_world \<Rightarrow> 'k poll_world" where
  "EventLoop_updateChannel = updateChannel"

definition EventLoop_removeChannel ::
  "('k \<Rightarrow> epoll_ctl \<Rightarrow> bool \<times> 'k) \<Rightarrow> chan_ptr \<Rightarrow> 'k poll_world \<Rightarrow> 'k poll_world" where
  "EventLoop_removeChannel = removeChannel"

definition EventLoop_hasChannel :: "chan_ptr \<Rightarrow> 'k poll_world \<Rightarrow> bool" where
  "EventLoop_hasChannel = hasChannel"

text \<open>\<open>eventfd\<close> gives the descriptor or a negative number and the error.\<close>

definition creatweakfd :: "int \<times> errno \<Rightarrow> net_logger \<Rightarrow> fd \<times> net_logger" where
  "creatweakfd eventfd l =
     (case eventfd of (wakefd, e) \<Rightarrow>
        (wakefd, if wakefd < 0 then LOG FATAL (''eventfd create error:'' @ to_string e @ [CHR 0x0A]) l else l))"

text \<open>The constructor and the destructor of \<open>EventLoop\<close> on the poller; \<open>p\<close> is the wakeup channel.\<close>

definition loop_construct ::
  "('k \<Rightarrow> epoll_ctl \<Rightarrow> bool \<times> 'k) \<Rightarrow> (chan_ptr \<Rightarrow> channel) \<Rightarrow> 'k \<Rightarrow> int \<times> errno \<Rightarrow> chan_ptr \<Rightarrow> net_logger
     \<Rightarrow> (fd \<times> 'k poll_world) option \<times> net_logger" where
  "loop_construct ctl heap k eventfd p l =
     (case newDefaultPoller False heap k l of
        (None, l1) \<Rightarrow> (None, l1)
      | (Some w, l1) \<Rightarrow>
          (case creatweakfd eventfd l1 of (wakefd, l2) \<Rightarrow>
             (Some (wakefd, EventLoop_updateChannel ctl p
                (modify_channel p (\<lambda>_. set_interest Able_read (new_channel wakefd)) w)), l2)))"

definition loop_destroy ::
  "('k \<Rightarrow> epoll_ctl \<Rightarrow> bool \<times> 'k) \<Rightarrow> chan_ptr \<Rightarrow> fd \<times> 'k poll_world \<Rightarrow> (fd \<times> 'k poll_world) \<times> sock_call list" where
  "loop_destroy ctl p x = (case x of (wakefd, w) \<Rightarrow>
     (let w1 = EventLoop_updateChannel ctl p (modify_channel p (set_interest Disable_all) w);
          w2 = EventLoop_removeChannel ctl p w1
      in if wakefd \<ge> 0 then ((-1, w2), [Sys_close wakefd]) else ((wakefd, w2), [])))"

section \<open>Failed calls\<close>

text \<open>The outcomes of a sequence of calls, and the lines they leave in the log.\<close>

fun outcomes :: "'k sys \<Rightarrow> 'k \<Rightarrow> (LogLevel \<times> string \<times> fd \<times> sock_call) list \<Rightarrow> (LogLevel \<times> string) list \<times> 'k" where
  "outcomes sys k [] = ([], k)"
| "outcomes sys k ((level, what, sockfd, c) # cs) =
     (case sys k c of (e, k1) \<Rightarrow> case outcomes sys k1 cs of (ls, k2) \<Rightarrow>
        (case e of None \<Rightarrow> ls | Some n \<Rightarrow> (level, sock_error what sockfd n) # ls, k2))"

definition log_all :: "(LogLevel \<times> string) list \<Rightarrow> net_logger \<Rightarrow> net_logger" where
  "log_all ls l = fold (\<lambda>(level, msg). LOG level msg) ls l"

lemma logged_call_step:
  "logged_call sys level what sockfd c w =
     (case outcomes sys (sw_kernel w) [(level, what, sockfd, c)] of (ls, k) \<Rightarrow>
        w\<lparr>sw_kernel := k, sw_calls := sw_calls w @ [c], sw_log := log_all ls (sw_log w)\<rparr>)"
  by (cases "sys (sw_kernel w) c") (auto simp: logged_call_def log_all_def split: option.splits)

lemma logged_calls:
  "fold (\<lambda>(level, what, sockfd, c). logged_call sys level what sockfd c) cs w =
     (case outcomes sys (sw_kernel w) cs of (ls, k) \<Rightarrow>
        w\<lparr>sw_kernel := k, sw_calls := sw_calls w @ map (snd \<circ> snd \<circ> snd) cs, sw_log := log_all ls (sw_log w)\<rparr>)"
proof (induction cs arbitrary: w)
  case (Cons x cs)
  obtain level what sockfd c where x: "x = (level, what, sockfd, c)" by (cases x)
  obtain e k where k: "sys (sw_kernel w) c = (e, k)" by (cases "sys (sw_kernel w) c")
  have "logged_call sys level what sockfd c w =
      w\<lparr>sw_kernel := k, sw_calls := sw_calls w @ [c],
        sw_log := log_all (case e of None \<Rightarrow> [] | Some n \<Rightarrow> [(level, sock_error what sockfd n)]) (sw_log w)\<rparr>"
    by (simp add: logged_call_step k)
  then show ?case
    by (simp add: x k Cons log_all_def split: prod.splits option.splits)
qed (simp add: log_all_def)

text \<open>The calls that bring a server up, in order, with the log text of each failure.\<close>

definition server_calls :: "fd \<Rightarrow> sockaddr_in \<Rightarrow> bool \<Rightarrow> (LogLevel \<times> string \<times> fd \<times> sock_call) list" where
  "server_calls sockfd addr reuseport =
     [(ERORR, ''setKeepAlive'', sockfd, Sys_setsockopt sockfd SO_KEEPALIVE 1),
      (ERORR, ''setReuseAddr'', sockfd, Sys_setsockopt sockfd SO_REUSEADDR 1),
      (ERORR, ''setReusePort'', sockfd, Sys_setsockopt sockfd SO_REUSEPORT (if reuseport then 1 else 0)),
      (FATAL, ''bind'', sockfd, Sys_bind sockfd addr),
      (FATAL, ''listen'', sockfd, Sys_listen sockfd)]"

lemma server_calls_run:
  assumes "sock (sw_kernel w) = (sockfd, k)"
  shows "Acceptor_listen sys (Acceptor_construct sys sock addr reuseport w) =
    ((sockfd, fst (acceptor_listen (new_acceptor sockfd))),
     fold (\<lambda>(level, what, sockfd, c). logged_call sys level what sockfd c) (server_calls sockfd addr reuseport)
       (w\<lparr>sw_kernel := k\<rparr>))"
  by (simp add: Acceptor_listen_def Acceptor_construct_def createNonblocking_def assms server_calls_def
      setKeepAlive_def setReuseAddr_def setReusePort_def bindAddress_def Socket_listen_def)

text \<open>Whatever fails, the same calls are made, the acceptor listens, and only the log tells.\<close>

lemma acceptor_ignores_failures:
  assumes "sock (sw_kernel w) = (sockfd, k)"
    and "Acceptor_listen sys (Acceptor_construct sys sock addr reuseport w) = ((f, a), w')"
  shows "f = sockfd \<and> acc_listening a \<and> isread (acc_channel a) \<and>
    sw_calls w' = sw_calls w @ map (snd \<circ> snd \<circ> snd) (server_calls sockfd addr reuseport) \<and>
    sw_kernel w' = snd (outcomes sys k (server_calls sockfd addr reuseport)) \<and>
    sw_log w' = log_all (fst (outcomes sys k (server_calls sockfd addr reuseport))) (sw_log w)"
proof -
  have "isread (acc_channel (fst (acceptor_listen (new_acceptor sockfd))))"
    by (simp add: acceptor_listen_def new_acceptor_def new_channel_def set_interest_def isread_def
        kreadEvent_def epoll_flags)
  then show ?thesis
    using assms(2) unfolding server_calls_run [of sock, OF assms(1)] logged_calls
    by (auto simp: acceptor_listen_def split: prod.splits)
qed

section \<open>The life of the wakeup channel\<close>

lemma loop_construct_poll:
  "loop_construct ctl heap k (wakefd, e) p l =
     (Some (wakefd, channel_request ctl Able_read p (new_poller (heap(p := new_channel wakefd)) k)),
      if wakefd < 0 then LOG FATAL (''eventfd create error:'' @ to_string e @ [CHR 0x0A]) l else l)"
  by (simp add: loop_construct_def newDefaultPoller_def creatweakfd_def EventLoop_updateChannel_def
      channel_request_def modify_channel_def new_poller_def)

lemma loop_destroy_poll:
  "loop_destroy ctl p (wakefd, w) =
     (let w' = removeChannel ctl p (channel_request ctl Disable_all p w)
      in if wakefd \<ge> 0 then ((-1, w'), [Sys_close wakefd]) else ((wakefd, w'), []))"
  by (simp add: loop_destroy_def EventLoop_updateChannel_def EventLoop_removeChannel_def channel_request_def Let_def)

lemma run_poll_op_fd: "ch_fd (pw_heap (run_poll_op ctl wait op v) p) = ch_fd (pw_heap v p)"
  by (cases op) (simp_all add: channel_request_heap removeChannel_heap poller_poll_fields)

text \<open>
  An event loop takes its wakeup channel out again: whatever the channels of its connections ask
  for in between, no call of \<^verbatim>\<open>epoll_ctl\<close> fails from the constructor to the destructor, and after it
  neither the kernel nor the poller's map has the descriptor, which is closed once.
\<close>

lemma loop_life:
  assumes ok: "epoll_ok ctl interest" "interest k = (\<lambda>_. None)"
    and fds: "inj_on (\<lambda>q. ch_fd ((heap(p := new_channel wakefd)) q)) (insert p P)"
      "\<And>q. q \<in> P \<Longrightarrow> ch_index (heap q) = kNew"
    and run: "loop_construct ctl heap k (wakefd, e) p l = (Some (wakefd, w), l')"
      "list_all (poll_op_on (insert p P)) ops" "0 \<le> wakefd"
    and stop: "loop_destroy ctl p (wakefd, fold (run_poll_op ctl wait) ops w) = ((f, w'), calls)"
  shows "pw_errors w' = [] \<and> interest (pw_kernel w') wakefd = None \<and> pw_channels w' wakefd = None \<and>
    f = -1 \<and> calls = [Sys_close wakefd]"
proof -
  let ?start = "new_poller (heap(p := new_channel wakefd)) k"
  let ?all = "Poll_request Able_read p # ops @ [Poll_request Disable_all p, Poll_remove p]"
  have w': "w' = fold (run_poll_op ctl wait) ?all ?start" "f = -1" "calls = [Sys_close wakefd]"
    using run(1,3) stop by (auto simp: loop_construct_poll loop_destroy_poll Let_def)
  have "ch_index ((heap(p := new_channel wakefd)) q) = kNew" if "q \<in> insert p P" for q
    using that fds(2) by (auto simp: new_channel_def kNew_def)
  from new_poller_inv [of "heap(p := new_channel wakefd)" "insert p P" interest k, OF fds(1) this ok(2)]
  have inv: "poll_inv interest (insert p P) w'" "pw_errors w' = []"
    using run_poll_ops_inv [OF ok(1), of "insert p P" ?start ?all wait] run(2) w'(1)
    by (simp_all add: new_poller_def)
  have fd: "ch_fd (pw_heap (fold (run_poll_op ctl wait) os v) p) = ch_fd (pw_heap v p)" for os v
    by (induction os arbitrary: v) (simp_all add: run_poll_op_fd)
  have "ch_fd (pw_heap w' p) = wakefd" unfolding w'(1) fd by (simp add: new_poller_def new_channel_def)
  moreover have "ch_index (pw_heap w' p) = kNew" by (simp add: w'(1) removeChannel_def Let_def)
  ultimately show ?thesis
    using interest_None [OF inv(1), of p] channels_eq [OF inv(1), of p] inv(2) w'(2,3) by (simp add: index_defs)
qed

section \<open>Documented behaviour of the kernel\<close>

text \<open>
  \<open>bound\<close> reads a socket's address off the kernel, \<open>in_use\<close> the addresses of other sockets. Options
  change neither; \<^verbatim>\<open>bind\<close> to an address in use fails; \<^verbatim>\<open>listen\<close> on a socket without an address gives
  it a free one.
\<close>

definition ip_ok :: "'k sys \<Rightarrow> ('k \<Rightarrow> (fd \<rightharpoonup> sockaddr_in)) \<Rightarrow> ('k \<Rightarrow> sockaddr_in set) \<Rightarrow> bool" where
  "ip_ok sys bound in_use \<longleftrightarrow>
     (\<forall>k f opt v. bound (snd (sys k (Sys_setsockopt f opt v))) = bound k \<and>
        in_use (snd (sys k (Sys_setsockopt f opt v))) = in_use k) \<and>
     (\<forall>k f a. a \<in> in_use k \<longrightarrow> bound k f = None \<longrightarrow>
        (\<exists>e k'. sys k (Sys_bind f a) = (Some e, k') \<and> bound k' = bound k \<and> in_use k' = in_use k)) \<and>
     (\<forall>k f. bound k f = None \<longrightarrow>
        (\<exists>a. a \<notin> in_use k \<and> bound (snd (sys k (Sys_listen f))) f = Some a))"

section \<open>Properties\<close>

text \<open>
  Property (C39). A failed bind is not noticed: on a kernel that behaves as documented, a server
  started on an address that is in use comes up all the same. Its acceptor is listening and
  watched for new connections, its socket has an address the kernel chose, which is not the one it
  was given, and all that tells is the log.
\<close>

theorem server_runs_elsewhere:
  assumes "ip_ok sys bound in_use" and "sock (sw_kernel w) = (sockfd, k)"
    and "bound k sockfd = None" and "addr \<in> in_use k"
    and "Acceptor_listen sys (Acceptor_construct sys sock addr reuseport w) = ((f, a), w')"
  shows "acc_listening a \<and> isread (acc_channel a) \<and>
    (\<exists>addr'. bound (sw_kernel w') sockfd = Some addr' \<and> addr' \<noteq> addr) \<and>
    (\<exists>ls e. sw_log w' = log_all ls (sw_log w) \<and> (FATAL, sock_error ''bind'' sockfd e) \<in> set ls)"
proof -
  let ?opt = "\<lambda>o' v. Sys_setsockopt sockfd o' v"
  let ?v = "if reuseport then 1 else 0"
  obtain e1 k1 e2 k2 e3 k3 where k: "sys k (?opt SO_KEEPALIVE 1) = (e1, k1)" "sys k1 (?opt SO_REUSEADDR 1) = (e2, k2)"
      "sys k2 (?opt SO_REUSEPORT ?v) = (e3, k3)" by (metis surj_pair)
  have keep: "bound k1 = bound k" "in_use k1 = in_use k" "bound k2 = bound k1" "in_use k2 = in_use k1"
      "bound k3 = bound k2" "in_use k3 = in_use k2"
    using assms(1) k unfolding ip_ok_def by (metis snd_conv)+
  then have k3: "bound k3 sockfd = None" "addr \<in> in_use k3" using assms(3,4) by simp_all
  with assms(1) obtain e k4 where k4: "sys k3 (Sys_bind sockfd addr) = (Some e, k4)" "bound k4 = bound k3" "in_use k4 = in_use k3"
    unfolding ip_ok_def by metis
  then have "bound k4 sockfd = None" using k3 by simp
  with assms(1) obtain addr' where addr': "addr' \<notin> in_use k4" "bound (snd (sys k4 (Sys_listen sockfd))) sockfd = Some addr'"
    unfolding ip_ok_def by metis
  obtain e5 k5 where k5: "sys k4 (Sys_listen sockfd) = (e5, k5)" by (metis surj_pair)
  have "snd (outcomes sys k (server_calls sockfd addr reuseport)) = k5"
    "(FATAL, sock_error ''bind'' sockfd e) \<in> set (fst (outcomes sys k (server_calls sockfd addr reuseport)))"
    using k k4(1) k5 by (auto simp: server_calls_def split: option.splits)
  moreover have "addr' \<noteq> addr" using addr'(1) k3(2) k4(3) by auto
  ultimately show ?thesis
    using acceptor_ignores_failures [of sock, OF assms(2,5)] addr'(2) k5 by auto
qed

section \<open>Witnesses\<close>

text \<open>A kernel that knows the addresses of its sockets; port \<open>0\<close> stands for one that is free.\<close>

fun ip_sys :: "(fd \<rightharpoonup> sockaddr_in) sys" where
  "ip_sys k (Sys_bind f a) = (if k f = None \<and> a = \<lparr>sin_port = 80, sin_addr = 0\<rparr> then (Some 98, k) else (None, k(f \<mapsto> a)))"
| "ip_sys k (Sys_listen f) = (None, if k f = None then k(f \<mapsto> \<lparr>sin_port = 0, sin_addr = 0\<rparr>) else k)"
| "ip_sys k c = (None, k)"

lemma ip_sys_ok: "ip_ok ip_sys (\<lambda>k. k) (\<lambda>_. {\<lparr>sin_port = 80, sin_addr = 0\<rparr>})"
  by (auto simp: ip_ok_def)

lemma server_runs_elsewhere_witness:
  "\<exists>f a w'. Acceptor_listen ip_sys (Acceptor_construct ip_sys (\<lambda>k. (3, k)) \<lparr>sin_port = 80, sin_addr = 0\<rparr> False
      \<lparr>sw_kernel = (\<lambda>_. None), sw_calls = [], sw_log = \<lparr>loglevel = 0, net_out = []\<rparr>\<rparr>) = ((f, a), w') \<and>
     acc_listening a \<and> sw_kernel w' 3 \<noteq> Some \<lparr>sin_port = 80, sin_addr = 0\<rparr>"
proof -
  let ?w = "\<lparr>sw_kernel = (\<lambda>_. None), sw_calls = [], sw_log = \<lparr>loglevel = 0, net_out = []\<rparr>\<rparr> :: (fd \<rightharpoonup> sockaddr_in) sock_world"
  let ?a = "\<lparr>sin_port = 80, sin_addr = 0\<rparr>"
  obtain f a w' where run: "Acceptor_listen ip_sys (Acceptor_construct ip_sys (\<lambda>k. (3, k)) ?a False ?w) = ((f, a), w')"
    by (metis surj_pair)
  have s: "(\<lambda>k. (3, k)) (sw_kernel ?w) = (3, \<lambda>_. None)" by simp
  have n: "(\<lambda>_. None :: sockaddr_in option) (3 :: fd) = None" "?a \<in> (\<lambda>_. {?a}) (\<lambda>_ :: fd. None :: sockaddr_in option)" by simp_all
  from server_runs_elsewhere [OF ip_sys_ok s n run] run show ?thesis by auto
qed

end
