(* ===== verification/NetMoves.thy ===== *)
theory NetMoves
  imports NetReactor
begin

text \<open>
  What an operation of an established connection may do to its channel and its state
  (\<^verbatim>\<open>TcpConnection.cpp\<close>): it asks for or gives up writing only, it never takes the channel out of
  the poller, a connection that is down stays down, and it goes down exactly when the close
  callback is called. The lemmas carry this over to a loop thread.
\<close>

section \<open>The relation\<close>

abbreviation quiet :: "tcp_conn \<Rightarrow> bool" where
  "quiet c \<equiv> tc_state c = kDisconnected \<and> ch_events (tc_channel c) = 0"

fun write_event :: "conn_event \<Rightarrow> bool" where
  "write_event (E_request i) \<longleftrightarrow> i = Able_write \<or> i = Disable_write"
| "write_event E_remove \<longleftrightarrow> False"
| "write_event _ \<longleftrightarrow> True"

fun asks :: "conn_event \<Rightarrow> bool" where
  "asks (E_request _) \<longleftrightarrow> True"
| "asks E_remove \<longleftrightarrow> True"
| "asks _ \<longleftrightarrow> False"

definition moves :: "tcp_conn \<Rightarrow> tcp_conn \<Rightarrow> bool" where
  "moves c c' \<longleftrightarrow> (\<exists>es. tc_trace c' = tc_trace c @ es \<and> list_all write_event es \<and>
     ch_events (tc_channel c') = asked es (ch_events (tc_channel c)) \<and> ch_fd (tc_channel c') = ch_fd (tc_channel c) \<and>
     (tc_state c = kDisconnected \<longrightarrow> tc_state c' = kDisconnected) \<and>
     (quiet c \<longrightarrow> list_all (\<lambda>e. \<not> asks e) es) \<and>
     (E_close_cb \<in> set es \<longrightarrow> tc_state c' = kDisconnected) \<and>
     (tc_state c' = kDisconnected \<longrightarrow> tc_state c = kDisconnected \<or> E_close_cb \<in> set es))"

definition op_moves :: "conn_op \<Rightarrow> bool" where
  "op_moves f \<longleftrightarrow> (\<forall>c c'. f c = Inr c' \<longrightarrow> moves c c')"

text \<open>
  The user's callbacks use a connection through its public functions; the close callback is the
  server's.
\<close>

definition cbs_move :: "conn_callbacks \<Rightarrow> bool" where
  "cbs_move cbs \<longleftrightarrow> cb_close cbs \<noteq> None \<and>
     (\<forall>f \<in> {cb_connection cbs, cb_message cbs, cb_write_complete cbs, cb_close cbs}. \<forall>g. f = Some g \<longrightarrow> op_moves g)"

lemma asked_still: "list_all (\<lambda>e. \<not> asks e) es \<Longrightarrow> asked es e = e"
proof (induction es)
  case (Cons x es)
  then show ?case by (cases x) simp_all
qed simp

lemma write_event_quiet: "list_all write_event es \<Longrightarrow> quiet_removes es e"
  by (induction es e rule: quiet_removes.induct) simp_all

lemma moves_follows: "moves c c' \<Longrightarrow> follows c c'"
  by (auto simp: moves_def follows_def write_event_quiet)

lemma moves_refl [simp]: "moves c c"
  by (simp add: moves_def)

lemma moves_trans [trans]:
  assumes "moves a b" "moves b c" shows "moves a c"
proof -
  obtain es where es: "tc_trace b = tc_trace a @ es" "list_all write_event es"
      "ch_events (tc_channel b) = asked es (ch_events (tc_channel a))" "ch_fd (tc_channel b) = ch_fd (tc_channel a)"
      "tc_state a = kDisconnected \<longrightarrow> tc_state b = kDisconnected" "quiet a \<longrightarrow> list_all (\<lambda>e. \<not> asks e) es"
      "E_close_cb \<in> set es \<longrightarrow> tc_state b = kDisconnected"
      "tc_state b = kDisconnected \<longrightarrow> tc_state a = kDisconnected \<or> E_close_cb \<in> set es"
    using assms(1) unfolding moves_def by blast
  obtain fs where fs: "tc_trace c = tc_trace b @ fs" "list_all write_event fs"
      "ch_events (tc_channel c) = asked fs (ch_events (tc_channel b))" "ch_fd (tc_channel c) = ch_fd (tc_channel b)"
      "tc_state b = kDisconnected \<longrightarrow> tc_state c = kDisconnected" "quiet b \<longrightarrow> list_all (\<lambda>e. \<not> asks e) fs"
      "E_close_cb \<in> set fs \<longrightarrow> tc_state c = kDisconnected"
      "tc_state c = kDisconnected \<longrightarrow> tc_state b = kDisconnected \<or> E_close_cb \<in> set fs"
    using assms(2) unfolding moves_def by blast
  have still: "quiet a \<longrightarrow> list_all (\<lambda>e. \<not> asks e) (es @ fs)"
    using es(3,5,6) fs(6) asked_still [of es] by simp
  have "E_close_cb \<in> set (es @ fs) \<longrightarrow> tc_state c = kDisconnected" using es(7) fs(5,7) by auto
  moreover have "tc_state c = kDisconnected \<longrightarrow> tc_state a = kDisconnected \<or> E_close_cb \<in> set (es @ fs)"
    using es(8) fs(8) by auto
  moreover have "tc_state a = kDisconnected \<longrightarrow> tc_state c = kDisconnected" using es(5) fs(5) by simp
  moreover have "tc_trace c = tc_trace a @ es @ fs" "list_all write_event (es @ fs)"
      "ch_events (tc_channel c) = asked (es @ fs) (ch_events (tc_channel a))" "ch_fd (tc_channel c) = ch_fd (tc_channel a)"
    using es fs by simp_all
  ultimately show ?thesis using still unfolding moves_def by blast
qed

lemma moves_frame [simp]:
  "moves c (c'\<lparr>tc_input := b\<rparr>) = moves c c'" "moves c (c'\<lparr>tc_output := b\<rparr>) = moves c c'"
  "moves c (c'\<lparr>tc_queue := q\<rparr>) = moves c c'"
  "moves (c\<lparr>tc_input := b\<rparr>) c' = moves c c'" "moves (c\<lparr>tc_output := b\<rparr>) c' = moves c c'"
  "moves (c\<lparr>tc_queue := q\<rparr>) c' = moves c c'"
  by (simp_all add: moves_def)

fun still_event :: "conn_event \<Rightarrow> bool" where
  "still_event E_close_cb \<longleftrightarrow> False"
| "still_event e \<longleftrightarrow> plain_event e"

lemma moves_emit:
  assumes "moves c c'" "still_event e \<or> e = E_close_cb \<and> tc_state c' = kDisconnected"
  shows "moves c (emit e c')"
proof -
  obtain es where es: "tc_trace c' = tc_trace c @ es" "list_all write_event es"
      "ch_events (tc_channel c') = asked es (ch_events (tc_channel c))" "ch_fd (tc_channel c') = ch_fd (tc_channel c)"
      "tc_state c = kDisconnected \<longrightarrow> tc_state c' = kDisconnected" "quiet c \<longrightarrow> list_all (\<lambda>e. \<not> asks e) es"
      "E_close_cb \<in> set es \<longrightarrow> tc_state c' = kDisconnected"
      "tc_state c' = kDisconnected \<longrightarrow> tc_state c = kDisconnected \<or> E_close_cb \<in> set es"
    using assms(1) unfolding moves_def by blast
  show ?thesis
    unfolding moves_def by (rule exI [of _ "es @ [e]"]) (use es assms(2) in \<open>cases e; auto\<close>)
qed

lemma moves_request:
  assumes "moves c c'" "i = Able_write \<or> i = Disable_write" "\<not> quiet c"
  shows "moves c (request i c')"
proof -
  obtain es where es: "tc_trace c' = tc_trace c @ es" "list_all write_event es"
      "ch_events (tc_channel c') = asked es (ch_events (tc_channel c))" "ch_fd (tc_channel c') = ch_fd (tc_channel c)"
      "tc_state c = kDisconnected \<longrightarrow> tc_state c' = kDisconnected"
      "E_close_cb \<in> set es \<longrightarrow> tc_state c' = kDisconnected"
      "tc_state c' = kDisconnected \<longrightarrow> tc_state c = kDisconnected \<or> E_close_cb \<in> set es"
    using assms(1) unfolding moves_def by blast
  show ?thesis
    unfolding moves_def
    by (rule exI [of _ "es @ [E_request i]"]) (use es assms(2,3) in \<open>auto simp: events_set_interest\<close>)
qed

lemma moves_call_back:
  assumes "call_back e f c1 = Inr c'" "moves c c1" "\<And>g. f = Some g \<Longrightarrow> op_moves g"
    and "still_event e \<or> e = E_close_cb \<and> tc_state c1 = kDisconnected"
  shows "moves c c'"
proof (cases f)
  case None
  with assms show ?thesis by (simp add: call_back_def)
next
  case (Some g)
  then have "moves (emit e c1) c'" using assms(1,3) by (simp add: call_back_def op_moves_def)
  with moves_emit [OF assms(2,4)] show ?thesis by (rule moves_trans)
qed

lemma cbs_moveD:
  assumes "cbs_move cbs"
  shows "cb_connection cbs = Some g \<Longrightarrow> op_moves g" "cb_message cbs = Some g \<Longrightarrow> op_moves g"
    "cb_write_complete cbs = Some g \<Longrightarrow> op_moves g" "cb_close cbs = Some g \<Longrightarrow> op_moves g"
    "cb_close cbs \<noteq> None"
  using assms by (simp_all add: cbs_move_def)

lemma cbs_move_follow: "cbs_move cbs \<Longrightarrow> cbs_follow cbs"
  by (auto simp: cbs_move_def cbs_follow_def op_moves_def op_follows_def intro: moves_follows)

section \<open>The connection's operations move it\<close>

lemma send_direct_moves:
  assumes "send_direct cbs wr d c = Inr (n, f, c')" "cbs_move cbs"
  shows "moves c c'"
  using assms(1) moves_call_back [OF _ moves_emit [OF moves_refl]] cbs_moveD(3) [OF assms(2)]
  by (auto simp: send_direct_def Let_def bind_res_eq_Inr split: if_splits sum.splits intro!: moves_emit)

lemma sendInLoop_moves:
  assumes "sendInLoop cbs wr d c = Inr c'" "cbs_move cbs" shows "moves c c'"
proof (cases "tc_state c = kDisconnected")
  case True
  with assms(1) show ?thesis by (simp add: sendInLoop_def)
next
  case False
  then obtain n f c1 where s: "send_direct cbs wr d (emit (E_accepted d) c) = Inr (n, f, c1)"
      "send_rest n f d c1 = Inr c'"
    using assms(1) by (auto simp: sendInLoop_def bind_res_eq_Inr)
  have "moves c (emit (E_accepted d) c)" by (rule moves_emit) simp_all
  also have "moves \<dots> c1" using s(1) assms(2) by (rule send_direct_moves)
  finally have m: "moves c c1" .
  show ?thesis using s(2) m False
    by (auto simp: send_rest_def bind_res_eq_Inr Let_def intro!: moves_request split: if_splits)
qed

lemma shutdownInLoop_moves: "moves c c' \<Longrightarrow> moves c (shutdownInLoop c')"
  by (simp add: shutdownInLoop_def moves_emit)

lemma handleClose_moves:
  assumes "handleClose cbs c = Inr c'" "cbs_move cbs" shows "moves c c'"
proof -
  let ?d = "setState kDisconnected c"
  obtain c1 where c1: "call_back (E_connection_cb False) (cb_connection cbs) ?d = Inr c1"
      "call_back E_close_cb (cb_close cbs) c1 = Inr c'"
    using assms(1) by (auto simp: handleClose_def bind_res_eq_Inr connected_def setState_def)
  have m: "moves ?d c1" using c1(1)
    by (rule moves_call_back) (simp_all add: cbs_moveD(1) [OF assms(2)])
  obtain g where g: "cb_close cbs = Some g" "op_moves g" using cbs_moveD(4,5) [OF assms(2)] by blast
  have down: "tc_state ?d = kDisconnected" by (simp add: setState_def)
  then have d1: "tc_state c1 = kDisconnected" using m by (auto simp: moves_def)
  have m1: "moves ?d (emit E_close_cb c1)" using moves_emit [OF m] d1 by simp
  have m2: "moves (emit E_close_cb c1) c'" using c1(2) g by (simp add: call_back_def op_moves_def)
  obtain es where es: "tc_trace c1 = tc_trace c @ es" using m by (auto simp: moves_def setState_def)
  obtain fs where fs: "tc_trace c' = tc_trace c1 @ [E_close_cb] @ fs" using m2 by (auto simp: moves_def)
  obtain gs where gs: "tc_trace c' = tc_trace c @ gs" "list_all write_event gs"
      "ch_events (tc_channel c') = asked gs (ch_events (tc_channel c))" "ch_fd (tc_channel c') = ch_fd (tc_channel c)"
      "tc_state c' = kDisconnected" "ch_events (tc_channel c) = 0 \<longrightarrow> list_all (\<lambda>e. \<not> asks e) gs"
    using moves_trans [OF m1 m2] unfolding moves_def by (auto simp: setState_def)
  have "gs = es @ [E_close_cb] @ fs" using gs(1) es fs by simp
  then have "E_close_cb \<in> set gs" by simp
  with gs show ?thesis unfolding moves_def by blast
qed

lemma conn_handleRead_moves:
  assumes "conn_handleRead cbs readv c = Inr c'" "cbs_move cbs" shows "moves c c'"
proof -
  obtain b q where b: "readFd readv (tc_input c) = Inr (b, q)"
      "(case q of Inl e \<Rightarrow> Inr (handleError (c\<lparr>tc_input := b\<rparr>))
        | Inr n \<Rightarrow> if n > 0 then call_back E_message_cb (cb_message cbs) (c\<lparr>tc_input := b\<rparr>)
            else handleClose cbs (c\<lparr>tc_input := b\<rparr>)) = Inr c'"
    using assms(1) by (auto simp: conn_handleRead_def bind_res_eq_Inr Let_def)
  have m: "moves c c'" if "call_back E_message_cb (cb_message cbs) (c\<lparr>tc_input := b\<rparr>) = Inr c'"
    using that by (rule moves_call_back) (simp_all add: cbs_moveD(2) [OF assms(2)])
  have cl: "moves c c'" if "handleClose cbs (c\<lparr>tc_input := b\<rparr>) = Inr c'"
    using handleClose_moves [OF that assms(2)] by simp
  show ?thesis using b(2) m cl
    by (auto simp: handleError_def intro!: moves_emit split: sum.splits if_splits)
qed

lemma handleWrite_moves:
  assumes "handleWrite cbs wr c = Inr c'" "cbs_move cbs" shows "moves c c'"
proof -
  let ?data = "readable_data (tc_output c)"
  have drained: "moves c c'"
    if w: "iswrite (tc_channel c)"
      and res: "bind_res (call_back E_write_complete_cb (cb_write_complete cbs) (request Disable_write c1))
        (\<lambda>c2. Inr (if tc_state c2 = kDisconnecting then shutdownInLoop c2 else c2)) = Inr c'"
      and mv: "moves c c1" for c1
  proof -
    obtain c2 where c2: "call_back E_write_complete_cb (cb_write_complete cbs) (request Disable_write c1) = Inr c2"
        "c' = (if tc_state c2 = kDisconnecting then shutdownInLoop c2 else c2)"
      using res by (auto simp: bind_res_eq_Inr)
    have "\<not> quiet c" using w by (auto simp: iswrite_def)
    then have "moves c (request Disable_write c1)" using mv by (simp add: moves_request)
    with c2(1) have "moves c c2" by (rule moves_call_back) (simp_all add: cbs_moveD(3) [OF assms(2)])
    then show ?thesis by (simp add: c2(2) shutdownInLoop_moves)
  qed
  have took: "moves c (emit (E_written d) c)" for d by (rule moves_emit) simp_all
  show ?thesis using assms(1)
    by (auto simp: handleWrite_def Let_def took intro!: moves_emit dest!: drained split: if_splits sum.splits)
qed

lemma conn_callback_moves: "cbs_move cbs \<Longrightarrow> op_moves (conn_callback cbs io k)"
  by (cases k) (auto simp: op_moves_def handleError_def
      intro: handleClose_moves conn_handleRead_moves handleWrite_moves moves_emit)

lemma conn_shutdown_moves: "moves c (conn_shutdown t c)"
proof -
  have "moves c (setState kDisconnecting c)" if "tc_state c = kConnected"
    using that by (auto simp: moves_def setState_def)
  then show ?thesis by (simp add: conn_shutdown_def Let_def shutdownInLoop_moves)
qed

text \<open>The calls a program makes of a connection.\<close>

fun user_call :: "conn_input \<Rightarrow> bool" where
  "user_call (I_send _ _ _) \<longleftrightarrow> True"
| "user_call (I_shutdown _) \<longleftrightarrow> True"
| "user_call (I_deferred _) \<longleftrightarrow> True"
| "user_call _ \<longleftrightarrow> False"

lemma user_call_moves:
  assumes "cbs_move cbs" "user_call i" shows "op_moves (conn_step cbs i)"
  unfolding op_moves_def
proof (intro allI impI)
  fix c c' assume ret: "conn_step cbs i c = Inr c'"
  show "moves c c'"
  proof (cases i)
    case (I_send t d wr)
    with ret assms show ?thesis by (auto simp: conn_send_def intro: sendInLoop_moves split: if_splits)
  next
    case (I_shutdown t)
    with ret show ?thesis by (auto simp: conn_shutdown_moves)
  next
    case (I_deferred wr)
    show ?thesis
    proof (cases "tc_queue c")
      case (Cons d ds)
      then have "run_deferred cbs wr d (c\<lparr>tc_queue := ds\<rparr>) = Inr c'" using ret I_deferred by simp
      then have "moves (c\<lparr>tc_queue := ds\<rparr>) c'"
        using assms(1) by (cases d) (auto dest: sendInLoop_moves intro: shutdownInLoop_moves)
      then show ?thesis by simp
    qed (use ret I_deferred in simp)
  qed (use assms(2) in simp_all)
qed

text \<open>Reading, bit 0 of the interest, is asked for once and stays.\<close>

lemma reads_stay: "list_all write_event es \<Longrightarrow> bit (asked es e) 0 = bit e 0"
proof (induction es e rule: asked.induct)
  case (2 i es e)
  have "bit (interest_bits i e) 0 = bit e 0" if "i = Able_write \<or> i = Disable_write"
    using that by (auto simp: interest_bits_def set_interest_def kwrite_exp bit_or_iff bit_and_iff bit_not_iff bit_exp_iff)
  with 2 show ?case by simp
qed simp_all

lemma moves_reads: "moves c c' \<Longrightarrow> bit (ch_events (tc_channel c')) 0 = bit (ch_events (tc_channel c)) 0"
  by (auto simp: moves_def reads_stay)

lemma moves_down: "moves c c' \<Longrightarrow> tc_state c = kDisconnected \<Longrightarrow> tc_state c' = kDisconnected"
  by (auto simp: moves_def)

lemma moves_closes:
  assumes "moves c c'"
  shows "E_close_cb \<in> set (drop (length (tc_trace c)) (tc_trace c')) \<Longrightarrow> tc_state c' = kDisconnected"
    and "tc_state c' = kDisconnected \<Longrightarrow> tc_state c = kDisconnected \<or>
      E_close_cb \<in> set (drop (length (tc_trace c)) (tc_trace c'))"
  using assms by (auto simp: moves_def)

lemma connectEstablished_down:
  assumes "connectEstablished cbs c = Inr c'" "cbs_move cbs" "tc_trace c = []"
  shows "bit (ch_events (tc_channel c')) 0" "ch_fd (tc_channel c') = ch_fd (tc_channel c)"
    "tc_state c' = kDisconnected \<longleftrightarrow> E_close_cb \<in> set (tc_trace c')"
proof -
  let ?c = "request Able_read ((setState kConnected c)\<lparr>tc_channel := tie (tc_channel c)\<rparr>)"
  have "call_back (E_connection_cb True) (cb_connection cbs) ?c = Inr c'"
    using assms(1) by (simp add: connectEstablished_def Let_def connected_def setState_def)
  then have m: "moves ?c c'"
    by (rule moves_call_back) (simp_all add: cbs_moveD(1) [OF assms(2)])
  have "bit (ch_events (tc_channel ?c)) 0"
    by (simp add: set_interest_def kreadEvent_def epoll_flags bit_or_iff)
  then show "bit (ch_events (tc_channel c')) 0" using moves_reads [OF m] by simp
  obtain es where es: "tc_trace c' = E_request Able_read # es" "ch_fd (tc_channel c') = ch_fd (tc_channel c)"
      "E_close_cb \<in> set es \<longrightarrow> tc_state c' = kDisconnected" "tc_state c' = kDisconnected \<longrightarrow> E_close_cb \<in> set es"
    using m assms(3) by (auto simp: moves_def setState_def tie_def)
  then show "ch_fd (tc_channel c') = ch_fd (tc_channel c)"
    "tc_state c' = kDisconnected \<longleftrightarrow> E_close_cb \<in> set (tc_trace c')" by auto
qed

section \<open>On a loop thread\<close>

definition r_moves :: "chan_ptr \<Rightarrow> 'k reactor \<Rightarrow> 'k reactor \<Rightarrow> bool" where
  "r_moves p r r' \<longleftrightarrow>
     (\<forall>q. q \<noteq> p \<longrightarrow> re_conns r' q = re_conns r q \<and>
        ch_index (pw_heap (re_poll r') q) = ch_index (pw_heap (re_poll r) q)) \<and>
     (case re_conns r p of None \<Rightarrow> re_conns r' p = None
      | Some k \<Rightarrow> \<exists>k'. re_conns r' p = Some k' \<and> moves k k' \<and>
          (quiet k \<and> ch_index (pw_heap (re_poll r) p) = kNew \<longrightarrow> ch_index (pw_heap (re_poll r') p) = kNew))"

lemma r_moves_refl [simp]: "r_moves p r r"
  by (simp add: r_moves_def split: option.split)

lemma moves_quiet: "moves c c' \<Longrightarrow> quiet c \<Longrightarrow> quiet c'"
  using asked_still by (auto simp: moves_def)

lemma r_moves_trans:
  assumes "r_moves p a b" "r_moves p b c" shows "r_moves p a c"
proof (cases "re_conns a p")
  case None
  with assms show ?thesis by (simp add: r_moves_def)
next
  case (Some k)
  then obtain k1 where k1: "re_conns b p = Some k1" "moves k k1"
      "quiet k \<and> ch_index (pw_heap (re_poll a) p) = kNew \<longrightarrow> ch_index (pw_heap (re_poll b) p) = kNew"
    using assms(1) by (auto simp: r_moves_def)
  then obtain k2 where k2: "re_conns c p = Some k2" "moves k1 k2"
      "quiet k1 \<and> ch_index (pw_heap (re_poll b) p) = kNew \<longrightarrow> ch_index (pw_heap (re_poll c) p) = kNew"
    using assms(2) by (auto simp: r_moves_def)
  have "moves k k2" using k1(2) k2(2) by (rule moves_trans)
  with assms Some k1 k2 moves_quiet [OF k1(2)] show ?thesis by (simp add: r_moves_def)
qed

lemma carry_out_still: "list_all (\<lambda>e. \<not> asks e) es \<Longrightarrow> carry_out ctl p es w = w"
  by (induction ctl p es w rule: carry_out.induct) simp_all

lemma on_conn_moves:
  assumes f: "op_moves f" and ret: "on_conn ctl p f r = Inr r'" shows "r_moves p r r'"
proof (cases "re_conns r p")
  case None
  with ret show ?thesis by (simp add: on_conn_def)
next
  case (Some k)
  then obtain k' where k': "f k = Inr k'" "r' = r\<lparr>re_conns := (re_conns r)(p \<mapsto> k'),
      re_poll := carry_out ctl p (drop (length (tc_trace k)) (tc_trace k')) (re_poll r)\<rparr>"
    using ret by (auto simp: on_conn_def bind_res_eq_Inr)
  have m: "moves k k'" using f k'(1) by (simp add: op_moves_def)
  then have "quiet k \<longrightarrow> carry_out ctl p (drop (length (tc_trace k)) (tc_trace k')) (re_poll r) = re_poll r"
    by (auto simp: moves_def intro: carry_out_still)
  with m Some show ?thesis by (simp add: r_moves_def k'(2) carry_out_other)
qed

lemma dispatch_moves:
  assumes "cbs_move cbs" "dispatch ctl cbs io p r = Inr r'" shows "r_moves p r r'"
proof -
  have "run_callbacks ctl cbs io p ks r = Inr r' \<Longrightarrow> r_moves p r r'" for ks r
  proof (induction ks arbitrary: r)
    case (Cons k ks)
    then obtain r1 where r1: "on_conn ctl p (conn_callback cbs io k) r = Inr r1" "run_callbacks ctl cbs io p ks r1 = Inr r'"
      by (auto simp: bind_res_eq_Inr)
    from on_conn_moves [OF conn_callback_moves [OF assms(1)] r1(1)] Cons.IH [OF r1(2)] show ?case
      by (rule r_moves_trans)
  qed simp
  with assms(2) show ?thesis unfolding dispatch_def by blast
qed

lemma dispatch_watched:
  assumes "epoll_ok ctl interest" and "cbs_keep cbs" "cbs_follow cbs" "watched interest r"
    and "dispatch ctl cbs io p r = Inr r'"
  shows "watched interest r' \<and> pw_errors (re_poll r') = pw_errors (re_poll r)"
  using callbacks_watched [OF assms(1-4) assms(5) [unfolded dispatch_def]] .

text \<open>Destroying takes the channel out of the poller, for good.\<close>

lemma destroy_on_conn:
  assumes "on_conn ctl p (\<lambda>k. Inr (connectDestroyed k)) r = Inr r'" "re_conns r p = Some k"
  shows "re_conns r' = (re_conns r)(p \<mapsto> connectDestroyed k)" "ch_index (pw_heap (re_poll r') p) = kNew"
    "q \<noteq> p \<Longrightarrow> ch_index (pw_heap (re_poll r') q) = ch_index (pw_heap (re_poll r) q)"
proof -
  have "tc_trace (connectDestroyed k) = tc_trace k @ [E_request Disable_all, E_remove]"
    by (simp add: connectDestroyed_def Let_def setState_def)
  then have r': "r' = r\<lparr>re_conns := (re_conns r)(p \<mapsto> connectDestroyed k),
      re_poll := carry_out ctl p [E_request Disable_all, E_remove] (re_poll r)\<rparr>"
    using assms by (simp add: on_conn_def)
  show "re_conns r' = (re_conns r)(p \<mapsto> connectDestroyed k)" "ch_index (pw_heap (re_poll r') p) = kNew"
    by (simp_all add: r' removeChannel_heap)
  show "ch_index (pw_heap (re_poll r') q) = ch_index (pw_heap (re_poll r) q)" if "q \<noteq> p"
    using that by (simp add: r' carry_out_other del: carry_out.simps)
qed

lemma connectDestroyed_fields:
  "tc_state (connectDestroyed k) = (if tc_state k = kConnected then kDisconnected else tc_state k)"
  "ch_fd (tc_channel (connectDestroyed k)) = ch_fd (tc_channel k)"
  "E_close_cb \<notin> set (drop (length (tc_trace k)) (tc_trace (connectDestroyed k)))"
  by (simp_all add: connectDestroyed_def Let_def setState_def)

end
