(* ===== verification/NetServerLoops.thy ===== *)
theory NetServerLoops
  imports NetMoves NetServer
begin

text \<open>
  The life of the connections of a running server, over all its loop threads: the acceptor hands a
  new connection to \<^verbatim>\<open>TcpServer\<close>, which has it established in the loop of its turn; when the
  connection closes, that loop reports it to the server, the base loop takes it out of the map and
  asks its loop to destroy it (\<^verbatim>\<open>TcpServer.cpp\<close>, \<^verbatim>\<open>Acceptor.cpp\<close>, \<^verbatim>\<open>EventLoop.cpp\<close>,
  \<^verbatim>\<open>TcpConnection.cpp\<close>). The threads take their steps in any order.
\<close>

section \<open>State\<close>

text \<open>
  Where a loop thread is in the body of \<open>loop\<close>: about to poll, with active channels still to handle,
  or with taken functions still to call.
\<close>

datatype loop_phase = Polling | Handling "chan_ptr list" | Calling "conn_task list"

record 'k io_thread =
  lt_reactor :: "'k reactor"
  lt_phase :: loop_phase
  lt_pending :: "conn_task list"

text \<open>Loop 0 is the base loop. The channel of connection \<open>c\<close> is the object \<open>c\<close> of its loop.\<close>

record 'k server_net =
  sn_server :: "nat tcp_server"
  sn_acceptor :: acceptor
  sn_loop :: "nat \<Rightarrow> 'k io_thread"

definition modify_loop :: "nat \<Rightarrow> ('k io_thread \<Rightarrow> 'k io_thread) \<Rightarrow> 'k server_net \<Rightarrow> 'k server_net" where
  "modify_loop l f s = s\<lparr>sn_loop := (sn_loop s)(l := f (sn_loop s l))\<rparr>"

definition set_reactor :: "nat \<Rightarrow> 'k reactor \<Rightarrow> 'k server_net \<Rightarrow> 'k server_net" where
  "set_reactor l r = modify_loop l (\<lambda>x. x\<lparr>lt_reactor := r\<rparr>)"

definition set_phase :: "nat \<Rightarrow> loop_phase \<Rightarrow> 'k server_net \<Rightarrow> 'k server_net" where
  "set_phase l ph = modify_loop l (\<lambda>x. x\<lparr>lt_phase := ph\<rparr>)"

definition queue_task :: "nat \<Rightarrow> conn_task \<Rightarrow> 'k server_net \<Rightarrow> 'k server_net" where
  "queue_task l t = modify_loop l (\<lambda>x. x\<lparr>lt_pending := lt_pending x @ [t]\<rparr>)"

abbreviation reactor_of :: "'k server_net \<Rightarrow> nat \<Rightarrow> 'k reactor" where
  "reactor_of s l \<equiv> lt_reactor (sn_loop s l)"

abbreviation object_of :: "'k server_net \<Rightarrow> conn_id \<Rightarrow> nat server_conn" where
  "object_of s c \<equiv> srv_objects (sn_server s) ! c"

abbreviation loop_of :: "'k server_net \<Rightarrow> conn_id \<Rightarrow> nat" where
  "loop_of s c \<equiv> sc_loop (object_of s c)"

text \<open>The functions a loop has still to call.\<close>

definition waiting_tasks :: "'k io_thread \<Rightarrow> conn_task list" where
  "waiting_tasks x = (case lt_phase x of Calling ts \<Rightarrow> ts | _ \<Rightarrow> []) @ lt_pending x"

abbreviation tasks_of :: "'k server_net \<Rightarrow> nat \<Rightarrow> conn_task list" where
  "tasks_of s l \<equiv> waiting_tasks (sn_loop s l)"

section \<open>Operations\<close>

text \<open>
  The server sets the close callback: it leaves the connection itself alone, and its call is the
  event \<open>E_close_cb\<close> of the connection's trace.
\<close>

definition server_callbacks :: "conn_callbacks \<Rightarrow> conn_callbacks" where
  "server_callbacks cbs = cbs\<lparr>cb_close := Some Inr\<rparr>"

definition new_calls :: "'l tcp_server \<Rightarrow> 'l tcp_server \<Rightarrow> 'l loop_call list" where
  "new_calls sv sv' = drop (length (srv_calls sv)) (srv_calls sv')"

text \<open>How often the close callback was called in an operation on connection \<open>c\<close>.\<close>

definition closes :: "conn_id \<Rightarrow> 'k reactor \<Rightarrow> 'k reactor \<Rightarrow> nat" where
  "closes c r r' = (case re_conns r' c of None \<Rightarrow> 0 | Some k' \<Rightarrow>
     count_list (drop (case re_conns r c of None \<Rightarrow> 0 | Some k \<Rightarrow> length (tc_trace k)) (tc_trace k')) E_close_cb)"

text \<open>\<open>removeConnectionInLoop\<close> runs in the base loop; what it asks for is always queued.\<close>

fun queue_call :: "nat loop_call \<Rightarrow> 'k server_net \<Rightarrow> 'k server_net" where
  "queue_call (Run_in l t) s = queue_task l t s"
| "queue_call (Queue_in l t) s = queue_task l t s"

definition remove_in_loop :: "conn_id \<Rightarrow> 'k server_net \<Rightarrow> 'k server_net" where
  "remove_in_loop c s =
     (let sv' = removeConnectionInLoop c (sn_server s)
      in fold queue_call (new_calls (sn_server s) sv') (s\<lparr>sn_server := sv'\<rparr>))"

text \<open>
  The close callback, called by the thread of loop \<open>l\<close>: \<open>removeConnection\<close>, whose \<open>runInLoop\<close>
  calls the function at once in the base loop's own thread.
\<close>

definition report_close :: "nat \<Rightarrow> conn_id \<Rightarrow> 'k server_net \<Rightarrow> 'k server_net" where
  "report_close l c s =
     (let sv' = removeConnection c (sn_server s); s' = s\<lparr>sn_server := sv'\<rparr>
      in if l = srv_loop (sn_server s) then remove_in_loop c s'
         else fold queue_call (new_calls (sn_server s) sv') s')"

text \<open>An operation of loop \<open>l\<close> on its connection \<open>c\<close>, and the reports of a close it makes.\<close>

definition on_loop ::
  "nat \<Rightarrow> conn_id \<Rightarrow> ('k reactor \<Rightarrow> buf_error + 'k reactor) \<Rightarrow> 'k server_net \<Rightarrow> buf_error + 'k server_net" where
  "on_loop l c f s =
     bind_res (f (reactor_of s l)) (\<lambda>r'.
       Inr ((report_close l c ^^ closes c (reactor_of s l) r') (set_reactor l r' s)))"

text \<open>The constructor's part of a connection, seen from its loop, and \<open>connectEstablished\<close>.\<close>

definition establish ::
  "('k \<Rightarrow> epoll_ctl \<Rightarrow> bool \<times> 'k) \<Rightarrow> conn_callbacks \<Rightarrow> conn_id \<Rightarrow> 'k server_net \<Rightarrow> buf_error + 'k server_net" where
  "establish ctl cbs c s =
     bind_res (new_buffer kInitialSize) (\<lambda>b.
       on_loop (loop_of s c) c (\<lambda>r. on_conn ctl c (connectEstablished (server_callbacks cbs))
         (r\<lparr>re_conns := (re_conns r)(c \<mapsto> new_connection (sc_fd (object_of s c)) b b),
            re_poll := modify_channel c (\<lambda>_. tie (new_channel (sc_fd (object_of s c)))) (re_poll r)\<rparr>)) s)"

fun run_task ::
  "('k \<Rightarrow> epoll_ctl \<Rightarrow> bool \<times> 'k) \<Rightarrow> conn_callbacks \<Rightarrow> nat \<Rightarrow> conn_task \<Rightarrow> 'k server_net
     \<Rightarrow> buf_error + 'k server_net" where
  "run_task ctl cbs l T_listen s = Inr s"
| "run_task ctl cbs l (T_established c) s = establish ctl cbs c s"
| "run_task ctl cbs l (T_destroyed c) s = on_loop l c (on_conn ctl c (\<lambda>k. Inr (connectDestroyed k))) s"
| "run_task ctl cbs l (T_remove c) s = Inr (remove_in_loop c s)"

text \<open>\<open>newConnection\<close> in the base loop; in a server without threads it establishes at once.\<close>

definition accept_connection ::
  "('k \<Rightarrow> epoll_ctl \<Rightarrow> bool \<times> 'k) \<Rightarrow> conn_callbacks \<Rightarrow> fd \<Rightarrow> sockaddr_in \<Rightarrow> 'k server_net
     \<Rightarrow> buf_error + 'k server_net" where
  "accept_connection ctl cbs fd peer s =
     (let sv' = newConnection fd peer (sn_server s); s' = s\<lparr>sn_server := sv'\<rparr>;
          c = length (srv_objects (sn_server s))
      in if loop_of s' c = srv_loop (sn_server s) then establish ctl cbs c s'
         else Inr (fold queue_call (new_calls (sn_server s) sv') s'))"

text \<open>
  \<open>accept4\<close> returns a descriptor that no connection has: one that waits to be established or has
  not been released.
\<close>

definition fd_free :: "fd \<Rightarrow> 'k server_net \<Rightarrow> bool" where
  "fd_free fd s \<longleftrightarrow> (\<forall>c < length (srv_objects (sn_server s)).
     (T_established c \<in> set (tasks_of s (loop_of s c)) \<or> re_conns (reactor_of s (loop_of s c)) c \<noteq> None) \<longrightarrow>
     sc_fd (object_of s c) \<noteq> fd)"

text \<open>
  What may happen next: a loop polls, and is told which channels are ready; it handles the first of
  them; the base loop's acceptor accepts; a loop that has handled its channels takes the queued
  functions, calls the next of them, or goes back to poll; the program uses a connection; the last
  pointer to a connection goes.
\<close>

datatype net_input =
    N_poll nat "errno + (chan_ptr \<times> u32) list"
  | N_event nat io_answers
  | N_accept "int \<times> sockaddr_in"
  | N_turn nat
  | N_call conn_id conn_input
  | N_release conn_id

definition no_address :: sockaddr_in where "no_address = \<lparr>sin_port = 0, sin_addr = 0\<rparr>"

fun accept_effects ::
  "('k \<Rightarrow> epoll_ctl \<Rightarrow> bool \<times> 'k) \<Rightarrow> conn_callbacks \<Rightarrow> accept_effect list \<Rightarrow> 'k server_net
     \<Rightarrow> buf_error + 'k server_net" where
  "accept_effects ctl cbs [] s = Inr s"
| "accept_effects ctl cbs (Acc_new_connection fd peer # es) s =
     bind_res (if fd_free fd s then accept_connection ctl cbs fd peer s else Inr s) (accept_effects ctl cbs es)"
| "accept_effects ctl cbs (_ # es) s = accept_effects ctl cbs es s"

fun net_step ::
  "('k \<Rightarrow> epoll_ctl \<Rightarrow> bool \<times> 'k) \<Rightarrow> conn_callbacks \<Rightarrow> net_input \<Rightarrow> 'k server_net \<Rightarrow> buf_error + 'k server_net" where
  "net_step ctl cbs (N_poll l ready) s =
     (case lt_phase (sn_loop s l) of
        Polling \<Rightarrow> (case poller_poll (\<lambda>_ _. ready) (re_poll (reactor_of s l)) of
          (w, active) \<Rightarrow> Inr (set_phase l (Handling active) (set_reactor l ((reactor_of s l)\<lparr>re_poll := w\<rparr>) s)))
      | _ \<Rightarrow> Inr s)"
| "net_step ctl cbs (N_event l io) s =
     (case lt_phase (sn_loop s l) of
        Handling (p # ps) \<Rightarrow> on_loop l p (dispatch ctl (server_callbacks cbs) io p) (set_phase l (Handling ps) s)
      | _ \<Rightarrow> Inr s)"
| "net_step ctl cbs (N_accept r) s =
     (case lt_phase (sn_loop s (srv_loop (sn_server s))) of
        Handling ps \<Rightarrow> accept_effects ctl cbs (acceptor_handleRead r no_address (sn_acceptor s)) s
      | _ \<Rightarrow> Inr s)"
| "net_step ctl cbs (N_turn l) s =
     (case lt_phase (sn_loop s l) of
        Handling [] \<Rightarrow> Inr (modify_loop l (\<lambda>x. x\<lparr>lt_phase := Calling (lt_pending x), lt_pending := []\<rparr>) s)
      | Calling (t # ts) \<Rightarrow> run_task ctl cbs l t (set_phase l (Calling ts) s)
      | Calling [] \<Rightarrow> Inr (set_phase l Polling s)
      | _ \<Rightarrow> Inr s)"
| "net_step ctl cbs (N_call c inp) s =
     (if user_call inp \<and> c < length (srv_objects (sn_server s))
      then on_loop (loop_of s c) c (on_conn ctl c (conn_step (server_callbacks cbs) inp)) s else Inr s)"
| "net_step ctl cbs (N_release c) s =
     (if c < length (srv_objects (sn_server s)) \<and> srv_connections (sn_server s) (sc_name (object_of s c)) \<noteq> Some c \<and>
        T_established c \<notin> set (tasks_of s (loop_of s c)) \<and> T_destroyed c \<notin> set (tasks_of s (loop_of s c)) \<and>
        T_remove c \<notin> set (tasks_of s (srv_loop (sn_server s)))
      then Inr (set_reactor (loop_of s c)
        ((reactor_of s (loop_of s c))\<lparr>re_conns := (re_conns (reactor_of s (loop_of s c)))(c := None)\<rparr>) s)
      else Inr s)"

fun net_run ::
  "('k \<Rightarrow> epoll_ctl \<Rightarrow> bool \<times> 'k) \<Rightarrow> conn_callbacks \<Rightarrow> net_input list \<Rightarrow> 'k server_net \<Rightarrow> buf_error + 'k server_net" where
  "net_run ctl cbs [] s = Inr s"
| "net_run ctl cbs (x # xs) s = bind_res (net_step ctl cbs x s) (net_run ctl cbs xs)"

text \<open>
  A server that has been started, with its loops about to poll; \<open>start_loop\<close> gives the number of
  the loop that runs in the thread of a name. The constructor sets the acceptor's callback.
\<close>

definition new_server_net ::
  "fd \<Rightarrow> (string \<Rightarrow> nat) \<Rightarrow> int \<Rightarrow> string \<Rightarrow> (chan_ptr \<Rightarrow> channel) \<Rightarrow> 'k \<Rightarrow> 'k server_net" where
  "new_server_net listenfd start_loop threads name heap k =
     \<lparr>sn_server = server_start start_loop False (server_setThreadNum threads (new_server 0 name)),
      sn_acceptor = fst (acceptor_listen (setNewConnectionCallback (new_acceptor listenfd))),
      sn_loop = (\<lambda>_. \<lparr>lt_reactor = new_reactor heap k, lt_phase = Polling, lt_pending = []\<rparr>)\<rparr>"

section \<open>Field lemmas\<close>

lemma net_simps [simp]:
  "sn_server (modify_loop l f s) = sn_server s" "sn_acceptor (modify_loop l f s) = sn_acceptor s"
  "sn_loop (modify_loop l f s) = (sn_loop s)(l := f (sn_loop s l))"
  by (simp_all add: modify_loop_def)

lemma reactor_simps [simp]:
  "reactor_of (set_reactor l r s) l' = (if l' = l then r else reactor_of s l')"
  "reactor_of (set_phase l ph s) l' = reactor_of s l'"
  "reactor_of (queue_task l t s) l' = reactor_of s l'"
  "sn_server (set_reactor l r s) = sn_server s" "sn_server (set_phase l ph s) = sn_server s"
  "sn_server (queue_task l t s) = sn_server s"
  by (simp_all add: set_reactor_def set_phase_def queue_task_def)

lemma tasks_simps [simp]:
  "tasks_of (set_reactor l r s) l' = tasks_of s l'"
  "tasks_of (queue_task l t s) l' = (if l' = l then tasks_of s l' @ [t] else tasks_of s l')"
  by (simp_all add: set_reactor_def queue_task_def waiting_tasks_def)

end
