(* ===== verification/NetLifecycle.thy ===== *)
theory NetLifecycle
  imports NetServerLoops
begin

text \<open>
  What the steps of the server and its loop threads keep of every connection: the stages from the
  acceptor to the release of the object, and where its functions wait. The property is that no
  connection is lost on the way and none stays behind (\<^verbatim>\<open>TcpServer.cpp\<close>, \<^verbatim>\<open>TcpConnection.cpp\<close>,
  \<^verbatim>\<open>EventLoop.cpp\<close>).
\<close>

section \<open>The invariant\<close>

text \<open>What concerns connection \<open>c\<close>.\<close>

abbreviation held :: "'k server_net \<Rightarrow> conn_id \<Rightarrow> tcp_conn option" where
  "held s c \<equiv> re_conns (reactor_of s (loop_of s c)) c"

abbreviation index_of :: "'k server_net \<Rightarrow> conn_id \<Rightarrow> int" where
  "index_of s c \<equiv> ch_index (pw_heap (re_poll (reactor_of s (loop_of s c))) c)"

abbreviation est :: "'k server_net \<Rightarrow> conn_id \<Rightarrow> nat" where
  "est s c \<equiv> count_list (tasks_of s (loop_of s c)) (T_established c)"

abbreviation dest :: "'k server_net \<Rightarrow> conn_id \<Rightarrow> bool" where
  "dest s c \<equiv> T_destroyed c \<in> set (tasks_of s (loop_of s c))"

abbreviation removing :: "'k server_net \<Rightarrow> conn_id \<Rightarrow> bool" where
  "removing s c \<equiv> T_remove c \<in> set (tasks_of s 0)"

abbreviation in_map :: "'k server_net \<Rightarrow> conn_id \<Rightarrow> bool" where
  "in_map s c \<equiv> srv_connections (sn_server s) (sc_name (object_of s c)) = Some c"

abbreviation conns :: "'k server_net \<Rightarrow> nat" where
  "conns s \<equiv> length (srv_objects (sn_server s))"

abbreviation busy :: "'k server_net \<Rightarrow> conn_id \<Rightarrow> bool" where
  "busy s c \<equiv> 0 < est s c \<or> held s c \<noteq> None"

text \<open>
  The stages of a connection: waiting to be established; up; closed and waiting to be removed;
  removed and waiting to be destroyed; destroyed; released.
\<close>

definition stage_ok :: "tcp_conn option \<Rightarrow> int \<Rightarrow> nat \<Rightarrow> bool \<Rightarrow> bool \<Rightarrow> bool \<Rightarrow> bool" where
  "stage_ok h idx e d rm m \<longleftrightarrow> (case h of
      None \<Rightarrow> \<not> d \<and> \<not> rm \<and> e = (if m then 1 else 0)
    | Some k \<Rightarrow> e = 0 \<and> (d \<longrightarrow> \<not> m) \<and> (m \<longrightarrow> bit (ch_events (tc_channel k)) 0) \<and>
        (if tc_state k = kDisconnected then (m \<longrightarrow> rm) \<and> (\<not> m \<longrightarrow> d \<or> idx = kNew) else m \<and> \<not> rm))"

abbreviation staged :: "'k server_net \<Rightarrow> conn_id \<Rightarrow> bool" where
  "staged s c \<equiv> stage_ok (held s c) (index_of s c) (est s c) (dest s c) (removing s c) (in_map s c)"

fun well_placed :: "'k server_net \<Rightarrow> nat \<Rightarrow> conn_task \<Rightarrow> bool" where
  "well_placed s l (T_established c) \<longleftrightarrow> c < conns s \<and> loop_of s c = l"
| "well_placed s l (T_destroyed c) \<longleftrightarrow> c < conns s \<and> loop_of s c = l"
| "well_placed s l (T_remove c) \<longleftrightarrow> c < conns s \<and> l = 0"
| "well_placed s l T_listen \<longleftrightarrow> True"

text \<open>The connections in \<open>X\<close> are in the middle of a step.\<close>

definition net_inv :: "('k \<Rightarrow> (fd \<rightharpoonup> u32 \<times> chan_ptr)) \<Rightarrow> conn_id set \<Rightarrow> 'k server_net \<Rightarrow> bool" where
  "net_inv interest X s \<longleftrightarrow>
     (\<exists>gone. server_inv (srv_name (sn_server s)) gone (sn_server s)) \<and> srv_loop (sn_server s) = 0 \<and>
     (\<forall>l. watched interest (reactor_of s l) \<and> pw_errors (re_poll (reactor_of s l)) = []) \<and>
     (\<forall>l c k. re_conns (reactor_of s l) c = Some k \<longrightarrow>
        c < conns s \<and> loop_of s c = l \<and> ch_fd (tc_channel k) = sc_fd (object_of s c)) \<and>
     (\<forall>l. \<forall>t \<in> set (tasks_of s l). well_placed s l t) \<and>
     (\<forall>c d. c < conns s \<and> d < conns s \<and> busy s c \<and> busy s d \<and> sc_fd (object_of s c) = sc_fd (object_of s d) \<longrightarrow> c = d) \<and>
     (\<forall>c < conns s. c \<notin> X \<longrightarrow> staged s c)"

lemma net_invD:
  assumes "net_inv interest X s"
  shows "\<exists>gone. server_inv (srv_name (sn_server s)) gone (sn_server s)" "srv_loop (sn_server s) = 0"
    "watched interest (reactor_of s l)" "pw_errors (re_poll (reactor_of s l)) = []"
    "re_conns (reactor_of s l) c = Some k \<Longrightarrow> c < conns s \<and> loop_of s c = l \<and> ch_fd (tc_channel k) = sc_fd (object_of s c)"
    "t \<in> set (tasks_of s l) \<Longrightarrow> well_placed s l t"
    "c < conns s \<Longrightarrow> d < conns s \<Longrightarrow> busy s c \<Longrightarrow> busy s d \<Longrightarrow> sc_fd (object_of s c) = sc_fd (object_of s d) \<Longrightarrow> c = d"
    "c < conns s \<Longrightarrow> c \<notin> X \<Longrightarrow> staged s c"
  using assms unfolding net_inv_def by blast+

lemma net_invI:
  assumes "net_inv interest Y s" "sn_server s' = sn_server s"
    and "\<And>l. watched interest (reactor_of s' l) \<and> pw_errors (re_poll (reactor_of s' l)) = []"
    and "\<And>l c k. re_conns (reactor_of s' l) c = Some k \<Longrightarrow>
      c < conns s' \<and> loop_of s' c = l \<and> ch_fd (tc_channel k) = sc_fd (object_of s' c)"
    and "\<And>l t. t \<in> set (tasks_of s' l) \<Longrightarrow> well_placed s' l t"
    and "\<And>c d. c < conns s' \<Longrightarrow> d < conns s' \<Longrightarrow> busy s' c \<Longrightarrow> busy s' d \<Longrightarrow>
      sc_fd (object_of s' c) = sc_fd (object_of s' d) \<Longrightarrow> c = d"
    and "\<And>c. c < conns s' \<Longrightarrow> c \<notin> X \<Longrightarrow> staged s' c"
  shows "net_inv interest X s'"
proof -
  have "(\<exists>gone. server_inv (srv_name (sn_server s')) gone (sn_server s')) \<and> srv_loop (sn_server s') = 0"
    using net_invD(1,2) [OF assms(1)] by (simp add: assms(2))
  with assms(3-7) show ?thesis unfolding net_inv_def by blast
qed

text \<open>A connection that is down and of which the server is about to be told.\<close>

definition going :: "'k server_net \<Rightarrow> conn_id \<Rightarrow> bool" where
  "going s c \<longleftrightarrow> c < conns s \<and> (\<exists>k. held s c = Some k \<and> tc_state k = kDisconnected \<and>
     (in_map s c \<longrightarrow> bit (ch_events (tc_channel k)) 0)) \<and> est s c = 0 \<and> (dest s c \<longrightarrow> \<not> in_map s c) \<and>
     (\<not> in_map s c \<longrightarrow> dest s c \<or> index_of s c = kNew)"

section \<open>Steps of the server\<close>

lemma in_map_iff:
  assumes "server_inv name gone sv" "c < length (srv_objects sv)"
  shows "srv_connections sv (sc_name (srv_objects sv ! c)) = Some c \<longleftrightarrow> c \<notin> gone"
  using assms by (simp add: server_inv_def)

lemma erase_map:
  assumes "server_inv name gone sv" "c < length (srv_objects sv)" "d < length (srv_objects sv)"
  shows "srv_connections (removeConnectionInLoop c sv) (sc_name (srv_objects sv ! d)) = Some d \<longleftrightarrow>
    d \<noteq> c \<and> srv_connections sv (sc_name (srv_objects sv ! d)) = Some d"
  using assms conn_name_inj [of name c d]
  by (auto simp: removeConnectionInLoop_def Let_def server_inv_def)

lemma removeConnectionInLoop_fields:
  "srv_objects (removeConnectionInLoop c sv) = srv_objects sv" "srv_loop (removeConnectionInLoop c sv) = srv_loop sv"
  "srv_name (removeConnectionInLoop c sv) = srv_name sv"
  "srv_calls (removeConnectionInLoop c sv) = srv_calls sv @ [Queue_in (sc_loop (srv_objects sv ! c)) (T_destroyed c)]"
  by (simp_all add: removeConnectionInLoop_def Let_def)

lemma removeConnection_fields:
  "srv_objects (removeConnection c sv) = srv_objects sv" "srv_loop (removeConnection c sv) = srv_loop sv"
  "srv_name (removeConnection c sv) = srv_name sv" "srv_connections (removeConnection c sv) = srv_connections sv"
  "srv_calls (removeConnection c sv) = srv_calls sv @ [Run_in (srv_loop sv) (T_remove c)]"
  "server_inv name gone (removeConnection c sv) = server_inv name gone sv"
  by (simp_all add: removeConnection_def server_inv_def)

lemma remove_in_loop_eq:
  "remove_in_loop c s =
     queue_task (loop_of s c) (T_destroyed c) (s\<lparr>sn_server := removeConnectionInLoop c (sn_server s)\<rparr>)"
  by (simp add: remove_in_loop_def new_calls_def removeConnectionInLoop_fields Let_def)

lemma report_close_eq:
  "report_close l c s =
     (let s' = s\<lparr>sn_server := removeConnection c (sn_server s)\<rparr>
      in if l = srv_loop (sn_server s) then remove_in_loop c s' else queue_task (srv_loop (sn_server s)) (T_remove c) s')"
  by (simp add: report_close_def new_calls_def removeConnection_fields Let_def)

lemma remove_in_loop_inv:
  assumes inv: "net_inv interest {c} s" and c: "going s c"
  shows "net_inv interest {} (remove_in_loop c s)" "going (remove_in_loop c s) c"
proof -
  let ?s = "remove_in_loop c s"
  obtain gone where g: "server_inv (srv_name (sn_server s)) gone (sn_server s)" using net_invD(1) [OF inv] by blast
  have n: "c < conns s" using c by (simp add: going_def)
  have sv: "sn_server ?s = removeConnectionInLoop c (sn_server s)" by (simp add: remove_in_loop_eq)
  have tasks: "tasks_of ?s l = tasks_of s l @ (if l = loop_of s c then [T_destroyed c] else [])" for l
    by (simp add: remove_in_loop_eq)
  have re: "reactor_of ?s l = reactor_of s l" for l by (simp add: remove_in_loop_eq)
  have map: "in_map ?s d \<longleftrightarrow> d \<noteq> c \<and> in_map s d" if "d < conns s" for d
    using erase_map [OF g n that] by (simp add: sv removeConnectionInLoop_fields)
  note eqs = sv tasks re removeConnectionInLoop_fields
  have eq: "well_placed ?s l t = well_placed s l t" for l t by (cases t) (simp_all add: eqs)
  have placed: "well_placed ?s l t" if "t \<in> set (tasks_of ?s l)" for l t
    using that net_invD(6) [OF inv, of t l] n unfolding eq by (auto simp: tasks split: if_splits)
  have "staged ?s d" if "d < conns ?s" for d
  proof (cases "d = c")
    case True
    with c map [OF n] show ?thesis by (auto simp: going_def stage_ok_def eqs)
  next
    case False
    with that map [of d] net_invD(8) [OF inv, of d] show ?thesis by (simp add: eqs)
  qed
  then show "net_inv interest {} ?s"
    using placed inv removeConnectionInLoop_inv [OF g n] unfolding net_inv_def by (auto simp: eqs)
  show "going ?s c" using c map [OF n] unfolding going_def by (auto simp: eqs)
qed

lemma report_close_inv:
  assumes inv: "net_inv interest {c} s" and c: "going s c"
  shows "net_inv interest {} (report_close l c s)" "going (report_close l c s) c"
proof -
  let ?t = "s\<lparr>sn_server := removeConnection c (sn_server s)\<rparr>"
  note eqs = removeConnection_fields
  have placed: "well_placed ?t l t = well_placed s l t" for l t by (cases t) (simp_all add: eqs)
  have t: "net_inv interest {c} ?t" "going ?t c"
    using inv c unfolding net_inv_def going_def by (auto simp: eqs placed)
  let ?q = "queue_task 0 (T_remove c) ?t"
  have qplaced: "well_placed ?q l t = well_placed s l t" for l t by (cases t) (simp_all add: eqs)
  have n: "c < conns s" using c by (simp add: going_def)
  have "staged ?q d" if "d < conns ?q" for d
  proof (cases "d = c")
    case True
    with c show ?thesis by (auto simp: going_def stage_ok_def eqs)
  next
    case False
    with that net_invD(8) [OF inv, of d] show ?thesis by (cases "loop_of s d = 0") (simp_all add: eqs)
  qed
  then have q: "net_inv interest {} ?q" "going ?q c"
    using inv c n unfolding net_inv_def going_def by (auto simp: eqs qplaced)
  show "net_inv interest {} (report_close l c s)" "going (report_close l c s) c"
    using remove_in_loop_inv [OF t] q net_invD(2) [OF inv] by (simp_all add: report_close_eq Let_def)
qed

lemma net_inv_mono: "net_inv interest {} s \<Longrightarrow> net_inv interest X s"
  by (simp add: net_inv_def)

lemma reports_inv:
  "net_inv interest {c} s \<Longrightarrow> going s c \<Longrightarrow> net_inv interest {} ((report_close l c ^^ Suc n) s)"
proof (induction n arbitrary: s)
  case (Suc n)
  from report_close_inv [OF Suc.prems, of l] have "net_inv interest {c} (report_close l c s)" "going (report_close l c s) c"
    by (auto intro: net_inv_mono)
  from Suc.IH [OF this] show ?case by (simp only: funpow_Suc_right [of "Suc n"] o_apply)
qed (simp add: report_close_inv)

section \<open>Operations on a connection\<close>

lemma set_reactor_inv:
  assumes inv: "net_inv interest X s" and w: "watched interest r'" "pw_errors (re_poll r') = []"
    and other: "\<And>q. q \<noteq> c \<Longrightarrow> re_conns r' q = re_conns (reactor_of s l) q \<and>
      ch_index (pw_heap (re_poll r') q) = ch_index (pw_heap (re_poll (reactor_of s l)) q)"
    and own: "\<And>k. re_conns r' c = Some k \<Longrightarrow> c < conns s \<and> loop_of s c = l \<and> ch_fd (tc_channel k) = sc_fd (object_of s c)"
    and fds: "\<And>d. re_conns r' c \<noteq> None \<Longrightarrow> d < conns s \<Longrightarrow> d \<noteq> c \<Longrightarrow> busy s d \<Longrightarrow> sc_fd (object_of s d) \<noteq> sc_fd (object_of s c)"
  shows "net_inv interest (insert c X) (set_reactor l r' s)"
proof -
  let ?s = "set_reactor l r' s"
  have placed: "well_placed ?s i t = well_placed s i t" for i t by (cases t) simp_all
  have same: "held ?s d = held s d" "index_of ?s d = index_of s d" if "d \<noteq> c" for d
    using other [OF that] by auto
  have conn: "d < conns s \<and> loop_of s d = i \<and> ch_fd (tc_channel k) = sc_fd (object_of s d)"
    if "re_conns (reactor_of ?s i) d = Some k" for i d k
  proof (cases "d = c \<and> i = l")
    case True
    with own [of k] that show ?thesis by simp
  next
    case False
    then have "re_conns (reactor_of s i) d = Some k" using that other [of d] by (auto split: if_splits)
    then show ?thesis by (rule net_invD(5) [OF inv])
  qed
  have busy_c: "busy s c \<or> re_conns r' c \<noteq> None" if "busy ?s c" using that by (auto split: if_splits)
  have fd: "d = e" if "d < conns s" "e < conns s" "busy ?s d" "busy ?s e" "sc_fd (object_of s d) = sc_fd (object_of s e)" for d e
  proof (cases "d = c \<or> e = c")
    case False
    then have "busy s d" "busy s e" using that(3,4) same by auto
    with net_invD(7) [OF inv that(1,2) _ _ that(5)] show ?thesis by blast
  next
    case True
    have "x = c" if x: "x < conns s" "busy ?s x" "busy ?s c" "c < conns s" "sc_fd (object_of s x) = sc_fd (object_of s c)" for x
    proof (rule ccontr)
      assume ne: "x \<noteq> c"
      then have b: "busy s x" using x(2) same by auto
      from busy_c [OF x(3)] show False
        using fds [OF _ x(1) ne b] x(5) net_invD(7) [OF inv x(1,4) b _ x(5)] ne by blast
    qed
    with True that show ?thesis by metis
  qed
  have st: "staged ?s d" if "d < conns s" "d \<notin> insert c X" for d
    using net_invD(8) [OF inv that(1)] that(2) same [of d] by simp
  have w': "watched interest (reactor_of ?s i) \<and> pw_errors (re_poll (reactor_of ?s i)) = []" for i
    using w net_invD(3,4) [OF inv, of i] by simp
  have placed: "well_placed ?s i t" if "t \<in> set (tasks_of ?s i)" for i t
    using net_invD(6) [OF inv, of t i] that by (simp only: placed tasks_simps)
  note facts = w' conn placed fd st
  show ?thesis
    by (rule net_invI [OF inv], unfold reactor_simps(4)) (use facts [unfolded reactor_simps(4)] in blast)+
qed

lemma close_inv: "net_inv interest {c} s \<Longrightarrow> (c < conns s \<Longrightarrow> staged s c) \<Longrightarrow> net_inv interest {} s"
  unfolding net_inv_def by blast

lemma watched_new:
  assumes "watched interest r" "re_conns r p = Some k" "ch_index (pw_heap (re_poll r) p) = kNew"
  shows "ch_events (tc_channel k) = 0"
proof -
  have "ch_events (tc_channel k) \<noteq> 0 \<longrightarrow> ch_index (pw_heap (re_poll r) p) = kAdded"
    using assms(1,2) unfolding watched_def by blast
  then show ?thesis using assms(3) by (auto simp: index_defs)
qed

lemma moved_inv:
  assumes inv: "net_inv interest {} s" and mv: "r_moves c (reactor_of s l) r'"
    and w: "watched interest r'" "pw_errors (re_poll r') = []"
  shows "net_inv interest {} ((report_close l c ^^ closes c (reactor_of s l) r') (set_reactor l r' s))"
proof -
  let ?r = "reactor_of s l" and ?t = "set_reactor l r' s"
  have other: "\<And>q. q \<noteq> c \<Longrightarrow> re_conns r' q = re_conns ?r q \<and>
      ch_index (pw_heap (re_poll r') q) = ch_index (pw_heap (re_poll ?r) q)"
    using mv by (simp add: r_moves_def)
  show ?thesis
  proof (cases "re_conns ?r c")
    case None
    then have none: "re_conns r' c = None" using mv by (simp add: r_moves_def)
    have t: "net_inv interest {c} ?t" by (rule set_reactor_inv [OF inv w other]) (simp_all add: none)
    have "staged ?t c" if "c < conns ?t"
      using net_invD(8) [OF inv, of c] that None none by (auto simp: stage_ok_def)
    then have "net_inv interest {} ?t" by (rule close_inv [OF t])
    then show ?thesis by (simp add: closes_def none)
  next
    case (Some k)
    then obtain k' where k': "re_conns r' c = Some k'" "moves k k'"
        "quiet k \<and> ch_index (pw_heap (re_poll ?r) c) = kNew \<longrightarrow> ch_index (pw_heap (re_poll r') c) = kNew"
      using mv by (auto simp: r_moves_def)
    have own: "c < conns s" "loop_of s c = l" "ch_fd (tc_channel k') = sc_fd (object_of s c)"
      using net_invD(5) [OF inv Some] k'(2) by (auto simp: moves_def)
    have st: "stage_ok (Some k) (index_of s c) (est s c) (dest s c) (removing s c) (in_map s c)"
      using net_invD(8) [OF inv own(1)] Some own(2) by simp
    have b: "busy s c" using Some own(2) by simp
    have fds: "d < conns s \<Longrightarrow> d \<noteq> c \<Longrightarrow> busy s d \<Longrightarrow> sc_fd (object_of s d) \<noteq> sc_fd (object_of s c)" for d
      using net_invD(7) [OF inv, of d c] own(1) b by blast
    have t: "net_inv interest {c} ?t"
      by (rule set_reactor_inv [OF inv w other]) (use own k'(1) fds in simp_all)
    have idx: "index_of ?t c = kNew" if "index_of s c = kNew" "tc_state k = kDisconnected"
      using that k'(3) watched_new [OF net_invD(3) [OF inv] Some] own(2) by simp
    have h: "held ?t c = Some k'" using own(2) k'(1) by simp
    show ?thesis
    proof (cases "closes c ?r r'")
      case 0
      then have "E_close_cb \<notin> set (drop (length (tc_trace k)) (tc_trace k'))"
        using Some k'(1) by (simp add: closes_def count_list_0_iff)
      then have "tc_state k' = kDisconnected \<longleftrightarrow> tc_state k = kDisconnected"
        using moves_closes(2) [OF k'(2)] moves_down [OF k'(2)] by blast
      then have "staged ?t c" using st idx moves_reads [OF k'(2)] unfolding h by (auto simp: stage_ok_def split: if_splits)
      then have "net_inv interest {} ?t" by (rule close_inv [OF t])
      with 0 show ?thesis by simp
    next
      case (Suc m)
      then have "E_close_cb \<in> set (drop (length (tc_trace k)) (tc_trace k'))"
        using Some k'(1) count_list_0_iff [of "drop (length (tc_trace k)) (tc_trace k')" E_close_cb]
        by (auto simp: closes_def)
      then have "tc_state k' = kDisconnected" by (rule moves_closes(1) [OF k'(2)])
      then have "going ?t c" using st idx own(1) h moves_reads [OF k'(2)]
        unfolding going_def by (auto simp: stage_ok_def split: if_splits)
      from reports_inv [OF t this] show ?thesis unfolding Suc .
    qed
  qed
qed

lemma on_loop_inv:
  assumes inv: "net_inv interest {} s" and ret: "on_loop l c f s = Inr s'"
    and f: "\<And>r'. f (reactor_of s l) = Inr r' \<Longrightarrow> r_moves c (reactor_of s l) r' \<and> watched interest r' \<and>
      pw_errors (re_poll r') = pw_errors (re_poll (reactor_of s l))"
  shows "net_inv interest {} s'"
proof -
  obtain r' where r': "f (reactor_of s l) = Inr r'"
      "s' = (report_close l c ^^ closes c (reactor_of s l) r') (set_reactor l r' s)"
    using ret by (auto simp: on_loop_def bind_res_eq_Inr)
  from moved_inv [OF inv, of c l r'] f [OF r'(1)] net_invD(4) [OF inv] r'(2) show ?thesis by simp
qed

section \<open>Tasks\<close>

lemma net_inv_same:
  assumes "net_inv interest X s" "sn_server s' = sn_server s" "\<And>l. reactor_of s' l = reactor_of s l"
    and "\<And>l. tasks_of s' l = tasks_of s l"
  shows "net_inv interest X s'"
proof -
  have "well_placed s' l t = well_placed s l t" for l t using assms(2) by (cases t) simp_all
  with assms show ?thesis unfolding net_inv_def by simp
qed

lemma phase_inv:
  assumes "net_inv interest X s" "waiting_tasks ((sn_loop s l)\<lparr>lt_phase := ph\<rparr>) = tasks_of s l"
  shows "net_inv interest X (set_phase l ph s)"
  by (rule net_inv_same [OF assms(1)]) (use assms(2) in \<open>auto simp: set_phase_def\<close>)

fun task_conns :: "conn_task \<Rightarrow> conn_id set" where
  "task_conns T_listen = {}"
| "task_conns (T_established c) = {c}"
| "task_conns (T_destroyed c) = {c}"
| "task_conns (T_remove c) = {c}"

lemma take_task:
  assumes inv: "net_inv interest {} s" and ph: "lt_phase (sn_loop s l) = Calling (t # ts)"
  shows "net_inv interest (task_conns t) (set_phase l (Calling ts) s)"
    and "tasks_of s l' = (if l' = l then [t] else []) @ tasks_of (set_phase l (Calling ts) s) l'"
proof -
  let ?s = "set_phase l (Calling ts) s"
  have tasks: "tasks_of s i = (if i = l then [t] else []) @ tasks_of ?s i" for i
    using ph by (simp add: set_phase_def waiting_tasks_def)
  then show "tasks_of s l' = (if l' = l then [t] else []) @ tasks_of ?s l'" .
  have placed: "well_placed ?s i u" if "u \<in> set (tasks_of ?s i)" for i u
  proof -
    have "well_placed s i u" using net_invD(6) [OF inv, of u i] that by (simp add: tasks)
    then show ?thesis by (cases u) simp_all
  qed
  have busy: "busy ?s c \<Longrightarrow> busy s c" for c by (auto simp: tasks split: if_splits)
  have fd: "c = d" if "c < conns s" "d < conns s" "busy ?s c" "busy ?s d" "sc_fd (object_of s c) = sc_fd (object_of s d)" for c d
    using net_invD(7) [OF inv that(1,2) busy [OF that(3)] busy [OF that(4)] that(5)] .
  have st: "staged ?s c" if "c < conns s" "c \<notin> task_conns t" for c
  proof -
    have "t \<noteq> T_established c" "t \<noteq> T_destroyed c" "t \<noteq> T_remove c" using that(2) by auto
    then have "est s c = est ?s c" "dest s c = dest ?s c" "removing s c = removing ?s c" by (auto simp: tasks)
    with net_invD(8) [OF inv that(1)] show ?thesis by simp
  qed
  show "net_inv interest (task_conns t) ?s"
    by (rule net_invI [OF inv]) (use placed fd st net_invD(3-5) [OF inv] in simp_all)
qed

text \<open>A connection on its way to its loop.\<close>

definition newborn :: "'k server_net \<Rightarrow> conn_id \<Rightarrow> bool" where
  "newborn s c \<longleftrightarrow> c < conns s \<and> held s c = None \<and> est s c = 0 \<and> \<not> dest s c \<and> \<not> removing s c \<and> in_map s c \<and>
     (\<forall>d < conns s. d \<noteq> c \<longrightarrow> busy s d \<longrightarrow> sc_fd (object_of s d) \<noteq> sc_fd (object_of s c))"

lemma server_callbacks_ok:
  "cbs_keep cbs \<Longrightarrow> cbs_keep (server_callbacks cbs)"
  by (simp add: cbs_keep_def server_callbacks_def opt_keeps_def op_keeps_def)

lemma establish_inv:
  assumes ok: "epoll_ok ctl interest" and cbs: "cbs_keep cbs" "cbs_move (server_callbacks cbs)"
    and inv: "net_inv interest {c} s" and c: "newborn s c" and ret: "establish ctl cbs c s = Inr s'"
  shows "net_inv interest {} s'"
proof -
  let ?l = "loop_of s c" and ?cbs = "server_callbacks cbs" and ?fd = "sc_fd (object_of s c)"
  let ?r = "reactor_of s ?l"
  obtain b where b: "new_buffer kInitialSize = Inr b" using ret by (auto simp: establish_def bind_res_eq_Inr)
  let ?r1 = "?r\<lparr>re_conns := (re_conns ?r)(c \<mapsto> new_connection ?fd b b),
     re_poll := modify_channel c (\<lambda>_. tie (new_channel ?fd)) (re_poll ?r)\<rparr>"
  obtain r' where r': "on_conn ctl c (connectEstablished ?cbs) ?r1 = Inr r'"
      "s' = (report_close ?l c ^^ closes c ?r r') (set_reactor ?l r' s)"
    using ret b by (auto simp: establish_def on_loop_def bind_res_eq_Inr)
  have n: "c < conns s" "re_conns ?r c = None" using c by (simp_all add: newborn_def)
  have other: "ch_fd (tc_channel k) \<noteq> ?fd" if q: "re_conns ?r q = Some k" for q k
  proof -
    have "q < conns s" "loop_of s q = ?l" "ch_fd (tc_channel k) = sc_fd (object_of s q)" "q \<noteq> c"
      using net_invD(5) [OF inv q] q n(2) by auto
    moreover have "busy s q" using q calculation(2) by simp
    ultimately show ?thesis using c unfolding newborn_def by metis
  qed
  have fresh: "fresh c ?fd ?r" using n(2) other unfolding fresh_def by blast
  have bi: "buf_inv b" "content b = []" using new_buffer_default [OF b] by simp_all
  have est: "op_follows (connectEstablished ?cbs)"
    using connectEstablished_follows [OF _ cbs_move_follow [OF cbs(2)]] by (simp add: op_follows_def)
  have w: "watched interest r'" "pw_errors (re_poll r') = []"
    using on_conn_watched [OF ok accept_watched [OF net_invD(3) [OF inv] fresh bi] est
        connectEstablished_inv [OF _ server_callbacks_ok [OF cbs(1)]] r'(1)] net_invD(4) [OF inv]
    by simp_all
  obtain k' where k': "connectEstablished ?cbs (new_connection ?fd b b) = Inr k'"
      "re_conns r' = (re_conns ?r)(c \<mapsto> k')"
      "\<And>q. q \<noteq> c \<Longrightarrow> ch_index (pw_heap (re_poll r') q) = ch_index (pw_heap (re_poll ?r) q)"
    using r'(1) by (auto simp: on_conn_def bind_res_eq_Inr carry_out_other)
  have fields: "tc_trace (new_connection ?fd b b) = []" "ch_fd (tc_channel (new_connection ?fd b b)) = ?fd"
    by (simp_all add: new_connection_def new_channel_def)
  note est = connectEstablished_down [OF k'(1) cbs(2) fields(1)]
  have fds: "d < conns s \<Longrightarrow> d \<noteq> c \<Longrightarrow> busy s d \<Longrightarrow> sc_fd (object_of s d) \<noteq> ?fd" for d
    using c unfolding newborn_def by blast
  have "net_inv interest (insert c {c}) (set_reactor ?l r' s)"
    by (rule set_reactor_inv [OF inv w]) (use k'(2,3) n(1) est(2) fields(2) fds in simp_all)
  then have t: "net_inv interest {c} (set_reactor ?l r' s)" by simp
  have cl: "closes c ?r r' = count_list (tc_trace k') E_close_cb" by (simp add: closes_def n(2) k'(2))
  show ?thesis
  proof (cases "closes c ?r r'")
    case 0
    then have "tc_state k' \<noteq> kDisconnected" using est(3) cl by (simp add: count_list_0_iff)
    then have "staged (set_reactor ?l r' s) c" using c est(1) k'(2) by (simp add: stage_ok_def newborn_def)
    then have "net_inv interest {} (set_reactor ?l r' s)" by (rule close_inv [OF t])
    with 0 show ?thesis by (simp add: r'(2))
  next
    case (Suc m)
    then have "tc_state k' = kDisconnected" using est(3) cl count_list_0_iff [of "tc_trace k'" E_close_cb] by auto
    then have "going (set_reactor ?l r' s) c" using c est(1) k'(2) by (simp add: going_def newborn_def)
    from reports_inv [OF t this] show ?thesis unfolding r'(2) Suc .
  qed
qed

lemma queue_newborn:
  assumes inv: "net_inv interest {c} s" and c: "newborn s c"
  shows "net_inv interest {} (queue_task (loop_of s c) (T_established c) s)"
proof -
  let ?s = "queue_task (loop_of s c) (T_established c) s"
  have n: "c < conns s" using c by (simp add: newborn_def)
  have placed: "well_placed ?s l t" if "t \<in> set (tasks_of ?s l)" for l t
  proof -
    have "t \<in> set (tasks_of s l) \<or> t = T_established c \<and> l = loop_of s c" using that by (auto split: if_splits)
    with net_invD(6) [OF inv, of t l] n have "well_placed s l t" by auto
    then show ?thesis by (cases t) simp_all
  qed
  have busy: "busy s d" if "busy ?s d" "d \<noteq> c" for d using that by (auto split: if_splits)
  have fd: "d = e" if "d < conns s" "e < conns s" "busy ?s d" "busy ?s e" "sc_fd (object_of s d) = sc_fd (object_of s e)" for d e
  proof (rule ccontr)
    assume ne: "d \<noteq> e"
    have new: "\<And>d. d < conns s \<Longrightarrow> d \<noteq> c \<Longrightarrow> busy s d \<Longrightarrow> sc_fd (object_of s d) \<noteq> sc_fd (object_of s c)"
      using c unfolding newborn_def by blast
    show False
    proof (cases "d = c \<or> e = c")
      case True
      with ne that new [of d] new [of e] busy [of d] busy [of e] show False by metis
    next
      case False
      with net_invD(7) [OF inv that(1,2) busy [OF that(3)] busy [OF that(4)] that(5)] ne show False by blast
    qed
  qed
  have st: "staged ?s d" if d: "d < conns s" for d
  proof (cases "d = c")
    case True
    with c show ?thesis by (auto simp: stage_ok_def newborn_def)
  next
    case False
    with net_invD(8) [OF inv d] show ?thesis by auto
  qed
  show ?thesis by (rule net_invI [OF inv]) (use placed fd st net_invD(3-5) [OF inv] in simp_all)
qed

lemma destroy_inv:
  assumes ok: "epoll_ok ctl interest" and inv: "net_inv interest {c} s" and c: "c < conns s" "loop_of s c = l"
    and k: "held s c = Some k" "tc_state k = kDisconnected" "est s c = 0" "\<not> in_map s c"
    and ret: "on_loop l c (on_conn ctl c (\<lambda>k. Inr (connectDestroyed k))) s = Inr s'"
  shows "net_inv interest {} s'"
proof -
  let ?r = "reactor_of s l"
  obtain r' where r': "on_conn ctl c (\<lambda>k. Inr (connectDestroyed k)) ?r = Inr r'"
      "s' = (report_close l c ^^ closes c ?r r') (set_reactor l r' s)"
    using ret by (auto simp: on_loop_def bind_res_eq_Inr)
  have h: "re_conns ?r c = Some k" using k(1) c(2) by simp
  have f: "op_follows (\<lambda>k. Inr (connectDestroyed k))" by (auto simp: op_follows_def connectDestroyed_follows)
  have keeps: "conn_inv k \<Longrightarrow> Inr (connectDestroyed k) = Inr k' \<Longrightarrow> conn_inv k'" for k k'
    using conn_step_inv [of k no_callbacks I_destroyed k'] no_callbacks_keep by simp
  have w: "watched interest r'" "pw_errors (re_poll r') = []"
    using on_conn_watched [OF ok net_invD(3) [OF inv] f keeps r'(1)] net_invD(4) [OF inv] by simp_all
  note d = destroy_on_conn [OF r'(1) h] and df = connectDestroyed_fields [of k]
  have "closes c ?r r' = 0" using d(1) df(3) h by (simp add: closes_def count_list_0_iff)
  then have s': "s' = set_reactor l r' s" by (simp add: r'(2))
  have b: "busy s c" using k(1) by simp
  have fds: "e < conns s \<Longrightarrow> e \<noteq> c \<Longrightarrow> busy s e \<Longrightarrow> sc_fd (object_of s e) \<noteq> sc_fd (object_of s c)" for e
    using net_invD(7) [OF inv _ c(1) _ b] by blast
  have "net_inv interest (insert c {c}) s'"
    unfolding s' by (rule set_reactor_inv [OF inv w])
      (use d(1,3) c net_invD(5) [OF inv h] df(2) fds in simp_all)
  then have t: "net_inv interest {c} s'" by simp
  have "staged s' c" using d c k df(1) by (simp add: stage_ok_def s')
  then show ?thesis by (rule close_inv [OF t])
qed

lemma run_task_inv:
  assumes ok: "epoll_ok ctl interest" and cbs: "cbs_keep cbs" "cbs_move (server_callbacks cbs)"
    and inv: "net_inv interest {} s" and ph: "lt_phase (sn_loop s l) = Calling (t # ts)"
    and ret: "run_task ctl cbs l t (set_phase l (Calling ts) s) = Inr s'"
  shows "net_inv interest {} s'"
proof -
  let ?s = "set_phase l (Calling ts) s"
  note took = take_task [OF inv ph]
  have "well_placed s l t" by (rule net_invD(6) [OF inv]) (simp add: took(2) [of l])
  show ?thesis
  proof (cases t)
    case T_listen
    with took(1) ret show ?thesis by simp
  next
    case (T_established c)
    have c: "c < conns s" "loop_of s c = l" using \<open>well_placed s l t\<close> T_established by simp_all
    have st: "staged s c" using net_invD(8) [OF inv c(1)] by simp
    have e: "est s c = Suc (est ?s c)" "dest s c = dest ?s c" "removing s c = removing ?s c"
      using took(2) [of l] took(2) [of 0] c(2) T_established by auto
    have "held ?s c = None \<and> est ?s c = 0 \<and> \<not> dest ?s c \<and> \<not> removing ?s c \<and> in_map ?s c"
      using st e by (auto simp: stage_ok_def split: option.splits if_splits)
    moreover have "sc_fd (object_of s d) \<noteq> sc_fd (object_of s c)" if "d < conns s" "d \<noteq> c" "busy ?s d" for d
    proof -
      have "busy s d" using that(3) by (auto simp: took(2) [of "loop_of s d"])
      moreover have "busy s c" using e(1) by simp
      ultimately show ?thesis using net_invD(7) [OF inv that(1) c(1)] that(2) by blast
    qed
    ultimately have "newborn ?s c" using c(1) unfolding newborn_def by simp
    with establish_inv [OF ok cbs] took(1) ret T_established show ?thesis by simp
  next
    case (T_destroyed c)
    have c: "c < conns s" "loop_of s c = l" using \<open>well_placed s l t\<close> T_destroyed by simp_all
    have st: "staged s c" using net_invD(8) [OF inv c(1)] by simp
    have e: "dest s c" "est s c = est ?s c" using took(2) [of l] c(2) T_destroyed by auto
    obtain k where k: "held s c = Some k" "tc_state k = kDisconnected" "est s c = 0" "\<not> in_map s c"
      using st e(1) by (auto simp: stage_ok_def split: option.splits if_splits)
    show ?thesis
      using destroy_inv [OF ok, of c ?s l k s'] took(1) ret T_destroyed c k e(2) by simp
  next
    case (T_remove c)
    have c: "c < conns s" "l = 0" using \<open>well_placed s l t\<close> T_remove by simp_all
    have st: "staged s c" using net_invD(8) [OF inv c(1)] by simp
    have e: "removing s c" "est s c = est ?s c" "dest s c = dest ?s c"
      using took(2) [of 0] took(2) [of "loop_of s c"] c(2) T_remove by auto
    have "going ?s c"
      using st e c(1) unfolding going_def by (auto simp: stage_ok_def split: option.splits if_splits)
    with remove_in_loop_inv(1) [of interest c ?s] took(1) ret T_remove show ?thesis by simp
  qed
qed

section \<open>Accepting\<close>

lemma accept_newborn:
  fixes s :: "'k server_net" and peer :: sockaddr_in
  assumes inv: "net_inv interest {} s" and fd: "fd_free fd s"
  defines "c \<equiv> conns s" and "s1 \<equiv> s\<lparr>sn_server := newConnection fd peer (sn_server s)\<rparr>"
  shows "net_inv interest {c} s1" "newborn s1 c"
    and "new_calls (sn_server s) (sn_server s1) = [Run_in (loop_of s1 c) (T_established c)]"
proof -
  let ?sv = "sn_server s"
  obtain gone where g: "server_inv (srv_name ?sv) gone ?sv" using net_invD(1) [OF inv] by blast
  note nf = newConnection_fields [OF g, of fd peer]
  obtain x where x: "srv_objects (newConnection fd peer ?sv) = srv_objects ?sv @ [x]"
      "sc_name x = conn_name (srv_name ?sv) c" "sc_fd x = fd" "sc_loop x = fst (getNextLoop (srv_pool ?sv))"
    using nf(1) unfolding c_def by blast
  have n: "conns s1 = Suc c" by (simp add: s1_def x(1) c_def)
  have old: "object_of s1 d = object_of s d" if "d < c" for d using that by (simp add: s1_def x(1) nth_append c_def)
  have new: "object_of s1 c = x" by (simp add: s1_def x(1) c_def)
  have names: "sc_name (object_of s d) = conn_name (srv_name ?sv) d" if "d < c" for d
    using g that by (simp add: server_inv_def c_def)
  have map: "in_map s1 d \<longleftrightarrow> in_map s d" if "d < c" for d
    using that conn_name_inj [of "srv_name ?sv" d c] unfolding old [OF that] names [OF that]
    by (auto simp: s1_def nf(2) c_def)
  have map_c: "in_map s1 c" unfolding new x(2) by (simp add: s1_def nf(2) c_def)
  have eqs: "reactor_of s1 l = reactor_of s l" "tasks_of s1 l = tasks_of s l" for l by (simp_all add: s1_def)
  have lt: "d < c" if "re_conns (reactor_of s l) d = Some k" for l d k
    using net_invD(5) [OF inv that] by (simp add: c_def)
  have no_conn: "re_conns (reactor_of s l) c = None" for l using lt [of l c] by (cases "re_conns (reactor_of s l) c") auto
  have no_task: "T_established c \<notin> set (tasks_of s l)" "T_destroyed c \<notin> set (tasks_of s l)" "T_remove c \<notin> set (tasks_of s l)" for l
    using net_invD(6) [OF inv, of _ l] by (auto simp: c_def dest: well_placed.simps(1-3) [THEN iffD1])
  have same: "busy s1 d \<longleftrightarrow> busy s d" "staged s1 d \<longleftrightarrow> staged s d" if "d < c" for d
    unfolding eqs old [OF that] using map [OF that] old [OF that] by simp_all
  have lone: "\<not> busy s1 c" using no_conn no_task by (simp add: eqs count_list_0_iff)
  have lt_cases: "d < c \<or> d = c" if "d < conns s1" for d using that n by auto
  show "new_calls ?sv (sn_server s1) = [Run_in (loop_of s1 c) (T_established c)]"
    using nf(5) unfolding new x(4) by (simp add: new_calls_def s1_def c_def)
  have "sc_fd (object_of s d) \<noteq> fd" if "d < c" "busy s d" for d
    using fd that unfolding fd_free_def c_def by (auto simp: count_list_0_iff)
  then have fds: "\<forall>d < conns s1. d \<noteq> c \<longrightarrow> busy s1 d \<longrightarrow> sc_fd (object_of s1 d) \<noteq> sc_fd (object_of s1 c)"
    using lt_cases same(1) old new x(3) by metis
  show "newborn s1 c"
    using fds no_conn no_task map_c n unfolding newborn_def eqs by (simp add: count_list_0_iff)
  have fdd: "d = e" if "d < conns s1" "e < conns s1" "busy s1 d" "busy s1 e"
      "sc_fd (object_of s1 d) = sc_fd (object_of s1 e)" for d e
  proof -
    have de: "d < c" "e < c" using that lone lt_cases by blast+
    with that same(1) old have "busy s d" "busy s e" "sc_fd (object_of s d) = sc_fd (object_of s e)" by simp_all
    with net_invD(7) [OF inv] de show ?thesis unfolding c_def by blast
  qed
  have st: "staged s1 d" if "d < conns s1" "d \<notin> {c}" for d
    using lt_cases [OF that(1)] that(2) same(2) [of d] net_invD(8) [OF inv, of d] by (auto simp: c_def)
  show "net_inv interest {c} s1"
    unfolding net_inv_def eqs
  proof (intro conjI allI impI ballI)
    show "\<exists>gone. server_inv (srv_name (sn_server s1)) gone (sn_server s1)"
      using newConnection_inv [OF g, of fd peer] nf(4) by (auto simp: s1_def)
    show "srv_loop (sn_server s1) = 0"
      using net_invD(2) [OF inv] by (simp add: s1_def newConnection_def split_beta Let_def)
    show "watched interest (reactor_of s l)" "pw_errors (re_poll (reactor_of s l)) = []" for l
      using net_invD(3,4) [OF inv] by blast+
    show "d < conns s1" "loop_of s1 d = l" "ch_fd (tc_channel k) = sc_fd (object_of s1 d)"
      if "re_conns (reactor_of s l) d = Some k" for l d k
      using net_invD(5) [OF inv that] lt [OF that] old n by (auto simp: c_def)
    show "well_placed s1 l t" if "t \<in> set (tasks_of s l)" for l t
      using net_invD(6) [OF inv that] old n by (cases t) (auto simp: c_def)
  qed (use fdd [unfolded eqs] st [unfolded eqs] in blast)+
qed

lemma accept_connection_inv:
  assumes ok: "epoll_ok ctl interest" and cbs: "cbs_keep cbs" "cbs_move (server_callbacks cbs)"
    and inv: "net_inv interest {} s" and fd: "fd_free fd s" and ret: "accept_connection ctl cbs fd peer s = Inr s'"
  shows "net_inv interest {} s'"
proof -
  let ?s = "s\<lparr>sn_server := newConnection fd peer (sn_server s)\<rparr>" and ?c = "conns s"
  note a = accept_newborn [OF inv fd, of peer]
  show ?thesis
  proof (cases "loop_of ?s ?c = srv_loop (sn_server s)")
    case True
    with ret have "establish ctl cbs ?c ?s = Inr s'" by (simp add: accept_connection_def Let_def)
    then show ?thesis by (rule establish_inv [OF ok cbs a(1,2)])
  next
    case False
    with ret a(3) have "s' = queue_task (loop_of ?s ?c) (T_established ?c) ?s"
      by (simp add: accept_connection_def Let_def)
    with queue_newborn [OF a(1,2)] show ?thesis by simp
  qed
qed

lemma accept_effects_inv:
  assumes "epoll_ok ctl interest" and "cbs_keep cbs" "cbs_move (server_callbacks cbs)"
  shows "net_inv interest {} s \<Longrightarrow> accept_effects ctl cbs es s = Inr s' \<Longrightarrow> net_inv interest {} s'"
proof (induction es arbitrary: s)
  case (Cons e es)
  show ?case
  proof (cases e)
    case (Acc_new_connection fd peer)
    then obtain s1 where s1: "(if fd_free fd s then accept_connection ctl cbs fd peer s else Inr s) = Inr s1"
        "accept_effects ctl cbs es s1 = Inr s'"
      using Cons.prems(2) by (auto simp: bind_res_eq_Inr)
    have "net_inv interest {} s1"
      using s1(1) Cons.prems(1) accept_connection_inv [OF assms Cons.prems(1)] by (auto split: if_splits)
    then show ?thesis using s1(2) by (rule Cons.IH)
  qed (use Cons in simp_all)
qed simp

section \<open>Runs\<close>

fun net_input_ok :: "net_input \<Rightarrow> bool" where
  "net_input_ok (N_call c i) \<longleftrightarrow> input_ok i"
| "net_input_ok _ \<longleftrightarrow> True"

lemma poll_inv_net:
  assumes inv: "net_inv interest {} s"
  shows "net_inv interest {} (set_reactor l ((reactor_of s l)\<lparr>re_poll := fst (poller_poll wait (re_poll (reactor_of s l)))\<rparr>) s)"
proof -
  let ?r = "reactor_of s l"
  let ?r' = "?r\<lparr>re_poll := fst (poller_poll wait (re_poll ?r))\<rparr>"
  have "r_moves 0 ?r ?r'" by (simp add: r_moves_def poller_poll_fields split: option.split)
  moreover have "closes 0 ?r ?r' = 0" by (simp add: closes_def split: option.split)
  moreover have "watched interest ?r'" "pw_errors (re_poll ?r') = []"
    using poll_watched [OF net_invD(3) [OF inv]] net_invD(4) [OF inv] by simp_all
  ultimately show ?thesis using moved_inv [OF inv, of 0 l ?r'] by simp
qed

lemma release_inv:
  assumes inv: "net_inv interest {} s" and c: "c < conns s" "\<not> in_map s c" "est s c = 0" "\<not> dest s c" "\<not> removing s c"
  defines "r \<equiv> reactor_of s (loop_of s c)"
  shows "net_inv interest {} (set_reactor (loop_of s c) (r\<lparr>re_conns := (re_conns r)(c := None)\<rparr>) s)"
proof -
  let ?r = "r\<lparr>re_conns := (re_conns r)(c := None)\<rparr>"
  let ?s = "set_reactor (loop_of s c) ?r s"
  have "watched interest ?r"
  proof (cases "re_conns r c")
    case None
    then have "?r = r" by (simp add: fun_upd_idem)
    then show ?thesis using net_invD(3) [OF inv] by (simp add: r_def)
  next
    case (Some k)
    then have "index_of s c = kNew"
      using net_invD(8) [OF inv c(1)] c by (auto simp: stage_ok_def r_def split: if_splits)
    then show ?thesis using release_watched [OF net_invD(3) [OF inv]] by (simp add: r_def)
  qed
  then have "net_inv interest {c} ?s"
    by (intro set_reactor_inv [OF inv]) (use net_invD(4) [OF inv] in \<open>simp_all add: r_def\<close>)
  moreover have "staged ?s c" using c by (simp add: stage_ok_def)
  ultimately show ?thesis by (rule close_inv)
qed

lemma net_step_inv:
  assumes ok: "epoll_ok ctl interest" and cbs: "cbs_keep cbs" "cbs_move (server_callbacks cbs)"
    and inv: "net_inv interest {} s" and x: "net_input_ok x" and ret: "net_step ctl cbs x s = Inr s'"
  shows "net_inv interest {} s'"
proof (cases x)
  case (N_poll l ready)
  show ?thesis
  proof (cases "lt_phase (sn_loop s l)")
    case Polling
    let ?p = "poller_poll (\<lambda>_ _. ready) (re_poll (reactor_of s l))"
    let ?t = "set_reactor l ((reactor_of s l)\<lparr>re_poll := fst ?p\<rparr>) s"
    have "s' = set_phase l (Handling (snd ?p)) ?t" using ret N_poll Polling by (simp add: split_beta)
    with phase_inv [OF poll_inv_net [OF inv, of l "\<lambda>_ _. ready"], of "Handling (snd ?p)" l] Polling show ?thesis
      by (simp add: waiting_tasks_def set_reactor_def)
  qed (use N_poll ret inv in simp_all)
next
  case (N_event l io)
  show ?thesis
  proof (cases "\<exists>p ps. lt_phase (sn_loop s l) = Handling (p # ps)")
    case True
    then obtain p ps where ph: "lt_phase (sn_loop s l) = Handling (p # ps)" by blast
    let ?t = "set_phase l (Handling ps) s"
    have t: "net_inv interest {} ?t" by (rule phase_inv [OF inv]) (simp add: waiting_tasks_def ph)
    have d: "on_loop l p (dispatch ctl (server_callbacks cbs) io p) ?t = Inr s'" using ret N_event ph by simp
    show ?thesis
      by (rule on_loop_inv [OF t d])
        (use dispatch_moves [OF cbs(2)] dispatch_watched [OF ok server_callbacks_ok [OF cbs(1)]
          cbs_move_follow [OF cbs(2)] net_invD(3) [OF t]] in blast)
  next
    case False
    with ret N_event inv show ?thesis by (auto split: loop_phase.splits list.splits)
  qed
next
  case (N_accept r)
  with ret inv show ?thesis using accept_effects_inv [OF ok cbs inv] by (auto split: loop_phase.splits)
next
  case (N_turn l)
  show ?thesis
  proof (cases "lt_phase (sn_loop s l)")
    case Polling
    with ret N_turn inv show ?thesis by simp
  next
    case (Handling ps)
    then consider "ps = []" | "s' = s" using ret N_turn by (cases ps) auto
    then show ?thesis
    proof cases
      case 1
      then have s': "s' = modify_loop l (\<lambda>x. x\<lparr>lt_phase := Calling (lt_pending x), lt_pending := []\<rparr>) s"
        using ret N_turn Handling by simp
      show ?thesis by (rule net_inv_same [OF inv]) (use Handling in \<open>auto simp: s' waiting_tasks_def\<close>)
    qed (use inv in simp)
  next
    case (Calling ts)
    show ?thesis
    proof (cases ts)
      case Nil
      with phase_inv [OF inv, of Polling l] ret N_turn Calling show ?thesis by (simp add: waiting_tasks_def)
    next
      case (Cons t us)
      with ret N_turn Calling have "run_task ctl cbs l t (set_phase l (Calling us) s) = Inr s'" by simp
      with run_task_inv [OF ok cbs inv] Calling Cons show ?thesis by simp
    qed
  qed
next
  case (N_call c i)
  show ?thesis
  proof (cases "user_call i \<and> c < conns s")
    case True
    then have d: "on_loop (loop_of s c) c (on_conn ctl c (conn_step (server_callbacks cbs) i)) s = Inr s'"
      using ret N_call by simp
    have keeps: "conn_inv k \<Longrightarrow> conn_step (server_callbacks cbs) i k = Inr k' \<Longrightarrow> conn_inv k'" for k k'
      using conn_step_inv [OF _ server_callbacks_ok [OF cbs(1)]] x N_call by simp
    have "r_moves c (reactor_of s (loop_of s c)) r' \<and> watched interest r' \<and>
        pw_errors (re_poll r') = pw_errors (re_poll (reactor_of s (loop_of s c)))"
      if r: "on_conn ctl c (conn_step (server_callbacks cbs) i) (reactor_of s (loop_of s c)) = Inr r'" for r'
      using on_conn_moves [OF user_call_moves [OF cbs(2)] r] True
        on_conn_watched [OF ok net_invD(3) [OF inv] conn_step_follows [OF cbs_move_follow [OF cbs(2)]] keeps r] by simp
    then show ?thesis by (rule on_loop_inv [OF inv d])
  next
    case False
    with ret N_call inv show ?thesis by auto
  qed
next
  case (N_release c)
  show ?thesis
  proof (cases "s' = s")
    case False
    then have c: "c < conns s" "\<not> in_map s c" "est s c = 0" "\<not> dest s c" "\<not> removing s c"
      and s': "s' = set_reactor (loop_of s c)
        ((reactor_of s (loop_of s c))\<lparr>re_conns := (re_conns (reactor_of s (loop_of s c)))(c := None)\<rparr>) s"
      using ret N_release net_invD(2) [OF inv] by (auto simp: count_list_0_iff split: if_splits)
    show ?thesis unfolding s' by (rule release_inv [OF inv c])
  qed (use inv in simp)
qed

lemma net_run_inv:
  assumes "epoll_ok ctl interest" and "cbs_keep cbs" "cbs_move (server_callbacks cbs)"
  shows "net_inv interest {} s \<Longrightarrow> list_all net_input_ok xs \<Longrightarrow> net_run ctl cbs xs s = Inr s' \<Longrightarrow>
    net_inv interest {} s'"
proof (induction xs arbitrary: s)
  case (Cons x xs)
  then obtain s1 where s1: "net_step ctl cbs x s = Inr s1" "net_run ctl cbs xs s1 = Inr s'"
    by (auto simp: bind_res_eq_Inr)
  from net_step_inv [OF assms Cons.prems(1) _ s1(1)] Cons.IH [OF _ _ s1(2)] Cons.prems(2) show ?case by simp
qed simp

lemma new_server_net_inv:
  assumes "interest k = (\<lambda>_. None)"
  shows "net_inv interest {} (new_server_net lfd sl n name heap k)"
proof -
  let ?sv = "server_start sl False (server_setThreadNum n (new_server 0 name))"
  have "server_inv name {} (server_setThreadNum n (new_server 0 name))"
    using new_server_inv [of name 0] by (simp add: server_inv_def server_setThreadNum_def)
  then have "server_inv name {} ?sv" by (rule server_inv_start)
  moreover have "srv_name ?sv = name" "srv_loop ?sv = 0" "srv_objects ?sv = []"
    by (simp_all add: server_start_def server_setThreadNum_def new_server_def Let_def)
  moreover have "watched interest (new_reactor heap k)" "pw_errors (re_poll (new_reactor heap k)) = []"
    using new_reactor_watched [of interest k heap, OF assms] by (simp_all add: new_reactor_def new_poller_def)
  ultimately show ?thesis
    by (auto simp: net_inv_def new_server_net_def waiting_tasks_def) (simp add: new_reactor_def)
qed

section \<open>Properties\<close>

lemma staged_watched:
  assumes inv: "net_inv interest {} s" and c: "c < conns s"
  defines "entry \<equiv> interest (pw_kernel (re_poll (reactor_of s (loop_of s c))))"
  shows "in_map s c \<Longrightarrow> 0 < est s c \<or> (\<exists>k. held s c = Some k \<and> bit (ch_events (tc_channel k)) 0 \<and>
      entry (sc_fd (object_of s c)) = Some (ch_events (tc_channel k), c) \<and>
      (disconnected k \<longrightarrow> removing s c))"
    and "\<not> in_map s c \<Longrightarrow> dest s c \<or> (\<forall>f e. entry f \<noteq> Some (e, c))"
proof -
  note st = net_invD(8) [OF inv c] and w = net_invD(3) [OF inv, of "loop_of s c"]
  show "0 < est s c \<or> (\<exists>k. held s c = Some k \<and> bit (ch_events (tc_channel k)) 0 \<and>
      entry (sc_fd (object_of s c)) = Some (ch_events (tc_channel k), c) \<and>
      (disconnected k \<longrightarrow> removing s c))" if m: "in_map s c"
  proof (cases "held s c")
    case None
    with st m show ?thesis by (simp add: stage_ok_def)
  next
    case (Some k)
    then have b: "bit (ch_events (tc_channel k)) 0" "tc_state k = kDisconnected \<longrightarrow> removing s c"
      using st m by (auto simp: stage_ok_def split: if_splits)
    then have "ch_events (tc_channel k) \<noteq> 0" by auto
    from watchedD(2) [OF w Some this] net_invD(5) [OF inv Some] b Some show ?thesis
      by (simp add: entry_def disconnected_def)
  qed
  show "dest s c \<or> (\<forall>f e. entry f \<noteq> Some (e, c))" if m: "\<not> in_map s c"
  proof (cases "dest s c")
    case False
    with st m have "held s c = None \<or> index_of s c = kNew" by (auto simp: stage_ok_def split: option.splits if_splits)
    moreover have "poll_inv interest (dom (re_conns (reactor_of s (loop_of s c)))) (re_poll (reactor_of s (loop_of s c)))"
      using w by (simp add: watched_def)
    ultimately show ?thesis using poll_invD(4) by (fastforce simp: entry_def index_defs)
  qed simp
qed

text \<open>
  Property (C5). A server loses no connection and keeps no dead one: with any number of loop
  threads taking their steps in any order, and whatever is accepted, reported by the kernel or
  called by the program (in fewer than \<open>2\<^sup>31 - 1\<close> steps, so that the counter in the names does not
  overflow), the map holds connections under their own names; a connection in it waits
  to be established or is watched for reading by the entry for its loop, and when it is down its
  removal waits in the base loop; one that is not in it waits to be destroyed or is not watched
  any more. So when the two loops have nothing left to call, the map holds exactly the connections
  that are up.
\<close>

theorem connections_accounted:
  assumes "epoll_ok ctl interest" and "interest k = (\<lambda>_. None)"
    and "cbs_keep cbs" and "cbs_move (server_callbacks cbs)"
    and "list_all net_input_ok xs" and "length xs < 2 ^ 31 - 1"
    and "net_run ctl cbs xs (new_server_net listenfd start_loop threads name heap k) = Inr s"
  shows "(\<forall>n c. srv_connections (sn_server s) n = Some c \<longrightarrow> c < conns s \<and> n = sc_name (object_of s c)) \<and>
    (\<forall>c < conns s. let entry = interest (pw_kernel (re_poll (reactor_of s (loop_of s c)))) in
      (in_map s c \<longrightarrow> T_established c \<in> set (tasks_of s (loop_of s c)) \<or>
         (\<exists>k. held s c = Some k \<and> bit (ch_events (tc_channel k)) 0 \<and>
            entry (sc_fd (object_of s c)) = Some (ch_events (tc_channel k), c) \<and>
            (disconnected k \<longrightarrow> T_remove c \<in> set (tasks_of s 0)))) \<and>
      (\<not> in_map s c \<longrightarrow> T_destroyed c \<in> set (tasks_of s (loop_of s c)) \<or> (\<forall>f e. entry f \<noteq> Some (e, c))) \<and>
      (tasks_of s 0 = [] \<and> tasks_of s (loop_of s c) = [] \<longrightarrow>
         (in_map s c \<longleftrightarrow> (\<exists>k. held s c = Some k \<and> \<not> disconnected k))))"
proof -
  have inv: "net_inv interest {} s"
    using net_run_inv [OF assms(1,3,4) new_server_net_inv [of interest k, OF assms(2)] assms(5,7)] .
  obtain gone where g: "server_inv (srv_name (sn_server s)) gone (sn_server s)" using net_invD(1) [OF inv] by blast
  have names: "c < conns s \<and> n = sc_name (object_of s c)" if "srv_connections (sn_server s) n = Some c" for n c
    using g that by (simp add: server_inv_def)
  have up: "in_map s c \<longleftrightarrow> (\<exists>k. held s c = Some k \<and> \<not> disconnected k)"
    if "c < conns s" "tasks_of s 0 = []" "tasks_of s (loop_of s c) = []" for c
    using net_invD(8) [OF inv that(1)] that(2,3)
    by (auto simp: stage_ok_def disconnected_def split: option.splits if_splits)
  have "0 < est s c \<longleftrightarrow> T_established c \<in> set (tasks_of s (loop_of s c))" for c
    using count_list_0_iff [of "tasks_of s (loop_of s c)" "T_established c"] by auto
  note watched = staged_watched [OF inv, unfolded this]
  show ?thesis unfolding Let_def
  proof (intro conjI allI impI)
    fix c assume c: "c < conns s"
    show "in_map s c \<Longrightarrow> T_established c \<in> set (tasks_of s (loop_of s c)) \<or>
         (\<exists>k. held s c = Some k \<and> bit (ch_events (tc_channel k)) 0 \<and>
            interest (pw_kernel (re_poll (reactor_of s (loop_of s c)))) (sc_fd (object_of s c)) =
              Some (ch_events (tc_channel k), c) \<and>
            (disconnected k \<longrightarrow> T_remove c \<in> set (tasks_of s 0)))"
      by (rule watched(1) [OF c])
    show "\<not> in_map s c \<Longrightarrow> T_destroyed c \<in> set (tasks_of s (loop_of s c)) \<or>
        (\<forall>f e. interest (pw_kernel (re_poll (reactor_of s (loop_of s c)))) f \<noteq> Some (e, c))"
      by (rule watched(2) [OF c])
  qed (use names up in blast)+
qed

section \<open>Witnesses\<close>

lemma no_callbacks_move: "cbs_move (server_callbacks no_callbacks)"
  by (simp add: cbs_move_def server_callbacks_def no_callbacks_def op_moves_def)

text \<open>
  A server without threads accepts a connection, is told that the peer hung up, closes and
  destroys it.
\<close>

definition sample_accept :: "net_input list" where
  "sample_accept = [N_poll 0 (Inr []), N_accept (5, no_address)]"

definition sample_hang_up :: "net_input list" where
  "sample_hang_up = [N_turn 0, N_turn 0, N_poll 0 (Inr [(0, EPOLLHUP)]), N_event 0 (Inr [], Inr 0), N_turn 0, N_turn 0, N_turn 0]"

definition sample_net :: "(fd \<rightharpoonup> u32 \<times> chan_ptr) server_net" where
  "sample_net = new_server_net 3 (\<lambda>_. 0) 0 ''s'' (\<lambda>_. new_channel 0) (\<lambda>_. None)"

lemma net_run_append: "net_run ctl cbs (xs @ ys) s = bind_res (net_run ctl cbs xs s) (net_run ctl cbs ys)"
proof (induction xs arbitrary: s)
  case (Cons x xs)
  then show ?case by (cases "net_step ctl cbs x s") simp_all
qed simp

lemmas sample_net_defs = sample_net_def new_server_net_def poller_poll_def set_phase_def set_reactor_def modify_loop_def
  acceptor_handleRead_def acceptor_listen_def setNewConnectionCallback_def new_acceptor_def socket_accept_def
  fd_free_def accept_connection_def newConnection_def server_start_def server_setThreadNum_def new_server_def Let_def
  server_call_def pool_start_def setThreadNum_def new_pool_def getNextLoop_def

lemma channel_request_nevents: "pw_nevents (channel_request ctl i p w) = pw_nevents w"
  by (simp add: channel_request_def updateChannel_def poller_update_def Let_def split: prod.splits)

lemma sample_accepted:
  "\<exists>s k. net_run list_kernel no_callbacks sample_accept sample_net = Inr s \<and> conns s = 1 \<and>
     loop_of s 0 = 0 \<and> tasks_of s 0 = [] \<and> held s 0 = Some k \<and> tc_state k = kConnected \<and>
     lt_phase (sn_loop s 0) = Handling [] \<and> in_map s 0 \<and> ch_tied (pw_heap (re_poll (reactor_of s 0)) 0) \<and>
     pw_nevents (re_poll (reactor_of s 0)) = 16 \<and> srv_loop (sn_server s) = 0"
proof -
  obtain b where b: "new_buffer kInitialSize = Inr b"
    using new_buffer_ok [of kInitialSize] by (auto simp: vec_max_def kCheapPrepend_def kInitialSize_def)
  let ?k = "request Able_read ((setState kConnected (new_connection 5 b b))\<lparr>tc_channel := tie (new_channel 5)\<rparr>)"
  have e: "connectEstablished (server_callbacks no_callbacks) (new_connection 5 b b) = Inr ?k"
    by (simp add: connectEstablished_def call_back_def server_callbacks_def no_callbacks_def Let_def new_connection_def setState_def)
  have k: "tc_trace ?k = [E_request Able_read]" "tc_state ?k = kConnected" "tc_trace (new_connection 5 b b) = []"
    by (simp_all add: new_connection_def setState_def)
  show ?thesis
    using k(3)
    by (simp add: sample_accept_def sample_net_defs establish_def b on_loop_def on_conn_def e k(1) closes_def
        new_reactor_def waiting_tasks_def k(2) channel_request_heap setState_def)
      (simp add: tie_def Setindex_def set_interest_def channel_request_nevents new_poller_def KInitEventListSize_def)
qed

lemma sample_hung_up:
  assumes "conns s = 1" "loop_of s 0 = 0" "tasks_of s 0 = []" "held s 0 = Some k" "tc_state k = kConnected"
    "lt_phase (sn_loop s 0) = Handling []" "in_map s 0" "ch_tied (pw_heap (re_poll (reactor_of s 0)) 0)"
    "pw_nevents (re_poll (reactor_of s 0)) = 16" "srv_loop (sn_server s) = 0"
  shows "\<exists>s'. net_run list_kernel no_callbacks sample_hang_up s = Inr s' \<and> conns s' = 1 \<and> tasks_of s' 0 = [] \<and>
     loop_of s' 0 = 0 \<and> \<not> in_map s' 0"
proof -
  let ?k = "emit E_close_cb (setState kDisconnected k)"
  have cb: "handleClose (server_callbacks no_callbacks) k = Inr ?k"
    by (simp add: handleClose_def call_back_def server_callbacks_def no_callbacks_def)
  have gone: "srv_connections (removeConnectionInLoop c sv) (sc_name (srv_objects sv ! c)) = None" for c and sv :: "nat tcp_server"
    by (simp add: removeConnectionInLoop_def)
  have tr: "tc_trace (connectDestroyed c) = tc_trace c @ [E_request Disable_all, E_remove]" for c
    by (simp add: connectDestroyed_def Let_def setState_def)
  have pend: "lt_pending (sn_loop s 0) = []" using assms(3,6) by (simp add: waiting_tasks_def)
  have ev: "handleEvent (\<lambda>_. True) True (Setrevents EPOLLHUP c) = [Cb_close]" if "ch_tied c" for c
    using that by (simp add: handleEvent_def handleEventGuard_def Setrevents_def epoll_flags)
  show ?thesis
    using assms pend gone [of 0 "removeConnection 0 (sn_server s)"]
    by (simp add: sample_hang_up_def set_phase_def set_reactor_def modify_loop_def poller_poll_def Let_def
        on_loop_def dispatch_def ev tr on_conn_def cb closes_def setState_def report_close_eq remove_in_loop_eq
        queue_task_def removeConnection_fields removeConnectionInLoop_fields waiting_tasks_def)
qed

lemma connections_accounted_witness:
  "\<exists>s s'. net_run list_kernel no_callbacks sample_accept sample_net = Inr s \<and> in_map s 0 \<and>
     (\<exists>e. pw_kernel (re_poll (reactor_of s 0)) (sc_fd (object_of s 0)) = Some (e, 0)) \<and>
     net_run list_kernel no_callbacks (sample_accept @ sample_hang_up) sample_net = Inr s' \<and> \<not> in_map s' 0 \<and>
     (\<forall>f e. pw_kernel (re_poll (reactor_of s' 0)) f \<noteq> Some (e, 0))"
proof -
  obtain s k where s: "net_run list_kernel no_callbacks sample_accept sample_net = Inr s" "conns s = 1" "loop_of s 0 = 0"
      "tasks_of s 0 = []" "held s 0 = Some k" "tc_state k = kConnected" "lt_phase (sn_loop s 0) = Handling []" "in_map s 0"
      "ch_tied (pw_heap (re_poll (reactor_of s 0)) 0)" "pw_nevents (re_poll (reactor_of s 0)) = 16"
      "srv_loop (sn_server s) = 0"
    using sample_accepted by blast
  obtain s' where s': "net_run list_kernel no_callbacks (sample_accept @ sample_hang_up) sample_net = Inr s'"
      "conns s' = 1" "tasks_of s' 0 = []" "loop_of s' 0 = 0" "\<not> in_map s' 0"
    using sample_hung_up [OF s(2-11)] s(1) by (auto simp: net_run_append)
  have ok: "list_all net_input_ok sample_accept" "length sample_accept < 2 ^ 31 - 1"
      "list_all net_input_ok (sample_accept @ sample_hang_up)" "length (sample_accept @ sample_hang_up) < 2 ^ 31 - 1"
    by (simp_all add: sample_accept_def sample_hang_up_def)
  note a = connections_accounted [OF list_kernel_ok refl no_callbacks_keep no_callbacks_move
      ok(1,2) s(1) [unfolded sample_net_def], THEN conjunct2, unfolded Let_def, THEN spec, THEN mp, of 0]
  note a' = connections_accounted [OF list_kernel_ok refl no_callbacks_keep no_callbacks_move
      ok(3,4) s'(1) [unfolded sample_net_def], THEN conjunct2, unfolded Let_def, THEN spec, THEN mp, of 0]
  have "\<exists>e. pw_kernel (re_poll (reactor_of s 0)) (sc_fd (object_of s 0)) = Some (e, 0)"
    using a s(2-4,8) by auto
  moreover have "\<forall>f e. pw_kernel (re_poll (reactor_of s' 0)) f \<noteq> Some (e, 0)"
    using a' s'(2-5) by auto
  ultimately show ?thesis using s(1,8) s'(1,5) by blast
qed

end
