(* ===== verification/NetConnRaces.thy ===== *)
theory NetConnRaces
  imports NetConnection
begin

text \<open>
  A connection used by other threads while it closes (\<^verbatim>\<open>TcpConnection.cpp\<close>: \<open>send\<close>, \<open>shutdown\<close>,
  \<open>handleClose\<close>, \<open>connectDestroyed\<close>; \<^verbatim>\<open>TcpServer.cpp\<close>: \<open>removeConnectionInLoop\<close>). Off the loop's thread, \<open>send\<close> and
  \<open>shutdown\<close> test the state and then queue a function that holds the bare \<^verbatim>\<open>this\<close>; between the two
  the loop thread and the base loop go on. The model takes these as separate steps, each atomic
  (\<^verbatim>\<open>state_\<close> is not an atomic variable, so the C++ program has a data race besides).
\<close>

section \<open>State\<close>

text \<open>Where a thread that has a \<^verbatim>\<open>TcpConnectionPtr\<close> is; \<open>U_released\<close> has none.\<close>

datatype user_pc = U_holds | U_send_checked | U_shutdown_checked | U_shutdown_set | U_released

text \<open>The functions in the loop's queue; only \<open>connectDestroyed\<close> is bound to a shared pointer.\<close>

datatype queued_fun = Q_send | Q_shutdown | Q_destroyed

record conn_race =
  cr_state :: conn_state
  cr_users :: "user_pc list"
  cr_queue :: "queued_fun list"
  cr_in_map :: bool
  cr_removing :: nat
  cr_watched :: bool
  cr_dead_uses :: nat

text \<open>The shared pointers that keep the object: the map's, the waiting removals', the queue's, the threads'.\<close>

definition conn_alive :: "conn_race \<Rightarrow> bool" where
  "conn_alive s \<longleftrightarrow> cr_in_map s \<or> 0 < cr_removing s \<or> Q_destroyed \<in> set (cr_queue s) \<or>
     (\<exists>u \<in> set (cr_users s). u \<noteq> U_released)"

text \<open>An established connection, with \<open>n\<close> threads that have a pointer to it.\<close>

definition new_race :: "nat \<Rightarrow> conn_race" where
  "new_race n = \<lparr>cr_state = kConnected, cr_users = replicate n U_holds, cr_queue = [], cr_in_map = True,
     cr_removing = 0, cr_watched = True, cr_dead_uses = 0\<rparr>"

section \<open>Steps\<close>

text \<open>
  The steps of thread \<open>i\<close> in \<open>send\<close> and \<open>shutdown\<close>, of giving its pointer to another thread or up;
  the report of a close; \<open>removeConnectionInLoop\<close>; the loop calling the next function, with whether the
  kernel takes all that is written.
\<close>

datatype race_label =
    C_send_check nat | C_send_queue nat
  | C_shutdown_check nat | C_shutdown_set nat | C_shutdown_queue nat
  | C_share nat nat | C_release nat
  | C_close | C_remove | C_run bool

definition user_step :: "nat \<Rightarrow> user_pc \<Rightarrow> user_pc \<Rightarrow> conn_race \<Rightarrow> conn_race option" where
  "user_step i pc pc' s =
     (if i < length (cr_users s) \<and> cr_users s ! i = pc then Some (s\<lparr>cr_users := (cr_users s)[i := pc']\<rparr>) else None)"

definition use_object :: "conn_race \<Rightarrow> conn_race" where
  "use_object s = (if conn_alive s then s else s\<lparr>cr_dead_uses := cr_dead_uses s + 1\<rparr>)"

text \<open>
  The functions on the state. \<open>takes\<close>: the kernel takes all that \<open>sendInLoop\<close> writes, or the socket is
  broken; otherwise the rest waits in the output buffer and the channel is enabled for writing.
\<close>

definition race_sendInLoop :: "bool \<Rightarrow> conn_race \<Rightarrow> conn_race" where
  "race_sendInLoop takes s = (if cr_state s = kDisconnected \<or> takes then s else s\<lparr>cr_watched := True\<rparr>)"

definition race_connectDestroyed :: "conn_race \<Rightarrow> conn_race" where
  "race_connectDestroyed s =
     (if cr_state s = kConnected then s\<lparr>cr_state := kDisconnected\<rparr> else s)\<lparr>cr_watched := False\<rparr>"

fun run_queued :: "bool \<Rightarrow> queued_fun \<Rightarrow> conn_race \<Rightarrow> conn_race" where
  "run_queued takes Q_send s = race_sendInLoop takes s"
| "run_queued takes Q_shutdown s = s"
| "run_queued takes Q_destroyed s = race_connectDestroyed s"

lemmas run_queued_defs = race_sendInLoop_def race_connectDestroyed_def

fun race_step :: "race_label \<Rightarrow> conn_race \<Rightarrow> conn_race option" where
  "race_step (C_send_check i) s =
     user_step i U_holds (if cr_state s = kConnected then U_send_checked else U_holds) s"
| "race_step (C_send_queue i) s =
     map_option (\<lambda>s'. s'\<lparr>cr_queue := cr_queue s' @ [Q_send]\<rparr>) (user_step i U_send_checked U_holds s)"
| "race_step (C_shutdown_check i) s =
     user_step i U_holds (if cr_state s = kConnected then U_shutdown_checked else U_holds) s"
| "race_step (C_shutdown_set i) s =
     map_option (\<lambda>s'. s'\<lparr>cr_state := kDisconnecting\<rparr>) (user_step i U_shutdown_checked U_shutdown_set s)"
| "race_step (C_shutdown_queue i) s =
     map_option (\<lambda>s'. s'\<lparr>cr_queue := cr_queue s' @ [Q_shutdown]\<rparr>) (user_step i U_shutdown_set U_holds s)"
| "race_step (C_share i j) s =
     (if i < length (cr_users s) \<and> cr_users s ! i = U_holds then user_step j U_released U_holds s else None)"
| "race_step (C_release i) s = user_step i U_holds U_released s"
| "race_step C_close s =
     (if cr_watched s \<and> conn_alive s then Some (s\<lparr>cr_state := kDisconnected, cr_removing := cr_removing s + 1\<rparr>) else None)"
| "race_step C_remove s =
     (if 0 < cr_removing s
      then Some (s\<lparr>cr_removing := cr_removing s - 1, cr_in_map := False, cr_queue := cr_queue s @ [Q_destroyed]\<rparr>) else None)"
| "race_step (C_run takes) s =
     (case cr_queue s of
        [] \<Rightarrow> None
      | q # qs \<Rightarrow> Some ((run_queued takes q (use_object s))\<lparr>cr_queue := qs\<rparr>))"

inductive race_run :: "conn_race \<Rightarrow> race_label list \<Rightarrow> conn_race \<Rightarrow> bool" where
  race_nil: "race_run s [] s"
| race_more: "race_step l s = Some s1 \<Longrightarrow> race_run s1 ls s2 \<Longrightarrow> race_run s (l # ls) s2"

inductive_cases race_run_NilE: "race_run s [] s'"
inductive_cases race_run_ConsE: "race_run s (l # ls) s'"

section \<open>Removal while no call is under way\<close>

fun under_way :: "user_pc \<Rightarrow> bool" where
  "under_way U_holds \<longleftrightarrow> False"
| "under_way U_released \<longleftrightarrow> False"
| "under_way _ \<longleftrightarrow> True"

text \<open>No removal falls between the test and the queueing of a call.\<close>

fun quiet_removals :: "race_label list \<Rightarrow> conn_race \<Rightarrow> bool" where
  "quiet_removals [] s \<longleftrightarrow> True"
| "quiet_removals (l # ls) s \<longleftrightarrow>
     (l = C_remove \<longrightarrow> list_all (\<lambda>u. \<not> under_way u) (cr_users s)) \<and>
     (case race_step l s of None \<Rightarrow> True | Some s' \<Rightarrow> quiet_removals ls s')"

definition race_inv :: "conn_race \<Rightarrow> bool" where
  "race_inv s \<longleftrightarrow> cr_dead_uses s = 0 \<and> (0 < cr_removing s \<longrightarrow> cr_state s \<noteq> kConnected) \<and>
     (if cr_in_map s then Q_destroyed \<notin> set (cr_queue s)
      else cr_state s \<noteq> kConnected \<and> list_all (\<lambda>u. \<not> under_way u) (cr_users s) \<and>
        (\<exists>fs n. cr_queue s = fs @ replicate n Q_destroyed \<and> Q_destroyed \<notin> set fs \<and>
           (n = 0 \<longrightarrow> fs = [] \<and> \<not> cr_watched s)))"

lemma race_inv_alive:
  assumes "race_inv s" "cr_queue s \<noteq> [] \<or> cr_watched s" shows "conn_alive s"
proof (cases "cr_in_map s")
  case True
  then show ?thesis by (simp add: conn_alive_def)
next
  case False
  then obtain fs n where q: "cr_queue s = fs @ replicate n Q_destroyed" "n = 0 \<longrightarrow> fs = [] \<and> \<not> cr_watched s"
    using assms(1) by (auto simp: race_inv_def)
  with assms(2) have "n \<noteq> 0" by auto
  with q(1) have "Q_destroyed \<in> set (cr_queue s)" by simp
  then show ?thesis by (simp add: conn_alive_def)
qed

lemma user_step_Some:
  "user_step i pc pc' s = Some s' \<longleftrightarrow>
     i < length (cr_users s) \<and> cr_users s ! i = pc \<and> s' = s\<lparr>cr_users := (cr_users s)[i := pc']\<rparr>"
  by (auto simp: user_step_def)

lemma calm_update: "list_all P us \<Longrightarrow> P u \<Longrightarrow> list_all P (us[i := u])"
  by (auto simp: list_all_iff dest: set_update_subset_insert [THEN subsetD])

lemma calm_at: "list_all (\<lambda>u. \<not> under_way u) us \<Longrightarrow> i < length us \<Longrightarrow> us ! i = u \<Longrightarrow> \<not> under_way u"
  by (auto simp: list_all_length)

text \<open>A user's step that leaves the queue alone.\<close>

lemma race_inv_users:
  assumes "race_inv s" "cr_in_map s \<or> \<not> under_way u"
  shows "race_inv (s\<lparr>cr_users := (cr_users s)[i := u]\<rparr>)"
  using assms calm_update [of "\<lambda>u. \<not> under_way u" "cr_users s" u i] by (auto simp: race_inv_def)

lemma run_queued_inv:
  assumes inv: "race_inv s" and q: "cr_queue s = q # qs"
  shows "race_inv ((run_queued takes q (use_object s))\<lparr>cr_queue := qs\<rparr>)"
proof -
  have use: "use_object s = s" using race_inv_alive [OF inv] q by (simp add: use_object_def)
  show ?thesis
  proof (cases "cr_in_map s")
    case True
    with inv q show ?thesis by (cases q) (auto simp: use race_inv_def run_queued_defs)
  next
    case False
    then obtain fs n where f: "q # qs = fs @ replicate n Q_destroyed" "Q_destroyed \<notin> set fs"
        "n = 0 \<longrightarrow> fs = [] \<and> \<not> cr_watched s"
      using inv q by (auto simp: race_inv_def)
    show ?thesis
    proof (cases fs)
      case Nil
      then obtain m where m: "n = Suc m" "q = Q_destroyed" "qs = replicate m Q_destroyed" using f(1) by (cases n) auto
      have "\<exists>fs' n'. qs = fs' @ replicate n' Q_destroyed \<and> Q_destroyed \<notin> set fs' \<and> (n' = 0 \<longrightarrow> fs' = [])"
        using m(3) by (intro exI [of _ "[]"] exI [of _ m]) simp
      with inv False m(2) show ?thesis by (auto simp: use race_inv_def run_queued_defs)
    next
      case (Cons f fs')
      then have g: "q = f" "qs = fs' @ replicate n Q_destroyed" "q \<noteq> Q_destroyed" "Q_destroyed \<notin> set fs'" "n \<noteq> 0"
        using f by auto
      then have "\<exists>fs n. qs = fs @ replicate n Q_destroyed \<and> Q_destroyed \<notin> set fs \<and> n \<noteq> 0" by blast
      with inv False g(3) show ?thesis by (cases q) (fastforce simp: use race_inv_def run_queued_defs)+
    qed
  qed
qed

lemma race_step_inv:
  assumes inv: "race_inv s" and step: "race_step l s = Some s'"
    and calm: "l = C_remove \<longrightarrow> list_all (\<lambda>u. \<not> under_way u) (cr_users s)"
  shows "race_inv s'"
proof -
  have mid: "cr_in_map s" if "i < length (cr_users s)" "under_way (cr_users s ! i)" for i
    using inv that by (auto simp: race_inv_def list_all_length split: if_splits)
  show ?thesis
  proof (cases l)
    case (C_send_check i)
    then have "cr_state s = kConnected \<longrightarrow> cr_in_map s" using inv by (auto simp: race_inv_def split: if_splits)
    with race_inv_users [OF inv] step C_send_check show ?thesis by (auto simp: user_step_Some split: if_splits)
  next
    case (C_shutdown_check i)
    then have "cr_state s = kConnected \<longrightarrow> cr_in_map s" using inv by (auto simp: race_inv_def split: if_splits)
    with race_inv_users [OF inv] step C_shutdown_check show ?thesis by (auto simp: user_step_Some split: if_splits)
  next
    case (C_send_queue i)
    with step mid [of i] inv show ?thesis by (auto simp: user_step_Some race_inv_def)
  next
    case (C_shutdown_set i)
    with step mid [of i] inv show ?thesis by (auto simp: user_step_Some race_inv_def)
  next
    case (C_shutdown_queue i)
    with step mid [of i] inv show ?thesis by (auto simp: user_step_Some race_inv_def)
  next
    case (C_share i j)
    with step race_inv_users [OF inv, of U_holds j] show ?thesis by (auto simp: user_step_Some split: if_splits)
  next
    case (C_release i)
    with step race_inv_users [OF inv, of U_released i] show ?thesis by (auto simp: user_step_Some)
  next
    case C_close
    then have "s' = s\<lparr>cr_state := kDisconnected, cr_removing := cr_removing s + 1\<rparr>"
      using step by (simp split: if_splits)
    with inv show ?thesis by (simp add: race_inv_def)
  next
    case C_remove
    then have s': "0 < cr_removing s" "s' = s\<lparr>cr_removing := cr_removing s - 1, cr_in_map := False, cr_queue := cr_queue s @ [Q_destroyed]\<rparr>"
      using step by (auto split: if_splits)
    have "\<exists>fs n. cr_queue s = fs @ replicate n Q_destroyed \<and> Q_destroyed \<notin> set fs"
    proof (cases "cr_in_map s")
      case True
      then have "cr_queue s = cr_queue s @ replicate 0 Q_destroyed \<and> Q_destroyed \<notin> set (cr_queue s)"
        using inv by (simp add: race_inv_def)
      then show ?thesis by blast
    next
      case False
      with inv show ?thesis by (auto simp: race_inv_def)
    qed
    then obtain fs n where "cr_queue s = fs @ replicate n Q_destroyed" "Q_destroyed \<notin> set fs" by blast
    then have "cr_queue s @ [Q_destroyed] = fs @ replicate (Suc n) Q_destroyed \<and> Q_destroyed \<notin> set fs"
      by (simp add: replicate_append_same)
    then have "\<exists>fs n. cr_queue s @ [Q_destroyed] = fs @ replicate n Q_destroyed \<and> Q_destroyed \<notin> set fs \<and> n \<noteq> 0" by blast
    with inv calm C_remove s'(1) show ?thesis by (auto simp: s'(2) race_inv_def)
  next
    case (C_run takes)
    with step run_queued_inv [OF inv] show ?thesis by (auto split: list.splits)
  qed
qed

lemma race_run_inv:
  "race_run s ls s' \<Longrightarrow> race_inv s \<Longrightarrow> quiet_removals ls s \<Longrightarrow> race_inv s'"
  by (induction rule: race_run.induct) (use race_step_inv in auto)

lemma new_race_inv: "race_inv (new_race n)"
  by (simp add: race_inv_def new_race_def)

section \<open>Property\<close>

text \<open>The runs that go wrong without the condition.\<close>

definition late_send :: "race_label list" where
  "late_send = [C_send_check 0, C_close, C_remove, C_run True, C_send_queue 0, C_release 0, C_run True]"

definition late_shutdown :: "race_label list" where
  "late_shutdown = [C_shutdown_check 0, C_send_check 1, C_close, C_remove, C_run True, C_shutdown_set 0,
     C_send_queue 1, C_run False, C_shutdown_queue 0, C_run True, C_release 0, C_release 1]"

lemma late_send_run: "\<exists>s. race_run (new_race 1) late_send s \<and> cr_dead_uses s = 1"
  unfolding late_send_def
  by (intro exI conjI, (rule race_more, simp add: new_race_def user_step_def use_object_def conn_alive_def run_queued_defs)+, rule race_nil) simp

lemma late_shutdown_run: "\<exists>s. race_run (new_race 2) late_shutdown s \<and> \<not> conn_alive s \<and> cr_watched s"
  unfolding late_shutdown_def
  by (intro exI conjI, (rule race_more, simp add: new_race_def user_step_def use_object_def conn_alive_def run_queued_defs eval_nat_numeral)+, rule race_nil)
    (simp_all add: conn_alive_def)

text \<open>
  Property (C34). Threads that send and shut down while the connection closes: as long as the base
  loop removes it at no moment between the test of \<open>state_\<close> and the queueing in \<open>send\<close> or \<open>shutdown\<close>,
  no queued function is called on a destroyed connection, and one that waits, or whose channel is in
  the poller, exists. Without that: a late \<open>send\<close> is called on a destroyed object, and a late
  \<open>shutdown\<close> turns \<open>kDisconnected\<close> back, so that a late \<open>send\<close> puts the channel in the poller
  again and the object goes while the poller has it.
\<close>

theorem late_functors_safe:
  "(race_run (new_race n) ls s \<and> quiet_removals ls (new_race n) \<longrightarrow>
      cr_dead_uses s = 0 \<and> (cr_queue s \<noteq> [] \<or> cr_watched s \<longrightarrow> conn_alive s)) \<and>
   (\<exists>s. race_run (new_race 1) late_send s \<and> cr_dead_uses s = 1) \<and>
   (\<exists>s. race_run (new_race 2) late_shutdown s \<and> \<not> conn_alive s \<and> cr_watched s)"
proof (intro conjI impI)
  assume a: "race_run (new_race n) ls s \<and> quiet_removals ls (new_race n)"
  then have i: "race_inv s" using race_run_inv new_race_inv by blast
  then show "cr_dead_uses s = 0" by (simp add: race_inv_def)
  show "conn_alive s" if "cr_queue s \<noteq> [] \<or> cr_watched s" by (rule race_inv_alive [OF i that])
qed (rule late_send_run, rule late_shutdown_run)

lemma late_functors_safe_witness:
  "\<exists>s. race_run (new_race 2) [C_send_check 0, C_shutdown_check 1, C_send_queue 0, C_shutdown_set 1, C_close,
      C_shutdown_queue 1, C_remove, C_release 0, C_run False] s \<and>
    cr_queue s = [Q_shutdown, Q_destroyed] \<and> cr_dead_uses s = 0 \<and> conn_alive s"
proof -
  let ?ls = "[C_send_check 0, C_shutdown_check 1, C_send_queue 0, C_shutdown_set 1, C_close,
      C_shutdown_queue 1, C_remove, C_release 0, C_run False]"
  have "\<exists>s. race_run (new_race 2) ?ls s \<and> cr_queue s = [Q_shutdown, Q_destroyed]"
    by (intro exI conjI, (rule race_more, simp add: new_race_def user_step_def use_object_def conn_alive_def run_queued_defs eval_nat_numeral)+, rule race_nil)
      simp
  then obtain s where s: "race_run (new_race 2) ?ls s" "cr_queue s = [Q_shutdown, Q_destroyed]" by blast
  moreover have "quiet_removals ?ls (new_race 2)"
    by (simp add: new_race_def user_step_def conn_alive_def eval_nat_numeral)
  ultimately show ?thesis using late_functors_safe [of 2 ?ls s] by auto
qed

end
