(* ===== verification/NetEventLoop.thy ===== *)
theory NetEventLoop
  imports Prelude
begin

text \<open>
  The event loop, \<^verbatim>\<open>EventLoop.cpp\<close>: the queue of pending functions, the eventfd that wakes the
  poller, quitting, and the loop itself. The loop's own thread and the threads that queue
  functions or quit it interleave; every step below is one access to the shared state (the
  mutex makes the push and the swap atomic, the flags are atomics, the eventfd is the kernel's).
  In particular another thread's \<open>queueInLoop\<close> is two steps, the push and the wakeup, and
  reading \<^verbatim>\<open>quit_\<close> in the loop's condition is a step of its own. The loop's own thread queues
  functions and quits wherever it runs user code: in a channel's callback, in a pending function,
  before \<open>loop()\<close> and after it; \<open>loop()\<close> may be called again after it has returned.
\<close>

section \<open>State and operations\<close>

text \<open>
  Where the loop's thread is: before \<open>loop()\<close>, at the condition \<^verbatim>\<open>while(!quit_)\<close>, in \<open>poll\<close>,
  handling active channels (the flag: the wakeup channel is still to be handled), in
  \<open>doPendingFunctions\<close> before the swap, running the functions it took, and after \<open>loop()\<close>.
\<close>

datatype 't loop_pc = At_idle | At_check | At_poll | At_events bool | At_pending | At_run "'t list" | At_end

record 't event_loop =
  looping :: bool
  quit :: bool
  callingPendingFunctions :: bool
  pendingFunctions :: "'t list"
  wakeup_count :: nat

definition new_event_loop :: "'t event_loop" where
  "new_event_loop = \<lparr>looping = False, quit = False, callingPendingFunctions = False,
     pendingFunctions = [], wakeup_count = 0\<rparr>"

text \<open>Adding to a full eventfd fails with \<open>EAGAIN\<close>, which is only logged.\<close>

definition eventfd_max :: nat where "eventfd_max = 2 ^ 64 - 2"

definition wakeup :: "'t event_loop \<Rightarrow> 't event_loop" where
  "wakeup el = (if wakeup_count el + 1 \<le> eventfd_max
     then el\<lparr>wakeup_count := wakeup_count el + 1\<rparr> else el)"

text \<open>Reading the eventfd resets it; reading an empty one fails, which is only logged.\<close>

definition handleRead :: "'t event_loop \<Rightarrow> 't event_loop" where
  "handleRead el = el\<lparr>wakeup_count := 0\<rparr>"

definition queue_push :: "'t \<Rightarrow> 't event_loop \<Rightarrow> 't event_loop" where
  "queue_push cb el = el\<lparr>pendingFunctions := pendingFunctions el @ [cb]\<rparr>"

definition queue_wakes :: "bool \<Rightarrow> 't event_loop \<Rightarrow> bool" where
  "queue_wakes in_thread el \<longleftrightarrow> \<not> in_thread \<or> callingPendingFunctions el"

definition queueInLoop :: "bool \<Rightarrow> 't \<Rightarrow> 't event_loop \<Rightarrow> 't event_loop" where
  "queueInLoop in_thread cb el =
     (let el1 = queue_push cb el in if queue_wakes in_thread el1 then wakeup el1 else el1)"

text \<open>\<open>call\<close> is calling the function in the loop's own thread.\<close>

definition runInLoop ::
  "('t \<Rightarrow> 't event_loop \<Rightarrow> 't event_loop) \<Rightarrow> bool \<Rightarrow> 't \<Rightarrow> 't event_loop \<Rightarrow> 't event_loop" where
  "runInLoop call in_thread cb el = (if in_thread then call cb el else queueInLoop in_thread cb el)"

definition quit_loop :: "bool \<Rightarrow> 't event_loop \<Rightarrow> 't event_loop" where
  "quit_loop in_thread el = (let el1 = el\<lparr>quit := True\<rparr> in if \<not> in_thread then wakeup el1 else el1)"

definition loop_enter :: "'t event_loop \<Rightarrow> 't event_loop" where
  "loop_enter el = el\<lparr>looping := True, quit := False\<rparr>"

definition loop_leave :: "'t event_loop \<Rightarrow> 't event_loop" where
  "loop_leave el = el\<lparr>looping := False\<rparr>"

definition pending_swap :: "'t event_loop \<Rightarrow> 't list \<times> 't event_loop" where
  "pending_swap el = (pendingFunctions el, el\<lparr>pendingFunctions := []\<rparr>)"

text \<open>\<open>doPendingFunctions\<close> when no other thread interferes: \<open>call\<close> runs one function.\<close>

definition doPendingFunctions ::
  "('t \<Rightarrow> 't event_loop \<Rightarrow> 't event_loop) \<Rightarrow> 't event_loop \<Rightarrow> 't event_loop" where
  "doPendingFunctions call el =
     (let (fs, el1) = pending_swap (el\<lparr>callingPendingFunctions := True\<rparr>)
      in (fold call fs el1)\<lparr>callingPendingFunctions := False\<rparr>)"

section \<open>Interleaving\<close>

text \<open>
  The state of a run: the loop, where its thread is, how many other threads have pushed (or set
  \<open>quit_\<close>) and not yet written the eventfd, the history of functions queued and called, and
  those among the pending ones that the loop's own thread queued outside \<open>loop()\<close>.
\<close>

record 't loop_run =
  lr_loop :: "'t event_loop"
  lr_pc :: "'t loop_pc"
  lr_wakers :: nat
  lr_queued :: "'t list"
  lr_called :: "'t list"
  lr_early :: "'t list"

definition new_run :: "'t loop_run" where
  "new_run = \<lparr>lr_loop = new_event_loop, lr_pc = At_idle, lr_wakers = 0, lr_queued = [], lr_called = [],
     lr_early = []\<rparr>"

datatype 't loop_label =
    L_enter | L_check | L_poll | L_read | L_begin | L_swap | L_call | L_finish
  | L_own_queue 't | L_own_quit | L_push 't | L_quit | L_wake

text \<open>Where the loop's thread runs code of the program, and where it is outside \<open>loop()\<close>.\<close>

fun outside_loop :: "'t loop_pc \<Rightarrow> bool" where
  "outside_loop At_idle \<longleftrightarrow> True"
| "outside_loop At_end \<longleftrightarrow> True"
| "outside_loop _ \<longleftrightarrow> False"

fun user_code :: "'t loop_pc \<Rightarrow> bool" where
  "user_code At_idle \<longleftrightarrow> True"
| "user_code (At_events _) \<longleftrightarrow> True"
| "user_code (At_run _) \<longleftrightarrow> True"
| "user_code At_end \<longleftrightarrow> True"
| "user_code _ \<longleftrightarrow> False"

text \<open>
  One step. A poll returns when the eventfd is readable, another descriptor is ready or the
  timeout expires; what the wakeup channel does then depends on the eventfd alone.
\<close>

fun loop_step :: "'t loop_label \<Rightarrow> 't loop_run \<Rightarrow> 't loop_run option" where
  "loop_step L_enter s =
     (if lr_pc s = At_idle \<or> lr_pc s = At_end
      then Some (s\<lparr>lr_loop := loop_enter (lr_loop s), lr_pc := At_check\<rparr>) else None)"
| "loop_step L_check s =
     (if lr_pc s = At_check
      then (if quit (lr_loop s) then Some (s\<lparr>lr_loop := loop_leave (lr_loop s), lr_pc := At_end\<rparr>)
            else Some (s\<lparr>lr_pc := At_poll\<rparr>))
      else None)"
| "loop_step L_poll s =
     (if lr_pc s = At_poll then Some (s\<lparr>lr_pc := At_events (0 < wakeup_count (lr_loop s))\<rparr>) else None)"
| "loop_step L_read s =
     (if lr_pc s = At_events True
      then Some (s\<lparr>lr_loop := handleRead (lr_loop s), lr_pc := At_events False\<rparr>) else None)"
| "loop_step L_begin s =
     (if lr_pc s = At_events False
      then Some (s\<lparr>lr_loop := (lr_loop s)\<lparr>callingPendingFunctions := True\<rparr>, lr_pc := At_pending\<rparr>)
      else None)"
| "loop_step L_swap s =
     (if lr_pc s = At_pending
      then (let (fs, el) = pending_swap (lr_loop s) in Some (s\<lparr>lr_loop := el, lr_pc := At_run fs, lr_early := []\<rparr>))
      else None)"
| "loop_step L_call s =
     (case lr_pc s of
        At_run (f # fs) \<Rightarrow> Some (s\<lparr>lr_pc := At_run fs, lr_called := lr_called s @ [f]\<rparr>)
      | _ \<Rightarrow> None)"
| "loop_step L_finish s =
     (if lr_pc s = At_run []
      then Some (s\<lparr>lr_loop := (lr_loop s)\<lparr>callingPendingFunctions := False\<rparr>, lr_pc := At_check\<rparr>)
      else None)"
| "loop_step (L_own_queue f) s =
     (if user_code (lr_pc s)
      then Some (s\<lparr>lr_loop := queueInLoop True f (lr_loop s), lr_queued := lr_queued s @ [f],
        lr_early := (if outside_loop (lr_pc s) then lr_early s @ [f] else lr_early s)\<rparr>)
      else None)"
| "loop_step L_own_quit s =
     (if user_code (lr_pc s) then Some (s\<lparr>lr_loop := quit_loop True (lr_loop s)\<rparr>) else None)"
| "loop_step (L_push f) s =
     Some (s\<lparr>lr_loop := queue_push f (lr_loop s), lr_queued := lr_queued s @ [f], lr_wakers := lr_wakers s + 1\<rparr>)"
| "loop_step L_quit s =
     Some (s\<lparr>lr_loop := (lr_loop s)\<lparr>quit := True\<rparr>, lr_wakers := lr_wakers s + 1\<rparr>)"
| "loop_step L_wake s =
     (if 0 < lr_wakers s
      then Some (s\<lparr>lr_loop := wakeup (lr_loop s), lr_wakers := lr_wakers s - 1\<rparr>) else None)"

inductive reachable :: "'t loop_run \<Rightarrow> bool" where
  init: "reachable new_run"
| step: "reachable s \<Longrightarrow> loop_step l s = Some s' \<Longrightarrow> reachable s'"

text \<open>
  Steps that queue nothing new: those of the loop's own thread once \<open>loop()\<close> has been called, and
  another thread's write of the eventfd that was already due. A poll returns on the eventfd, and
  on its timeout only when nobody is about to write it and a function queued outside \<open>loop()\<close>
  waits.
\<close>

definition own_label :: "'t loop_label \<Rightarrow> 't loop_run \<Rightarrow> bool" where
  "own_label l s \<longleftrightarrow> l \<in> {L_check, L_read, L_begin, L_swap, L_call, L_finish, L_wake} \<or>
     (l = L_enter \<and> lr_pc s = At_idle) \<or>
     (l = L_poll \<and> (0 < wakeup_count (lr_loop s) \<or> lr_wakers s = 0 \<and> lr_early s \<noteq> []))"

text \<open>So many such steps.\<close>

inductive progress :: "nat \<Rightarrow> 't loop_run \<Rightarrow> 't loop_run \<Rightarrow> bool" where
  refl: "progress 0 s s"
| step: "own_label l s \<Longrightarrow> loop_step l s = Some s1 \<Longrightarrow> progress n s1 s2 \<Longrightarrow> progress (Suc n) s s2"

section \<open>Invariants\<close>

fun running :: "'t loop_pc \<Rightarrow> 't list" where
  "running (At_run fs) = fs"
| "running _ = []"

fun wake_matters :: "'t loop_pc \<Rightarrow> bool" where
  "wake_matters At_idle \<longleftrightarrow> True"
| "wake_matters At_check \<longleftrightarrow> True"
| "wake_matters At_end \<longleftrightarrow> True"
| "wake_matters At_poll \<longleftrightarrow> True"
| "wake_matters (At_run _) \<longleftrightarrow> True"
| "wake_matters _ \<longleftrightarrow> False"

fun in_pending :: "'t loop_pc \<Rightarrow> bool" where
  "in_pending At_pending \<longleftrightarrow> True"
| "in_pending (At_run _) \<longleftrightarrow> True"
| "in_pending _ \<longleftrightarrow> False"

definition signalled :: "'t loop_run \<Rightarrow> bool" where
  "signalled s \<longleftrightarrow> 0 < wakeup_count (lr_loop s) \<or> 0 < lr_wakers s"

definition loop_inv :: "'t loop_run \<Rightarrow> bool" where
  "loop_inv s \<longleftrightarrow>
     lr_queued s = lr_called s @ running (lr_pc s) @ pendingFunctions (lr_loop s) \<and>
     (wake_matters (lr_pc s) \<and> \<not> signalled s \<longrightarrow> pendingFunctions (lr_loop s) = lr_early s) \<and>
     (lr_pc s = At_poll \<and> quit (lr_loop s) \<longrightarrow> signalled s) \<and>
     (callingPendingFunctions (lr_loop s) \<longleftrightarrow> in_pending (lr_pc s))"

lemmas loop_ops = loop_enter_def loop_leave_def handleRead_def queue_push_def queue_wakes_def
  quit_loop_def pending_swap_def

lemma wakeup_fields [simp]:
  "pendingFunctions (wakeup el) = pendingFunctions el" "quit (wakeup el) = quit el"
  "callingPendingFunctions (wakeup el) = callingPendingFunctions el" "looping (wakeup el) = looping el"
  "0 < wakeup_count (wakeup el)" "wakeup_count (wakeup el) \<noteq> 0"
  by (auto simp: wakeup_def eventfd_max_def)

lemma new_run_inv: "loop_inv new_run"
  by (simp add: loop_inv_def new_run_def new_event_loop_def)

lemma loop_step_inv:
  assumes "loop_inv s" "loop_step l s = Some s'" shows "loop_inv s'"
  using assms
  by (cases l; cases "lr_pc s"; clarsimp simp: loop_inv_def signalled_def loop_ops queueInLoop_def
      Let_def split: if_splits list.splits)

lemma reachable_inv: "reachable s \<Longrightarrow> loop_inv s"
  by (induction rule: reachable.induct) (auto intro: new_run_inv loop_step_inv)

text \<open>The states from which everything queued gets called within \<open>k\<close> such steps.\<close>

definition called_within :: "nat \<Rightarrow> 't loop_run \<Rightarrow> bool" where
  "called_within k s \<longleftrightarrow> (\<exists>n s'. n \<le> k \<and> progress n s s' \<and> lr_called s' = lr_queued s \<and>
     lr_queued s' = lr_queued s)"

lemma called_within_now: "lr_called s = lr_queued s \<Longrightarrow> called_within k s"
  unfolding called_within_def by (intro exI [of _ 0] exI [of _ s]) (simp add: progress.refl)

lemma called_within_mono: "called_within m s \<Longrightarrow> m \<le> k \<Longrightarrow> called_within k s"
  by (auto simp: called_within_def intro: order_trans)

lemma called_within_step:
  assumes "loop_step l s = Some t" "own_label l s" "lr_queued t = lr_queued s" "called_within k t"
  shows "called_within (Suc k) s"
proof -
  obtain n s' where "n \<le> k" "progress n t s'" "lr_called s' = lr_queued t" "lr_queued s' = lr_queued t"
    using assms(4) by (auto simp: called_within_def)
  with assms(1-3) show ?thesis
    unfolding called_within_def by (intro exI [of _ "Suc n"] exI [of _ s']) (auto intro: progress.step)
qed

lemma called_within_run:
  assumes "\<And>t. loop_inv t \<Longrightarrow> lr_pc t = At_run [] \<Longrightarrow> lr_loop t = lr_loop s \<Longrightarrow>
      lr_queued t = lr_queued s \<Longrightarrow> called_within k t"
    and "loop_inv s" "lr_pc s = At_run fs"
  shows "called_within (length fs + k) s"
  using assms
proof (induction fs arbitrary: s)
  case Nil
  then show ?case by simp
next
  case (Cons f fs)
  let ?t = "s\<lparr>lr_pc := At_run fs, lr_called := lr_called s @ [f]\<rparr>"
  have st: "loop_step L_call s = Some ?t" using Cons.prems(3) by simp
  have "called_within (length fs + k) ?t"
    using Cons.prems(1) loop_step_inv [OF Cons.prems(2) st] by (intro Cons.IH) simp_all
  with called_within_step [OF st] show ?case by (simp add: own_label_def)
qed

lemma called_from_pending:
  assumes inv: "loop_inv s" and pc: "lr_pc s = At_pending"
  shows "called_within (length (pendingFunctions (lr_loop s)) + 1) s"
proof -
  let ?t = "s\<lparr>lr_loop := (lr_loop s)\<lparr>pendingFunctions := []\<rparr>,
      lr_pc := At_run (pendingFunctions (lr_loop s)), lr_early := []\<rparr>"
  have st: "loop_step L_swap s = Some ?t" using pc by (simp add: pending_swap_def)
  have "called_within 0 u" if "loop_inv u" "lr_pc u = At_run []" "lr_loop u = lr_loop ?t" for u
    using that by (intro called_within_now) (simp add: loop_inv_def)
  then have "called_within (length (pendingFunctions (lr_loop s)) + 0) ?t"
    using loop_step_inv [OF inv st] by (intro called_within_run) simp_all
  with called_within_step [OF st] show ?thesis by (simp add: own_label_def)
qed

lemma called_from_events:
  assumes "loop_inv s" "lr_pc s = At_events b"
  shows "called_within (length (pendingFunctions (lr_loop s)) + 3) s"
proof -
  have handled: "called_within (length (pendingFunctions (lr_loop t)) + 2) t"
    if "loop_inv t" "lr_pc t = At_events False" for t :: "'a loop_run"
  proof -
    let ?t = "t\<lparr>lr_loop := (lr_loop t)\<lparr>callingPendingFunctions := True\<rparr>, lr_pc := At_pending\<rparr>"
    have st: "loop_step L_begin t = Some ?t" by (simp add: that(2))
    from called_from_pending [OF loop_step_inv [OF that(1) this]]
    show ?thesis using called_within_step [OF st] by (simp add: own_label_def eval_nat_numeral)
  qed
  show ?thesis
  proof (cases b)
    case True
    let ?t = "s\<lparr>lr_loop := handleRead (lr_loop s), lr_pc := At_events False\<rparr>"
    have st: "loop_step L_read s = Some ?t" using assms(2) True by simp
    from handled [OF loop_step_inv [OF assms(1) this]]
    show ?thesis using called_within_step [OF st] by (simp add: own_label_def handleRead_def eval_nat_numeral)
  next
    case False
    with handled [OF assms(1)] assms(2) show ?thesis by (simp add: called_within_mono)
  qed
qed

lemma called_from_poll:
  assumes inv: "loop_inv s" and pc: "lr_pc s = At_poll"
  shows "called_within (length (pendingFunctions (lr_loop s)) + 5) s"
proof -
  have polled: "called_within (length (pendingFunctions (lr_loop t)) + 4) t"
    if "loop_inv t" "lr_pc t = At_poll" "own_label L_poll t" for t :: "'a loop_run"
  proof -
    let ?t = "t\<lparr>lr_pc := At_events (0 < wakeup_count (lr_loop t))\<rparr>"
    have st: "loop_step L_poll t = Some ?t" by (simp add: that(2))
    from called_from_events [OF loop_step_inv [OF that(1) this]]
    show ?thesis using called_within_step [OF st that(3)] by (simp add: eval_nat_numeral)
  qed
  show ?thesis
  proof (cases "own_label L_poll s")
    case True
    with polled [OF inv pc] show ?thesis by (simp add: called_within_mono)
  next
    case False
    show ?thesis
    proof (cases "lr_wakers s = 0")
      case True
      with False inv pc have "lr_called s = lr_queued s"
        by (simp add: own_label_def loop_inv_def signalled_def)
      then show ?thesis by (rule called_within_now)
    next
      case wakers: False
      let ?t = "s\<lparr>lr_loop := wakeup (lr_loop s), lr_wakers := lr_wakers s - 1\<rparr>"
      have st: "loop_step L_wake s = Some ?t" using wakers by simp
      have "called_within (length (pendingFunctions (lr_loop s)) + 4) ?t"
        using polled [OF loop_step_inv [OF inv st]] pc by (simp add: own_label_def)
      with called_within_step [OF st] show ?thesis by (simp add: own_label_def eval_nat_numeral)
    qed
  qed
qed

lemma called_from_check:
  assumes "loop_inv s" "lr_pc s = At_check" "\<not> quit (lr_loop s)"
  shows "called_within (length (pendingFunctions (lr_loop s)) + 6) s"
proof -
  let ?t = "s\<lparr>lr_pc := At_poll\<rparr>"
  have st: "loop_step L_check s = Some ?t" using assms(2,3) by simp
  from called_from_poll [OF loop_step_inv [OF assms(1) st]]
  show ?thesis using called_within_step [OF st] by (simp add: own_label_def eval_nat_numeral)
qed

lemma called_from_idle:
  assumes "loop_inv s" "lr_pc s = At_idle"
  shows "called_within (length (pendingFunctions (lr_loop s)) + 7) s"
proof -
  let ?t = "s\<lparr>lr_loop := loop_enter (lr_loop s), lr_pc := At_check\<rparr>"
  have st: "loop_step L_enter s = Some ?t" using assms(2) by simp
  from called_from_check [OF loop_step_inv [OF assms(1) st]]
  show ?thesis using called_within_step [OF st] assms(2) by (simp add: own_label_def loop_enter_def eval_nat_numeral)
qed

lemma called_from_run:
  assumes "loop_inv s" "lr_pc s = At_run fs" "\<not> quit (lr_loop s)"
  shows "called_within (length fs + (length (pendingFunctions (lr_loop s)) + 7)) s"
proof (rule called_within_run [OF _ assms(1,2)])
  fix t :: "'a loop_run"
  assume t: "loop_inv t" "lr_pc t = At_run []" "lr_loop t = lr_loop s"
  let ?t = "t\<lparr>lr_loop := (lr_loop t)\<lparr>callingPendingFunctions := False\<rparr>, lr_pc := At_check\<rparr>"
  have st: "loop_step L_finish t = Some ?t" using t(2) by simp
  from called_from_check [OF loop_step_inv [OF t(1) st]]
  show "called_within (length (pendingFunctions (lr_loop s)) + 7) t"
    using called_within_step [OF st] t(3) assms(3) by (simp add: own_label_def eval_nat_numeral)
qed

text \<open>A loop that is leaving calls what it has taken and nothing more.\<close>

definition leaving :: "'t loop_run \<Rightarrow> bool" where
  "leaving s \<longleftrightarrow> lr_pc s = At_end \<or>
     quit (lr_loop s) \<and> (lr_pc s = At_check \<or> (\<exists>fs. lr_pc s = At_run fs))"

lemma leaving_step:
  assumes "leaving s" "own_label l s" "loop_step l s = Some t"
  shows "leaving t \<and> lr_called t @ running (lr_pc t) = lr_called s @ running (lr_pc s)"
  using assms
  by (cases l; cases "lr_pc s") (auto simp: leaving_def own_label_def Let_def wakeup_def
      split: if_splits list.splits)

lemma leaving_progress:
  "progress n s s' \<Longrightarrow> leaving s \<Longrightarrow>
   lr_called s' @ running (lr_pc s') = lr_called s @ running (lr_pc s)"
  by (induction rule: progress.induct) (use leaving_step in metis)+

section \<open>Properties\<close>

text \<open>
  Exactly once and in order: in every interleaving, the functions queued so far
  are the ones already called, followed by those taken and not yet called, followed by those
  pending, each once and in the order in which they were queued.
\<close>

theorem pending_functions_fifo:
  assumes "reachable s"
  shows "lr_queued s = lr_called s @ running (lr_pc s) @ pendingFunctions (lr_loop s)"
  using reachable_inv [OF assms] by (simp add: loop_inv_def)

text \<open>
  Property (C13). Which wakeups can be lost: in every interleaving, a loop that sits in \<open>poll\<close>
  with an empty eventfd while no other thread is about to write it has not been told to quit, and
  the only functions that can be pending are those its own thread queued outside \<open>loop()\<close>
  (before it or between two calls of it), for which the code writes no eventfd
  (\<open>queue_before_loop_waits\<close>). Nothing that another thread, a channel's callback or a pending
  function queued is ever left waiting for the poll's timeout.
\<close>

theorem no_lost_wakeup:
  assumes "reachable s" and "lr_pc s = At_poll"
    and "wakeup_count (lr_loop s) = 0" and "lr_wakers s = 0"
  shows "pendingFunctions (lr_loop s) = lr_early s \<and> \<not> quit (lr_loop s)"
  using reachable_inv [OF assms(1)] assms(2-4) by (auto simp: loop_inv_def signalled_def)

text \<open>
  Property (C14). What is queued gets called, unless the loop leaves first. From every reachable
  state that is not leaving (ended, or quitting at the loop's condition or while it runs the
  functions it took), the loop's own steps and at most writes of the eventfd that were already
  due reach, within seven steps more than there are functions waiting, a state in which every
  function queued so far has been called; the poll is left by its timeout only when functions
  queued outside \<open>loop()\<close> wait. A loop that is leaving calls, by such steps, at most the functions
  it has taken: what is still pending then is not called.
\<close>

theorem queued_functions_called:
  assumes "reachable s"
  shows "(\<not> leaving s \<longrightarrow> (\<exists>n s'. n \<le> length (lr_queued s) - length (lr_called s) + 7 \<and>
       progress n s s' \<and> lr_called s' = lr_queued s \<and> lr_queued s' = lr_queued s)) \<and>
    (leaving s \<longrightarrow> (\<forall>n s'. progress n s s' \<longrightarrow>
       lr_called s' @ running (lr_pc s') = lr_called s @ running (lr_pc s)))"
proof -
  have inv: "loop_inv s" using assms by (rule reachable_inv)
  have waiting: "length (lr_queued s) - length (lr_called s) =
      length (running (lr_pc s)) + length (pendingFunctions (lr_loop s))"
    using inv by (simp add: loop_inv_def)
  have "called_within (length (lr_queued s) - length (lr_called s) + 7) s" if go: "\<not> leaving s"
  proof -
    note more = called_within_mono [of _ s]
    show ?thesis
    proof (cases "lr_pc s")
      case At_idle
      with more [OF called_from_idle [OF inv]] waiting show ?thesis by simp
    next
      case At_check
      with more [OF called_from_check [OF inv]] waiting go show ?thesis by (simp add: leaving_def)
    next
      case At_poll
      with more [OF called_from_poll [OF inv]] waiting show ?thesis by simp
    next
      case (At_events b)
      with more [OF called_from_events [OF inv]] waiting show ?thesis by simp
    next
      case At_pending
      with more [OF called_from_pending [OF inv]] waiting show ?thesis by simp
    next
      case (At_run fs)
      with more [OF called_from_run [OF inv]] waiting go show ?thesis by (simp add: leaving_def)
    next
      case At_end
      with go show ?thesis by (simp add: leaving_def)
    qed
  qed
  then show ?thesis using leaving_progress unfolding called_within_def by blast
qed

text \<open>
  A quit before the loop is entered is lost: \<open>loop()\<close> clears the flag, so after
  another thread has quit and the loop's thread then enters the loop, the loop keeps polling
  and the flag is false.
\<close>

theorem quit_before_loop_lost:
  "\<exists>s. loop_step L_quit new_run = Some s \<and>
     (\<exists>t u v. loop_step L_wake s = Some t \<and> loop_step L_enter t = Some u \<and>
        loop_step L_check u = Some v \<and> lr_pc v = At_poll \<and> \<not> quit (lr_loop v))"
  by (simp add: new_run_def new_event_loop_def loop_ops)

text \<open>
  A function the loop's own thread queues before it enters the loop wakes nobody:
  the loop polls with an empty eventfd although the function is pending, so it is called only
  after another event or the timeout.
\<close>

theorem queue_before_loop_waits:
  "\<exists>s. foldl (\<lambda>r l. Option.bind r (loop_step l)) (Some new_run) [L_own_queue f, L_enter, L_check] =
       Some s \<and>
     lr_pc s = At_poll \<and> pendingFunctions (lr_loop s) = [f] \<and> wakeup_count (lr_loop s) = 0 \<and>
     lr_wakers s = 0"
  by (simp add: new_run_def queueInLoop_def new_event_loop_def loop_ops)

section \<open>Witnesses\<close>

text \<open>A run in which another thread queues a function and wakes the loop.\<close>

lemma reachable_steps:
  "reachable s \<Longrightarrow> foldl (\<lambda>r l. Option.bind r (loop_step l)) (Some s) ls = Some s' \<Longrightarrow> reachable s'"
proof (induction ls arbitrary: s)
  case Nil
  then show ?case by simp
next
  case (Cons l ls)
  show ?case
  proof (cases "loop_step l s")
    case None
    have "foldl (\<lambda>r l. Option.bind r (loop_step l)) None ls = None" by (induction ls) simp_all
    with Cons.prems(2) None show ?thesis by simp
  next
    case (Some t)
    then have "reachable t" using Cons.prems(1) reachable.step by blast
    with Cons.IH [of t] Cons.prems(2) Some show ?thesis by simp
  qed
qed

definition sample_run :: "nat loop_run" where
  "sample_run = \<lparr>lr_loop = \<lparr>looping = True, quit = False, callingPendingFunctions = False,
     pendingFunctions = [7], wakeup_count = 1\<rparr>, lr_pc = At_poll, lr_wakers = 0,
     lr_queued = [7], lr_called = [], lr_early = []\<rparr>"

lemma sample_run_reachable: "reachable sample_run"
  by (rule reachable_steps [OF reachable.init, of "[L_enter, L_check, L_push 7, L_wake]"])
     (simp add: sample_run_def new_run_def new_event_loop_def loop_ops wakeup_def eventfd_max_def)

lemma pending_functions_fifo_witness:
  "lr_queued sample_run = lr_called sample_run @ running (lr_pc sample_run) @
     pendingFunctions (lr_loop sample_run)"
  by (rule pending_functions_fifo [OF sample_run_reachable])

lemma no_lost_wakeup_witness:
  "\<exists>s :: nat loop_run. lr_pc s = At_poll \<and> lr_called s = [7, 8] \<and> pendingFunctions (lr_loop s) = [] \<and>
     \<not> quit (lr_loop s)"
proof -
  let ?s = "\<lparr>lr_loop = \<lparr>looping = True, quit = False, callingPendingFunctions = False,
     pendingFunctions = [], wakeup_count = 0\<rparr>, lr_pc = At_poll, lr_wakers = 0,
     lr_queued = [7, 8], lr_called = [7, 8], lr_early = []\<rparr> :: nat loop_run"
  have "reachable ?s"
    by (rule reachable_steps [OF reachable.init, of "[L_own_queue 7, L_enter, L_check, L_push 8,
          L_wake, L_poll, L_read, L_begin, L_swap, L_call, L_call, L_finish, L_check]"])
      (simp add: new_run_def new_event_loop_def loop_ops queueInLoop_def wakeup_def eventfd_max_def)
  from no_lost_wakeup [OF this] have "pendingFunctions (lr_loop ?s) = lr_early ?s \<and> \<not> quit (lr_loop ?s)"
    by simp
  then show ?thesis by (intro exI [of _ ?s]) simp
qed

lemma queued_functions_called_witness:
  "\<exists>n s'. n \<le> 8 \<and> progress n sample_run s' \<and> lr_called s' = [7] \<and> lr_queued s' = [7]"
  using queued_functions_called [OF sample_run_reachable] by (simp add: sample_run_def leaving_def)

end
