(* ===== verification/RpcLogger.thy ===== *)
theory RpcLogger
  imports Prelude
begin

text \<open>
  The log of the RPC framework: the blocking queue \<^verbatim>\<open>lockqueue.h\<close> and the logger with its
  writing thread, \<^verbatim>\<open>logger.h\<close> and \<^verbatim>\<open>logger.cc\<close>. Queue operations run under the queue's
  mutex and are atomic; the file is the list of the lines written.
\<close>

section \<open>LockQueue\<close>

record 'a lock_queue =
  lq_items :: "'a list"
  is_close :: bool

definition new_lock_queue :: "'a lock_queue" where
  "new_lock_queue = \<lparr>lq_items = [], is_close = False\<rparr>"

definition Push :: "'a \<Rightarrow> 'a lock_queue \<Rightarrow> 'a lock_queue" where
  "Push data q = (if is_close q then q else q\<lparr>lq_items := lq_items q @ [data]\<rparr>)"

text \<open>\<^term>\<open>None\<close> is waiting for the condition; \<open>dflt\<close> is \<^verbatim>\<open>T()\<close>.\<close>

definition Pop :: "'a \<Rightarrow> 'a lock_queue \<Rightarrow> ('a \<times> 'a lock_queue) option" where
  "Pop dflt q =
     (if lq_items q = [] \<and> \<not> is_close q then None
      else case lq_items q of
          [] \<Rightarrow> Some (dflt, q)
        | x # xs \<Rightarrow> Some (x, q\<lparr>lq_items := xs\<rparr>))"

definition Close :: "'a lock_queue \<Rightarrow> 'a lock_queue" where
  "Close q = q\<lparr>is_close := True\<rparr>"

section \<open>The contract of a closable queue\<close>

text \<open>
  What the logger relies on: the items come out in order, an open empty queue makes the reader
  wait, and a closed one takes nothing more but still hands out what it has.
\<close>

locale closable_queue =
  fixes items :: "'q \<Rightarrow> 'a list" and closed :: "'q \<Rightarrow> bool"
    and push :: "'a \<Rightarrow> 'q \<Rightarrow> 'q" and pop :: "'q \<Rightarrow> ('a \<times> 'q) option" and close :: "'q \<Rightarrow> 'q" and dflt :: 'a
  assumes push_items: "items (push x q) = (if closed q then items q else items q @ [x])"
    and push_closed: "closed (push x q) = closed q"
    and close_items: "items (close q) = items q"
    and close_closed: "closed (close q)"
    and pop_wait: "items q = [] \<Longrightarrow> \<not> closed q \<Longrightarrow> pop q = None"
    and pop_end: "items q = [] \<Longrightarrow> closed q \<Longrightarrow> pop q = Some (dflt, q)"
    and pop_item: "items q = x # xs \<Longrightarrow> \<exists>q'. pop q = Some (x, q') \<and> items q' = xs \<and> closed q' = closed q"
begin

text \<open>Pops until the default comes out.\<close>

fun pops :: "nat \<Rightarrow> 'q \<Rightarrow> ('a list \<times> 'q) option" where
  "pops 0 q = Some ([], q)"
| "pops (Suc n) q = (case pop q of None \<Rightarrow> None
     | Some (x, q') \<Rightarrow> map_option (\<lambda>(xs, q''). (x # xs, q'')) (pops n q'))"

lemma pops_all: "items q = xs \<Longrightarrow> \<exists>q'. pops (length xs) q = Some (xs, q') \<and> items q' = [] \<and> closed q' = closed q"
proof (induction xs arbitrary: q)
  case Nil
  then show ?case by simp
next
  case (Cons x xs)
  obtain q1 where q1: "pop q = Some (x, q1)" "items q1 = xs" "closed q1 = closed q"
    using pop_item [OF Cons.prems] by blast
  from Cons.IH [OF q1(2)] q1 show ?case by auto
qed

lemma pop_cases:
  assumes "pop q = Some (x, q')"
  shows "(items q = x # items q' \<and> closed q' = closed q) \<or> (items q = [] \<and> closed q \<and> x = dflt \<and> q' = q)"
proof (cases "items q")
  case Nil
  with assms pop_wait [OF Nil] pop_end [OF Nil] show ?thesis by (cases "closed q") auto
next
  case (Cons y ys)
  from pop_item [OF this] Cons assms show ?thesis by auto
qed

end

interpretation lq: closable_queue lq_items is_close Push "Pop dflt" Close dflt for dflt
  by unfold_locales (auto simp: Push_def Pop_def Close_def)

section \<open>The logger\<close>

datatype log_level = MPRPC_INFO | MPRPC_ERROR

record mprpc_logger =
  log_level :: log_level
  lock_queue :: "string lock_queue"
  is_exit :: bool
  writer_done :: bool
  log_file :: "string list"

definition new_logger :: mprpc_logger where
  "new_logger = \<lparr>log_level = MPRPC_INFO, lock_queue = new_lock_queue, is_exit = False,
     writer_done = False, log_file = []\<rparr>"

definition SetLogLevel :: "log_level \<Rightarrow> mprpc_logger \<Rightarrow> mprpc_logger" where
  "SetLogLevel level l = l\<lparr>log_level := level\<rparr>"

definition Log :: "string \<Rightarrow> mprpc_logger \<Rightarrow> mprpc_logger" where
  "Log msg l = l\<lparr>lock_queue := Push msg (lock_queue l)\<rparr>"

text \<open>
  The two macros: \<open>text\<close> is what the caller's format prints and \<open>date\<close> the formatted time; both
  buffers hold 1023 characters and the terminator.
\<close>

definition log_line :: "log_level \<Rightarrow> string \<Rightarrow> string \<Rightarrow> string" where
  "log_line level date txt =
     (let log_buf = take 1023 txt;
          prefix = (case level of MPRPC_INFO \<Rightarrow> ''[INFO] '' | MPRPC_ERROR \<Rightarrow> ''[ERROR] '')
      in take 1023 (prefix @ date @ '' : '' @ log_buf))"

definition MPRPC_LOG :: "log_level \<Rightarrow> string \<Rightarrow> string \<Rightarrow> mprpc_logger \<Rightarrow> mprpc_logger" where
  "MPRPC_LOG level date txt l = Log (log_line level date txt) (SetLogLevel level l)"

text \<open>One pass of the writing thread's loop; \<^term>\<open>None\<close> is waiting in \<open>Pop\<close>.\<close>

definition FlushLog_step :: "mprpc_logger \<Rightarrow> mprpc_logger option" where
  "FlushLog_step l =
     (case Pop [] (lock_queue l) of
        None \<Rightarrow> None
      | Some (msg, q) \<Rightarrow>
          (let l1 = l\<lparr>lock_queue := q\<rparr> in
           if msg = [] then (if is_exit l1 then Some (l1\<lparr>writer_done := True\<rparr>) else Some l1)
           else Some (l1\<lparr>log_file := log_file l1 @ [msg]\<rparr>)))"

text \<open>The destructor before it joins the thread.\<close>

definition logger_exit :: "mprpc_logger \<Rightarrow> mprpc_logger" where
  "logger_exit l = (l\<lparr>is_exit := True\<rparr>)\<lparr>lock_queue := Close (lock_queue l)\<rparr>"

section \<open>Runs\<close>

datatype log_action = Act_log log_level string string | Act_flush | Act_exit

text \<open>Interleavings of logging threads, the writing thread and the destructor.\<close>

fun log_step :: "log_action \<Rightarrow> mprpc_logger \<Rightarrow> mprpc_logger option" where
  "log_step (Act_log level date txt) l = Some (MPRPC_LOG level date txt l)"
| "log_step Act_flush l = (if writer_done l then None else FlushLog_step l)"
| "log_step Act_exit l = Some (logger_exit l)"

fun log_run :: "log_action list \<Rightarrow> mprpc_logger \<Rightarrow> mprpc_logger option" where
  "log_run [] l = Some l"
| "log_run (a # acts) l = Option.bind (log_step a l) (log_run acts)"

text \<open>The lines logged before the destructor closed the queue.\<close>

fun logged :: "log_action list \<Rightarrow> string list" where
  "logged [] = []"
| "logged (Act_log level date txt # acts) = log_line level date txt # logged acts"
| "logged (Act_flush # acts) = logged acts"
| "logged (Act_exit # acts) = []"

lemma log_line_nonempty [simp]: "log_line level date txt \<noteq> []"
  by (simp add: log_line_def split: log_level.splits)

lemma nonempty_log_line [simp]: "[] \<noteq> log_line level date txt"
  using log_line_nonempty by metis

definition logger_inv :: "mprpc_logger \<Rightarrow> bool" where
  "logger_inv l \<longleftrightarrow> [] \<notin> set (lq_items (lock_queue l)) \<and> (is_close (lock_queue l) \<longleftrightarrow> is_exit l) \<and>
     (writer_done l \<longrightarrow> lq_items (lock_queue l) = [] \<and> is_exit l)"

lemma flush_cases:
  assumes "FlushLog_step l = Some l'" "logger_inv l"
  obtains msg where "msg \<noteq> []" "lq_items (lock_queue l) = msg # lq_items (lock_queue l')"
      "log_file l' = log_file l @ [msg]" "is_close (lock_queue l') = is_close (lock_queue l)"
      "is_exit l' = is_exit l" "writer_done l' = writer_done l"
  | "lq_items (lock_queue l) = []" "is_exit l" "l' = l\<lparr>writer_done := True\<rparr>"
proof -
  obtain msg q where p: "Pop [] (lock_queue l) = Some (msg, q)"
    using assms(1) by (auto simp: FlushLog_step_def split: option.splits)
  from lq.pop_cases [OF p] show thesis
  proof
    assume c: "lq_items (lock_queue l) = msg # lq_items q \<and> is_close q = is_close (lock_queue l)"
    then have "msg \<noteq> []" using assms(2) by (auto simp: logger_inv_def)
    with c p assms(1) show thesis by (intro that(1)) (auto simp: FlushLog_step_def)
  next
    assume c: "lq_items (lock_queue l) = [] \<and> is_close (lock_queue l) \<and> msg = [] \<and> q = lock_queue l"
    then have "is_exit l" using assms(2) by (simp add: logger_inv_def)
    with c p assms(1) show thesis by (intro that(2)) (auto simp: FlushLog_step_def)
  qed
qed

lemma flush_inv: "FlushLog_step l = Some l' \<Longrightarrow> logger_inv l \<Longrightarrow> logger_inv l'"
  by (erule flush_cases, assumption) (auto simp: logger_inv_def)

lemma log_step_inv:
  assumes "log_step a l = Some l'" "logger_inv l"
  shows "logger_inv l'"
proof (cases a)
  case Act_flush
  with assms show ?thesis by (auto intro: flush_inv split: if_splits)
qed (use assms in \<open>auto simp: logger_inv_def MPRPC_LOG_def Log_def SetLogLevel_def Push_def
    logger_exit_def Close_def\<close>)

lemma log_run_inv: "log_run acts l = Some l' \<Longrightarrow> logger_inv l \<Longrightarrow> logger_inv l'"
  by (induction acts arbitrary: l) (auto simp: bind_eq_Some_conv intro: log_step_inv)

lemma log_run_lines:
  "log_run acts l = Some l' \<Longrightarrow> logger_inv l \<Longrightarrow>
   log_file l' @ lq_items (lock_queue l') =
     log_file l @ lq_items (lock_queue l) @ (if is_exit l then [] else logged acts)"
proof (induction acts arbitrary: l)
  case Nil
  then show ?case by simp
next
  case (Cons a acts)
  obtain l1 where l1: "log_step a l = Some l1" "log_run acts l1 = Some l'"
    using Cons.prems(1) by (auto simp: bind_eq_Some_conv)
  have inv: "logger_inv l1" using l1(1) Cons.prems(2) by (rule log_step_inv)
  note IH = Cons.IH [OF l1(2) inv]
  show ?case
  proof (cases a)
    case (Act_log lv dt tx)
    with l1(1) IH Cons.prems(2) show ?thesis
      by (auto simp: MPRPC_LOG_def Log_def SetLogLevel_def Push_def logger_inv_def)
  next
    case Act_flush
    then have "FlushLog_step l = Some l1" using l1(1) by (simp split: if_splits)
    from this Cons.prems(2) show ?thesis by (rule flush_cases) (use IH Act_flush in auto)
  next
    case Act_exit
    with l1(1) IH show ?thesis by (auto simp: logger_exit_def Close_def)
  qed
qed

text \<open>After the close, the writing thread empties the queue and leaves its loop.\<close>

lemma flush_all:
  "logger_inv l \<Longrightarrow> is_exit l \<Longrightarrow> \<not> writer_done l \<Longrightarrow> n = length (lq_items (lock_queue l)) \<Longrightarrow>
   \<exists>l'. log_run (replicate (Suc n) Act_flush) l = Some l' \<and> writer_done l' \<and>
     lq_items (lock_queue l') = [] \<and> log_file l' = log_file l @ lq_items (lock_queue l)"
proof (induction n arbitrary: l)
  case 0
  then have "is_close (lock_queue l)" "lq_items (lock_queue l) = []" by (auto simp: logger_inv_def)
  with 0 show ?case by (simp add: FlushLog_step_def Pop_def Let_def)
next
  case (Suc n)
  obtain x xs where it: "lq_items (lock_queue l) = x # xs" using Suc.prems(4) by (cases "lq_items (lock_queue l)") auto
  obtain q where q: "Pop [] (lock_queue l) = Some (x, q)" "lq_items q = xs" "is_close q = is_close (lock_queue l)"
    using lq.pop_item [OF it] by blast
  have "x \<noteq> []" using Suc.prems(1) it by (auto simp: logger_inv_def)
  let ?l = "l\<lparr>lock_queue := q, log_file := log_file l @ [x]\<rparr>"
  have st: "log_step Act_flush l = Some ?l"
    using Suc.prems(3) \<open>x \<noteq> []\<close> by (simp add: FlushLog_step_def q(1) Let_def)
  have inv: "logger_inv ?l" using log_step_inv [OF st Suc.prems(1)] .
  have "\<exists>l'. log_run (replicate (Suc n) Act_flush) ?l = Some l' \<and> writer_done l' \<and>
     lq_items (lock_queue l') = [] \<and> log_file l' = log_file ?l @ lq_items (lock_queue ?l)"
    by (rule Suc.IH [OF inv]) (use Suc.prems it q(2) in auto)
  with st it q(2) show ?case by simp
qed

section \<open>Properties\<close>

text \<open>
  Property (C31). No log line is lost, repeated or reordered: in every interleaving of logging
  threads, the writing thread and the destructor, the lines in the file followed by those still
  queued are exactly the lines logged before the queue was closed, in order; and the writing
  thread has ended only if the queue is empty.
\<close>

theorem log_lines_in_order:
  assumes "log_run acts new_logger = Some l"
  shows "log_file l @ lq_items (lock_queue l) = logged acts \<and>
    (writer_done l \<longrightarrow> lq_items (lock_queue l) = [])"
proof -
  have inv: "logger_inv new_logger"
    by (simp add: logger_inv_def new_logger_def new_lock_queue_def)
  from log_run_lines [OF assms inv] log_run_inv [OF assms inv] show ?thesis
    by (simp add: new_logger_def new_lock_queue_def logger_inv_def)
qed

lemma log_lines_in_order_witness:
  "\<exists>l. log_run [Act_log MPRPC_INFO ''d'' ''x'', Act_flush, Act_log MPRPC_ERROR ''d'' ''y'', Act_exit]
      new_logger = Some l \<and> log_file l @ lq_items (lock_queue l) = [''[INFO] d : x'', ''[ERROR] d : y'']"
proof -
  let ?acts = "[Act_log MPRPC_INFO ''d'' ''x'', Act_flush, Act_log MPRPC_ERROR ''d'' ''y'', Act_exit]"
  have "\<exists>l. log_run ?acts new_logger = Some l"
    by (simp add: MPRPC_LOG_def Log_def SetLogLevel_def Push_def FlushLog_step_def Pop_def
        new_logger_def new_lock_queue_def Let_def log_line_def)
  then obtain l where l: "log_run ?acts new_logger = Some l" ..
  moreover have "logged ?acts = [''[INFO] d : x'', ''[ERROR] d : y'']" by (simp add: log_line_def)
  ultimately show ?thesis using log_lines_in_order [OF l] by metis
qed

text \<open>
  The destructor's join returns with everything written: from every reachable
  state in which the destructor has closed the queue and the writing thread is still running,
  the writing thread alone, in as many passes as there are lines left and one more, writes them
  all and ends.
\<close>

theorem logger_exit_flushes:
  assumes "log_run acts new_logger = Some l" and "is_exit l" and "\<not> writer_done l"
  shows "\<exists>l'. log_run (replicate (Suc (length (lq_items (lock_queue l)))) Act_flush) l = Some l' \<and>
    writer_done l' \<and> log_file l' = logged acts"
proof -
  have inv0: "logger_inv new_logger"
    by (simp add: logger_inv_def new_logger_def new_lock_queue_def)
  have inv: "logger_inv l" using log_run_inv [OF assms(1) inv0] .
  have "log_file l @ lq_items (lock_queue l) = logged acts"
    using log_run_lines [OF assms(1) inv0] by (simp add: new_logger_def new_lock_queue_def)
  with flush_all [OF inv assms(2,3) refl] show ?thesis by auto
qed

lemma logger_exit_flushes_witness:
  "\<exists>l l'. log_run [Act_log MPRPC_INFO ''d'' ''x'', Act_exit] new_logger = Some l \<and>
     log_run [Act_flush, Act_flush] l = Some l' \<and> writer_done l' \<and> log_file l' = [''[INFO] d : x'']"
proof -
  let ?acts = "[Act_log MPRPC_INFO ''d'' ''x'', Act_exit]"
  obtain l where l: "log_run ?acts new_logger = Some l" "is_exit l" "\<not> writer_done l"
      "length (lq_items (lock_queue l)) = 1"
    by (simp add: MPRPC_LOG_def Log_def SetLogLevel_def Push_def logger_exit_def Close_def
        new_logger_def new_lock_queue_def Let_def log_line_def)
  with logger_exit_flushes [OF l(1-3)] show ?thesis by (auto simp: log_line_def numeral_2_eq_2)
qed

text \<open>
  An empty message would end the log early: the writing thread takes an empty
  message for the end of the queue, so when the logger is closing, the lines queued behind an
  empty one are never written. (The log macros never produce an empty line.)
\<close>

theorem empty_message_ends_log:
  "\<exists>l. FlushLog_step (logger_exit (Log msg (Log [] new_logger))) = Some l \<and>
     writer_done l \<and> log_file l = [] \<and> lq_items (lock_queue l) = [msg]"
  by (simp add: FlushLog_step_def logger_exit_def Log_def Push_def Pop_def Close_def new_logger_def
      new_lock_queue_def Let_def)

end
