(* ===== verification/Spec2Isabelle.thy ===== *)
theory Spec2Isabelle
  imports ChatConversation ChatOverTcp ServerMains RpcOverTcp RpcClosures ZkSession NetSocket NetLifecycle
    NetConnRaces NetEventLoop RpcLogger
begin

text \<open>
  A chat system and the two libraries under it: \<^verbatim>\<open>mymuduo-main\<close>, a reactor network library,
  \<^verbatim>\<open>mprpc-main\<close>, remote procedure calls over protobuf and ZooKeeper, and \<^verbatim>\<open>chat-main\<close>, the chat
  server and its client. The network library delivers bytes from and to connections; the RPC
  provider and the chat server are its callbacks; the RPC client and the chat client use plain
  sockets. Every definition follows the function of the same or a similar name; paths are under
  \<^verbatim>\<open>src/\<close>.

  \<^bold>\<open>Shared.\<close> \<open>Prelude\<close>: bytes, words, the result monad, \<^verbatim>\<open>size_t\<close> arithmetic, \<^verbatim>\<open>std::copy\<close>, hash map
  insert and erase. \<open>CxxText\<close>: \<^verbatim>\<open>std::to_string\<close>, \<^verbatim>\<open>stoi\<close>, \<^verbatim>\<open>atoi\<close>, the searches of \<^verbatim>\<open>std::string\<close>,
  \<^verbatim>\<open>getline\<close>, C strings. \<open>FrameStream\<close>: the locale \<open>frame_stream\<close> of a step function that takes one
  frame off a stream, and why its loop does not see packet boundaries.

  \<^bold>\<open>Network library\<close> (\<^verbatim>\<open>mymuduo-main/src\<close>).
  \<open>NetBuffer\<close> (\<^verbatim>\<open>Buffer.cpp\<close>): the vector with its two indices, refined to the bytes between them;
  the locale \<open>byte_queue\<close> is what its clients use.
  \<open>EventPoll\<close> (\<^verbatim>\<open>Channel.cpp\<close>, \<^verbatim>\<open>EPollPoller.cpp\<close>): a channel's interest and index, the poller's channel
  map and the kernel's interest list, and their agreement over any sequence of requests.
  \<open>NetEventLoop\<close> (\<^verbatim>\<open>EventLoop.cpp\<close>): the loop thread and the callers of other threads as one step
  function \<open>loop_step\<close>; no wakeup is lost but that of a function the loop's own thread queues
  outside \<open>loop()\<close>, and what is queued is called within a bounded number of steps unless the loop
  leaves first.
  \<open>NetConnection\<close> (\<^verbatim>\<open>TcpConnection.cpp\<close>): the handlers of a connection on its state, its buffers and the
  trace of what it did; the output is the accepted input in order and the half-close comes last.
  \<open>NetThreads\<close> (\<^verbatim>\<open>Thread.cpp\<close>, \<^verbatim>\<open>EventLoopThread.cpp\<close>, \<^verbatim>\<open>EventLoopThreadPool.cpp\<close>), \<open>NetServer\<close>
  (\<^verbatim>\<open>TcpServer.cpp\<close>, \<^verbatim>\<open>Acceptor.cpp\<close>, \<^verbatim>\<open>InetAddress.cpp\<close>): start, hand-over and join of the loop threads, and the
  connection map. \<open>NetReactor\<close> (the body of \<^verbatim>\<open>EventLoop::loop\<close>): one loop thread with its poller, the
  channels and the connections as one state; what a connection asks of its channel reaches the
  poller, so unsent output is watched and drained. \<open>NetMoves\<close>, \<open>NetServerLoops\<close>, \<open>NetLifecycle\<close>: the server
  with all its loop threads, from the acceptor over establishing, closing and removing to destroying a
  connection, each function queued to the loop the code queues it to; no connection is lost and none
  stays behind. \<open>NetConnRaces\<close>: threads that call \<open>send\<close> and \<open>shutdown\<close> of a connection while it closes, the
  test of its state and the queueing as separate steps; when the late functions are safe and two runs
  in which they are not. \<open>NetLog\<close> (\<^verbatim>\<open>Logger.cpp\<close>, \<^verbatim>\<open>Timestamp.cpp\<close>) and \<open>NetSocket\<close>
  (\<^verbatim>\<open>Socket.cpp\<close>, the constructors of \<^verbatim>\<open>Acceptor\<close> and \<^verbatim>\<open>EventLoop\<close>): system calls whose failure is a
  log line, and what a server makes of them. \<open>NetApp\<close>: the locale \<open>stream_app\<close> of callbacks that answer
  the bytes they are given, proved once for whole runs of a connection; its instances are \<open>EchoServer\<close>
  (\<^verbatim>\<open>examples/echo_server.cpp\<close>) and the RPC provider in \<open>RpcOverTcp\<close>.

  \<^bold>\<open>RPC\<close> (\<^verbatim>\<open>mprpc-main\<close>).
  \<open>PbRuntime\<close>: the protobuf runtime the generated code calls, a record of functions with the laws it
  documents, and the locale \<open>wire_message\<close> of a generated message; \<open>PbWire\<close> is a concrete runtime for the
  witnesses. \<open>RpcHeader\<close> (\<^verbatim>\<open>proto/mprpc.pb.cc\<close>) and \<open>UserMessages\<close> (\<^verbatim>\<open>example/user.pb.cc\<close>): the generated
  messages. \<open>RpcConfig\<close> (\<^verbatim>\<open>mprpcconfig.cc\<close>, \<^verbatim>\<open>mprpcapplication.cc\<close>, \<^verbatim>\<open>mprpccontroller.cc\<close>), \<open>RpcProvider\<close>
  (\<^verbatim>\<open>rpcprovider.cc\<close>: one pass of the request loop is \<open>om_iteration\<close>), \<open>ZkClient\<close> (\<^verbatim>\<open>zkclient.cc\<close> and the
  registration in \<^verbatim>\<open>rpcprovider.cc\<close>), \<open>RpcChannel\<close> (\<^verbatim>\<open>mprpcchannel.cc\<close>), \<open>RpcLogger\<close> (\<^verbatim>\<open>logger.cc\<close>,
  \<^verbatim>\<open>lockqueue.h\<close>). \<open>RpcEndToEnd\<close> joins the client's frames to the provider's loop and the client's look-up to
  the provider's registration; \<open>UserService\<close> (\<^verbatim>\<open>example/callee\<close>, \<^verbatim>\<open>example/caller\<close>) is a service on top.
  \<open>RpcOverTcp\<close> puts the provider on the network library's connections: requests come in through
  \<open>handleRead\<close> and the input buffer, responses leave through \<open>send\<close> and the output buffer, and a call that
  makes its way there and back returns what the service answered. \<open>RpcClosures\<close> is the provider's loop
  with the objects of each call (request, response, closure) in a store and services that answer
  later: all are released, each once. \<open>ZkSession\<close>: the ZooKeeper client object from constructor to
  destructor, with the semaphore of \<open>Start\<close> that the open handle keeps a pointer to.

  \<^bold>\<open>Chat\<close> (\<^verbatim>\<open>chat-main\<close>).
  \<open>ChatDb\<close> (\<^verbatim>\<open>Db.cpp\<close>): actions on a world with a fault as a value, the MySQL client library as a record of
  functions, the 1024-byte statement buffers. \<open>ChatModels\<close> (\<^verbatim>\<open>User.cpp\<close>, \<^verbatim>\<open>Group.cpp\<close>, the model classes): every
  statement as the string the code prints. \<open>ChatTables\<close>: the tables these statements mean and the contract of
  each model operation on them. \<open>ChatService\<close> (\<^verbatim>\<open>ChatService.cpp\<close>, \<^verbatim>\<open>ChatServer.cpp\<close>): the handlers;
  \<open>ChatJson\<close>: what is relied on of the vendored json library's \<^verbatim>\<open>dump\<close>, which throws exactly on texts that
  are not UTF-8;
  \<open>ChatHandlers\<close>: what each does to the tables, the connection map and the outputs. \<open>ChatSessions\<close>: the
  invariant that users online are those with a connection, in the locale \<open>chat_backend\<close>;
  \<open>ChatMemoryDb\<close>: a database that reads the printed statements, on which the locale is interpreted and the
  witnesses run. \<open>ChatProperties\<close>: routing, login, offline messages. \<open>ChatRedis\<close> (\<^verbatim>\<open>Redis.cpp\<close>): the two
  Redis contexts, the listening thread, delivery between two servers. \<open>ChatClient\<close>
  (\<^verbatim>\<open>client/ChatClient.cpp\<close>, \<^verbatim>\<open>client/main.cpp\<close>), \<open>ChatClientRuns\<close> (what each step keeps) and
  \<open>ChatConversation\<close> (whole runs of the client, and client and server together). \<open>ChatOverTcp\<close> puts the
  service on connections of several loop threads: every text sent to a connection is accepted once, in
  order per sending side. \<open>ServerMains\<close>: the server programs and \<^verbatim>\<open>RpcProvider::Run\<close>.

  \<^bold>\<open>Bounds and fuel.\<close> \<open>OnMessage\<close> gives its loop one unit of fuel for every readable byte and one more;
  each pass that goes on consumes at least four bytes, so it never runs out (\<open>OnMessage_returns\<close>, for
  buffers whose vector is shorter than \<open>2\<^sup>32\<close> bytes).
  The parse loops of the generated messages have the length of their input as fuel, and every field
  consumes its tag. The client's menu and its command loop may run for ever, so they take the number of
  rounds as an argument and say whether they ended; \<open>menu_stops_unless_input_fails\<close> bounds the rounds by the
  input, and \<open>failed_input_spins\<close> shows that without that hypothesis no number is enough. The loop that
  writes a Redis command is a \<^verbatim>\<open>partial_function\<close>. \<^verbatim>\<open>size_t\<close> is 64 bits wide and the sizes on the
  wire are 32-bit words, with their wrap-around.

  \<^bold>\<open>Interleaving.\<close> The event loop, the loop threads, the loggers and the lock queue are step functions over
  explicit schedules, and so are the threads of \<open>NetConnRaces\<close>; in \<open>NetReactor\<close>, \<open>NetServerLoops\<close> and \<open>ChatOverTcp\<close> the inputs come in any order. The handlers of the chat server run one after another; that the program runs them on
  four threads without a lock is a finding and not part of the model.

  \<^bold>\<open>Not modelled.\<close> The kernel, MySQL, hiredis, ZooKeeper, the protobuf runtime and the vendored json library
  are parameters; what the proofs use of them are named hypotheses (\<open>hiredis_ok\<close>, \<open>zk_ok\<close>, \<open>wire_ok\<close>, \<open>dumps_ok\<close>, the
  contract of the tables, \<open>epoll_ok\<close>, \<open>ip_ok\<close>), each with an instance. They state what these parts do, failures
  included: ZooKeeper creates a node only below an existing parent that is not ephemeral, \<^verbatim>\<open>dump\<close> throws on
  a text that is not UTF-8, the statements of the chat server mean what they say only while the texts
  printed into them have no quote and no backslash. Left out are the text of most log
  lines, prompts printed before an input, the getters of the network library, and of the generated code the
  descriptors, arenas and accessors that only hand out pointers.
\<close>

end
